(* ===== verification/Prelude.thy ===== *)
theory Prelude
  imports Main "HOL-Library.Word" "HOL-Library.Signed_Division"
begin

text \<open>
  Shared material of the development: the machine types of the Go source, big-endian
  byte encodings, the error-carrying state monad in which the ledger's transactions are
  written, lookup laws for overlays of maps, and sums over finite maps.
\<close>

unbundle bit_operations_syntax

named_theorems model_simps "definitions unfolded when a model function is executed"
named_theorems view_simps "what a lookup sees after a write"

section \<open>Machine types\<close>

text \<open>Go's fixed-size arrays \<open>Hash\<close> and \<open>Address\<close> (32 bytes) are 256-bit words read
  big-endian; the conversions \<open>types.Address(h)\<close> and \<open>addr.ToHash()\<close> of the source are
  then the identity.\<close>

type_synonym byte = "8 word"
type_synonym bytes = "byte list"
type_synonym u64 = "64 word"
type_synonym hash = "256 word"
type_synonym address = "256 word"

abbreviation ZeroHash :: hash where "ZeroHash \<equiv> 0"
abbreviation ZeroAddress :: address where "ZeroAddress \<equiv> 0"

section \<open>Big-endian bytes of a word\<close>

definition be_bytes :: "nat \<Rightarrow> 'a::len word \<Rightarrow> bytes" where
  "be_bytes n w = map (\<lambda>i. ucast (drop_bit (8 * (n - 1 - i)) w)) [0..<n]"

lemma length_be_bytes [simp]: "length (be_bytes n w) = n"
  by (simp add: be_bytes_def)

lemma be_bytes_nth: "i < n \<Longrightarrow> be_bytes n w ! i = ucast (drop_bit (8 * (n - 1 - i)) w)"
  by (simp add: be_bytes_def)

text \<open>The encoding loses nothing once the bytes cover the width of the word.\<close>

lemma be_bytes_inj:
  fixes v w :: "'a::len word"
  assumes "LENGTH('a) \<le> 8 * n" and "be_bytes n v = be_bytes n w"
  shows "v = w"
proof (rule bit_word_eqI)
  fix k assume k: "k < LENGTH('a)"
  define i where "i = n - 1 - k div 8"
  have "k div 8 < n" using k assms(1) by auto
  then have i: "i < n" and i2: "n - 1 - i = k div 8" by (auto simp: i_def)
  have "be_bytes n v ! i = be_bytes n w ! i" using assms(2) by simp
  then have "(ucast (drop_bit (8 * (k div 8)) v) :: byte) = ucast (drop_bit (8 * (k div 8)) w)"
    using i i2 by (simp add: be_bytes_nth)
  then have "bit (ucast (drop_bit (8 * (k div 8)) v) :: byte) (k mod 8) =
             bit (ucast (drop_bit (8 * (k div 8)) w) :: byte) (k mod 8)" by simp
  moreover have "k mod 8 < 8" and "8 * (k div 8) + k mod 8 = k" by simp_all
  ultimately have "bit v (8 * (k div 8) + k mod 8) = bit w (8 * (k div 8) + k mod 8)"
    by (simp only: bit_ucast_iff bit_drop_bit_eq o_def) simp
  then show "bit v k = bit w k" by simp
qed

section \<open>Results with errors, and state that survives an error\<close>

text \<open>A Go function \<open>(T, error)\<close> is a value of type \<open>error + T\<close>. A Go function that also
  writes to the transaction in hand is a function from the transaction's state to such a
  value and the state it leaves behind, on failure too.\<close>

type_synonym ('e, 's, 'a) stm = "'s \<Rightarrow> ('e + 'a) \<times> 's"

definition returnM :: "'a \<Rightarrow> ('e, 's, 'a) stm" where
  "returnM x = (\<lambda>s. (Inr x, s))"

definition throwM :: "'e \<Rightarrow> ('e, 's, 'a) stm" where
  "throwM e = (\<lambda>s. (Inl e, s))"

definition bindM :: "('e, 's, 'a) stm \<Rightarrow> ('a \<Rightarrow> ('e, 's, 'b) stm) \<Rightarrow> ('e, 's, 'b) stm" where
  "bindM m f = (\<lambda>s. case m s of (Inl e, s') \<Rightarrow> (Inl e, s') | (Inr x, s') \<Rightarrow> f x s')"

definition modifyM :: "('s \<Rightarrow> 's) \<Rightarrow> ('e, 's, unit) stm" where
  "modifyM f = (\<lambda>s. (Inr (), f s))"

definition readM :: "('s \<Rightarrow> 'e + 'a) \<Rightarrow> ('e, 's, 'a) stm" where
  "readM f = (\<lambda>s. (f s, s))"

definition liftM :: "'e + 'a \<Rightarrow> ('e, 's, 'a) stm" where
  "liftM r = (\<lambda>s. (r, s))"

fun mapME :: "('a \<Rightarrow> ('e, 's, unit) stm) \<Rightarrow> 'a list \<Rightarrow> ('e, 's, unit) stm" where
  "mapME f [] = returnM ()"
| "mapME f (x # xs) = bindM (f x) (\<lambda>_. mapME f xs)"

lemmas stm_defs = returnM_def throwM_def bindM_def modifyM_def readM_def liftM_def

lemma returnM_app [simp]: "returnM x s = (Inr x, s)" by (simp add: returnM_def)
lemma throwM_app [simp]: "throwM e s = (Inl e, s)" by (simp add: throwM_def)
lemma modifyM_app [simp]: "modifyM f s = (Inr (), f s)" by (simp add: modifyM_def)
lemma readM_app [simp]: "readM f s = (f s, s)" by (simp add: readM_def)
lemma liftM_app [simp]: "liftM r s = (r, s)" by (simp add: liftM_def)

lemma bindM_return [simp]: "bindM (returnM x) f = f x"
  by (simp add: bindM_def returnM_def)
lemma bindM_throw [simp]: "bindM (throwM e) f = throwM e"
  by (simp add: bindM_def throwM_def)
lemma bindM_assoc [simp]: "bindM (bindM m f) g = bindM m (\<lambda>x. bindM (f x) g)"
  by (auto simp: bindM_def fun_eq_iff split: prod.splits sum.splits)
lemma bindM_modify [simp]: "bindM (modifyM g) f s = f () (g s)"
  by (simp add: bindM_def)
lemma bindM_Inr: "m s = (Inr x, s') \<Longrightarrow> bindM m f s = f x s'"
  by (simp add: bindM_def)
lemma bindM_Inl: "m s = (Inl e, s') \<Longrightarrow> bindM m f s = (Inl e, s')"
  by (simp add: bindM_def)

lemma bindM_InrE:
  assumes "bindM m f s = (Inr y, t)"
  obtains x s' where "m s = (Inr x, s')" and "f x s' = (Inr y, t)"
  using assms by (auto simp: bindM_def split: prod.splits sum.splits)

lemma bindM_lift_Inr [simp]: "bindM (liftM (Inr x)) f = f x"
  by (simp add: bindM_def liftM_def)
lemma bindM_lift_Inl [simp]: "bindM (liftM (Inl e)) f = throwM e"
  by (simp add: bindM_def liftM_def throwM_def)

section \<open>Lists\<close>

lemma find_snoc:
  "find P (xs @ [x]) = (case find P xs of None \<Rightarrow> if P x then Some x else None | Some y \<Rightarrow> Some y)"
  by (induction xs) auto

section \<open>Overlays\<close>

text \<open>A write cache holds \<open>Some v\<close> for a stored value and \<open>None\<close> for the deletion tag; a
  key it does not mention shows what is below.\<close>

type_synonym ('k, 'v) overlay = "'k \<rightharpoonup> 'v option"

definition over :: "('k, 'v) overlay \<Rightarrow> ('k \<rightharpoonup> 'v) \<Rightarrow> ('k \<rightharpoonup> 'v)" where
  "over c m = (\<lambda>k. case c k of Some r \<Rightarrow> r | None \<Rightarrow> m k)"

lemma over_empty [simp]: "over Map.empty m = m"
  by (simp add: over_def)

lemma over_upd [simp]: "over (c(k \<mapsto> r)) m = (over c m)(k := r)"
  by (auto simp: over_def)

lemma over_app: "over c m k = (case c k of Some r \<Rightarrow> r | None \<Rightarrow> m k)"
  by (simp add: over_def)

lemma over_over: "over c (over d m) = over (d ++ c) m"
  by (auto simp: over_def map_add_def split: option.splits)

section \<open>Sums over finite maps\<close>

text \<open>The weight of a map is the sum of a measure over its entries; a single update moves it
  by the difference at that key.\<close>

definition msum :: "('k \<Rightarrow> 'v \<Rightarrow> int) \<Rightarrow> ('k \<rightharpoonup> 'v) \<Rightarrow> int" where
  "msum f m = (\<Sum>k \<in> dom m. f k (the (m k)))"

definition at :: "('k \<Rightarrow> 'v \<Rightarrow> int) \<Rightarrow> 'k \<Rightarrow> 'v option \<Rightarrow> int" where
  "at f k r = (case r of None \<Rightarrow> 0 | Some v \<Rightarrow> f k v)"

lemma at_simps [simp]: "at f k None = 0" "at f k (Some v) = f k v"
  by (simp_all add: at_def)

lemma msum_empty [simp]: "msum f Map.empty = 0"
  by (simp add: msum_def)

lemma finite_dom_upd [simp]:
  assumes "finite (dom m)"
  shows "finite (dom (m(k := r)))"
proof (rule finite_subset)
  show "dom (m(k := r)) \<subseteq> insert k (dom m)" by auto
  show "finite (insert k (dom m))" using assms by simp
qed

lemma msum_remove:
  assumes "finite (dom m)"
  shows "msum f m = msum f (m(k := None)) + at f k (m k)"
proof (cases "m k")
  case None
  then have "m(k := None) = m" by auto
  with None show ?thesis by simp
next
  case (Some v)
  then have k: "k \<in> dom m" by auto
  have "msum f (m(k := None)) = (\<Sum>j \<in> dom m - {k}. f j (the (m j)))"
    unfolding msum_def by (rule sum.cong) auto
  moreover have "msum f m = f k (the (m k)) + (\<Sum>j \<in> dom m - {k}. f j (the (m j)))"
    unfolding msum_def by (rule sum.remove [OF assms k])
  ultimately show ?thesis using Some by (simp del: fun_upd_apply)
qed

lemma msum_upd:
  assumes "finite (dom m)"
  shows "msum f (m(k := r)) = msum f m - at f k (m k) + at f k r"
proof -
  have "msum f (m(k := r)) = msum f ((m(k := r))(k := None)) + at f k ((m(k := r)) k)"
    using assms by (intro msum_remove) simp
  also have "(m(k := r))(k := None) = m(k := None)" by simp
  finally show ?thesis using msum_remove [OF assms, of f k] by (simp del: fun_upd_apply) (simp add: fun_upd_apply)
qed

lemma msum_nonneg:
  assumes "\<And>k v. m k = Some v \<Longrightarrow> 0 \<le> f k v"
  shows "0 \<le> msum f m"
  unfolding msum_def
proof (rule sum_nonneg)
  fix k assume "k \<in> dom m"
  then obtain v where "m k = Some v" by auto
  with assms show "0 \<le> f k (the (m k))" by simp
qed

text \<open>Every entry is at most the whole, when no entry is negative.\<close>

lemma msum_ge_entry:
  assumes "finite (dom m)" and "\<And>k v. m k = Some v \<Longrightarrow> 0 \<le> f k v" and "m k = Some v"
  shows "f k v \<le> msum f m"
proof -
  have "0 \<le> msum f (m(k := None))"
  proof (rule msum_nonneg)
    show "0 \<le> f i u" if "(m(k := None)) i = Some u" for i u
      using that assms(2) by (auto split: if_splits)
  qed
  with msum_remove [OF assms(1), of f k] assms(3) show ?thesis by simp
qed

lemma msum_ge_two:
  assumes "finite (dom m)" and "\<And>k v. m k = Some v \<Longrightarrow> 0 \<le> f k v"
    and "m k = Some v" and "m j = Some w" and "j \<noteq> k"
  shows "f k v + f j w \<le> msum f m"
proof -
  have "f j w \<le> msum f (m(k := None))"
  proof (rule msum_ge_entry)
    show "finite (dom (m(k := None)))" using assms(1) by (rule finite_dom_upd)
    show "0 \<le> f i u" if "(m(k := None)) i = Some u" for i u
      using that assms(2) by (auto split: if_splits)
    show "(m(k := None)) j = Some w" using assms(4,5) by simp
  qed
  with msum_remove [OF assms(1), of f k] assms(3) show ?thesis by simp
qed

end
