(* ===== verification/Balance.thy ===== *)
theory Balance
  imports Prelude
begin

text \<open>
  Token amounts: \<open>common/types/balance.go\<close> over the checked 64-bit arithmetic of
  \<open>common/util/math_integer.go\<close>. A \<open>Balance\<close> is a \<open>big.Int\<close>, here an \<open>int\<close>; its
  addition, subtraction and multiplication go through \<open>Uint64()\<close>, the low 64 bits of the absolute value, and
  answer zero when the 64-bit operation overflows. A field of type \<open>Balance\<close> whose pointer
  the code tests for nil is an \<open>int option\<close>.
\<close>

section \<open>Checked 64-bit arithmetic\<close>

abbreviation MaxUint64 :: u64 where "MaxUint64 \<equiv> - 1"

definition SafeMul :: "u64 \<Rightarrow> u64 \<Rightarrow> u64 \<times> bool" where
  "SafeMul x y = (if x = 0 \<or> y = 0 then (0, False) else (x * y, y > MaxUint64 div x))"

definition SafeAdd :: "u64 \<Rightarrow> u64 \<Rightarrow> u64 \<times> bool" where
  "SafeAdd x y = (x + y, y > MaxUint64 - x)"

definition SafeSub :: "u64 \<Rightarrow> u64 \<Rightarrow> u64 \<times> bool" where
  "SafeSub x y = (x - y, x < y)"

definition go_Min :: "u64 \<Rightarrow> u64 \<Rightarrow> u64" where
  "go_Min x y = (if x < y then x else y)"

definition go_Max :: "u64 \<Rightarrow> u64 \<Rightarrow> u64" where
  "go_Max x y = (if x > y then x else y)"

lemma unat_MaxUint64: "unat (MaxUint64 :: u64) = 2 ^ 64 - 1"
  by (simp add: unsigned_minus_1_eq_mask mask_eq_exp_minus_1)

lemma SafeAdd_overflow: "snd (SafeAdd x y) \<longleftrightarrow> 2 ^ 64 \<le> unat x + unat y"
proof -
  have "unat (MaxUint64 - x) = 2 ^ 64 - 1 - unat x"
    by (subst unat_sub) (auto simp: unat_MaxUint64 word_order.extremum)
  moreover have "unat x < 2 ^ 64" using unsigned_less [of x, where 'a = nat] by simp
  ultimately show ?thesis by (auto simp: SafeAdd_def word_less_nat_alt)
qed

lemma SafeAdd_value: "\<not> snd (SafeAdd x y) \<Longrightarrow> uint (fst (SafeAdd x y)) = uint x + uint y"
  unfolding SafeAdd_overflow
  by (simp add: SafeAdd_def uint_word_ariths unat_eq_nat_uint nat_add_distrib [symmetric]
      del: nat_uint_eq)

lemma SafeSub_value: "\<not> snd (SafeSub x y) \<Longrightarrow> uint (fst (SafeSub x y)) = uint x - uint y"
  by (simp add: SafeSub_def not_less word_le_def iffD1 [OF uint_sub_lem])

lemma SafeMul_overflow: "snd (SafeMul x y) \<longleftrightarrow> 2 ^ 64 \<le> unat x * unat y"
proof (cases "x = 0 \<or> y = 0")
  case False
  then have x: "0 < unat x" and y: "0 < unat y" by (auto simp: unat_gt_0)
  have "snd (SafeMul x y) \<longleftrightarrow> (2 ^ 64 - 1) div unat x < unat y"
    using False by (simp add: SafeMul_def word_less_nat_alt unat_div_distrib unat_MaxUint64)
  also have "\<dots> \<longleftrightarrow> 2 ^ 64 - 1 < unat x * unat y"
    using x by (metis div_less_iff_less_mult mult.commute)
  finally show ?thesis by auto
qed (auto simp: SafeMul_def)

section \<open>Balances\<close>

datatype BalanceComp = BalanceCompEqual | BalanceCompBigger | BalanceCompSmaller

abbreviation ZeroBalance :: int where "ZeroBalance \<equiv> 0"

text \<open>\<open>big.Int.Uint64\<close> gives the low 64 bits of the absolute value; \<open>big.Int.Int64\<close> gives them with the
  sign of the number, which is its two's complement.\<close>

definition big_Uint64 :: "int \<Rightarrow> u64" where
  "big_Uint64 b = of_int \<bar>b\<bar>"

definition big_Int64 :: "int \<Rightarrow> int" where
  "big_Int64 b = sint (of_int b :: u64)"

definition Balance_Add :: "int \<Rightarrow> int \<Rightarrow> int" where
  "Balance_Add b n = (case SafeAdd (big_Uint64 b) (big_Uint64 n) of
     (u, i) \<Rightarrow> if \<not> i then uint u else ZeroBalance)"

definition Balance_Sub :: "int \<Rightarrow> int \<Rightarrow> int" where
  "Balance_Sub b n = (case SafeSub (big_Uint64 b) (big_Uint64 n) of
     (u, i) \<Rightarrow> if \<not> i then uint u else ZeroBalance)"

definition Balance_Mul :: "int \<Rightarrow> int \<Rightarrow> int" where
  "Balance_Mul b n = (case SafeMul (big_Uint64 b) (of_int n) of
     (u, i) \<Rightarrow> if \<not> i then uint u else ZeroBalance)"

text \<open>\<open>Div\<close> divides 64-bit signed integers, rounding towards zero; the second component tells
  whether the call returned its error.\<close>

definition Balance_Div :: "int \<Rightarrow> int \<Rightarrow> int \<times> bool" where
  "Balance_Div b n =
     (if n = 0 then (ZeroBalance, True)
      else (sint (of_int (big_Int64 b sdiv n) :: u64), False))"

definition Balance_Compare :: "int \<Rightarrow> int \<Rightarrow> BalanceComp" where
  "Balance_Compare b n =
     (if b > n then BalanceCompBigger else if b < n then BalanceCompSmaller else BalanceCompEqual)"

definition Balance_Equal :: "int option \<Rightarrow> int option \<Rightarrow> bool" where
  "Balance_Equal b b2 = (case (b, b2) of (Some x, Some y) \<Rightarrow> x = y | _ \<Rightarrow> False)"

definition Balance_IsZero :: "int option \<Rightarrow> bool" where
  "Balance_IsZero b = Balance_Equal b (Some ZeroBalance)"

text \<open>\<open>big.Int.Bytes\<close>: the absolute value, big-endian, without leading zeros.\<close>

fun nat_bytes :: "nat \<Rightarrow> bytes" where
  "nat_bytes n = (if n = 0 then [] else nat_bytes (n div 256) @ [of_nat (n mod 256)])"

declare nat_bytes.simps [simp del]

definition Balance_Bytes :: "int option \<Rightarrow> bytes" where
  "Balance_Bytes b = (case b of None \<Rightarrow> nat_bytes 0 | Some x \<Rightarrow> nat_bytes (nat \<bar>x\<bar>))"

definition bytes_nat :: "bytes \<Rightarrow> nat" where
  "bytes_nat bs = foldl (\<lambda>a b. a * 256 + unat b) 0 bs"

definition BytesToBalance :: "bytes \<Rightarrow> int" where
  "BytesToBalance bs = int (bytes_nat bs)"

section \<open>Laws\<close>

abbreviation fits64 :: "int \<Rightarrow> bool" where
  "fits64 b \<equiv> 0 \<le> b \<and> b < 2 ^ 64"

lemma unat_big_Uint64 [simp]: "fits64 b \<Longrightarrow> unat (big_Uint64 b) = nat b"
  by (simp add: big_Uint64_def unat_eq_nat_uint unsigned_of_int take_bit_int_eq_self)

lemma uint_big_Uint64 [simp]: "fits64 b \<Longrightarrow> uint (big_Uint64 b) = b"
  by (simp add: big_Uint64_def unsigned_of_int take_bit_int_eq_self)

lemma Balance_Add_exact:
  assumes "fits64 a" and "fits64 b"
  shows "Balance_Add a b = (if a + b < 2 ^ 64 then a + b else 0)"
proof -
  let ?r = "SafeAdd (big_Uint64 a) (big_Uint64 b)"
  have ov: "snd ?r \<longleftrightarrow> \<not> a + b < 2 ^ 64"
    using assms unfolding SafeAdd_overflow by simp linarith
  show ?thesis
  proof (cases "snd ?r")
    case True
    with ov show ?thesis by (cases ?r) (simp add: Balance_Add_def)
  next
    case False
    with SafeAdd_value [OF False] assms ov show ?thesis
      by (auto simp: Balance_Add_def split: prod.split)
  qed
qed

lemma Balance_Sub_exact:
  assumes "fits64 a" and "fits64 b"
  shows "Balance_Sub a b = (if b \<le> a then a - b else 0)"
proof -
  let ?r = "SafeSub (big_Uint64 a) (big_Uint64 b)"
  have ov: "snd ?r \<longleftrightarrow> \<not> b \<le> a"
    using assms by (auto simp: SafeSub_def word_less_nat_alt)
  show ?thesis
  proof (cases "snd ?r")
    case True
    with ov show ?thesis by (cases ?r) (simp add: Balance_Sub_def)
  next
    case False
    with SafeSub_value [OF False] assms ov show ?thesis
      by (auto simp: Balance_Sub_def split: prod.split)
  qed
qed

lemma Balance_Add_fits: "fits64 (Balance_Add a b)"
proof -
  have "uint (w :: u64) < 2 ^ 64" for w using uint_lt2p [of w] by simp
  then show ?thesis by (auto simp: Balance_Add_def split: prod.split)
qed

lemma Balance_Sub_fits: "fits64 (Balance_Sub a b)"
proof -
  have "uint (w :: u64) < 2 ^ 64" for w using uint_lt2p [of w] by simp
  then show ?thesis by (auto simp: Balance_Sub_def split: prod.split)
qed

lemma Balance_Compare_iff [simp]:
  "Balance_Compare a b = BalanceCompEqual \<longleftrightarrow> a = b"
  "Balance_Compare a b = BalanceCompBigger \<longleftrightarrow> b < a"
  "Balance_Compare a b = BalanceCompSmaller \<longleftrightarrow> a < b"
  by (auto simp: Balance_Compare_def)

lemma Balance_Equal_iff [simp]:
  "Balance_Equal (Some a) (Some b) \<longleftrightarrow> a = b"
  "\<not> Balance_Equal None r" "\<not> Balance_Equal r None"
  by (auto simp: Balance_Equal_def split: option.splits)

lemma bytes_nat_snoc: "bytes_nat (bs @ [b]) = bytes_nat bs * 256 + unat b"
  by (simp add: bytes_nat_def)

lemma bytes_nat_nat_bytes: "bytes_nat (nat_bytes n) = n"
proof (induction n rule: nat_bytes.induct)
  case (1 n)
  show ?case
  proof (cases "n = 0")
    case True
    then show ?thesis by (simp add: nat_bytes.simps bytes_nat_def)
  next
    case False
    have "unat (of_nat (n mod 256) :: byte) = n mod 256"
      by (simp add: unat_of_nat)
    with 1 False show ?thesis
      by (subst nat_bytes.simps) (simp add: bytes_nat_snoc)
  qed
qed

text \<open>A stored balance is read back unchanged: decoding the bytes of any balance that is
  not negative gives the balance, and the bytes of a missing (nil) balance decode to zero.\<close>

lemma balance_bytes_roundtrip:
  "0 \<le> b \<Longrightarrow> BytesToBalance (Balance_Bytes (Some b)) = b \<and> BytesToBalance (Balance_Bytes None) = 0"
  by (simp add: BytesToBalance_def Balance_Bytes_def bytes_nat_nat_bytes)

lemma balance_bytes_roundtrip_witness:
  "(0::int) \<le> 66000 \<and> BytesToBalance (Balance_Bytes (Some 66000)) = 66000 \<and>
   BytesToBalance (Balance_Bytes None) = 0"
  using balance_bytes_roundtrip [of 66000] by simp

end
