(* ===== verification/Block_Types.thy ===== *)
theory Block_Types
  imports Balance
begin

text \<open>
  The data of the block lattice: \<open>common/types/block.go\<close>, \<open>block_state.go\<close>,
  \<open>account.go\<close>, \<open>pending.go\<close>, \<open>frontier.go\<close>, \<open>benefit.go\<close> and
  \<open>work.go\<close>. A Go struct is a record whose fields carry a short prefix. The msgp
  serialisation is modelled by what a struct looks like after \<open>Deserialize(Serialize(x))\<close>:
  a balance comes back as its absolute value (a nil balance as zero), a block type through its
  name, and the fields tagged \<open>msg:"-"\<close> are lost. The blake2b digests are parameters.
\<close>

section \<open>Block types\<close>

datatype BlockType = State | Send | Receive | Change | Open | ContractReward | ContractSend
  | ContractRefund | ContractError | SmartContract | Online | Invalid

fun BlockType_byte :: "BlockType \<Rightarrow> byte" where
  "BlockType_byte State = 0"
| "BlockType_byte Send = 1"
| "BlockType_byte Receive = 2"
| "BlockType_byte Change = 3"
| "BlockType_byte Open = 4"
| "BlockType_byte ContractReward = 5"
| "BlockType_byte ContractSend = 6"
| "BlockType_byte ContractRefund = 7"
| "BlockType_byte ContractError = 8"
| "BlockType_byte SmartContract = 9"
| "BlockType_byte Online = 10"
| "BlockType_byte Invalid = 11"

fun BlockType_String :: "BlockType \<Rightarrow> string" where
  "BlockType_String State = ''State''"
| "BlockType_String Send = ''Send''"
| "BlockType_String Receive = ''Receive''"
| "BlockType_String Change = ''Change''"
| "BlockType_String Open = ''Open''"
| "BlockType_String ContractReward = ''ContractReward''"
| "BlockType_String ContractSend = ''ContractSend''"
| "BlockType_String ContractRefund = ''ContractRefund''"
| "BlockType_String ContractError = ''ContractError''"
| "BlockType_String SmartContract = ''SmartContract''"
| "BlockType_String Online = ''Online''"
| "BlockType_String Invalid = ''<invalid>''"

text \<open>\<open>strings.ToLower\<close> on ASCII text.\<close>

definition lower_char :: "char \<Rightarrow> char" where
  "lower_char c = (let n = (of_char c :: nat) in if 65 \<le> n \<and> n \<le> 90 then char_of (n + 32) else c)"

definition parseString :: "string \<Rightarrow> BlockType" where
  "parseString s = (let t = map lower_char s in
     if t = ''state'' then State
     else if t = ''send'' then Send
     else if t = ''receive'' then Receive
     else if t = ''change'' then Change
     else if t = ''open'' then Open
     else if t = ''contractreward'' then ContractReward
     else if t = ''contractsend'' then ContractSend
     else if t = ''contractrefund'' then ContractRefund
     else if t = ''contracterror'' then ContractError
     else if t = ''smartcontract'' then SmartContract
     else if t = ''online'' then Online
     else Invalid)"

lemma parseString_String [simp]: "parseString (BlockType_String t) = t"
  by (cases t; hypsubst; code_simp)

section \<open>State blocks\<close>

record state_block =
  sb_Type :: BlockType
  sb_Token :: hash
  sb_Address :: address
  sb_Balance :: int
  sb_Vote :: "int option"
  sb_Network :: "int option"
  sb_Storage :: "int option"
  sb_Oracle :: "int option"
  sb_Previous :: hash
  sb_Link :: hash
  sb_Sender :: bytes
  sb_Receiver :: bytes
  sb_Message :: hash
  sb_Data :: bytes
  sb_PoVHeight :: u64
  sb_Timestamp :: int
  sb_Extra :: hash
  sb_Representative :: address
  sb_PrivateFrom :: string
  sb_PrivateFor :: "string list"
  sb_PrivateGroupID :: string
  sb_Work :: u64
  sb_Signature :: "512 word"
  sb_Flag :: u64
  sb_PrivateRecvRsp :: bool
  sb_PrivatePayload :: bytes

definition string_bytes :: "string \<Rightarrow> bytes" where
  "string_bytes s = map of_char s"

definition BuildHashData :: "state_block \<Rightarrow> bytes" where
  "BuildHashData b =
     [BlockType_byte (sb_Type b)]
     @ be_bytes 32 (sb_Token b)
     @ be_bytes 32 (sb_Address b)
     @ Balance_Bytes (Some (sb_Balance b))
     @ Balance_Bytes (sb_Vote b)
     @ Balance_Bytes (sb_Network b)
     @ Balance_Bytes (sb_Storage b)
     @ Balance_Bytes (sb_Oracle b)
     @ be_bytes 32 (sb_Previous b)
     @ be_bytes 32 (sb_Link b)
     @ sb_Sender b
     @ sb_Receiver b
     @ be_bytes 32 (sb_Message b)
     @ sb_Data b
     @ be_bytes 8 (of_int (sb_Timestamp b) :: u64)
     @ be_bytes 8 (sb_PoVHeight b)
     @ be_bytes 32 (sb_Extra b)
     @ be_bytes 32 (sb_Representative b)
     @ string_bytes (sb_PrivateFrom b)
     @ concat (map string_bytes (sb_PrivateFor b))
     @ string_bytes (sb_PrivateGroupID b)"

definition GetHash :: "(bytes \<Rightarrow> hash) \<Rightarrow> state_block \<Rightarrow> hash" where
  "GetHash H b = H (BuildHashData b)"

definition StateBlock_GetVote :: "state_block \<Rightarrow> int" where
  "StateBlock_GetVote b = (case sb_Vote b of None \<Rightarrow> ZeroBalance | Some v \<Rightarrow> v)"

definition StateBlock_GetOracle :: "state_block \<Rightarrow> int" where
  "StateBlock_GetOracle b = (case sb_Oracle b of None \<Rightarrow> ZeroBalance | Some v \<Rightarrow> v)"

definition StateBlock_GetNetwork :: "state_block \<Rightarrow> int" where
  "StateBlock_GetNetwork b = (case sb_Network b of None \<Rightarrow> ZeroBalance | Some v \<Rightarrow> v)"

definition StateBlock_GetStorage :: "state_block \<Rightarrow> int" where
  "StateBlock_GetStorage b = (case sb_Storage b of None \<Rightarrow> ZeroBalance | Some v \<Rightarrow> v)"

definition add_opt :: "int \<Rightarrow> int option \<Rightarrow> int" where
  "add_opt b n = (case n of None \<Rightarrow> b | Some v \<Rightarrow> Balance_Add b v)"

definition StateBlock_TotalBalance :: "state_block \<Rightarrow> int" where
  "StateBlock_TotalBalance b =
     add_opt (add_opt (add_opt (add_opt (sb_Balance b) (sb_Vote b)) (sb_Network b)) (sb_Oracle b))
       (sb_Storage b)"

definition IsOpen :: "state_block \<Rightarrow> bool" where
  "IsOpen b \<longleftrightarrow> sb_Previous b = ZeroHash"

definition Root :: "state_block \<Rightarrow> hash" where
  "Root b = (if IsOpen b then sb_Address b else sb_Previous b)"

definition Parent :: "state_block \<Rightarrow> hash" where
  "Parent b = (if IsOpen b then sb_Link b else sb_Previous b)"

definition IsReceiveBlock :: "state_block \<Rightarrow> bool" where
  "IsReceiveBlock b \<longleftrightarrow> sb_Type b = Receive \<or> sb_Type b = Open \<or> sb_Type b = ContractReward"

definition IsSendBlock :: "state_block \<Rightarrow> bool" where
  "IsSendBlock b \<longleftrightarrow> sb_Type b = Send \<or> sb_Type b = ContractSend"

definition IsContractBlock :: "state_block \<Rightarrow> bool" where
  "IsContractBlock b \<longleftrightarrow> sb_Type b = ContractReward \<or> sb_Type b = ContractSend \<or>
     sb_Type b = ContractRefund \<or> sb_Type b = ContractError"

definition BlockFlagSync :: u64 where "BlockFlagSync = 1"

definition IsFromSync :: "state_block \<Rightarrow> bool" where
  "IsFromSync b \<longleftrightarrow> sb_Flag b AND BlockFlagSync = BlockFlagSync"

definition SetFromSync :: "state_block \<Rightarrow> state_block" where
  "SetFromSync b = b\<lparr>sb_Flag := sb_Flag b OR BlockFlagSync\<rparr>"

definition IsPrivate :: "state_block \<Rightarrow> bool" where
  "IsPrivate b \<longleftrightarrow> sb_PrivateFrom b \<noteq> []"

definition IsRecipient :: "state_block \<Rightarrow> bool" where
  "IsRecipient b \<longleftrightarrow> \<not> (IsPrivate b \<and> sb_PrivatePayload b = [])"

definition GetPayload :: "state_block \<Rightarrow> bytes" where
  "GetPayload b = (if IsPrivate b then sb_PrivatePayload b else sb_Data b)"

definition SetPrivatePayload :: "bytes \<Rightarrow> state_block \<Rightarrow> state_block" where
  "SetPrivatePayload raw b = b\<lparr>sb_PrivatePayload := raw, sb_PrivateRecvRsp := True\<rparr>"

text \<open>\<open>CheckPrivateRecvRsp\<close>: true when the call returns its error.\<close>

definition CheckPrivateRecvRsp :: "state_block \<Rightarrow> bool" where
  "CheckPrivateRecvRsp b \<longleftrightarrow> IsPrivate b \<and> \<not> sb_PrivateRecvRsp b"

text \<open>A transaction this node takes no part in: private and without a payload.\<close>

definition not_recipient :: "state_block \<Rightarrow> bool" where
  "not_recipient b \<longleftrightarrow> IsPrivate b \<and> \<not> IsRecipient b"

subsection \<open>Serialisation\<close>

definition ser_balance :: "int option \<Rightarrow> int" where
  "ser_balance b = BytesToBalance (Balance_Bytes b)"

definition StateBlock_Unmarshal :: "state_block \<Rightarrow> state_block" where
  "StateBlock_Unmarshal b = b
     \<lparr>sb_Type := parseString (BlockType_String (sb_Type b)),
      sb_Balance := ser_balance (Some (sb_Balance b)),
      sb_Vote := Some (ser_balance (sb_Vote b)),
      sb_Network := Some (ser_balance (sb_Network b)),
      sb_Storage := Some (ser_balance (sb_Storage b)),
      sb_Oracle := Some (ser_balance (sb_Oracle b)),
      sb_Flag := 0, sb_PrivateRecvRsp := False, sb_PrivatePayload := []\<rparr>"

definition StateBlock_Clone :: "state_block \<Rightarrow> state_block" where
  "StateBlock_Clone b = (StateBlock_Unmarshal b)
     \<lparr>sb_Flag := sb_Flag b, sb_PrivateRecvRsp := sb_PrivateRecvRsp b,
      sb_PrivatePayload := sb_PrivatePayload b\<rparr>"

subsection \<open>Proof of work\<close>

definition WorkThreshold :: nat where "WorkThreshold = 0xfffffe0000000000"

definition Worker_IsValid :: "(bytes \<Rightarrow> bytes) \<Rightarrow> u64 \<Rightarrow> hash \<Rightarrow> bool" where
  "Worker_IsValid H64 work root \<longleftrightarrow>
     bytes_nat (rev (H64 (rev (be_bytes 8 work) @ be_bytes 32 root))) \<ge> WorkThreshold"

definition StateBlock_IsValid :: "(bytes \<Rightarrow> bytes) \<Rightarrow> state_block \<Rightarrow> bool" where
  "StateBlock_IsValid H64 b =
     (if IsOpen b then Worker_IsValid H64 (sb_Work b) (sb_Address b)
      else Worker_IsValid H64 (sb_Work b) (sb_Previous b))"

section \<open>Accounts, pendings, frontiers, benefits\<close>

record token_meta =
  tm_Type :: hash
  tm_Header :: hash
  tm_Representative :: address
  tm_OpenBlock :: hash
  tm_Balance :: int
  tm_BelongTo :: address
  tm_Modified :: int
  tm_BlockCount :: int

record account_meta =
  am_Address :: address
  am_CoinBalance :: "int option"
  am_CoinVote :: "int option"
  am_CoinNetwork :: "int option"
  am_CoinStorage :: "int option"
  am_CoinOracle :: "int option"
  am_Tokens :: "token_meta list"

record pending_info =
  pi_Source :: address
  pi_Amount :: int
  pi_Type :: hash

text \<open>A pending key: the receiving account and the hash of the send block.\<close>

type_synonym pending_key = "address \<times> hash"

record frontier =
  fr_HeaderBlock :: hash
  fr_OpenBlock :: hash

record benefit =
  bf_Balance :: int
  bf_Vote :: int
  bf_Network :: int
  bf_Storage :: int
  bf_Oracle :: int
  bf_Total :: int

definition ZeroBenefit :: benefit where
  "ZeroBenefit = \<lparr>bf_Balance = 0, bf_Vote = 0, bf_Network = 0, bf_Storage = 0, bf_Oracle = 0,
     bf_Total = 0\<rparr>"

definition AccountMeta_Token :: "account_meta \<Rightarrow> hash \<Rightarrow> token_meta option" where
  "AccountMeta_Token am tt = find (\<lambda>t. tm_Type t = tt) (am_Tokens am)"

definition AccountMeta_GetVote :: "account_meta \<Rightarrow> int" where
  "AccountMeta_GetVote a = (case am_CoinVote a of None \<Rightarrow> ZeroBalance | Some v \<Rightarrow> v)"

definition AccountMeta_GetOracle :: "account_meta \<Rightarrow> int" where
  "AccountMeta_GetOracle a = (case am_CoinOracle a of None \<Rightarrow> ZeroBalance | Some v \<Rightarrow> v)"

definition AccountMeta_GetNetwork :: "account_meta \<Rightarrow> int" where
  "AccountMeta_GetNetwork a = (case am_CoinNetwork a of None \<Rightarrow> ZeroBalance | Some v \<Rightarrow> v)"

definition AccountMeta_GetBalance :: "account_meta \<Rightarrow> int" where
  "AccountMeta_GetBalance a = (case am_CoinBalance a of None \<Rightarrow> ZeroBalance | Some v \<Rightarrow> v)"

definition AccountMeta_GetStorage :: "account_meta \<Rightarrow> int" where
  "AccountMeta_GetStorage a = (case am_CoinStorage a of None \<Rightarrow> ZeroBalance | Some v \<Rightarrow> v)"

definition AccountMeta_VoteWeight :: "account_meta \<Rightarrow> int" where
  "AccountMeta_VoteWeight a =
     add_opt (add_opt (add_opt ZeroBalance (am_CoinBalance a)) (am_CoinVote a)) (am_CoinNetwork a)"

definition AccountMeta_TotalBalance :: "account_meta \<Rightarrow> int" where
  "AccountMeta_TotalBalance a =
     add_opt (add_opt (add_opt (add_opt (add_opt ZeroBalance (am_CoinBalance a)) (am_CoinVote a))
       (am_CoinStorage a)) (am_CoinNetwork a)) (am_CoinOracle a)"

definition TokenMeta_Clone :: "token_meta \<Rightarrow> token_meta" where
  "TokenMeta_Clone t = t\<lparr>tm_Balance := ser_balance (Some (tm_Balance t))\<rparr>"

definition AccountMeta_Clone :: "account_meta \<Rightarrow> account_meta" where
  "AccountMeta_Clone a = a\<lparr>am_Tokens := map TokenMeta_Clone (am_Tokens a)\<rparr>"

definition AccountMeta_Unmarshal :: "account_meta \<Rightarrow> account_meta" where
  "AccountMeta_Unmarshal a = a
     \<lparr>am_CoinBalance := Some (ser_balance (am_CoinBalance a)),
      am_CoinVote := Some (ser_balance (am_CoinVote a)),
      am_CoinNetwork := Some (ser_balance (am_CoinNetwork a)),
      am_CoinStorage := Some (ser_balance (am_CoinStorage a)),
      am_CoinOracle := Some (ser_balance (am_CoinOracle a)),
      am_Tokens := map TokenMeta_Clone (am_Tokens a)\<rparr>"

definition PendingInfo_Unmarshal :: "pending_info \<Rightarrow> pending_info" where
  "PendingInfo_Unmarshal p = p\<lparr>pi_Amount := ser_balance (Some (pi_Amount p))\<rparr>"

definition Benefit_Clone :: "benefit \<Rightarrow> benefit" where
  "Benefit_Clone b = \<lparr>bf_Balance = ser_balance (Some (bf_Balance b)),
     bf_Vote = ser_balance (Some (bf_Vote b)), bf_Network = ser_balance (Some (bf_Network b)),
     bf_Storage = ser_balance (Some (bf_Storage b)), bf_Oracle = ser_balance (Some (bf_Oracle b)),
     bf_Total = ser_balance (Some (bf_Total b))\<rparr>"

section \<open>Laws\<close>

lemma ser_balance_simps [simp]:
  "ser_balance (Some b) = \<bar>b\<bar>" "ser_balance None = 0"
  by (simp_all add: ser_balance_def BytesToBalance_def Balance_Bytes_def bytes_nat_nat_bytes)

lemma ser_balance_abs [simp]: "\<bar>ser_balance b\<bar> = ser_balance b"
  by (cases b) simp_all

lemma ser_balance_code [code]: "ser_balance b = (case b of None \<Rightarrow> 0 | Some x \<Rightarrow> \<bar>x\<bar>)"
  by (simp split: option.split)

text \<open>The comparison with the work threshold on integers, which evaluate in binary.\<close>

lemma int_bytes_nat: "int (bytes_nat bs) = foldl (\<lambda>a b. a * 256 + uint b) 0 bs"
proof -
  have "int (foldl (\<lambda>a b. a * 256 + unat b) n bs) = foldl (\<lambda>a b. a * 256 + uint b) (int n) bs" for n
    by (induction bs arbitrary: n) simp_all
  from this [of 0] show ?thesis by (simp add: bytes_nat_def)
qed

lemma Worker_IsValid_code [code]:
  "Worker_IsValid H64 work root \<longleftrightarrow>
     foldl (\<lambda>a b. a * 256 + uint b) 0 (rev (H64 (rev (be_bytes 8 work) @ be_bytes 32 root))) \<ge> (0xfffffe0000000000 :: int)"
proof -
  have t: "int WorkThreshold = 0xfffffe0000000000" by (simp add: WorkThreshold_def)
  show ?thesis unfolding Worker_IsValid_def int_bytes_nat [symmetric] t [symmetric] by simp
qed

lemma Balance_Bytes_ser [simp]: "Balance_Bytes (Some (ser_balance b)) = Balance_Bytes b"
  by (cases b) (simp_all add: Balance_Bytes_def)

lemma Balance_Bytes_abs [simp]: "Balance_Bytes (Some \<bar>b\<bar>) = Balance_Bytes (Some b)"
  by (simp add: Balance_Bytes_def)

lemma BuildHashData_Unmarshal [simp]: "BuildHashData (StateBlock_Unmarshal b) = BuildHashData b"
  by (simp add: BuildHashData_def StateBlock_Unmarshal_def)

lemma BuildHashData_Clone [simp]: "BuildHashData (StateBlock_Clone b) = BuildHashData b"
  by (simp add: BuildHashData_def StateBlock_Unmarshal_def StateBlock_Clone_def)

lemma GetHash_Clone [simp]: "GetHash H (StateBlock_Clone b) = GetHash H b"
  by (simp add: GetHash_def)

lemma GetHash_Unmarshal [simp]: "GetHash H (StateBlock_Unmarshal b) = GetHash H b"
  by (simp add: GetHash_def)

lemma Clone_sels [simp]:
  "sb_Type (StateBlock_Clone b) = sb_Type b"
  "sb_Token (StateBlock_Clone b) = sb_Token b"
  "sb_Address (StateBlock_Clone b) = sb_Address b"
  "sb_Balance (StateBlock_Clone b) = \<bar>sb_Balance b\<bar>"
  "sb_Previous (StateBlock_Clone b) = sb_Previous b"
  "sb_Link (StateBlock_Clone b) = sb_Link b"
  "sb_Data (StateBlock_Clone b) = sb_Data b"
  "sb_Extra (StateBlock_Clone b) = sb_Extra b"
  "sb_Representative (StateBlock_Clone b) = sb_Representative b"
  "sb_PoVHeight (StateBlock_Clone b) = sb_PoVHeight b"
  "sb_Timestamp (StateBlock_Clone b) = sb_Timestamp b"
  "sb_Vote (StateBlock_Clone b) = Some (ser_balance (sb_Vote b))"
  "sb_Network (StateBlock_Clone b) = Some (ser_balance (sb_Network b))"
  "sb_Storage (StateBlock_Clone b) = Some (ser_balance (sb_Storage b))"
  "sb_Oracle (StateBlock_Clone b) = Some (ser_balance (sb_Oracle b))"
  "sb_PrivateFrom (StateBlock_Clone b) = sb_PrivateFrom b"
  "sb_PrivateRecvRsp (StateBlock_Clone b) = sb_PrivateRecvRsp b"
  "sb_PrivatePayload (StateBlock_Clone b) = sb_PrivatePayload b"
  by (simp_all add: StateBlock_Clone_def StateBlock_Unmarshal_def)

text \<open>The amounts of a block: what the balance, the four weights and their total may be for the
  64-bit arithmetic to be exact.\<close>

definition opt_bal :: "int option \<Rightarrow> int" where
  "opt_bal b = (case b of None \<Rightarrow> 0 | Some v \<Rightarrow> v)"

lemma opt_bal_simps [simp]: "opt_bal None = 0" "opt_bal (Some v) = v"
  by (simp_all add: opt_bal_def)

lemma get_eq_opt_bal:
  "StateBlock_GetVote b = opt_bal (sb_Vote b)"
  "StateBlock_GetOracle b = opt_bal (sb_Oracle b)"
  "StateBlock_GetNetwork b = opt_bal (sb_Network b)"
  "StateBlock_GetStorage b = opt_bal (sb_Storage b)"
  "AccountMeta_GetVote a = opt_bal (am_CoinVote a)"
  "AccountMeta_GetOracle a = opt_bal (am_CoinOracle a)"
  "AccountMeta_GetNetwork a = opt_bal (am_CoinNetwork a)"
  "AccountMeta_GetBalance a = opt_bal (am_CoinBalance a)"
  "AccountMeta_GetStorage a = opt_bal (am_CoinStorage a)"
  by (simp_all add: opt_bal_def StateBlock_GetVote_def StateBlock_GetOracle_def
      StateBlock_GetNetwork_def StateBlock_GetStorage_def AccountMeta_GetVote_def
      AccountMeta_GetOracle_def AccountMeta_GetNetwork_def AccountMeta_GetBalance_def
      AccountMeta_GetStorage_def)

definition sb_amounts_ok :: "state_block \<Rightarrow> bool" where
  "sb_amounts_ok b \<longleftrightarrow> 0 \<le> sb_Balance b \<and> 0 \<le> opt_bal (sb_Vote b) \<and> 0 \<le> opt_bal (sb_Network b) \<and>
     0 \<le> opt_bal (sb_Storage b) \<and> 0 \<le> opt_bal (sb_Oracle b) \<and>
     sb_Balance b + opt_bal (sb_Vote b) + opt_bal (sb_Network b) + opt_bal (sb_Storage b) +
       opt_bal (sb_Oracle b) < 2 ^ 64"

lemma add_opt_exact:
  "0 \<le> b \<Longrightarrow> 0 \<le> opt_bal n \<Longrightarrow> b + opt_bal n < 2 ^ 64 \<Longrightarrow> add_opt b n = b + opt_bal n"
  by (cases n) (simp_all add: add_opt_def Balance_Add_exact)

lemma StateBlock_TotalBalance_exact:
  assumes "sb_amounts_ok b"
  shows "StateBlock_TotalBalance b = sb_Balance b + opt_bal (sb_Vote b) + opt_bal (sb_Network b) +
    opt_bal (sb_Oracle b) + opt_bal (sb_Storage b)"
  using assms unfolding StateBlock_TotalBalance_def sb_amounts_ok_def
  by (simp add: add_opt_exact)

lemma ser_balance_nonneg [simp]: "0 \<le> opt_bal b \<Longrightarrow> ser_balance b = opt_bal b"
  by (cases b) simp_all

text \<open>Cloning a block for the ledger keeps its hash, and a second clone changes nothing.\<close>

lemma clone_keeps_hash:
  "GetHash H (StateBlock_Clone b) = GetHash H b \<and>
   StateBlock_Clone (StateBlock_Clone b) = StateBlock_Clone b"
  by (simp add: GetHash_def) (simp add: StateBlock_Clone_def StateBlock_Unmarshal_def)

lemma BlockType_byte_inj: "BlockType_byte s = BlockType_byte t \<longleftrightarrow> s = t"
  by (cases s; cases t; simp)

lemma Balance_Bytes_inj:
  "0 \<le> opt_bal a \<Longrightarrow> 0 \<le> opt_bal b \<Longrightarrow> Balance_Bytes a = Balance_Bytes b \<longleftrightarrow> opt_bal a = opt_bal b"
  by (metis Balance_Bytes_ser ser_balance_def ser_balance_nonneg)

lemma be32_inj: "be_bytes 32 (v :: hash) = be_bytes 32 w \<longleftrightarrow> v = w"
  using be_bytes_inj [of 32 v w] by auto

lemma be8_inj: "be_bytes 8 (v :: u64) = be_bytes 8 w \<longleftrightarrow> v = w"
  using be_bytes_inj [of 8 v w] by auto

text \<open>Strings are hashed as their bytes.\<close>

lemma of_char_byte_inj: "(of_char c :: byte) = of_char d \<longleftrightarrow> c = d"
proof
  assume e: "(of_char c :: byte) = of_char d"
  have u: "unat (of_char x :: byte) = (of_char x :: nat)" for x
  proof -
    have "(of_char x :: nat) = of_char x mod 256" using of_char_of [of "of_char x :: nat"] by simp
    then have "(of_char x :: nat) < 256" by (metis mod_less_divisor zero_less_numeral)
    moreover have "(of_char x :: byte) = of_nat (of_char x)" by (cases x) simp
    ultimately show ?thesis by (simp only: unat_of_nat) simp
  qed
  from e have "(of_char c :: nat) = of_char d" by (metis u)
  then show "c = d" by simp
qed simp

lemma string_bytes_inj: "string_bytes s = string_bytes t \<longleftrightarrow> s = t"
  unfolding string_bytes_def by (rule inj_map_eq_map) (simp add: inj_on_def of_char_byte_inj)

lemma length_string_bytes [simp]: "length (string_bytes s) = length s"
  by (simp add: string_bytes_def)

lemma concat_strings_inj:
  "map length ss = map length ts \<Longrightarrow> concat (map string_bytes ss) = concat (map string_bytes ts) \<longleftrightarrow> ss = ts"
proof (induction ss arbitrary: ts)
  case (Cons s ss)
  then obtain t ts' where ts: "ts = t # ts'" by (cases ts) auto
  with Cons show ?case by (simp add: string_bytes_inj)
qed simp

lemma length_concat_strings: "length (concat (map string_bytes ss)) = sum_list (map length ss)"
  by (induction ss) simp_all

text \<open>The lengths of the fields that are written without a length of their own.\<close>

definition hashed_lengths :: "state_block \<Rightarrow> nat list \<times> nat list" where
  "hashed_lengths b = (map length [Balance_Bytes (Some (sb_Balance b)), Balance_Bytes (sb_Vote b),
     Balance_Bytes (sb_Network b), Balance_Bytes (sb_Storage b), Balance_Bytes (sb_Oracle b),
     sb_Sender b, sb_Receiver b, sb_Data b, string_bytes (sb_PrivateFrom b), string_bytes (sb_PrivateGroupID b)],
     map length (sb_PrivateFor b))"

lemma BuildHashData_inj:
  assumes eq: "BuildHashData a = BuildHashData b" and len: "hashed_lengths a = hashed_lengths b"
  shows "sb_Type a = sb_Type b \<and> sb_Token a = sb_Token b \<and> sb_Address a = sb_Address b \<and>
    Balance_Bytes (Some (sb_Balance a)) = Balance_Bytes (Some (sb_Balance b)) \<and>
    Balance_Bytes (sb_Vote a) = Balance_Bytes (sb_Vote b) \<and>
    Balance_Bytes (sb_Network a) = Balance_Bytes (sb_Network b) \<and>
    Balance_Bytes (sb_Storage a) = Balance_Bytes (sb_Storage b) \<and>
    Balance_Bytes (sb_Oracle a) = Balance_Bytes (sb_Oracle b) \<and>
    sb_Previous a = sb_Previous b \<and> sb_Link a = sb_Link b \<and> sb_Sender a = sb_Sender b \<and>
    sb_Receiver a = sb_Receiver b \<and> sb_Message a = sb_Message b \<and> sb_Data a = sb_Data b \<and>
    (of_int (sb_Timestamp a) :: u64) = of_int (sb_Timestamp b) \<and>
    sb_PoVHeight a = sb_PoVHeight b \<and> sb_Extra a = sb_Extra b \<and>
    sb_Representative a = sb_Representative b \<and> sb_PrivateFrom a = sb_PrivateFrom b \<and>
    sb_PrivateFor a = sb_PrivateFor b \<and> sb_PrivateGroupID a = sb_PrivateGroupID b"
proof -
  have f: "map length (sb_PrivateFor a) = map length (sb_PrivateFor b)" using len by (simp add: hashed_lengths_def)
  then have "length (concat (map string_bytes (sb_PrivateFor a))) = length (concat (map string_bytes (sb_PrivateFor b)))"
    by (simp only: length_concat_strings)
  then show ?thesis using eq len concat_strings_inj [OF f] unfolding BuildHashData_def hashed_lengths_def
    by (simp add: append_eq_append_conv be32_inj be8_inj BlockType_byte_inj string_bytes_inj)
qed

lemma of_int64_inj:
  assumes "-(2 ^ 63) \<le> s" "s < 2 ^ 63" "-(2 ^ 63) \<le> t" "t < 2 ^ 63"
  shows "(of_int s :: u64) = of_int t \<longleftrightarrow> s = t"
proof
  assume "(of_int s :: u64) = of_int t"
  then have "s mod 2 ^ 64 = t mod 2 ^ 64" by (simp add: word_of_int_eq_iff take_bit_eq_mod)
  then have d: "2 ^ 64 dvd s - t" by (simp add: mod_eq_dvd_iff)
  show "s = t"
  proof (rule ccontr)
    assume "s \<noteq> t"
    with d have "2 ^ 64 \<le> \<bar>s - t\<bar>" by (intro zdvd_imp_le) simp_all
    with assms show False by simp
  qed
qed simp

text \<open>Amounts are not negative and the time stamp is an \<open>int64\<close>, as the fields of a decoded block are.\<close>

definition hash_ranges :: "state_block \<Rightarrow> bool" where
  "hash_ranges b \<longleftrightarrow> 0 \<le> sb_Balance b \<and> 0 \<le> opt_bal (sb_Vote b) \<and> 0 \<le> opt_bal (sb_Network b) \<and>
     0 \<le> opt_bal (sb_Storage b) \<and> 0 \<le> opt_bal (sb_Oracle b) \<and>
     -(2 ^ 63) \<le> sb_Timestamp b \<and> sb_Timestamp b < 2 ^ 63"

text \<open>C38: a block's hash determines the transaction once the lengths of the fields written
  back to back (the five balances, sender, receiver, data and the private strings) are known: two
  blocks with the same hash, with amounts that are not negative and time stamps of 64 bits, on whose
  hash data the digest does not collide, agree on every field \<open>BuildHashData\<close> writes; a missing amount
  counts as zero.\<close>

theorem hash_determines_block:
  assumes "GetHash H a = GetHash H b"
    and "H (BuildHashData a) = H (BuildHashData b) \<longrightarrow> BuildHashData a = BuildHashData b"
    and "hashed_lengths a = hashed_lengths b"
    and "hash_ranges a" and "hash_ranges b"
  shows "sb_Type a = sb_Type b \<and> sb_Token a = sb_Token b \<and> sb_Address a = sb_Address b \<and>
    sb_Balance a = sb_Balance b \<and> opt_bal (sb_Vote a) = opt_bal (sb_Vote b) \<and>
    opt_bal (sb_Network a) = opt_bal (sb_Network b) \<and> opt_bal (sb_Storage a) = opt_bal (sb_Storage b) \<and>
    opt_bal (sb_Oracle a) = opt_bal (sb_Oracle b) \<and> sb_Previous a = sb_Previous b \<and> sb_Link a = sb_Link b \<and>
    sb_Sender a = sb_Sender b \<and> sb_Receiver a = sb_Receiver b \<and> sb_Message a = sb_Message b \<and>
    sb_Data a = sb_Data b \<and> sb_Timestamp a = sb_Timestamp b \<and> sb_PoVHeight a = sb_PoVHeight b \<and>
    sb_Extra a = sb_Extra b \<and> sb_Representative a = sb_Representative b \<and>
    sb_PrivateFrom a = sb_PrivateFrom b \<and> sb_PrivateFor a = sb_PrivateFor b \<and>
    sb_PrivateGroupID a = sb_PrivateGroupID b"
proof -
  have "BuildHashData a = BuildHashData b"
    using assms(1,2) by (simp add: GetHash_def)
  from BuildHashData_inj [OF this assms(3)] show ?thesis
    using assms(4,5) Balance_Bytes_inj [of "Some (sb_Balance a)" "Some (sb_Balance b)"]
    unfolding hash_ranges_def by (simp add: Balance_Bytes_inj of_int64_inj)
qed

text \<open>The zero value of the Go struct.\<close>

definition zero_block :: state_block where
  "zero_block = \<lparr>sb_Type = State, sb_Token = 0, sb_Address = 0, sb_Balance = 0, sb_Vote = None,
     sb_Network = None, sb_Storage = None, sb_Oracle = None, sb_Previous = 0, sb_Link = 0,
     sb_Sender = [], sb_Receiver = [], sb_Message = 0, sb_Data = [], sb_PoVHeight = 0,
     sb_Timestamp = 0, sb_Extra = 0, sb_Representative = 0, sb_PrivateFrom = [],
     sb_PrivateFor = [], sb_PrivateGroupID = [], sb_Work = 0, sb_Signature = 0, sb_Flag = 0,
     sb_PrivateRecvRsp = False, sb_PrivatePayload = []\<rparr>"

theorem hash_determines_block_witness:
  "let H = (\<lambda>d. of_nat (length d)) :: bytes \<Rightarrow> hash;
       a = zero_block\<lparr>sb_Type := Send, sb_Balance := 5\<rparr>; b = a\<lparr>sb_Work := 77\<rparr>
   in a \<noteq> b \<and> GetHash H a = GetHash H b \<and>
      (H (BuildHashData a) = H (BuildHashData b) \<longrightarrow> BuildHashData a = BuildHashData b) \<and>
      hashed_lengths a = hashed_lengths b \<and> hash_ranges a \<and> hash_ranges b \<and>
      sb_Balance a = sb_Balance b \<and> sb_Timestamp a = sb_Timestamp b"
proof -
  let ?H = "(\<lambda>d. of_nat (length d)) :: bytes \<Rightarrow> hash"
  let ?a = "zero_block\<lparr>sb_Type := Send, sb_Balance := 5\<rparr>"
  let ?b = "?a\<lparr>sb_Work := 77\<rparr>"
  have d: "BuildHashData ?a = BuildHashData ?b" and l: "hashed_lengths ?a = hashed_lengths ?b"
    by (simp_all add: BuildHashData_def hashed_lengths_def)
  have g: "GetHash ?H ?a = GetHash ?H ?b" unfolding GetHash_def d ..
  have h: "?H (BuildHashData ?a) = ?H (BuildHashData ?b) \<longrightarrow> BuildHashData ?a = BuildHashData ?b"
    using d by blast
  have r: "hash_ranges ?a" "hash_ranges ?b" by (simp_all add: hash_ranges_def zero_block_def)
  have "sb_Balance ?a = sb_Balance ?b \<and> sb_Timestamp ?a = sb_Timestamp ?b"
    using hash_determines_block [OF g h l r] by blast
  moreover have "sb_Work ?a \<noteq> sb_Work ?b" by (simp add: zero_block_def)
  then have "?a \<noteq> ?b" by (rule contrapos_nn) (rule arg_cong)
  ultimately show ?thesis using g h l r unfolding Let_def by blast
qed

text \<open>C39: without the lengths the hash does not determine the amounts: the balances are written
  without a separator, so moving a byte from the balance to the vote weight leaves the hash data,
  and with it the hash and every signature over it, unchanged.\<close>

theorem hash_ambiguous:
  "GetHash H (b\<lparr>sb_Balance := 258, sb_Vote := Some 3\<rparr>) =
   GetHash H (b\<lparr>sb_Balance := 1, sb_Vote := Some 515\<rparr>) \<and>
   b\<lparr>sb_Balance := 258, sb_Vote := Some 3\<rparr> \<noteq> b\<lparr>sb_Balance := 1, sb_Vote := Some 515\<rparr>"
proof
  have "nat_bytes 258 = [1, 2]" "nat_bytes 3 = [3]" "nat_bytes 1 = [1]" "nat_bytes 515 = [2, 3]"
    by (simp_all add: nat_bytes.simps)
  then show "GetHash H (b\<lparr>sb_Balance := 258, sb_Vote := Some 3\<rparr>) =
    GetHash H (b\<lparr>sb_Balance := 1, sb_Vote := Some 515\<rparr>)"
    by (simp add: GetHash_def BuildHashData_def Balance_Bytes_def)
  have "sb_Balance (b\<lparr>sb_Balance := 258, sb_Vote := Some 3\<rparr>) \<noteq>
        sb_Balance (b\<lparr>sb_Balance := 1, sb_Vote := Some 515\<rparr>)" by simp
  then show "b\<lparr>sb_Balance := 258, sb_Vote := Some 3\<rparr> \<noteq> b\<lparr>sb_Balance := 1, sb_Vote := Some 515\<rparr>"
    by metis
qed

lemma AccountMeta_Token_Some:
  "AccountMeta_Token am tt = Some tm \<Longrightarrow> tm \<in> set (am_Tokens am) \<and> tm_Type tm = tt"
  by (auto simp: AccountMeta_Token_def find_Some_iff in_set_conv_nth)

end
