(* ===== verification/Storage_Key.thy ===== *)
theory Storage_Key
  imports Block_Types
begin

text \<open>
  The keys of the ledger's one key/value store: \<open>GetKeyOfParts\<close> of
  \<open>common/storage/storage.go\<close>, and the keys the ledger builds with it as a datatype. Every
  table has its own prefix byte and parts of fixed width, so the byte encoding is injective: the
  tables never collide and the model may speak of typed keys.
\<close>

datatype KeyPrefix =
    KeyPrefixBlock | KeyPrefixSmartContractBlock | KeyPrefixUncheckedBlockPrevious
  | KeyPrefixUncheckedBlockLink | KeyPrefixAccount | KeyPrefixFrontier
  | KeyPrefixPending | KeyPrefixRepresentation | KeyPrefixPerformance
  | KeyPrefixChild | KeyPrefixVersion | KeyPrefixStorage
  | KeyPrefixToken | KeyPrefixSender | KeyPrefixReceiver
  | KeyPrefixMessage | KeyPrefixMessageInfo | KeyPrefixOnlineReps
  | KeyPrefixPovHeader | KeyPrefixPovBody | KeyPrefixPovHeight
  | KeyPrefixPovTxLookup | KeyPrefixPovBestHash | KeyPrefixPovTD
  | KeyPrefixLink | KeyPrefixBlockCache | KeyPrefixRepresentationCache
  | KeyPrefixUncheckedTokenInfo | KeyPrefixBlockCacheAccount | KeyPrefixPovMinerStat
  | KeyPrefixUnconfirmedSync | KeyPrefixUncheckedSync | KeyPrefixSyncCacheBlock
  | KeyPrefixUncheckedPovHeight | KeyPrefixPovLatestHeight | KeyPrefixPovTxlScanCursor
  | KeyPrefixVoteHistory | KeyPrefixPovDiffStat | KeyPrefixPeerInfo
  | KeyPrefixGapPublish | KeyPrefixDPoS | KeyPrefixAccountBlockHash
  | KeyPrefixAccountPovHeight | KeyPrefixPrivatePayload | KeyPrefixGapDoDSettleState
  | KeyPrefixGapPovHeight | KeyPrefixTrieVMStorage | KeyPrefixTrie
  | KeyPrefixTriePovState | KeyPrefixContractValue | KeyPrefixVmLogs
  | KeyPrefixVMStorage | KeyPrefixPendingBackup | KeyPrefixGenericType
  | KeyPrefixGenericTypeC

fun KeyPrefix_byte :: "KeyPrefix \<Rightarrow> byte" where
  "KeyPrefix_byte KeyPrefixBlock = 0"
| "KeyPrefix_byte KeyPrefixSmartContractBlock = 1"
| "KeyPrefix_byte KeyPrefixUncheckedBlockPrevious = 2"
| "KeyPrefix_byte KeyPrefixUncheckedBlockLink = 3"
| "KeyPrefix_byte KeyPrefixAccount = 4"
| "KeyPrefix_byte KeyPrefixFrontier = 5"
| "KeyPrefix_byte KeyPrefixPending = 6"
| "KeyPrefix_byte KeyPrefixRepresentation = 7"
| "KeyPrefix_byte KeyPrefixPerformance = 8"
| "KeyPrefix_byte KeyPrefixChild = 9"
| "KeyPrefix_byte KeyPrefixVersion = 10"
| "KeyPrefix_byte KeyPrefixStorage = 11"
| "KeyPrefix_byte KeyPrefixToken = 12"
| "KeyPrefix_byte KeyPrefixSender = 13"
| "KeyPrefix_byte KeyPrefixReceiver = 14"
| "KeyPrefix_byte KeyPrefixMessage = 15"
| "KeyPrefix_byte KeyPrefixMessageInfo = 16"
| "KeyPrefix_byte KeyPrefixOnlineReps = 17"
| "KeyPrefix_byte KeyPrefixPovHeader = 18"
| "KeyPrefix_byte KeyPrefixPovBody = 19"
| "KeyPrefix_byte KeyPrefixPovHeight = 20"
| "KeyPrefix_byte KeyPrefixPovTxLookup = 21"
| "KeyPrefix_byte KeyPrefixPovBestHash = 22"
| "KeyPrefix_byte KeyPrefixPovTD = 23"
| "KeyPrefix_byte KeyPrefixLink = 24"
| "KeyPrefix_byte KeyPrefixBlockCache = 25"
| "KeyPrefix_byte KeyPrefixRepresentationCache = 26"
| "KeyPrefix_byte KeyPrefixUncheckedTokenInfo = 27"
| "KeyPrefix_byte KeyPrefixBlockCacheAccount = 28"
| "KeyPrefix_byte KeyPrefixPovMinerStat = 29"
| "KeyPrefix_byte KeyPrefixUnconfirmedSync = 30"
| "KeyPrefix_byte KeyPrefixUncheckedSync = 31"
| "KeyPrefix_byte KeyPrefixSyncCacheBlock = 32"
| "KeyPrefix_byte KeyPrefixUncheckedPovHeight = 33"
| "KeyPrefix_byte KeyPrefixPovLatestHeight = 34"
| "KeyPrefix_byte KeyPrefixPovTxlScanCursor = 35"
| "KeyPrefix_byte KeyPrefixVoteHistory = 36"
| "KeyPrefix_byte KeyPrefixPovDiffStat = 37"
| "KeyPrefix_byte KeyPrefixPeerInfo = 38"
| "KeyPrefix_byte KeyPrefixGapPublish = 39"
| "KeyPrefix_byte KeyPrefixDPoS = 40"
| "KeyPrefix_byte KeyPrefixAccountBlockHash = 41"
| "KeyPrefix_byte KeyPrefixAccountPovHeight = 42"
| "KeyPrefix_byte KeyPrefixPrivatePayload = 43"
| "KeyPrefix_byte KeyPrefixGapDoDSettleState = 44"
| "KeyPrefix_byte KeyPrefixGapPovHeight = 45"
| "KeyPrefix_byte KeyPrefixTrieVMStorage = 100"
| "KeyPrefix_byte KeyPrefixTrie = 101"
| "KeyPrefix_byte KeyPrefixTriePovState = 102"
| "KeyPrefix_byte KeyPrefixContractValue = 103"
| "KeyPrefix_byte KeyPrefixVmLogs = 104"
| "KeyPrefix_byte KeyPrefixVMStorage = 105"
| "KeyPrefix_byte KeyPrefixPendingBackup = 253"
| "KeyPrefix_byte KeyPrefixGenericType = 254"
| "KeyPrefix_byte KeyPrefixGenericTypeC = 255"

text \<open>The parts a caller passes: the integer kinds are widened to 64 bits, a hash or an address
  is copied, a pending key is its serialised form.\<close>

datatype key_part = PartUint64 u64 | PartBytes bytes | PartHash hash | PartAddress address
  | PartPendingKey pending_key

definition PendingKey_Serialize :: "pending_key \<Rightarrow> bytes" where
  "PendingKey_Serialize pk = be_bytes 32 (fst pk) @ be_bytes 32 (snd pk)"

fun part_bytes :: "key_part \<Rightarrow> bytes" where
  "part_bytes (PartUint64 v) = be_bytes 8 v"
| "part_bytes (PartBytes v) = v"
| "part_bytes (PartHash v) = be_bytes 32 v"
| "part_bytes (PartAddress v) = be_bytes 32 v"
| "part_bytes (PartPendingKey v) = PendingKey_Serialize v"

definition GetKeyOfParts :: "KeyPrefix \<Rightarrow> key_part list \<Rightarrow> bytes" where
  "GetKeyOfParts t partList =
     foldl (\<lambda>buffer part. buffer @ part_bytes part) [KeyPrefix_byte t] partList"

datatype key =
    KBlock hash
  | KSmartContractBlock hash
  | KAccount address
  | KFrontier hash
  | KPending address hash
  | KRepresentation address
  | KChild hash
  | KLink hash
  | KBlockCache hash
  | KBlockCacheAccount address
  | KAccountBlockHash hash
  | KAccountPovHeight address u64 hash
  | KPrivatePayload hash
  | KTrie bytes
  | KVMStorage bytes

fun key_bytes :: "key \<Rightarrow> bytes" where
  "key_bytes (KBlock h) = GetKeyOfParts KeyPrefixBlock [PartHash h]"
| "key_bytes (KSmartContractBlock h) = GetKeyOfParts KeyPrefixSmartContractBlock [PartHash h]"
| "key_bytes (KAccount a) = GetKeyOfParts KeyPrefixAccount [PartAddress a]"
| "key_bytes (KFrontier h) = GetKeyOfParts KeyPrefixFrontier [PartHash h]"
| "key_bytes (KPending a h) = GetKeyOfParts KeyPrefixPending [PartPendingKey (a, h)]"
| "key_bytes (KRepresentation a) = GetKeyOfParts KeyPrefixRepresentation [PartAddress a]"
| "key_bytes (KChild h) = GetKeyOfParts KeyPrefixChild [PartHash h]"
| "key_bytes (KLink h) = GetKeyOfParts KeyPrefixLink [PartHash h]"
| "key_bytes (KBlockCache h) = GetKeyOfParts KeyPrefixBlockCache [PartHash h]"
| "key_bytes (KBlockCacheAccount a) = GetKeyOfParts KeyPrefixBlockCacheAccount [PartAddress a]"
| "key_bytes (KAccountBlockHash h) = GetKeyOfParts KeyPrefixAccountBlockHash [PartHash h]"
| "key_bytes (KAccountPovHeight a n t) =
     GetKeyOfParts KeyPrefixAccountPovHeight [PartAddress a, PartUint64 n, PartHash t]"
| "key_bytes (KPrivatePayload h) = GetKeyOfParts KeyPrefixPrivatePayload [PartHash h]"
| "key_bytes (KTrie bs) = GetKeyOfParts KeyPrefixTrie [PartBytes bs]"
| "key_bytes (KVMStorage bs) = GetKeyOfParts KeyPrefixVMStorage [PartBytes bs]"

lemma GetKeyOfParts_eq: "GetKeyOfParts t ps = KeyPrefix_byte t # concat (map part_bytes ps)"
proof -
  have "foldl (\<lambda>buffer part. buffer @ part_bytes part) bs ps = bs @ concat (map part_bytes ps)" for bs
    by (induction ps arbitrary: bs) simp_all
  then show ?thesis by (simp add: GetKeyOfParts_def)
qed

lemma KeyPrefix_byte_inj [simp]: "KeyPrefix_byte t = KeyPrefix_byte u \<longleftrightarrow> t = u"
  by (cases t; cases u) simp_all

text \<open>C40: no two tables share stored bytes: keys built with any two of the prefixes, from whatever parts,
  are equal only if the prefix and the bytes of the parts are; and within the tables of the ledger
  (blocks, accounts, frontiers, pendings, representations, children, links, the unconfirmed tables,
  private payloads, trie nodes and contract storage) different keys have different bytes.\<close>

theorem key_bytes_inj:
  "(GetKeyOfParts t ps = GetKeyOfParts u qs \<longleftrightarrow> t = u \<and> concat (map part_bytes ps) = concat (map part_bytes qs)) \<and>
   (key_bytes j = key_bytes k \<longleftrightarrow> j = k)"
  by (cases j; cases k)
     (simp_all add: GetKeyOfParts_eq PendingKey_Serialize_def be32_inj be8_inj append_eq_append_conv)

end
