(* ===== verification/Mem_Cache.thy ===== *)
theory Mem_Cache
  imports Prelude
begin

text \<open>
  The write-back cache in front of the store: \<open>MemoryCache\<close> and \<open>Cache\<close> of
  \<open>ledger/cache.go\<close>. Six caches form a ring; writes go to the one at \<open>writeIndex\<close>, a
  background flusher writes the others to the store and advances \<open>readIndex\<close>, and a lookup
  walks from \<open>writeIndex\<close> back to \<open>readIndex\<close>. A cache is a map from keys to a value or the
  deletion tag (the gcache library below its capacity); the store is a map. What a reader sees,
  \<open>mc_view\<close>, is one map: a batch overrides it, rotation keeps it, a flush keeps it up to
  serialisation as long as its writes succeed. When they fail, the flusher still ends and frees a cache, but
  readers lose what was not written.
\<close>

section \<open>One cache\<close>

datatype 'v lookup = Found 'v | KeyDeleted | KeyNotInCache | GetDiverges

definition Cache_Put :: "'k \<Rightarrow> 'v \<Rightarrow> ('k, 'v) overlay \<Rightarrow> ('k, 'v) overlay" where
  "Cache_Put k v c = c(k \<mapsto> Some v)"

definition Cache_Delete :: "'k \<Rightarrow> ('k, 'v) overlay \<Rightarrow> ('k, 'v) overlay" where
  "Cache_Delete k c = c(k \<mapsto> None)"

definition Cache_Get :: "('k, 'v) overlay \<Rightarrow> 'k \<Rightarrow> 'v lookup" where
  "Cache_Get c k = (case c k of None \<Rightarrow> KeyNotInCache | Some None \<Rightarrow> KeyDeleted | Some (Some v) \<Rightarrow> Found v)"

text \<open>\<open>dumpToLevelDb\<close> on every entry: it is serialised into the batch or deletes its key there; the
  result is the store once the batch is written. \<open>dump\<close> is what a value looks like once it has been
  through the store.\<close>

definition Cache_dump :: "('v \<Rightarrow> 'v) \<Rightarrow> ('k, 'v) overlay \<Rightarrow> ('k \<rightharpoonup> 'v) \<Rightarrow> ('k \<rightharpoonup> 'v)" where
  "Cache_dump dump c st =
     (\<lambda>k. case c k of None \<Rightarrow> st k | Some None \<Rightarrow> None | Some (Some v) \<Rightarrow> Some (dump v))"

text \<open>\<open>Cache.flush\<close>: the batch is written and the cache purged. \<open>ok\<close> says whether serialising, the
  relation tables and the write of the batch all succeed; when one of them fails the batch is
  discarded, and the cache keeps its entries.\<close>

definition Cache_flush ::
    "bool \<Rightarrow> ('v \<Rightarrow> 'v) \<Rightarrow> ('k, 'v) overlay \<Rightarrow> ('k \<rightharpoonup> 'v) \<Rightarrow> ('k, 'v) overlay \<times> ('k \<rightharpoonup> 'v)" where
  "Cache_flush ok dump c st = (if ok then (Map.empty, Cache_dump dump c st) else (c, st))"

section \<open>The ring\<close>

record ('k, 'v) memory_cache =
  mc_caches :: "('k, 'v) overlay list"
  mc_cacheCount :: int
  mc_writeIndex :: int
  mc_readIndex :: int

definition NewMemoryCache :: "('k, 'v) memory_cache" where
  "NewMemoryCache = \<lparr>mc_caches = replicate 6 Map.empty, mc_cacheCount = 6, mc_writeIndex = 1,
     mc_readIndex = 0\<rparr>"

definition next_index :: "('k, 'v) memory_cache \<Rightarrow> int \<Rightarrow> int" where
  "next_index mc i = (i + 1) smod mc_cacheCount mc"

definition prev_index :: "('k, 'v) memory_cache \<Rightarrow> int \<Rightarrow> int" where
  "prev_index mc i = (let j = (i - 1) smod mc_cacheCount mc
     in if j < 0 then mc_cacheCount mc - 1 else j)"

text \<open>\<open>Get\<close>: the loop is bounded by a number of steps; running out of them stands for a loop
  that does not end.\<close>

fun get_loop :: "nat \<Rightarrow> ('k, 'v) memory_cache \<Rightarrow> int \<Rightarrow> 'k \<Rightarrow> 'v lookup" where
  "get_loop n mc i k =
     (if i = mc_readIndex mc then KeyNotInCache
      else case n of 0 \<Rightarrow> GetDiverges
      | Suc m \<Rightarrow>
        (case Cache_Get (mc_caches mc ! nat i) k of
           Found v \<Rightarrow> Found v
         | KeyDeleted \<Rightarrow> KeyDeleted
         | _ \<Rightarrow> get_loop m mc (prev_index mc i) k))"

declare get_loop.simps [simp del]

definition MemoryCache_Get :: "('k, 'v) memory_cache \<Rightarrow> 'k \<Rightarrow> 'v lookup" where
  "MemoryCache_Get mc k = get_loop (nat (mc_cacheCount mc)) mc (mc_writeIndex mc) k"

text \<open>\<open>needsFlush\<close>: the flush interval has passed and the current write cache is not empty.\<close>

definition needsFlush :: "bool \<Rightarrow> ('k, 'v) memory_cache \<Rightarrow> bool" where
  "needsFlush elapsed mc \<longleftrightarrow> elapsed \<and> mc_caches mc ! nat (mc_writeIndex mc) \<noteq> Map.empty"

lemma needsFlush_code [code]: "needsFlush False mc = False"
  by (simp add: needsFlush_def)

text \<open>\<open>GetCache\<close> rotates to the next cache when the current one is due. \<open>None\<close> is the wait for
  the flusher to free the next cache.\<close>

definition GetCache :: "bool \<Rightarrow> ('k, 'v) memory_cache \<Rightarrow> ('k, 'v) memory_cache option" where
  "GetCache elapsed mc =
     (if needsFlush elapsed mc
      then let newWriteIndex = next_index mc (mc_writeIndex mc)
           in if newWriteIndex = mc_readIndex mc then None
              else Some (mc\<lparr>mc_writeIndex := newWriteIndex\<rparr>)
      else Some mc)"

text \<open>\<open>BatchUpdate\<close> after its function has filled the temporary cache \<open>t\<close>: every entry is put
  into the write cache.\<close>

definition put_all :: "('k, 'v) overlay \<Rightarrow> ('k, 'v) memory_cache \<Rightarrow> ('k, 'v) memory_cache" where
  "put_all t mc = mc\<lparr>mc_caches := (mc_caches mc)
     [nat (mc_writeIndex mc) := (mc_caches mc ! nat (mc_writeIndex mc)) ++ t]\<rparr>"

definition BatchUpdate_commit ::
    "bool \<Rightarrow> ('k, 'v) overlay \<Rightarrow> ('k, 'v) memory_cache \<Rightarrow> ('k, 'v) memory_cache option" where
  "BatchUpdate_commit elapsed t mc = map_option (put_all t) (GetCache elapsed mc)"

type_synonym ('k, 'v) cached_store = "('k, 'v) memory_cache \<times> ('k \<rightharpoonup> 'v)"

text \<open>One iteration of the flusher: cache \<open>i\<close> is flushed, an error is only logged, and \<open>i\<close> becomes
  the read index either way. \<open>ok i\<close> is the outcome of the flush of cache \<open>i\<close> in this round.\<close>

definition flush_one ::
    "(int \<Rightarrow> bool) \<Rightarrow> ('v \<Rightarrow> 'v) \<Rightarrow> int \<Rightarrow> ('k, 'v) cached_store \<Rightarrow> ('k, 'v) cached_store" where
  "flush_one ok dump i s = (case s of (mc, st) \<Rightarrow>
     (case Cache_flush (ok i) dump (mc_caches mc ! nat i) st of (c, st') \<Rightarrow>
       (mc\<lparr>mc_caches := (mc_caches mc)[nat i := c], mc_readIndex := i\<rparr>, st')))"

fun flush_loop ::
    "nat \<Rightarrow> (int \<Rightarrow> bool) \<Rightarrow> ('v \<Rightarrow> 'v) \<Rightarrow> int \<Rightarrow> ('k, 'v) cached_store \<Rightarrow> ('k, 'v) cached_store option" where
  "flush_loop n ok dump i s =
     (if i = mc_writeIndex (fst s) then Some s
      else case n of 0 \<Rightarrow> None
      | Suc m \<Rightarrow> flush_loop m ok dump (next_index (fst s) i) (flush_one ok dump i s))"

declare flush_loop.simps [simp del]

text \<open>\<open>flush\<close>: \<open>None\<close> stands for a loop that does not end.\<close>

definition MemoryCache_flush ::
    "(int \<Rightarrow> bool) \<Rightarrow> ('v \<Rightarrow> 'v) \<Rightarrow> ('k, 'v) cached_store \<Rightarrow> ('k, 'v) cached_store option" where
  "MemoryCache_flush ok dump s =
     flush_loop (nat (mc_cacheCount (fst s))) ok dump (next_index (fst s) (mc_readIndex (fst s))) s"

text \<open>\<open>close\<close> flushes up to and including the write cache; \<open>rebuild\<close> then restarts the ring.\<close>

definition MemoryCache_close ::
    "(int \<Rightarrow> bool) \<Rightarrow> ('v \<Rightarrow> 'v) \<Rightarrow> ('k, 'v) cached_store \<Rightarrow> ('k, 'v) cached_store option" where
  "MemoryCache_close ok dump s =
     map_option (\<lambda>s'. flush_one ok dump (mc_writeIndex (fst s')) s') (MemoryCache_flush ok dump s)"

definition MemoryCache_rebuild ::
    "(int \<Rightarrow> bool) \<Rightarrow> ('v \<Rightarrow> 'v) \<Rightarrow> ('k, 'v) cached_store \<Rightarrow> ('k, 'v) cached_store option" where
  "MemoryCache_rebuild ok dump s =
     map_option (\<lambda>(mc, st). (mc\<lparr>mc_writeIndex := 1, mc_readIndex := 0\<rparr>, st)) (MemoryCache_close ok dump s)"

text \<open>Every flush of the round succeeds.\<close>

abbreviation all_ok :: "int \<Rightarrow> bool" where
  "all_ok \<equiv> \<lambda>_. True"

section \<open>Ledger reads\<close>

text \<open>\<open>Ledger.getFromCache\<close> asks the temporary cache of the running batch, when there is one, then
  the memory cache.\<close>

definition getFromCache :: "('k, 'v) overlay option \<Rightarrow> ('k, 'v) cached_store \<Rightarrow> 'k \<Rightarrow> 'v lookup" where
  "getFromCache c s k =
     (case (case c of None \<Rightarrow> KeyNotInCache | Some t \<Rightarrow> Cache_Get t k) of
        Found v \<Rightarrow> Found v
      | KeyDeleted \<Rightarrow> KeyDeleted
      | _ \<Rightarrow> MemoryCache_Get (fst s) k)"

text \<open>\<open>Ledger.GetObject\<close> also asks the store; a deleted key is not found, and \<open>KeyNotInCache\<close> in
  its result stands for \<open>storage.KeyNotFound\<close>.\<close>

definition GetObject :: "('k, 'v) overlay option \<Rightarrow> ('k, 'v) cached_store \<Rightarrow> 'k \<Rightarrow> 'v lookup" where
  "GetObject c s k =
     (case getFromCache c s k of
        Found v \<Rightarrow> Found v
      | KeyDeleted \<Rightarrow> KeyNotInCache
      | GetDiverges \<Rightarrow> GetDiverges
      | KeyNotInCache \<Rightarrow> (case snd s k of None \<Rightarrow> KeyNotInCache | Some v \<Rightarrow> Found v))"

section \<open>Invariant and view\<close>

text \<open>The ring is open: indices in range and different, and only the caches between them hold
  entries.\<close>

definition live :: "('k, 'v) memory_cache \<Rightarrow> nat" where
  "live mc = nat ((mc_writeIndex mc - mc_readIndex mc) mod mc_cacheCount mc)"

definition ring_at :: "('k, 'v) memory_cache \<Rightarrow> nat \<Rightarrow> int" where
  "ring_at mc j = (mc_writeIndex mc - int j) mod mc_cacheCount mc"

definition mc_inv :: "('k, 'v) memory_cache \<Rightarrow> bool" where
  "mc_inv mc \<longleftrightarrow> 3 \<le> mc_cacheCount mc \<and> int (length (mc_caches mc)) = mc_cacheCount mc \<and>
     0 \<le> mc_writeIndex mc \<and> mc_writeIndex mc < mc_cacheCount mc \<and>
     0 \<le> mc_readIndex mc \<and> mc_readIndex mc < mc_cacheCount mc \<and>
     mc_writeIndex mc \<noteq> mc_readIndex mc \<and>
     (\<forall>j. live mc \<le> j \<and> j < length (mc_caches mc) \<longrightarrow> mc_caches mc ! nat (ring_at mc j) = Map.empty)"

text \<open>The entries a lookup can see, newest first.\<close>

definition mc_overlay :: "('k, 'v) memory_cache \<Rightarrow> ('k, 'v) overlay" where
  "mc_overlay mc = foldr (\<lambda>j acc. acc ++ (mc_caches mc ! nat (ring_at mc j))) [0..<live mc] Map.empty"

definition mc_view :: "('k, 'v) cached_store \<Rightarrow> ('k \<rightharpoonup> 'v)" where
  "mc_view s = over (mc_overlay (fst s)) (snd s)"

section \<open>Ring arithmetic\<close>

lemma mc_invD:
  assumes "mc_inv mc"
  shows "3 \<le> mc_cacheCount mc" "int (length (mc_caches mc)) = mc_cacheCount mc"
    "0 \<le> mc_writeIndex mc" "mc_writeIndex mc < mc_cacheCount mc"
    "0 \<le> mc_readIndex mc" "mc_readIndex mc < mc_cacheCount mc"
    "mc_writeIndex mc \<noteq> mc_readIndex mc"
  using assms by (simp_all add: mc_inv_def)

lemma smod_nonneg: "0 \<le> x \<Longrightarrow> 0 < n \<Longrightarrow> x smod n = (x mod n :: int)"
  by (cases "x = 0") (simp_all add: signed_modulo_int_def)

lemma next_index_mod:
  "0 \<le> i \<Longrightarrow> 0 < mc_cacheCount mc \<Longrightarrow> next_index mc i = (i + 1) mod mc_cacheCount mc"
  by (simp add: next_index_def smod_nonneg)

lemma prev_index_mod:
  assumes "0 \<le> i" and "i < mc_cacheCount mc" and "1 < mc_cacheCount mc"
  shows "prev_index mc i = (i - 1) mod mc_cacheCount mc"
proof (cases "i = 0")
  case True
  have "(-1) mod mc_cacheCount mc = mc_cacheCount mc - 1"
    using assms by (intro zmod_minus1) linarith
  with assms True show ?thesis
    by (simp add: prev_index_def signed_modulo_int_def)
next
  case False
  with assms show ?thesis by (simp add: prev_index_def smod_nonneg)
qed

lemma ring_at_range:
  assumes "0 < mc_cacheCount mc"
  shows "0 \<le> ring_at mc j" "ring_at mc j < mc_cacheCount mc"
  using assms by (simp_all add: ring_at_def)

lemma ring_at_0: "mc_inv mc \<Longrightarrow> ring_at mc 0 = mc_writeIndex mc"
  by (simp add: ring_at_def mc_inv_def)

lemma live_bounds:
  assumes "mc_inv mc"
  shows "0 < live mc" "live mc < length (mc_caches mc)" "ring_at mc (live mc) = mc_readIndex mc"
proof -
  let ?n = "mc_cacheCount mc" and ?d = "mc_writeIndex mc - mc_readIndex mc"
  note i = mc_invD [OF assms]
  have p: "0 \<le> ?d mod ?n" "?d mod ?n < ?n" using i by simp_all
  have "?d mod ?n \<noteq> 0"
  proof
    assume "?d mod ?n = 0"
    then have "mc_writeIndex mc mod ?n = mc_readIndex mc mod ?n"
      using mod_eq_dvd_iff by blast
    with i show False by simp
  qed
  with p show "0 < live mc" by (simp add: live_def)
  have l: "int (live mc) = ?d mod ?n" unfolding live_def using p(1) by (rule int_nat_eq [THEN trans, OF if_P])
  show "live mc < length (mc_caches mc)" using l p(2) i(2) by linarith
  note l
  then have "ring_at mc (live mc) = (mc_writeIndex mc - ?d) mod ?n"
    by (simp add: ring_at_def mod_diff_right_eq)
  then show "ring_at mc (live mc) = mc_readIndex mc" using i by simp
qed

text \<open>Different distances below the size of the ring are different places.\<close>

lemma ring_at_inj:
  assumes "mc_inv mc" and "j < length (mc_caches mc)" and "l < length (mc_caches mc)"
    and "ring_at mc j = ring_at mc l"
  shows "j = l"
proof -
  let ?n = "mc_cacheCount mc"
  have "?n dvd (mc_writeIndex mc - int j) - (mc_writeIndex mc - int l)"
    using assms(4) by (simp add: ring_at_def mod_eq_dvd_iff)
  then have "?n dvd int l - int j" by simp
  moreover have "\<bar>int l - int j\<bar> < ?n" using assms(2,3) mc_invD(2) [OF assms(1)] by linarith
  ultimately show ?thesis using zdvd_imp_le [of ?n "\<bar>int l - int j\<bar>"] by force
qed

lemma ring_at_Suc:
  assumes "mc_inv mc"
  shows "prev_index mc (ring_at mc j) = ring_at mc (Suc j)"
proof -
  have "0 < mc_cacheCount mc" "1 < mc_cacheCount mc" using mc_invD(1) [OF assms] by linarith+
  then have "prev_index mc (ring_at mc j) = (ring_at mc j - 1) mod mc_cacheCount mc"
    by (intro prev_index_mod ring_at_range)
  also have "\<dots> = (mc_writeIndex mc - int j - 1) mod mc_cacheCount mc"
    unfolding ring_at_def by (rule mod_diff_left_eq)
  finally show ?thesis by (simp add: ring_at_def diff_diff_eq add.commute)
qed

lemma mc_inv_spare:
  "mc_inv mc \<Longrightarrow> live mc \<le> j \<Longrightarrow> j < length (mc_caches mc) \<Longrightarrow>
    mc_caches mc ! nat (ring_at mc j) = Map.empty"
  by (simp add: mc_inv_def)

section \<open>Lookup\<close>

definition ovl :: "('k, 'v) memory_cache \<Rightarrow> nat list \<Rightarrow> ('k, 'v) overlay" where
  "ovl mc js = foldr (\<lambda>j acc. acc ++ (mc_caches mc ! nat (ring_at mc j))) js Map.empty"

lemma ovl_simps [simp]:
  "ovl mc [] = Map.empty" "ovl mc (j # js) = ovl mc js ++ (mc_caches mc ! nat (ring_at mc j))"
  by (simp_all add: ovl_def)

lemma mc_overlay_ovl: "mc_overlay mc = ovl mc [0..<live mc]"
  by (simp add: mc_overlay_def ovl_def)

lemma ovl_append: "ovl mc (is @ js) = ovl mc js ++ ovl mc is"
  by (induction "is") simp_all

lemma Cache_Get_add:
  "Cache_Get (c ++ d) k =
     (case Cache_Get d k of Found v \<Rightarrow> Found v | KeyDeleted \<Rightarrow> KeyDeleted | _ \<Rightarrow> Cache_Get c k)"
  by (auto simp: Cache_Get_def map_add_def split: option.splits)

lemma get_loop_ovl:
  assumes inv: "mc_inv mc" and "j \<le> live mc" and "live mc - j \<le> n"
  shows "get_loop n mc (ring_at mc j) k = Cache_Get (ovl mc [j..<live mc]) k"
  using assms(2,3)
proof (induction "live mc - j" arbitrary: j n)
  case 0
  then have "j = live mc" by simp
  with live_bounds(3) [OF inv] show ?case
    by (simp add: get_loop.simps Cache_Get_def)
next
  case (Suc d)
  then have j: "j < live mc" by simp
  with Suc.prems obtain m where n: "n = Suc m" by (cases n) auto
  have "ring_at mc j \<noteq> mc_readIndex mc"
    using ring_at_inj [OF inv, of j "live mc"] live_bounds [OF inv] j by auto
  moreover have "get_loop m mc (ring_at mc (Suc j)) k = Cache_Get (ovl mc [Suc j..<live mc]) k"
    using Suc.hyps(1) [of "Suc j" m] Suc.hyps(2) Suc.prems n by simp
  ultimately show ?case
    using j by (subst get_loop.simps)
      (simp add: n ring_at_Suc [OF inv] upt_conv_Cons Cache_Get_add split: lookup.split)
qed

lemma MemoryCache_Get_overlay:
  assumes "mc_inv mc"
  shows "MemoryCache_Get mc k = Cache_Get (mc_overlay mc) k"
proof -
  have "live mc \<le> nat (mc_cacheCount mc)"
    using live_bounds(2) [OF assms] mc_invD(2) [OF assms] by linarith
  with get_loop_ovl [OF assms, of 0 "nat (mc_cacheCount mc)" k] show ?thesis
    by (simp add: MemoryCache_Get_def ring_at_0 [OF assms] mc_overlay_ovl)
qed

section \<open>Writing\<close>

lemma nat_ring_less: "mc_inv mc \<Longrightarrow> nat (ring_at mc j) < length (mc_caches mc)"
  using ring_at_range [of mc j] mc_invD [of mc] by linarith

lemma nat_ring_inj:
  assumes "mc_inv mc" "j < length (mc_caches mc)" "l < length (mc_caches mc)" "j \<noteq> l"
  shows "nat (ring_at mc j) \<noteq> nat (ring_at mc l)"
proof
  assume "nat (ring_at mc j) = nat (ring_at mc l)"
  moreover have "0 \<le> ring_at mc j" "0 \<le> ring_at mc l"
    using ring_at_range(1) [of mc] mc_invD(1) [OF assms(1)] by auto
  ultimately show False using ring_at_inj [OF assms(1-3)] assms(4) by linarith
qed

lemma ovl_cong:
  assumes "\<And>j. j \<in> set js \<Longrightarrow>
    mc_caches mc' ! nat (ring_at mc' (f j)) = mc_caches mc ! nat (ring_at mc j)"
  shows "ovl mc' (map f js) = ovl mc js"
  using assms by (induction js) simp_all

lemma put_all_indices [simp]:
  "mc_writeIndex (put_all t mc) = mc_writeIndex mc" "mc_readIndex (put_all t mc) = mc_readIndex mc"
  "mc_cacheCount (put_all t mc) = mc_cacheCount mc"
  "length (mc_caches (put_all t mc)) = length (mc_caches mc)"
  "live (put_all t mc) = live mc" "ring_at (put_all t mc) j = ring_at mc j"
  by (simp_all add: put_all_def live_def ring_at_def)

lemma put_all_cache:
  assumes "mc_inv mc" "j < length (mc_caches mc)"
  shows "mc_caches (put_all t mc) ! nat (ring_at mc j) =
    (if j = 0 then (mc_caches mc ! nat (ring_at mc 0)) ++ t else mc_caches mc ! nat (ring_at mc j))"
proof -
  have "0 < length (mc_caches mc)" using assms(2) by (cases "mc_caches mc") auto
  then show ?thesis
    using nat_ring_inj [OF assms(1) _ assms(2), of 0] nat_ring_less [OF assms(1), of 0] assms(2)
    by (auto simp: put_all_def nth_list_update ring_at_0 [OF assms(1), symmetric])
qed

lemma put_all_inv:
  assumes "mc_inv mc"
  shows "mc_inv (put_all t mc)"
  unfolding mc_inv_def
proof (intro conjI allI impI)
  fix j assume j: "live (put_all t mc) \<le> j \<and> j < length (mc_caches (put_all t mc))"
  then have "j \<noteq> 0" using live_bounds(1) [OF assms] by auto
  then have "mc_caches (put_all t mc) ! nat (ring_at mc j) = mc_caches mc ! nat (ring_at mc j)"
    using put_all_cache [OF assms, of j t] j by simp
  moreover have "mc_caches mc ! nat (ring_at mc j) = Map.empty"
    using assms j by (simp add: mc_inv_def)
  ultimately show "mc_caches (put_all t mc) ! nat (ring_at (put_all t mc) j) = Map.empty" by simp
qed (use mc_invD [OF assms] in simp_all)

lemma put_all_overlay:
  assumes "mc_inv mc"
  shows "mc_overlay (put_all t mc) = mc_overlay mc ++ t"
proof -
  have l: "0 < live mc" "live mc < length (mc_caches mc)" using live_bounds [OF assms] by auto
  have "ovl (put_all t mc) (map (\<lambda>j. j) [Suc 0..<live mc]) = ovl mc [Suc 0..<live mc]"
  proof (rule ovl_cong)
    fix j assume "j \<in> set [Suc 0..<live mc]"
    then show "mc_caches (put_all t mc) ! nat (ring_at (put_all t mc) j) = mc_caches mc ! nat (ring_at mc j)"
      using put_all_cache [OF assms, of j t] l by simp
  qed
  moreover have "0 < length (mc_caches mc)" using l by linarith
  ultimately show ?thesis
    using l(1) put_all_cache [OF assms, of 0 t] by (simp add: mc_overlay_ovl upt_conv_Cons)
qed

lemma rotate_facts:
  assumes "mc_inv mc" and ne: "next_index mc (mc_writeIndex mc) \<noteq> mc_readIndex mc"
  defines "mc' \<equiv> mc\<lparr>mc_writeIndex := next_index mc (mc_writeIndex mc)\<rparr>"
  shows "live mc' = Suc (live mc)" and "ring_at mc' (Suc j) = ring_at mc j"
    and "mc_caches mc ! nat (next_index mc (mc_writeIndex mc)) = Map.empty"
    and "ring_at mc' 0 = next_index mc (mc_writeIndex mc)"
proof -
  let ?n = "mc_cacheCount mc" and ?w = "mc_writeIndex mc" and ?r = "mc_readIndex mc"
  note i = mc_invD [OF assms(1)]
  have nx: "next_index mc ?w = (?w + 1) mod ?n" using i by (intro next_index_mod) auto
  have n0: "0 < ?n" using i by linarith
  show r: "ring_at mc' (Suc j) = ring_at mc j" for j
  proof -
    have "ring_at mc' (Suc j) = ((?w + 1) mod ?n - int (Suc j)) mod ?n"
      by (simp add: ring_at_def mc'_def nx)
    also have "\<dots> = (?w + 1 - int (Suc j)) mod ?n" by (rule mod_diff_left_eq)
    finally show ?thesis by (simp add: ring_at_def)
  qed
  show r0: "ring_at mc' 0 = next_index mc ?w" by (simp add: ring_at_def mc'_def nx)
  have lv: "int (live mc) = (?w - ?r) mod ?n" using n0 by (simp add: live_def)
  have lvn: "live mc + 1 < length (mc_caches mc)"
  proof (rule ccontr)
    assume "\<not> ?thesis"
    then have "int (live mc) = ?n - 1" using live_bounds(2) [OF assms(1)] i(2) by linarith
    moreover have "ring_at mc (live mc) = ?r" by (rule live_bounds(3) [OF assms(1)])
    ultimately have "?r = (?w - (?n - 1)) mod ?n" by (simp add: ring_at_def)
    also have "\<dots> = (?w + 1 - ?n) mod ?n" by (simp add: algebra_simps)
    also have "\<dots> = (?w + 1) mod ?n" by (rule minus_mod_self2)
    finally show False using ne nx by simp
  qed
  have "int (live mc') = ((?w + 1) mod ?n - ?r) mod ?n" using n0 by (simp add: live_def mc'_def nx)
  also have "\<dots> = (?w + 1 - ?r) mod ?n" by (rule mod_diff_left_eq)
  also have "\<dots> = (?w - ?r + 1) mod ?n" by (simp add: algebra_simps)
  also have "\<dots> = ((?w - ?r) mod ?n + 1) mod ?n" by (rule mod_add_left_eq [symmetric])
  also have "\<dots> = int (live mc) + 1" using lvn i(2) by (simp add: lv [symmetric])
  finally show "live mc' = Suc (live mc)" by simp
  have "ring_at mc (length (mc_caches mc) - 1) = (?w - (?n - 1)) mod ?n"
    using i(1,2) by (simp add: ring_at_def of_nat_diff)
  also have "\<dots> = (?w + 1 - ?n) mod ?n" by (simp add: algebra_simps)
  also have "\<dots> = (?w + 1) mod ?n" by (rule minus_mod_self2)
  finally have "ring_at mc (length (mc_caches mc) - 1) = next_index mc ?w" using nx by simp
  moreover have "mc_caches mc ! nat (ring_at mc (length (mc_caches mc) - 1)) = Map.empty"
    using lvn by (intro mc_inv_spare [OF assms(1)]) linarith+
  ultimately show "mc_caches mc ! nat (next_index mc ?w) = Map.empty" by simp
qed

lemma rotate_inv:
  assumes "mc_inv mc" and ne: "next_index mc (mc_writeIndex mc) \<noteq> mc_readIndex mc"
  shows "mc_inv (mc\<lparr>mc_writeIndex := next_index mc (mc_writeIndex mc)\<rparr>)" (is "mc_inv ?mc")
  unfolding mc_inv_def
proof (intro conjI allI impI)
  note i = mc_invD [OF assms(1)] and f = rotate_facts [OF assms]
  have "next_index mc (mc_writeIndex mc) = (mc_writeIndex mc + 1) mod mc_cacheCount mc"
    using i by (intro next_index_mod) auto
  then show "0 \<le> mc_writeIndex ?mc" "mc_writeIndex ?mc < mc_cacheCount ?mc" using i(1) by simp_all
  fix j assume j: "live ?mc \<le> j \<and> j < length (mc_caches ?mc)"
  then obtain l where l: "j = Suc l" using f(1) by (cases j) auto
  then show "mc_caches ?mc ! nat (ring_at ?mc j) = Map.empty"
    using j f(1,2) mc_inv_spare [OF assms(1), of l] by simp
qed (use mc_invD [OF assms(1)] ne in simp_all)

lemma rotate_overlay:
  assumes "mc_inv mc" and ne: "next_index mc (mc_writeIndex mc) \<noteq> mc_readIndex mc"
  shows "mc_overlay (mc\<lparr>mc_writeIndex := next_index mc (mc_writeIndex mc)\<rparr>) = mc_overlay mc"
    (is "mc_overlay ?mc = _")
proof -
  note f = rotate_facts [OF assms]
  have "ovl ?mc (map Suc [0..<live mc]) = ovl mc [0..<live mc]"
    by (rule ovl_cong) (simp add: f(2))
  moreover have "[0..<live ?mc] = 0 # map Suc [0..<live mc]"
    by (simp add: f(1) map_Suc_upt upt_conv_Cons del: upt_Suc)
  ultimately show ?thesis using f(3,4) by (simp add: mc_overlay_ovl)
qed

lemma GetCache_inv: "mc_inv mc \<Longrightarrow> GetCache e mc = Some mc' \<Longrightarrow> mc_inv mc'"
  by (auto simp: GetCache_def Let_def rotate_inv split: if_splits)

lemma GetCache_overlay: "mc_inv mc \<Longrightarrow> GetCache e mc = Some mc' \<Longrightarrow> mc_overlay mc' = mc_overlay mc"
  by (auto simp: GetCache_def Let_def rotate_overlay split: if_splits)

lemma commit_inv: "mc_inv mc \<Longrightarrow> BatchUpdate_commit e t mc = Some mc' \<Longrightarrow> mc_inv mc'"
  by (auto simp: BatchUpdate_commit_def intro: put_all_inv GetCache_inv)

lemma commit_overlay:
  "mc_inv mc \<Longrightarrow> BatchUpdate_commit e t mc = Some mc' \<Longrightarrow> mc_overlay mc' = mc_overlay mc ++ t"
  by (auto simp: BatchUpdate_commit_def put_all_overlay GetCache_inv GetCache_overlay)

lemma commit_view:
  "mc_inv mc \<Longrightarrow> BatchUpdate_commit e t mc = Some mc' \<Longrightarrow> mc_view (mc', st) = over t (mc_view (mc, st))"
  by (simp add: mc_view_def commit_overlay over_over)

section \<open>Flushing\<close>

lemma flush_index:
  assumes "mc_inv mc"
  shows "next_index mc (mc_readIndex mc) = ring_at mc (live mc - 1)"
proof -
  let ?n = "mc_cacheCount mc" and ?w = "mc_writeIndex mc" and ?r = "mc_readIndex mc"
  note i = mc_invD [OF assms] and l = live_bounds [OF assms]
  have "next_index mc ?r = (?r + 1) mod ?n" using i by (intro next_index_mod) auto
  also have "?r = (?w - int (live mc)) mod ?n" using l(3) by (simp add: ring_at_def)
  also have "((?w - int (live mc)) mod ?n + 1) mod ?n = (?w - int (live mc) + 1) mod ?n"
    by (rule mod_add_left_eq)
  also have "\<dots> = (?w - int (live mc - 1)) mod ?n" using l(1) by (simp add: of_nat_diff algebra_simps)
  finally have "next_index mc ((?w - int (live mc)) mod ?n) = ring_at mc (live mc - 1)"
    by (simp add: ring_at_def)
  then show ?thesis using l(3) by (simp add: ring_at_def)
qed

lemma flush_one_facts:
  assumes "mc_inv mc" and ne: "1 < live mc" and i: "i = next_index mc (mc_readIndex mc)"
    and f: "flush_one all_ok dump i (mc, st) = (mc', st')"
  shows "live mc' = live mc - 1" and "ring_at mc' j = ring_at mc j"
    and "mc_caches mc' = (mc_caches mc)[nat (ring_at mc (live mc - 1)) := Map.empty]"
    and "st' = Cache_dump dump (mc_caches mc ! nat (ring_at mc (live mc - 1))) st"
    and "mc_readIndex mc' = i" "mc_writeIndex mc' = mc_writeIndex mc" "mc_cacheCount mc' = mc_cacheCount mc"
proof -
  let ?n = "mc_cacheCount mc" and ?w = "mc_writeIndex mc"
  note fi = flush_index [OF assms(1)] and v = mc_invD [OF assms(1)] and l = live_bounds [OF assms(1)]
  have mc': "mc' = mc\<lparr>mc_caches := (mc_caches mc)[nat i := Map.empty], mc_readIndex := i\<rparr>"
    and st': "st' = Cache_dump dump (mc_caches mc ! nat i) st"
    using f by (simp_all add: flush_one_def Cache_flush_def)
  show "ring_at mc' j = ring_at mc j" "mc_readIndex mc' = i" "mc_writeIndex mc' = ?w"
    "mc_cacheCount mc' = ?n" by (simp_all add: mc' ring_at_def)
  show "mc_caches mc' = (mc_caches mc)[nat (ring_at mc (live mc - 1)) := Map.empty]"
    "st' = Cache_dump dump (mc_caches mc ! nat (ring_at mc (live mc - 1))) st"
    using mc' st' i fi by simp_all
  have "int (live mc') = (?w - ring_at mc (live mc - 1)) mod ?n"
    using v(1) i fi by (simp add: live_def mc')
  also have "\<dots> = (?w - (?w - int (live mc - 1)) mod ?n) mod ?n" by (simp add: ring_at_def)
  also have "\<dots> = (?w - (?w - int (live mc - 1))) mod ?n" by (rule mod_diff_right_eq)
  also have "\<dots> = int (live mc - 1)" using l v(2) by simp
  finally show "live mc' = live mc - 1" by simp
qed

lemma flush_ne:
  assumes "mc_inv mc" "1 < live mc"
  shows "ring_at mc (live mc - 1) \<noteq> ring_at mc 0"
proof
  assume e: "ring_at mc (live mc - 1) = ring_at mc 0"
  have "live mc - 1 = 0"
    using live_bounds(2) [OF assms(1)] assms(2) by (intro ring_at_inj [OF assms(1) _ _ e]) linarith+
  then show False using assms(2) by simp
qed

lemma flush_one_inv:
  assumes "mc_inv mc" "1 < live mc" "flush_one all_ok dump (next_index mc (mc_readIndex mc)) (mc, st) = (mc', st')"
  shows "mc_inv mc'"
  unfolding mc_inv_def
proof (intro conjI allI impI)
  note f = flush_one_facts [OF assms(1,2) refl assms(3)] and i = mc_invD [OF assms(1)]
    and l = live_bounds [OF assms(1)] and fi = flush_index [OF assms(1)]
  show "0 \<le> mc_readIndex mc'" "mc_readIndex mc' < mc_cacheCount mc'"
    using f(5,7) fi ring_at_range [of mc "live mc - 1"] i(1) by simp_all
  have "ring_at mc (live mc - 1) \<noteq> ring_at mc 0" by (rule flush_ne [OF assms(1,2)])
  then show "mc_writeIndex mc' \<noteq> mc_readIndex mc'" using f(5,6) fi ring_at_0 [OF assms(1)] by simp
  fix j assume "live mc' \<le> j \<and> j < length (mc_caches mc')"
  then have j: "live mc - 1 \<le> j" "j < length (mc_caches mc)" using f(1,3) by simp_all
  show "mc_caches mc' ! nat (ring_at mc' j) = Map.empty"
  proof (cases "j = live mc - 1")
    case True
    then show ?thesis using nat_ring_less [OF assms(1), of j] f(2,3) by simp
  next
    case False
    with j have "live mc \<le> j" by linarith
    with j mc_inv_spare [OF assms(1), of j] nat_ring_less [OF assms(1), of "live mc - 1"] show ?thesis
      by (simp add: f(2,3) nth_list_update)
  qed
qed (use flush_one_facts [OF assms(1,2) refl assms(3)] mc_invD [OF assms(1)] in simp_all)

text \<open>Flushing replaces values by what they look like after serialisation, and nothing else:
  \<open>dump_rel\<close> relates a view to a later one.\<close>

definition dump_rel :: "('v \<Rightarrow> 'v) \<Rightarrow> ('k \<rightharpoonup> 'v) \<Rightarrow> ('k \<rightharpoonup> 'v) \<Rightarrow> bool" where
  "dump_rel dump m m' \<longleftrightarrow> (\<forall>k. m' k = m k \<or> m' k = map_option dump (m k))"

lemma dump_rel_refl [simp]: "dump_rel dump m m"
  by (simp add: dump_rel_def)

lemma dump_rel_trans:
  assumes "\<And>v. dump (dump v) = dump v" "dump_rel dump m m'" "dump_rel dump m' m''"
  shows "dump_rel dump m m''"
  unfolding dump_rel_def
proof
  fix k
  have "m' k = m k \<or> m' k = map_option dump (m k)" "m'' k = m' k \<or> m'' k = map_option dump (m' k)"
    using assms(2,3) by (simp_all add: dump_rel_def)
  then show "m'' k = m k \<or> m'' k = map_option dump (m k)"
    by (auto simp: option.map_comp o_def assms(1))
qed

lemma dump_rel_over: "dump_rel dump m m' \<Longrightarrow> dump_rel dump (over t m) (over t m')"
  by (auto simp: dump_rel_def over_def split: option.split)

lemma dump_rel_flush: "dump_rel dump (over d (over c st)) (over d (Cache_dump dump c st))"
  by (auto simp: dump_rel_def over_def Cache_dump_def split: option.split)

lemma flush_one_view:
  assumes "mc_inv mc" "1 < live mc" "flush_one all_ok dump (next_index mc (mc_readIndex mc)) (mc, st) = (mc', st')"
  shows "dump_rel dump (mc_view (mc, st)) (mc_view (mc', st'))"
proof -
  note f = flush_one_facts [OF assms(1,2) refl assms(3)] and l = live_bounds [OF assms(1)]
  let ?c = "mc_caches mc ! nat (ring_at mc (live mc - 1))"
  have "ovl mc' (map (\<lambda>j. j) [0..<live mc - 1]) = ovl mc [0..<live mc - 1]"
  proof (rule ovl_cong)
    fix j assume "j \<in> set [0..<live mc - 1]"
    then have "j < live mc - 1" by simp
    then have "nat (ring_at mc j) \<noteq> nat (ring_at mc (live mc - 1))"
      using l by (intro nat_ring_inj [OF assms(1)]) linarith+
    then show "mc_caches mc' ! nat (ring_at mc' j) = mc_caches mc ! nat (ring_at mc j)"
      by (simp add: f(2,3))
  qed
  then have o: "mc_overlay mc' = ovl mc [0..<live mc - 1]" by (simp add: mc_overlay_ovl f(1))
  have "[0..<live mc] = [0..<live mc - 1] @ [live mc - 1]"
    using assms(2) upt_Suc_append [of 0 "live mc - 1"] by simp
  then have "mc_overlay mc = ?c ++ mc_overlay mc'" unfolding o by (simp add: mc_overlay_ovl ovl_append)
  then show ?thesis using dump_rel_flush by (simp add: mc_view_def f(4) over_over [symmetric])
qed

lemma flush_loop_ends:
  assumes "mc_inv mc" "live mc \<le> Suc n" "\<And>v. dump (dump v) = dump v"
  shows "\<exists>mc' st'. flush_loop n all_ok dump (next_index mc (mc_readIndex mc)) (mc, st) = Some (mc', st') \<and>
    mc_inv mc' \<and> live mc' = 1 \<and> mc_writeIndex mc' = mc_writeIndex mc \<and>
    dump_rel dump (mc_view (mc, st)) (mc_view (mc', st'))"
  using assms(1,2)
proof (induction n arbitrary: mc st)
  case 0
  then have "live mc = 1" using live_bounds(1) [of mc] by linarith
  with 0 show ?case
    using flush_index [of mc] ring_at_0 [of mc] by (subst flush_loop.simps) simp
next
  case (Suc n)
  note l = live_bounds [OF Suc.prems(1)] and fi = flush_index [OF Suc.prems(1)]
  show ?case
  proof (cases "live mc = 1")
    case True
    with Suc.prems fi ring_at_0 [of mc] show ?thesis by (subst flush_loop.simps) simp
  next
    case False
    then have l1: "1 < live mc" using l(1) by linarith
    obtain mc1 st1 where o: "flush_one all_ok dump (next_index mc (mc_readIndex mc)) (mc, st) = (mc1, st1)"
      by (cases "flush_one all_ok dump (next_index mc (mc_readIndex mc)) (mc, st)")
    note f = flush_one_facts [OF Suc.prems(1) l1 refl o]
    have ne: "next_index mc (mc_readIndex mc) \<noteq> mc_writeIndex mc"
      using flush_ne [OF Suc.prems(1) l1] ring_at_0 [OF Suc.prems(1)] fi by simp
    have nx: "next_index mc (next_index mc (mc_readIndex mc)) = next_index mc1 (mc_readIndex mc1)"
      by (simp add: next_index_def f(5,7))
    have "live mc1 \<le> Suc n" using f(1) Suc.prems(2) by linarith
    from Suc.IH [OF flush_one_inv [OF Suc.prems(1) l1 o] this, of st1]
      dump_rel_trans [OF assms(3) flush_one_view [OF Suc.prems(1) l1 o]]
    show ?thesis by (subst flush_loop.simps) (auto simp: ne o nx f(6))
  qed
qed

lemma MemoryCache_flush_ends:
  fixes mc :: "('k, 'v) memory_cache" and dump :: "'v \<Rightarrow> 'v"
  assumes "mc_inv mc" "\<And>v. dump (dump v) = dump v"
  obtains mc' st' where "MemoryCache_flush all_ok dump (mc, st) = Some (mc', st')" "mc_inv mc'" "live mc' = 1"
    "mc_writeIndex mc' = mc_writeIndex mc"
    "dump_rel dump (mc_view (mc, st)) (mc_view (mc', st'))"
proof -
  have "live mc \<le> Suc (nat (mc_cacheCount mc))"
    using live_bounds(2) [OF assms(1)] mc_invD(2) [OF assms(1)] by linarith
  from flush_loop_ends [OF assms(1) this assms(2), of st] that show ?thesis
    by (auto simp: MemoryCache_flush_def)
qed

lemma MemoryCache_rebuild_ends:
  fixes mc :: "('k, 'v) memory_cache" and dump :: "'v \<Rightarrow> 'v"
  assumes "mc_inv mc" "\<And>v. dump (dump v) = dump v"
  obtains mc' st' where "MemoryCache_rebuild all_ok dump (mc, st) = Some (mc', st')" "mc_inv mc'"
    "mc_overlay mc' = Map.empty" "dump_rel dump (mc_view (mc, st)) st'"
proof -
  obtain mc1 st1 where r: "MemoryCache_flush all_ok dump (mc, st) = Some (mc1, st1)" "mc_inv mc1" "live mc1 = 1"
    "dump_rel dump (mc_view (mc, st)) (mc_view (mc1, st1))"
    using MemoryCache_flush_ends [OF assms] by blast
  note i = mc_invD [OF r(2)] and w = ring_at_0 [OF r(2)] and n = nat_ring_less [OF r(2)]
  let ?w = "nat (mc_writeIndex mc1)"
  let ?cs = "(mc_caches mc1)[?w := Map.empty]"
  let ?mc = "mc1\<lparr>mc_caches := ?cs, mc_readIndex := 0, mc_writeIndex := 1\<rparr>"
  have o: "mc_overlay mc1 = mc_caches mc1 ! ?w" using r(3) w by (simp add: mc_overlay_ovl)
  have e: "?cs ! l = Map.empty" if l: "l < length (mc_caches mc1)" for l
  proof -
    define j where "j = nat ((mc_writeIndex mc1 - int l) mod mc_cacheCount mc1)"
    have "(mc_writeIndex mc1 - (mc_writeIndex mc1 - int l) mod mc_cacheCount mc1) mod mc_cacheCount mc1 = int l"
      using l i(2) by (simp add: mod_diff_right_eq)
    then have jl: "nat (ring_at mc1 j) = l" and "j < length (mc_caches mc1)"
      using i(1,2) by (simp_all add: ring_at_def j_def nat_less_iff)
    then have "j = 0 \<or> mc_caches mc1 ! l = Map.empty"
      using mc_inv_spare [OF r(2), of j] r(3) by auto
    then show ?thesis using jl w l n [of 0] by (auto simp: nth_list_update)
  qed
  have "MemoryCache_rebuild all_ok dump (mc, st) = Some (?mc, Cache_dump dump (mc_overlay mc1) st1)"
    by (simp add: MemoryCache_rebuild_def MemoryCache_close_def r(1) flush_one_def Cache_flush_def o)
  moreover have "mc_inv ?mc"
    unfolding mc_inv_def
  proof (intro conjI allI impI)
    fix j show "mc_caches ?mc ! nat (ring_at ?mc j) = Map.empty"
      using e [of "nat (ring_at ?mc j)"] ring_at_range [of ?mc j] i(1,2) by simp
  qed (use i in simp_all)
  moreover have "mc_overlay ?mc = Map.empty"
    using e [of 1] i by (simp add: mc_overlay_ovl live_def ring_at_def)
  moreover have "dump_rel dump (mc_view (mc1, st1)) (Cache_dump dump (mc_overlay mc1) st1)"
    using dump_rel_flush [of dump Map.empty] by (simp add: mc_view_def)
  ultimately show ?thesis using dump_rel_trans [OF assms(2) r(4)] that by simp
qed

section \<open>What readers see\<close>

abbreviation tmp_of :: "('k, 'v) overlay option \<Rightarrow> ('k, 'v) overlay" where
  "tmp_of c \<equiv> case c of None \<Rightarrow> Map.empty | Some t \<Rightarrow> t"

definition found_of :: "'v option \<Rightarrow> 'v lookup" where
  "found_of r = (case r of None \<Rightarrow> KeyNotInCache | Some v \<Rightarrow> Found v)"

lemma found_of_simps [simp]:
  "found_of None = KeyNotInCache" "found_of (Some v) = Found v"
  by (simp_all add: found_of_def)

lemma getFromCache_overlay:
  "mc_inv (fst s) \<Longrightarrow> getFromCache c s k = Cache_Get (mc_overlay (fst s) ++ tmp_of c) k"
  by (auto simp: getFromCache_def MemoryCache_Get_overlay Cache_Get_add Cache_Get_def
      split: option.split)

lemma GetObject_view:
  "mc_inv (fst s) \<Longrightarrow> GetObject c s k = found_of (over (tmp_of c) (mc_view s) k)"
  by (simp add: GetObject_def getFromCache_overlay mc_view_def over_over)
    (auto simp: Cache_Get_def over_def split: option.split)

text \<open>The contract the ledger relies on: reads inside a batch see the batch over the committed view,
  and a commit makes the batch part of the view.\<close>

locale kv_cache =
  fixes inv :: "'s \<Rightarrow> bool"
    and view :: "'s \<Rightarrow> 'k \<rightharpoonup> 'v"
    and get :: "('k, 'v) overlay option \<Rightarrow> 's \<Rightarrow> 'k \<Rightarrow> 'v lookup"
    and commit :: "('k, 'v) overlay \<Rightarrow> 's \<Rightarrow> 's option"
  assumes get_view: "inv s \<Longrightarrow> get c s k = found_of (over (tmp_of c) (view s) k)"
    and commit_keeps: "inv s \<Longrightarrow> commit t s = Some s' \<Longrightarrow> inv s'"
    and commit_over: "inv s \<Longrightarrow> commit t s = Some s' \<Longrightarrow> view s' = over t (view s)"
begin

lemma read_your_writes:
  assumes "inv s" "commit t s = Some s'"
  shows "get None s' k = get (Some t) s k"
  using assms by (simp add: get_view commit_keeps commit_over)

lemma read_put: "inv s \<Longrightarrow> get (Some (t(k \<mapsto> Some v))) s k = Found v"
  by (simp add: get_view over_def)

lemma read_delete: "inv s \<Longrightarrow> get (Some (t(k \<mapsto> None))) s k = KeyNotInCache"
  by (simp add: get_view over_def)

lemma commits_compose:
  assumes "inv s" "commit t s = Some s1" "commit u s1 = Some s2"
  shows "inv s2" "view s2 = over (t ++ u) (view s)"
  using commit_keeps [OF commit_keeps [OF assms(1,2)] assms(3)]
    commit_over [OF commit_keeps [OF assms(1,2)] assms(3)] commit_over [OF assms(1,2)]
  by (simp_all add: over_over)

end

definition Ledger_commit ::
    "bool \<Rightarrow> ('k, 'v) overlay \<Rightarrow> ('k, 'v) cached_store \<Rightarrow> ('k, 'v) cached_store option" where
  "Ledger_commit elapsed t s = map_option (\<lambda>mc. (mc, snd s)) (BatchUpdate_commit elapsed t (fst s))"

interpretation mcs: kv_cache "\<lambda>s. mc_inv (fst s)" mc_view GetObject "Ledger_commit e" for e
  by unfold_locales
    (auto simp: GetObject_view Ledger_commit_def commit_view [of _ e] intro: commit_inv)

section \<open>Runs of the cache\<close>

text \<open>Batches, flusher rounds and \<open>Flush\<close> calls in any order, the last two with the outcomes of the
  flushes of their caches; the abstract store only knows the batches.\<close>

datatype ('k, 'v) cache_event = ECommit "('k, 'v) overlay" | EFlush "int \<Rightarrow> bool" | ERebuild "int \<Rightarrow> bool"

inductive cache_run :: "('v \<Rightarrow> 'v) \<Rightarrow> ('k, 'v) cached_store \<Rightarrow> ('k, 'v) cache_event list \<Rightarrow>
    ('k, 'v) cached_store \<Rightarrow> bool" for dump where
  run_start: "cache_run dump s [] s"
| run_commit: "cache_run dump s es s1 \<Longrightarrow> Ledger_commit e t s1 = Some s2 \<Longrightarrow>
    cache_run dump s (es @ [ECommit t]) s2"
| run_flush: "cache_run dump s es s1 \<Longrightarrow> MemoryCache_flush ok dump s1 = Some s2 \<Longrightarrow>
    cache_run dump s (es @ [EFlush ok]) s2"
| run_rebuild: "cache_run dump s es s1 \<Longrightarrow> MemoryCache_rebuild ok dump s1 = Some s2 \<Longrightarrow>
    cache_run dump s (es @ [ERebuild ok]) s2"

primrec writes_succeed :: "('k, 'v) cache_event \<Rightarrow> bool" where
  "writes_succeed (ECommit t) \<longleftrightarrow> True"
| "writes_succeed (EFlush ok) \<longleftrightarrow> ok = all_ok"
| "writes_succeed (ERebuild ok) \<longleftrightarrow> ok = all_ok"

definition apply_event :: "('k \<rightharpoonup> 'v) \<Rightarrow> ('k, 'v) cache_event \<Rightarrow> ('k \<rightharpoonup> 'v)" where
  "apply_event m ev = (case ev of ECommit t \<Rightarrow> over t m | _ \<Rightarrow> m)"

lemma flush_keeps:
  fixes s :: "('k, 'v) cached_store" and dump :: "'v \<Rightarrow> 'v"
  assumes "mc_inv (fst s)" "\<And>v. dump (dump v) = dump v" "MemoryCache_flush all_ok dump s = Some s'"
  shows "mc_inv (fst s')" "live (fst s') = 1" "dump_rel dump (mc_view s) (mc_view s')"
proof -
  obtain mc st where s: "s = (mc, st)" by (cases s)
  with assms(1) have "mc_inv mc" by simp
  then obtain mc' st' where r: "MemoryCache_flush all_ok dump (mc, st) = Some (mc', st')" "mc_inv mc'" "live mc' = 1"
    "dump_rel dump (mc_view (mc, st)) (mc_view (mc', st'))"
    using MemoryCache_flush_ends [OF _ assms(2)] by blast
  then have "s' = (mc', st')" using assms(3) s by simp
  then show "mc_inv (fst s')" "live (fst s') = 1" "dump_rel dump (mc_view s) (mc_view s')"
    using r s by simp_all
qed

lemma rebuild_keeps:
  fixes s :: "('k, 'v) cached_store" and dump :: "'v \<Rightarrow> 'v"
  assumes "mc_inv (fst s)" "\<And>v. dump (dump v) = dump v" "MemoryCache_rebuild all_ok dump s = Some s'"
  shows "mc_inv (fst s')" "mc_view s' = snd s'" "dump_rel dump (mc_view s) (snd s')"
proof -
  obtain mc st where s: "s = (mc, st)" by (cases s)
  with assms(1) have "mc_inv mc" by simp
  then obtain mc' st' where r: "MemoryCache_rebuild all_ok dump (mc, st) = Some (mc', st')" "mc_inv mc'"
    "mc_overlay mc' = Map.empty" "dump_rel dump (mc_view (mc, st)) st'"
    using MemoryCache_rebuild_ends [OF _ assms(2)] by blast
  then have "s' = (mc', st')" using assms(3) s by simp
  then show "mc_inv (fst s')" "mc_view s' = snd s'" "dump_rel dump (mc_view s) (snd s')"
    using r s by (simp_all add: mc_view_def)
qed

lemma NewMemoryCache_inv: "mc_inv (NewMemoryCache :: ('k, 'v) memory_cache)"
proof -
  let ?mc = "NewMemoryCache :: ('k, 'v) memory_cache"
  have c: "mc_caches ?mc = replicate 6 Map.empty" "mc_cacheCount ?mc = 6"
    "mc_writeIndex ?mc = 1" "mc_readIndex ?mc = 0"
    by (simp_all add: NewMemoryCache_def)
  have "mc_caches ?mc ! nat (ring_at ?mc j) = Map.empty" for j
  proof -
    have "nat (ring_at ?mc j) < 6" using ring_at_range [of ?mc j] c(2) by (simp add: nat_less_iff)
    then show ?thesis unfolding c(1) by (rule nth_replicate)
  qed
  then show ?thesis unfolding mc_inv_def by (simp add: c)
qed

lemma NewMemoryCache_overlay: "mc_overlay (NewMemoryCache :: ('k, 'v) memory_cache) = Map.empty"
  by (simp add: mc_overlay_def NewMemoryCache_def live_def ring_at_def)

lemma live_1_room:
  assumes "mc_inv mc" "live mc = 1"
  shows "next_index mc (mc_writeIndex mc) \<noteq> mc_readIndex mc"
proof
  assume e: "next_index mc (mc_writeIndex mc) = mc_readIndex mc"
  note i = mc_invD [OF assms(1)]
  have "mc_readIndex mc = (mc_writeIndex mc - 1) mod mc_cacheCount mc"
    using live_bounds(3) [OF assms(1)] assms(2) by (simp add: ring_at_def)
  moreover have "mc_readIndex mc = (mc_writeIndex mc + 1) mod mc_cacheCount mc"
    using e i by (simp add: next_index_mod)
  ultimately have "mc_cacheCount mc dvd (mc_writeIndex mc + 1) - (mc_writeIndex mc - 1)"
    by (metis mod_eq_dvd_iff)
  then have "mc_cacheCount mc \<le> 2" by (intro zdvd_imp_le) simp_all
  with i(1) show False by simp
qed

text \<open>C36: Whatever the order of batches, flusher rounds and flush calls, as long as every write of the
  flusher to the store succeeds, what readers of the ledger see is the initial store with exactly the
  batches applied in commit order, each value as the batch wrote it or in its serialised form.\<close>

theorem cache_run_view:
  fixes st :: "'k \<rightharpoonup> 'v"
  assumes "cache_run dump (NewMemoryCache, st) es s" "\<forall>ev \<in> set es. writes_succeed ev"
    and "\<And>v. dump (dump v) = dump v"
  shows "mc_inv (fst s) \<and> dump_rel dump (foldl apply_event st es) (mc_view s)"
  using assms(1,2)
proof (induction "(NewMemoryCache, st) :: ('k, 'v) cached_store" es s)
  case run_start
  show ?case by (simp add: NewMemoryCache_inv NewMemoryCache_overlay mc_view_def)
next
  case (run_commit es s1 e t s2)
  then show ?case
    using mcs.commit_keeps [of s1 e t s2] mcs.commit_over [of s1 e t s2]
    by (auto simp: apply_event_def intro: dump_rel_over)
next
  case (run_flush es s1 ok s2)
  then show ?case using flush_keeps [OF _ assms(3), of s1 s2] dump_rel_trans [OF assms(3)]
    by (auto simp: apply_event_def)
next
  case (run_rebuild es s1 ok s2)
  then show ?case using rebuild_keeps [OF _ assms(3), of s1 s2] dump_rel_trans [OF assms(3)]
    by (auto simp: apply_event_def)
qed

theorem cache_run_view_witness:
  "\<exists>s. cache_run (\<lambda>v. v) (NewMemoryCache, [2 \<mapsto> 7 :: nat]) [ECommit [1 \<mapsto> Some 5, 2 \<mapsto> None], ERebuild all_ok] s \<and>
     mc_view s (1 :: nat) = Some 5 \<and> mc_view s 2 = None"
proof -
  let ?t = "[1 \<mapsto> Some 5, 2 \<mapsto> None] :: (nat, nat) overlay" and ?st = "[2 \<mapsto> 7] :: nat \<rightharpoonup> nat"
  let ?mc = "put_all ?t NewMemoryCache"
  have c: "Ledger_commit False ?t (NewMemoryCache, ?st) = Some (?mc, ?st)"
    by (simp add: Ledger_commit_def BatchUpdate_commit_def GetCache_def needsFlush_def)
  have "mc_inv ?mc" by (rule put_all_inv [OF NewMemoryCache_inv])
  then obtain mc' st' where r: "MemoryCache_rebuild all_ok (\<lambda>v. v) (?mc, ?st) = Some (mc', st')"
    using MemoryCache_rebuild_ends [of ?mc "\<lambda>v. v"] by blast
  have run: "cache_run (\<lambda>v. v) (NewMemoryCache, ?st) ([] @ [ECommit ?t]) (?mc, ?st)"
    by (rule run_commit [OF run_start c])
  have run2: "cache_run (\<lambda>v. v) (NewMemoryCache, ?st) (([] @ [ECommit ?t]) @ [ERebuild all_ok]) (mc', st')"
    by (rule run_rebuild [OF run r])
  have "dump_rel (\<lambda>v. v) (over ?t ?st) (mc_view (mc', st'))"
    using cache_run_view [OF run2] by (simp add: apply_event_def)
  then have "mc_view (mc', st') = over ?t ?st" unfolding dump_rel_def by (simp add: option.map_ident fun_eq_iff)
  then show ?thesis using run2 by (intro exI [of _ "(mc', st')"]) (simp add: over_def)
qed

section \<open>Rounds with failing writes\<close>

text \<open>The indices alone: what the flusher needs to end, whether or not its writes succeed.\<close>

definition ring_ok :: "('k, 'v) memory_cache \<Rightarrow> bool" where
  "ring_ok mc \<longleftrightarrow> 3 \<le> mc_cacheCount mc \<and> int (length (mc_caches mc)) = mc_cacheCount mc \<and>
     0 \<le> mc_writeIndex mc \<and> mc_writeIndex mc < mc_cacheCount mc \<and>
     0 \<le> mc_readIndex mc \<and> mc_readIndex mc < mc_cacheCount mc \<and> mc_writeIndex mc \<noteq> mc_readIndex mc"

lemma mc_inv_ring_ok: "mc_inv mc \<Longrightarrow> ring_ok mc"
  by (simp add: mc_inv_def ring_ok_def)

definition indices :: "('k, 'v) memory_cache \<Rightarrow> nat \<times> int \<times> int \<times> int" where
  "indices mc = (length (mc_caches mc), mc_cacheCount mc, mc_writeIndex mc, mc_readIndex mc)"

lemma ring_ok_indices: "indices mc = indices mc' \<Longrightarrow> ring_ok mc \<longleftrightarrow> ring_ok mc'"
  by (simp add: indices_def ring_ok_def)

lemma flush_one_indices:
  "indices (fst s) = indices (fst s') \<Longrightarrow>
    indices (fst (flush_one ok dump i s)) = indices (fst (flush_one ok' dump' i s'))"
  by (cases s; cases s') (simp add: flush_one_def indices_def split: prod.splits)

lemma flush_loop_indices:
  fixes s s' :: "('k, 'v) cached_store"
  assumes "indices (fst s) = indices (fst s')"
  shows "map_option (indices \<circ> fst) (flush_loop n ok dump i s) = map_option (indices \<circ> fst) (flush_loop n ok' dump' i s')"
  using assms
proof (induction n arbitrary: i s s')
  case 0
  then show ?case by (subst (1 2) flush_loop.simps) (simp add: indices_def)
next
  case (Suc n)
  have "mc_writeIndex (fst s) = mc_writeIndex (fst s')" "next_index (fst s) i = next_index (fst s') i"
    using Suc.prems by (simp_all add: indices_def next_index_def)
  then show ?case using Suc.IH [OF flush_one_indices [OF Suc.prems]] Suc.prems
    by (subst (1 2) flush_loop.simps) (simp add: comp_def)
qed

text \<open>The same ring with empty caches.\<close>

definition emptied :: "('k, 'v) memory_cache \<Rightarrow> ('k, 'v) memory_cache" where
  "emptied mc = mc\<lparr>mc_caches := replicate (length (mc_caches mc)) Map.empty\<rparr>"

lemma emptied_inv:
  assumes "ring_ok mc"
  shows "mc_inv (emptied mc)"
proof -
  have "nat (ring_at (emptied mc) j) < length (mc_caches mc)" for j
    using assms ring_at_range [of "emptied mc" j] by (simp add: emptied_def ring_ok_def nat_less_iff)
  then show ?thesis using assms unfolding mc_inv_def ring_ok_def by (simp add: emptied_def)
qed

lemma flush_round:
  fixes s :: "('k, 'v) cached_store" and dump :: "'v \<Rightarrow> 'v"
  assumes "ring_ok (fst s)"
  obtains s' where "MemoryCache_flush ok dump s = Some s'" "ring_ok (fst s')"
    "next_index (fst s') (mc_writeIndex (fst s')) \<noteq> mc_readIndex (fst s')"
proof -
  obtain mc st where s: "s = (mc, st)" by (cases s)
  have ix: "indices (emptied mc) = indices mc" by (simp add: indices_def emptied_def)
  have inv: "mc_inv (emptied mc)" using assms s by (simp add: emptied_inv)
  obtain mc1 st1 where r: "MemoryCache_flush all_ok (\<lambda>v. v) (emptied mc, st) = Some (mc1, st1)" "mc_inv mc1" "live mc1 = 1"
    using MemoryCache_flush_ends [OF inv, of "\<lambda>v. v"] by blast
  have e: "nat (mc_cacheCount (emptied mc)) = nat (mc_cacheCount mc)"
    "next_index (emptied mc) (mc_readIndex (emptied mc)) = next_index mc (mc_readIndex mc)"
    by (simp_all add: emptied_def next_index_def)
  have "map_option (indices \<circ> fst) (MemoryCache_flush ok dump (mc, st)) = Some (indices mc1)"
    using flush_loop_indices [of "(mc, st)" "(emptied mc, st)" "nat (mc_cacheCount mc)" ok dump _ all_ok "\<lambda>v. v"] r(1)
    unfolding MemoryCache_flush_def fst_conv e by (simp add: ix)
  then obtain s' where s': "MemoryCache_flush ok dump s = Some s'" and i: "indices (fst s') = indices mc1"
    using s by auto
  have "ring_ok (fst s')" using ring_ok_indices [OF i] mc_inv_ring_ok [OF r(2)] by simp
  moreover have "next_index (fst s') (mc_writeIndex (fst s')) \<noteq> mc_readIndex (fst s')"
    using live_1_room [OF r(2,3)] i by (simp add: indices_def next_index_def)
  ultimately show thesis using that s' by blast
qed

text \<open>C37: A flusher round always ends, whether or not its writes succeed, and the next batch is never
  blocked after it.\<close>

theorem flush_unblocks:
  fixes s :: "('k, 'v) cached_store" and dump :: "'v \<Rightarrow> 'v"
  assumes "ring_ok (fst s)"
  shows "\<exists>s'. MemoryCache_flush ok dump s = Some s' \<and> ring_ok (fst s') \<and> Ledger_commit e t s' \<noteq> None"
proof -
  obtain s' where s': "MemoryCache_flush ok dump s = Some s'" "ring_ok (fst s')"
    "next_index (fst s') (mc_writeIndex (fst s')) \<noteq> mc_readIndex (fst s')"
    using flush_round [OF assms] by blast
  then have "GetCache e (fst s') \<noteq> None" by (simp add: GetCache_def Let_def)
  then show ?thesis using s' by (auto simp: Ledger_commit_def BatchUpdate_commit_def)
qed

theorem flush_unblocks_witness:
  "\<exists>s'. MemoryCache_flush (\<lambda>i. i = 2) (\<lambda>v. v) (put_all [1 \<mapsto> Some 5] NewMemoryCache, Map.empty :: nat \<rightharpoonup> nat) = Some s' \<and>
     Ledger_commit True [1 \<mapsto> None] s' \<noteq> None"
proof -
  have "ring_ok (fst (put_all [1 \<mapsto> Some 5] NewMemoryCache, Map.empty :: nat \<rightharpoonup> nat))"
    by (simp add: mc_inv_ring_ok put_all_inv [OF NewMemoryCache_inv])
  from flush_unblocks [OF this] show ?thesis by blast
qed

text \<open>When the writes of a round fail, the store stays as it was while the read index advances: of
  everything cached readers keep only the write cache, and the other entries are lost to them.\<close>

lemma next_ring:
  assumes "mc_inv mc"
  shows "next_index mc (ring_at mc (Suc j)) = ring_at mc j"
proof -
  have p: "0 < mc_cacheCount mc" using mc_invD(1) [OF assms] by linarith
  have "next_index mc (ring_at mc (Suc j)) = ((mc_writeIndex mc - int (Suc j)) mod mc_cacheCount mc + 1) mod mc_cacheCount mc"
    unfolding ring_at_def by (rule next_index_mod) (use p in simp_all)
  also have "\<dots> = (mc_writeIndex mc - int (Suc j) + 1) mod mc_cacheCount mc" by (rule mod_add_left_eq)
  finally show ?thesis by (simp add: ring_at_def algebra_simps)
qed

lemma flush_one_failed:
  "flush_one (\<lambda>_. False) dump i (mc, st) = (mc\<lparr>mc_readIndex := i\<rparr>, st)"
  by (simp add: flush_one_def Cache_flush_def)

lemma flush_loop_failed:
  assumes "mc_inv mc" "j < length (mc_caches mc)" "j \<le> n"
  shows "flush_loop n (\<lambda>_. False) dump (ring_at mc j) (mc\<lparr>mc_readIndex := ring_at mc (Suc j)\<rparr>, st) =
    Some (mc\<lparr>mc_readIndex := ring_at mc 1\<rparr>, st)"
  using assms(2,3)
proof (induction n arbitrary: j)
  case 0
  then show ?case using ring_at_0 [OF assms(1)] by (subst flush_loop.simps) simp
next
  case (Suc n)
  show ?case
  proof (cases j)
    case 0
    then show ?thesis using ring_at_0 [OF assms(1)] by (subst flush_loop.simps) simp
  next
    case (Suc l)
    have "ring_at mc j \<noteq> mc_writeIndex mc"
      using ring_at_inj [OF assms(1) Suc.prems(1), of 0] Suc ring_at_0 [OF assms(1)] Suc.prems(1) by fastforce
    moreover have "next_index (mc\<lparr>mc_readIndex := r\<rparr>) (ring_at mc j) = ring_at mc l" for r
      using next_ring [OF assms(1), of l] Suc by (simp add: next_index_def)
    ultimately show ?thesis using Suc.IH [of l] Suc.prems Suc
      by (subst flush_loop.simps) (simp add: flush_one_failed)
  qed
qed

theorem failed_flush_loses:
  fixes st :: "'k \<rightharpoonup> 'v"
  assumes "mc_inv mc"
  shows "\<exists>s'. MemoryCache_flush (\<lambda>_. False) dump (mc, st) = Some s' \<and> snd s' = st \<and>
    GetObject None s' k = found_of (over (mc_caches mc ! nat (mc_writeIndex mc)) st k)"
proof -
  note l = live_bounds [OF assms] and i = mc_invD [OF assms]
  let ?mc = "mc\<lparr>mc_readIndex := ring_at mc 1\<rparr>"
  have e: "mc\<lparr>mc_readIndex := ring_at mc (Suc (live mc - 1))\<rparr> = mc" using l by simp
  have f: "MemoryCache_flush (\<lambda>_. False) dump (mc, st) = Some (?mc, st)"
    using flush_loop_failed [OF assms, of "live mc - 1" "nat (mc_cacheCount mc)" dump st] l i
    unfolding e by (simp add: MemoryCache_flush_def flush_index [OF assms])
  have ne: "mc_writeIndex mc \<noteq> ring_at mc 1"
    using ring_at_inj [OF assms, of 0 1] ring_at_0 [OF assms] l by force
  have p: "prev_index ?mc (mc_writeIndex mc) = ring_at mc 1"
    using ring_at_Suc [OF assms, of 0] ring_at_0 [OF assms] by (simp add: prev_index_def Let_def split: if_splits)
  obtain n where n: "nat (mc_cacheCount mc) = Suc n" using i(1) by (cases "nat (mc_cacheCount mc)") auto
  have "get_loop n ?mc (ring_at mc 1) k = KeyNotInCache" by (subst get_loop.simps) simp
  then have "MemoryCache_Get ?mc k = Cache_Get (mc_caches mc ! nat (mc_writeIndex mc)) k"
    using ne p by (simp add: MemoryCache_Get_def n, subst get_loop.simps)
      (simp add: Cache_Get_def split: option.split)
  then have "GetObject None (?mc, st) k = found_of (over (mc_caches mc ! nat (mc_writeIndex mc)) st k)"
    by (auto simp: GetObject_def getFromCache_def Cache_Get_def over_def split: option.splits)
  then show ?thesis using f by auto
qed

end
