(* ===== verification/Ledger_Store.thy ===== *)
theory Ledger_Store
  imports Mem_Cache Storage_Key
begin

text \<open>The tables of the ledger and their accessors (\<open>ledger/ledger_account.go\<close>,
  \<open>ledger_block.go\<close>, \<open>ledger_pending.go\<close>, \<open>ledger_pending_cache.go\<close>, \<open>ledger_frontier.go\<close>,
  \<open>ledger_represention.go\<close>, \<open>ledger_privacy.go\<close>, \<open>ledger_smartblock.go\<close>).

  Confirmed tables live behind the memory cache and share one typed key space; the unconfirmed
  tables (\<open>KeyPrefixBlockCache\<close>, \<open>KeyPrefixBlockCacheAccount\<close>), the private payloads and the smart
  contract blocks are written to the store directly and are fields of their own. Values are the
  objects the code caches; what the store holds has been through serialisation (\<open>val_dump\<close>).
  Functions that run inside a batch are state transformers over the batch (\<open>tx\<close>).\<close>

section \<open>Values, errors and state\<close>

datatype val = VBlock state_block | VAccount account_meta | VPending pending_info | VHash hash
  | VBenefit benefit | VToken token_meta | VBytes bytes

definition Benefit_Unmarshal :: "benefit \<Rightarrow> benefit" where
  "Benefit_Unmarshal b = Benefit_Clone b"

fun val_dump :: "val \<Rightarrow> val" where
  "val_dump (VBlock b) = VBlock (StateBlock_Unmarshal b)"
| "val_dump (VAccount a) = VAccount (AccountMeta_Unmarshal a)"
| "val_dump (VPending p) = VPending (PendingInfo_Unmarshal p)"
| "val_dump (VHash h) = VHash h"
| "val_dump (VBenefit b) = VBenefit (Benefit_Unmarshal b)"
| "val_dump (VToken t) = VToken (TokenMeta_Clone t)"
| "val_dump (VBytes bs) = VBytes bs"

text \<open>Errors the callers tell apart, and \<open>ErrMsg\<close> for the ones that are only passed on. \<open>Panic\<close> is a
  failing type assertion and \<open>Diverges\<close> a lookup that does not return.\<close>

datatype lerr = ErrAccountExists | ErrAccountNotFound | ErrTokenExists | ErrTokenNotFound
  | ErrBlockExists | ErrBlockNotFound | ErrPendingNotFound | ErrFrontierNotFound
  | ErrRepresentationNotFound | ErrLinkNotFound | ErrMsg string | Panic | Diverges

datatype event = EventAddRelation hash | EventDeleteRelation hash | EventRollback hash | EventBlockConfirmed hash

record ledger =
  l_cache :: "(key, val) memory_cache"
  l_store :: "key \<rightharpoonup> val"
  l_blockCache :: "(hash \<times> state_block) list"
  l_accountCache :: "address \<rightharpoonup> account_meta"
  l_payload :: "hash \<rightharpoonup> bytes"
  l_smartBlock :: "hash \<Rightarrow> bool"
  l_rcache :: "hash \<rightharpoonup> int"
  l_verified :: "hash \<Rightarrow> bool"
  l_povLatest :: "u64 option"
  l_povHeader :: "u64 \<Rightarrow> bool"
  l_events :: "event list"

abbreviation l_db :: "ledger \<Rightarrow> (key, val) cached_store" where
  "l_db l \<equiv> (l_cache l, l_store l)"

text \<open>The configuration: hash functions, signatures, the chain token, the genesis hashes, the address of
  the mintage contract, and Unicode case folding on byte strings (\<open>bytes.EqualFold\<close>).\<close>

record config =
  cf_H :: "bytes \<Rightarrow> hash"
  cf_H64 :: "bytes \<Rightarrow> bytes"
  cf_Verify :: "address \<Rightarrow> bytes \<Rightarrow> 512 word \<Rightarrow> bool"
  cf_ChainToken :: hash
  cf_genesisMintageHash :: hash
  cf_genesisBlockHash :: hash
  cf_gasMintageHash :: hash
  cf_gasBlockHash :: hash
  cf_MintageAddress :: address
  cf_EqualFold :: "bytes \<Rightarrow> bytes \<Rightarrow> bool"

definition IsGenesisBlock :: "config \<Rightarrow> state_block \<Rightarrow> bool" where
  "IsGenesisBlock E b \<longleftrightarrow> (let h = GetHash (cf_H E) b in h = cf_genesisMintageHash E \<or>
     h = cf_genesisBlockHash E \<or> h = cf_gasMintageHash E \<or> h = cf_gasBlockHash E)"

text \<open>A batch in progress: the temporary cache, and what the batch changes at once and for good.\<close>

record tx =
  t_cache :: "(key, val) overlay"
  t_rcache :: "hash \<rightharpoonup> int"
  t_events :: "event list"

type_synonym 'a batch = "(lerr, tx, 'a) stm"

definition cput :: "key \<Rightarrow> val \<Rightarrow> unit batch" where
  "cput k v = modifyM (\<lambda>t. t\<lparr>t_cache := Cache_Put k v (t_cache t)\<rparr>)"

definition cdel :: "key \<Rightarrow> unit batch" where
  "cdel k = modifyM (\<lambda>t. t\<lparr>t_cache := Cache_Delete k (t_cache t)\<rparr>)"

definition publish :: "event \<Rightarrow> unit batch" where
  "publish ev = modifyM (\<lambda>t. t\<lparr>t_events := t_events t @ [ev]\<rparr>)"

text \<open>The pattern of every confirmed getter: the caches hold the object, the store its bytes.\<close>

definition read_cached :: "lerr \<Rightarrow> (val \<Rightarrow> 'a option) \<Rightarrow> (val \<Rightarrow> 'a option) \<Rightarrow> ledger \<Rightarrow>
    (key, val) overlay option \<Rightarrow> key \<Rightarrow> lerr + 'a" where
  "read_cached nf of_object of_bytes l c k =
     (case getFromCache c (l_db l) k of
        Found v \<Rightarrow> (case of_object v of Some x \<Rightarrow> Inr x | None \<Rightarrow> Inl Panic)
      | KeyDeleted \<Rightarrow> Inl nf
      | GetDiverges \<Rightarrow> Inl Diverges
      | KeyNotInCache \<Rightarrow>
          (case l_store l k of
             None \<Rightarrow> Inl nf
           | Some v \<Rightarrow> (case of_bytes v of Some x \<Rightarrow> Inr x | None \<Rightarrow> Inl (ErrMsg ''deserialize''))))"

definition has_cached :: "ledger \<Rightarrow> key \<Rightarrow> lerr + bool" where
  "has_cached l k =
     (case getFromCache None (l_db l) k of
        Found v \<Rightarrow> Inr True
      | KeyDeleted \<Rightarrow> Inr False
      | GetDiverges \<Rightarrow> Inl Diverges
      | KeyNotInCache \<Rightarrow> Inr (l_store l k \<noteq> None))"

section \<open>Private payloads and smart contract blocks\<close>

definition AddBlockPrivatePayload :: "hash \<Rightarrow> bytes \<Rightarrow> ledger \<Rightarrow> ledger" where
  "AddBlockPrivatePayload h payload l =
     l\<lparr>l_payload := (l_payload l)(h \<mapsto> (if payload = [] then [1] else payload))\<rparr>"

definition DeleteBlockPrivatePayload :: "hash \<Rightarrow> ledger \<Rightarrow> ledger" where
  "DeleteBlockPrivatePayload h l = l\<lparr>l_payload := (l_payload l)(h := None)\<rparr>"

definition GetBlockPrivatePayload :: "ledger \<Rightarrow> hash \<Rightarrow> lerr + bytes" where
  "GetBlockPrivatePayload l h =
     (case l_payload l h of
        None \<Rightarrow> Inl (ErrMsg ''block private payload not found'')
      | Some pl \<Rightarrow> Inr (if length pl = 1 then [] else pl))"

definition HasSmartContractBlock :: "ledger \<Rightarrow> hash \<Rightarrow> bool" where
  "HasSmartContractBlock l h = l_smartBlock l h"

section \<open>Blocks\<close>

fun block_of :: "val \<Rightarrow> state_block option" where
  "block_of (VBlock b) = Some b" | "block_of _ = None"

fun hash_of :: "val \<Rightarrow> hash option" where
  "hash_of (VHash h) = Some h" | "hash_of _ = None"

definition with_payload :: "ledger \<Rightarrow> hash \<Rightarrow> state_block \<Rightarrow> state_block" where
  "with_payload l h b =
     (if IsPrivate b
      then case GetBlockPrivatePayload l h of Inr pl \<Rightarrow> SetPrivatePayload pl b | Inl _ \<Rightarrow> b
      else b)"

definition GetStateBlockConfirmed :: "ledger \<Rightarrow> (key, val) overlay option \<Rightarrow> hash \<Rightarrow> lerr + state_block" where
  "GetStateBlockConfirmed l c h =
     read_cached ErrBlockNotFound (\<lambda>v. map_option StateBlock_Clone (block_of v))
       (\<lambda>v. map_option (with_payload l h) (block_of v)) l c (KBlock h)"

definition HasStateBlockConfirmed :: "ledger \<Rightarrow> hash \<Rightarrow> lerr + bool" where
  "HasStateBlockConfirmed l h = has_cached l (KBlock h)"

definition GetBlockCache :: "ledger \<Rightarrow> hash \<Rightarrow> lerr + state_block" where
  "GetBlockCache l h =
     (case map_of (l_blockCache l) h of None \<Rightarrow> Inl ErrBlockNotFound | Some b \<Rightarrow> Inr b)"

definition HasBlockCache :: "ledger \<Rightarrow> hash \<Rightarrow> bool" where
  "HasBlockCache l h \<longleftrightarrow> map_of (l_blockCache l) h \<noteq> None"

definition GetStateBlock :: "ledger \<Rightarrow> (key, val) overlay option \<Rightarrow> hash \<Rightarrow> lerr + state_block" where
  "GetStateBlock l c h =
     (case GetBlockCache l h of Inr b \<Rightarrow> Inr b | Inl _ \<Rightarrow> GetStateBlockConfirmed l c h)"

definition HasStateBlock :: "ledger \<Rightarrow> hash \<Rightarrow> lerr + bool" where
  "HasStateBlock l h = (if HasBlockCache l h then Inr True else HasStateBlockConfirmed l h)"

definition GetBlockChild :: "ledger \<Rightarrow> (key, val) overlay option \<Rightarrow> hash \<Rightarrow> lerr + hash" where
  "GetBlockChild l c h = read_cached (ErrMsg ''block child not found'') hash_of hash_of l c (KChild h)"

definition GetBlockLink :: "ledger \<Rightarrow> (key, val) overlay option \<Rightarrow> hash \<Rightarrow> lerr + hash" where
  "GetBlockLink l c h = read_cached (ErrMsg ''block link not found'') hash_of hash_of l c (KLink h)"

definition setBlockChild :: "config \<Rightarrow> ledger \<Rightarrow> state_block \<Rightarrow> unit batch" where
  "setBlockChild E l b =
     (let pHash = Parent b; cHash = GetHash (cf_H E) b
      in if \<not> IsGenesisBlock E b \<and> pHash \<noteq> ZeroHash \<and> \<not> IsOpen b
         then if \<not> HasBlockCache l pHash \<and> HasStateBlockConfirmed l pHash \<noteq> Inr True
              then throwM (ErrMsg ''can not find parent'')
              else (\<lambda>t. case GetBlockChild l (Some (t_cache t)) pHash of
                     Inr _ \<Rightarrow> throwM (ErrMsg ''already have child'') t
                   | Inl _ \<Rightarrow> cput (KChild pHash) (VHash cHash) t)
         else returnM ())"

definition setBlockLink :: "config \<Rightarrow> state_block \<Rightarrow> unit batch" where
  "setBlockLink E b =
     (if sb_Type b = Open \<or> sb_Type b = Receive \<or> sb_Type b = ContractReward
      then cput (KLink (sb_Link b)) (VHash (GetHash (cf_H E) b))
      else returnM ())"

definition setStateBlock :: "config \<Rightarrow> ledger \<Rightarrow> state_block \<Rightarrow> unit batch" where
  "setStateBlock E l b =
     (if CheckPrivateRecvRsp b then throwM (ErrMsg ''private does not got recv rsp'')
      else bindM (setBlockChild E l b) (\<lambda>_. bindM (setBlockLink E b)
        (\<lambda>_. cput (KBlock (GetHash (cf_H E) b)) (VBlock (StateBlock_Clone b)))))"

definition UpdateStateBlock :: "config \<Rightarrow> ledger \<Rightarrow> state_block \<Rightarrow> unit batch" where
  "UpdateStateBlock E l b = setStateBlock E l b"

definition deleteBlockChild :: "state_block \<Rightarrow> unit batch" where
  "deleteBlockChild b = (if Parent b \<noteq> ZeroHash then cdel (KChild (Parent b)) else returnM ())"

definition deleteBlockLink :: "state_block \<Rightarrow> unit batch" where
  "deleteBlockLink b = cdel (KLink (sb_Link b))"

definition DeleteStateBlock :: "ledger \<Rightarrow> hash \<Rightarrow> unit batch" where
  "DeleteStateBlock l h =
     (case GetStateBlockConfirmed l None h of
        Inl _ \<Rightarrow> throwM (ErrMsg ''get stateblock error'')
      | Inr blk \<Rightarrow> bindM (cdel (KBlock h)) (\<lambda>_. bindM (deleteBlockChild blk)
          (\<lambda>_. bindM (deleteBlockLink blk) (\<lambda>_. publish (EventDeleteRelation h)))))"

section \<open>Accounts\<close>

fun account_of :: "val \<Rightarrow> account_meta option" where
  "account_of (VAccount a) = Some a" | "account_of _ = None"

definition GetAccountMetaConfirmed :: "ledger \<Rightarrow> (key, val) overlay option \<Rightarrow> address \<Rightarrow> lerr + account_meta" where
  "GetAccountMetaConfirmed l c a =
     read_cached ErrAccountNotFound (\<lambda>v. map_option AccountMeta_Clone (account_of v)) account_of l c (KAccount a)"

definition HasAccountMetaConfirmed :: "ledger \<Rightarrow> address \<Rightarrow> lerr + bool" where
  "HasAccountMetaConfirmed l a = has_cached l (KAccount a)"

definition UpdateAccountMeta :: "account_meta \<Rightarrow> unit batch" where
  "UpdateAccountMeta v = cput (KAccount (am_Address v)) (VAccount (AccountMeta_Clone v))"

definition AddAccountMeta :: "ledger \<Rightarrow> account_meta \<Rightarrow> unit batch" where
  "AddAccountMeta l v =
     (case GetAccountMetaConfirmed l None (am_Address v) of
        Inr _ \<Rightarrow> throwM ErrAccountExists
      | Inl _ \<Rightarrow> cput (KAccount (am_Address v)) (VAccount (AccountMeta_Clone v)))"

definition DeleteAccountMeta :: "address \<Rightarrow> unit batch" where
  "DeleteAccountMeta a = cdel (KAccount a)"

definition GetTokenMetaConfirmed :: "ledger \<Rightarrow> address \<Rightarrow> hash \<Rightarrow> lerr + token_meta" where
  "GetTokenMetaConfirmed l a tt =
     (case GetAccountMetaConfirmed l None a of
        Inl e \<Rightarrow> Inl e
      | Inr am \<Rightarrow> (case AccountMeta_Token am tt of None \<Rightarrow> Inl ErrTokenNotFound | Some tm \<Rightarrow> Inr tm))"

definition GetAccountMeteCache :: "ledger \<Rightarrow> address \<Rightarrow> lerr + account_meta" where
  "GetAccountMeteCache l a =
     (case l_accountCache l a of None \<Rightarrow> Inl ErrAccountNotFound | Some am \<Rightarrow> Inr am)"

definition HasAccountMetaCache :: "ledger \<Rightarrow> address \<Rightarrow> bool" where
  "HasAccountMetaCache l a \<longleftrightarrow> l_accountCache l a \<noteq> None"

text \<open>Changing a token through the pointer \<open>Token\<close> returns changes the first token of that type.\<close>

fun upd_token :: "hash \<Rightarrow> (token_meta \<Rightarrow> token_meta) \<Rightarrow> token_meta list \<Rightarrow> token_meta list" where
  "upd_token tt f [] = []"
| "upd_token tt f (t # ts) = (if tm_Type t = tt then f t # ts else t # upd_token tt f ts)"

text \<open>One step of the merge in \<open>GetAccountMeta\<close>: the confirmed token \<open>v\<close> replaces an unconfirmed one
  that is behind, or is appended.\<close>

definition merge_token :: "config \<Rightarrow> account_meta \<Rightarrow> account_meta \<Rightarrow> token_meta \<Rightarrow> account_meta" where
  "merge_token E meta am v =
     (case AccountMeta_Token am (tm_Type v) of
        Some temp \<Rightarrow>
          (if tm_BlockCount temp < tm_BlockCount v
           then (if tm_Type temp = cf_ChainToken E
                 then am\<lparr>am_CoinBalance := Some (AccountMeta_GetBalance meta),
                         am_CoinOracle := Some (AccountMeta_GetOracle meta),
                         am_CoinNetwork := Some (AccountMeta_GetNetwork meta),
                         am_CoinVote := Some (AccountMeta_GetVote meta),
                         am_CoinStorage := Some (AccountMeta_GetStorage meta)\<rparr>
                 else am)
                \<lparr>am_Tokens := upd_token (tm_Type v) (\<lambda>_. v) (am_Tokens am)\<rparr>
           else am)
      | None \<Rightarrow> am\<lparr>am_Tokens := am_Tokens am @ [v]\<rparr>)"

definition GetAccountMeta :: "config \<Rightarrow> ledger \<Rightarrow> (key, val) overlay option \<Rightarrow> address \<Rightarrow> lerr + account_meta" where
  "GetAccountMeta E l c a =
     (case (GetAccountMeteCache l a, GetAccountMetaConfirmed l c a) of
        (Inr am, Inl _) \<Rightarrow> Inr am
      | (Inl _, Inr meta) \<Rightarrow> Inr meta
      | (Inr am, Inr meta) \<Rightarrow> Inr (foldl (merge_token E meta) am (am_Tokens meta))
      | (Inl _, Inl _) \<Rightarrow> Inl ErrAccountNotFound)"

definition GetTokenMeta :: "config \<Rightarrow> ledger \<Rightarrow> address \<Rightarrow> hash \<Rightarrow> lerr + token_meta" where
  "GetTokenMeta E l a tt =
     (case GetAccountMeta E l None a of
        Inl e \<Rightarrow> Inl e
      | Inr am \<Rightarrow> (case AccountMeta_Token am tt of None \<Rightarrow> Inl ErrTokenNotFound | Some tm \<Rightarrow> Inr tm))"

definition HasTokenMeta :: "config \<Rightarrow> ledger \<Rightarrow> address \<Rightarrow> hash \<Rightarrow> lerr + bool" where
  "HasTokenMeta E l a tt =
     (case GetAccountMeta E l None a of
        Inl e \<Rightarrow> (if e = ErrAccountNotFound then Inr False else Inl e)
      | Inr am \<Rightarrow> Inr (\<exists>t \<in> set (am_Tokens am). tm_Type t = tt))"

definition AddTokenMetaConfirmed :: "config \<Rightarrow> ledger \<Rightarrow> address \<Rightarrow> token_meta \<Rightarrow> unit batch" where
  "AddTokenMetaConfirmed E l a meta =
     (case GetAccountMeta E l None a of
        Inl e \<Rightarrow> throwM e
      | Inr am \<Rightarrow> (if AccountMeta_Token am (tm_Type meta) \<noteq> None then throwM ErrTokenExists
          else UpdateAccountMeta (am\<lparr>am_Tokens := am_Tokens am @ [meta]\<rparr>)))"

text \<open>The deletion loop of \<open>DeleteTokenMetaConfirmed\<close> and \<open>DeleteTokenMetaCache\<close>: \<open>append\<close> writes into the
  array the loop ranges over, so entry \<open>i\<close> is read from the shifted array \<open>arr\<close>; the second list is
  the slice assigned to the account.\<close>

fun del_token_loop :: "hash \<Rightarrow> nat \<Rightarrow> nat \<Rightarrow> token_meta list \<times> token_meta list \<Rightarrow> token_meta list" where
  "del_token_loop tt i 0 (arr, res) = res"
| "del_token_loop tt i (Suc n) (arr, res) =
     (if tm_Type (arr ! i) = tt
      then let res' = take i arr @ drop (Suc i) arr
           in del_token_loop tt (Suc i) n (res' @ drop (length res') arr, res')
      else del_token_loop tt (Suc i) n (arr, res))"

definition del_token :: "hash \<Rightarrow> token_meta list \<Rightarrow> token_meta list" where
  "del_token tt ts = del_token_loop tt 0 (length ts) (ts, ts)"

definition DeleteTokenMetaConfirmed :: "ledger \<Rightarrow> address \<Rightarrow> hash \<Rightarrow> unit batch" where
  "DeleteTokenMetaConfirmed l a tt =
     (case GetAccountMetaConfirmed l None a of
        Inl e \<Rightarrow> throwM e
      | Inr am \<Rightarrow> UpdateAccountMeta (am\<lparr>am_Tokens := del_token tt (am_Tokens am)\<rparr>))"

definition AddAccountMetaHistory :: "config \<Rightarrow> token_meta \<Rightarrow> state_block \<Rightarrow> unit batch" where
  "AddAccountMetaHistory E tm b =
     bindM (cput (KAccountBlockHash (GetHash (cf_H E) b)) (VToken (TokenMeta_Clone tm)))
       (\<lambda>_. cput (KAccountPovHeight (tm_BelongTo tm) (sb_PoVHeight b) (tm_Type tm)) (VToken (TokenMeta_Clone tm)))"

definition CalculateAmount :: "config \<Rightarrow> ledger \<Rightarrow> state_block \<Rightarrow> lerr + int" where
  "CalculateAmount E l b =
     (let prev = (\<lambda>f. case GetStateBlock l None (sb_Previous b) of Inl e \<Rightarrow> Inl e | Inr p \<Rightarrow> Inr (f p))
      in case sb_Type b of
           Open \<Rightarrow> Inr (StateBlock_TotalBalance b)
         | Send \<Rightarrow> prev (\<lambda>p. Balance_Sub (StateBlock_TotalBalance p) (StateBlock_TotalBalance b))
         | Receive \<Rightarrow> prev (\<lambda>p. Balance_Sub (StateBlock_TotalBalance b) (StateBlock_TotalBalance p))
         | Change \<Rightarrow> Inr ZeroBalance
         | Online \<Rightarrow> Inr ZeroBalance
         | ContractReward \<Rightarrow>
             (if sb_Previous b = ZeroHash then Inr (StateBlock_TotalBalance b)
              else prev (\<lambda>p. Balance_Sub (StateBlock_TotalBalance b) (StateBlock_TotalBalance p)))
         | ContractSend \<Rightarrow>
             (if IsGenesisBlock E b then Inr (sb_Balance b)
              else prev (\<lambda>p. Balance_Sub (StateBlock_TotalBalance p) (StateBlock_TotalBalance b)))
         | _ \<Rightarrow> Inl (ErrMsg ''invalid block type''))"

definition ContractAddress :: "ledger \<Rightarrow> state_block \<Rightarrow> lerr + address" where
  "ContractAddress l b =
     (if IsSendBlock b then Inr (sb_Link b)
      else if IsReceiveBlock b
      then case GetStateBlock l None (sb_Link b) of Inl e \<Rightarrow> Inl e | Inr send \<Rightarrow> Inr (sb_Link send)
      else Inl (ErrMsg ''invalid block type''))"

section \<open>Pendings\<close>

fun pending_of :: "val \<Rightarrow> pending_info option" where
  "pending_of (VPending p) = Some p" | "pending_of _ = None"

definition GetPending :: "ledger \<Rightarrow> pending_key \<Rightarrow> lerr + pending_info" where
  "GetPending l pk = read_cached ErrPendingNotFound pending_of pending_of l None (KPending (fst pk) (snd pk))"

text \<open>The account pending cache is keyed by the hash of address and token; it is updated at once, not
  when the batch commits.\<close>

definition pending_slot :: "config \<Rightarrow> address \<Rightarrow> hash \<Rightarrow> hash" where
  "pending_slot E a tt = cf_H E (be_bytes 32 a @ be_bytes 32 tt)"

definition UpdateAccountPending :: "config \<Rightarrow> pending_key \<Rightarrow> pending_info \<Rightarrow> bool \<Rightarrow>
    (hash \<rightharpoonup> int) \<Rightarrow> (hash \<rightharpoonup> int)" where
  "UpdateAccountPending E pk p add r =
     (let th = pending_slot E (fst pk) (pi_Type p)
      in case r th of
           None \<Rightarrow> r
         | Some amount \<Rightarrow> r(th \<mapsto> (if add then Balance_Add amount (pi_Amount p) else Balance_Sub amount (pi_Amount p))))"

definition AddPending :: "config \<Rightarrow> pending_key \<Rightarrow> pending_info \<Rightarrow> unit batch" where
  "AddPending E pk p =
     bindM (cput (KPending (fst pk) (snd pk)) (VPending p))
       (\<lambda>_. modifyM (\<lambda>t. t\<lparr>t_rcache := UpdateAccountPending E pk p True (t_rcache t)\<rparr>))"

definition DeletePending :: "config \<Rightarrow> ledger \<Rightarrow> pending_key \<Rightarrow> unit batch" where
  "DeletePending E l pk =
     (case GetPending l pk of
        Inr info \<Rightarrow> bindM (cdel (KPending (fst pk) (snd pk)))
          (\<lambda>_. modifyM (\<lambda>t. t\<lparr>t_rcache := UpdateAccountPending E pk info False (t_rcache t)\<rparr>))
      | Inl _ \<Rightarrow> returnM ())"

section \<open>Frontiers\<close>

definition GetFrontier :: "ledger \<Rightarrow> (key, val) overlay option \<Rightarrow> hash \<Rightarrow> lerr + frontier" where
  "GetFrontier l c h =
     (case read_cached ErrFrontierNotFound hash_of hash_of l c (KFrontier h) of
        Inl e \<Rightarrow> Inl e
      | Inr open_blk \<Rightarrow> Inr \<lparr>fr_HeaderBlock = h, fr_OpenBlock = open_blk\<rparr>)"

definition AddFrontier :: "frontier \<Rightarrow> unit batch" where
  "AddFrontier f = cput (KFrontier (fr_HeaderBlock f)) (VHash (fr_OpenBlock f))"

definition DeleteFrontier :: "hash \<Rightarrow> unit batch" where
  "DeleteFrontier h = cdel (KFrontier h)"

section \<open>Representations\<close>

fun benefit_of :: "val \<Rightarrow> benefit option" where
  "benefit_of (VBenefit b) = Some b" | "benefit_of _ = None"

definition GetRepresentation :: "ledger \<Rightarrow> (key, val) overlay option \<Rightarrow> address \<Rightarrow> lerr + benefit" where
  "GetRepresentation l c a =
     read_cached ErrRepresentationNotFound (\<lambda>v. map_option Benefit_Clone (benefit_of v)) benefit_of l c
       (KRepresentation a)"

definition Ledger_Weight :: "ledger \<Rightarrow> address \<Rightarrow> int" where
  "Ledger_Weight l a = (case GetRepresentation l None a of Inl _ \<Rightarrow> ZeroBalance | Inr b \<Rightarrow> bf_Total b)"

definition setRepresentation :: "address \<Rightarrow> benefit \<Rightarrow> unit batch" where
  "setRepresentation a b = cput (KRepresentation a) (VBenefit (Benefit_Clone b))"

definition Benefit_plus :: "benefit \<Rightarrow> benefit \<Rightarrow> benefit" where
  "Benefit_plus v d =
     \<lparr>bf_Balance = Balance_Add (bf_Balance v) (bf_Balance d), bf_Vote = Balance_Add (bf_Vote v) (bf_Vote d),
      bf_Network = Balance_Add (bf_Network v) (bf_Network d), bf_Storage = Balance_Add (bf_Storage v) (bf_Storage d),
      bf_Oracle = Balance_Add (bf_Oracle v) (bf_Oracle d), bf_Total = Balance_Add (bf_Total v) (bf_Total d)\<rparr>"

definition Benefit_minus :: "benefit \<Rightarrow> benefit \<Rightarrow> benefit" where
  "Benefit_minus v d =
     \<lparr>bf_Balance = Balance_Sub (bf_Balance v) (bf_Balance d), bf_Vote = Balance_Sub (bf_Vote v) (bf_Vote d),
      bf_Network = Balance_Sub (bf_Network v) (bf_Network d), bf_Storage = Balance_Sub (bf_Storage v) (bf_Storage d),
      bf_Oracle = Balance_Sub (bf_Oracle v) (bf_Oracle d), bf_Total = Balance_Sub (bf_Total v) (bf_Total d)\<rparr>"

definition AddRepresentation :: "ledger \<Rightarrow> address \<Rightarrow> benefit \<Rightarrow> unit batch" where
  "AddRepresentation l a diff t =
     (case GetRepresentation l (Some (t_cache t)) a of
        Inr v \<Rightarrow> setRepresentation a (Benefit_plus v diff) t
      | Inl e \<Rightarrow> (if e = ErrRepresentationNotFound
          then setRepresentation a (Benefit_plus (Benefit_Clone ZeroBenefit) diff) t
          else throwM (ErrMsg ''GetRepresentation err'') t))"

definition SubRepresentation :: "ledger \<Rightarrow> address \<Rightarrow> benefit \<Rightarrow> unit batch" where
  "SubRepresentation l a diff t =
     (case GetRepresentation l (Some (t_cache t)) a of
        Inr v \<Rightarrow> setRepresentation a (Benefit_minus v diff) t
      | Inl _ \<Rightarrow> throwM (ErrMsg ''GetRepresentation error'') t)"

section \<open>Unconfirmed tables\<close>

text \<open>A store transaction over the unconfirmed tables. It reads its own writes and is dropped when its
  function fails; \<open>getBatch\<close> makes one for a single call when none is given.\<close>

record utx =
  u_blockCache :: "(hash \<times> state_block) list"
  u_accountCache :: "address \<rightharpoonup> account_meta"

type_synonym 'a ubatch = "(lerr, utx, 'a) stm"

text \<open>Blocks are iterated in key order, so the table is kept in the order of the hashes.\<close>

fun insort_block :: "hash \<Rightarrow> state_block \<Rightarrow> (hash \<times> state_block) list \<Rightarrow> (hash \<times> state_block) list" where
  "insort_block h b [] = [(h, b)]"
| "insort_block h b ((h', b') # xs) =
     (if h < h' then (h, b) # (h', b') # xs
      else if h = h' then (h, b) # xs
      else (h', b') # insort_block h b xs)"

definition AddBlockCache :: "config \<Rightarrow> state_block \<Rightarrow> unit ubatch" where
  "AddBlockCache E b u =
     (let h = GetHash (cf_H E) b
      in if map_of (u_blockCache u) h \<noteq> None then throwM ErrBlockExists u
         else (Inr (), u\<lparr>u_blockCache := insort_block h (StateBlock_Unmarshal b) (u_blockCache u)\<rparr>))"

definition DeleteBlockCache :: "hash \<Rightarrow> unit ubatch" where
  "DeleteBlockCache h = modifyM (\<lambda>u. u\<lparr>u_blockCache := filter (\<lambda>(h', _). h' \<noteq> h) (u_blockCache u)\<rparr>)"

definition AddAccountMetaCache :: "account_meta \<Rightarrow> unit ubatch" where
  "AddAccountMetaCache v u =
     (if u_accountCache u (am_Address v) \<noteq> None then throwM ErrAccountExists u
      else (Inr (), u\<lparr>u_accountCache := (u_accountCache u)(am_Address v \<mapsto> AccountMeta_Unmarshal v)\<rparr>))"

definition AddOrUpdateAccountMetaCache :: "account_meta \<Rightarrow> unit ubatch" where
  "AddOrUpdateAccountMetaCache v =
     modifyM (\<lambda>u. u\<lparr>u_accountCache := (u_accountCache u)(am_Address v \<mapsto> AccountMeta_Unmarshal v)\<rparr>)"

definition UpdateAccountMeteCache :: "account_meta \<Rightarrow> unit ubatch" where
  "UpdateAccountMeteCache v u =
     (if u_accountCache u (am_Address v) = None then throwM ErrAccountNotFound u
      else (Inr (), u\<lparr>u_accountCache := (u_accountCache u)(am_Address v \<mapsto> AccountMeta_Unmarshal v)\<rparr>))"

definition DeleteAccountMetaCache :: "address \<Rightarrow> unit ubatch" where
  "DeleteAccountMetaCache a = modifyM (\<lambda>u. u\<lparr>u_accountCache := (u_accountCache u)(a := None)\<rparr>)"

definition GetAccountMeteCache_batch :: "address \<Rightarrow> account_meta ubatch" where
  "GetAccountMeteCache_batch a u =
     (case u_accountCache u a of None \<Rightarrow> throwM ErrAccountNotFound u | Some am \<Rightarrow> (Inr am, u))"

definition DeleteTokenMetaCache :: "address \<Rightarrow> hash \<Rightarrow> unit ubatch" where
  "DeleteTokenMetaCache a tt =
     bindM (GetAccountMeteCache_batch a)
       (\<lambda>am. UpdateAccountMeteCache (am\<lparr>am_Tokens := del_token tt (am_Tokens am)\<rparr>))"

definition BatchWrite :: "(utx \<Rightarrow> (lerr + 'a) \<times> utx) \<Rightarrow> ledger \<Rightarrow> (lerr + 'a) \<times> ledger" where
  "BatchWrite f l =
     (case f \<lparr>u_blockCache = l_blockCache l, u_accountCache = l_accountCache l\<rparr> of
        (Inl e, _) \<Rightarrow> (Inl e, l)
      | (Inr x, u) \<Rightarrow> (Inr x, l\<lparr>l_blockCache := u_blockCache u, l_accountCache := u_accountCache u\<rparr>))"

text \<open>\<open>BatchUpdate\<close> on the ledger: the function runs on an empty temporary cache; a failure drops the
  temporary cache but not what the function changed outside of it. \<open>None\<close> is the wait for the
  flusher.\<close>

definition BatchUpdate :: "bool \<Rightarrow> 'a batch \<Rightarrow> ledger \<Rightarrow> ((lerr + 'a) \<times> ledger) option" where
  "BatchUpdate elapsed f l =
     (case f \<lparr>t_cache = Map.empty, t_rcache = l_rcache l, t_events = l_events l\<rparr> of
        (Inl e, t) \<Rightarrow> Some (Inl e, l\<lparr>l_rcache := t_rcache t, l_events := t_events t\<rparr>)
      | (Inr x, t) \<Rightarrow>
          map_option (\<lambda>mc. (Inr x, l\<lparr>l_cache := mc, l_rcache := t_rcache t, l_events := t_events t\<rparr>))
            (BatchUpdate_commit elapsed (t_cache t) (l_cache l)))"

definition AddStateBlock :: "config \<Rightarrow> bool \<Rightarrow> state_block \<Rightarrow> ledger \<Rightarrow> ((lerr + unit) \<times> ledger) option" where
  "AddStateBlock E elapsed b l =
     map_option (\<lambda>(r, l'). case r of
         Inl e \<Rightarrow> (Inl e, l')
       | Inr _ \<Rightarrow> (Inr (), l'\<lparr>l_events := l_events l' @
           [EventBlockConfirmed (GetHash (cf_H E) b), EventAddRelation (GetHash (cf_H E) b)]\<rparr>))
       (BatchUpdate elapsed (UpdateStateBlock E l b) l)"

end
