(* ===== verification/Contracts.thy ===== *)
theory Contracts
  imports Ledger_Store
begin

text \<open>The interface between the ledger and the chain contracts (\<open>vm/contract/contract.go\<close>,
  \<open>vm/vmstore/vm_store.go\<close>). The contracts themselves are parameters: what each method computes from
  the committed ledger and the block. A call may change the block it is given, collect storage writes
  in its VM context, and name the pending to add.\<close>

datatype SpecVer = SpecVerInvalid | SpecVer1 | SpecVer2

record describe =
  d_specVer :: SpecVer
  d_signature :: bool
  d_pending :: bool
  d_povState :: bool
  d_work :: bool

datatype ContractGapType = ContractNoGap | ContractRewardGapPov | ContractDPKIGapPublish
  | ContractPermGapAdmin | ContractDoDOrderState

text \<open>\<open>ErrStorageNotFound\<close> is the one contract error the checks tell apart.\<close>

datatype cerr = ErrStorageNotFound | CErr string

record vm_context =
  vm_contractAddr :: address
  vm_poVHeight :: u64

text \<open>What a successful send leaves: the block after the call, the pending, the storage of the VM
  context and the trie nodes built from it.\<close>

record send_result =
  sr_block :: state_block
  sr_pending :: "(pending_key \<times> pending_info) option"
  sr_storage :: "(bytes \<times> bytes) list"
  sr_trie :: "(bytes \<times> bytes) list"

record contract_block =
  cb_context :: "((bytes \<times> bytes) list \<times> (bytes \<times> bytes) list) option"
  cb_Block :: state_block
  cb_ToAddress :: address
  cb_Amount :: int
  cb_Token :: hash

record contract =
  c_Describe :: describe
  c_DoPending :: "state_block \<Rightarrow> cerr + (pending_key \<times> pending_info) option"
  c_DoSend :: "ledger \<Rightarrow> vm_context \<Rightarrow> state_block \<Rightarrow> cerr + state_block"
  c_ProcessSend :: "ledger \<Rightarrow> vm_context \<Rightarrow> state_block \<Rightarrow> cerr + send_result"
  c_DoGap :: "ledger \<Rightarrow> vm_context \<Rightarrow> state_block \<Rightarrow> cerr + ContractGapType"
  c_DoReceive :: "ledger \<Rightarrow> vm_context \<Rightarrow> state_block \<Rightarrow> state_block \<Rightarrow> cerr + contract_block list"

record chain_contract =
  cc_m :: "string \<rightharpoonup> contract"
  cc_MethodById :: "bytes \<Rightarrow> string option"

type_synonym registry = "address \<rightharpoonup> chain_contract"

text \<open>\<open>RegisterContracts\<close> keeps the first registration of an address.\<close>

definition RegisterContracts :: "address \<Rightarrow> chain_contract \<Rightarrow> registry \<Rightarrow> registry" where
  "RegisterContracts a c r = (if r a = None then r(a \<mapsto> c) else r)"

text \<open>\<open>GetChainContract\<close> as its callers use it: the contract when \<open>ok && err == nil\<close>. An unknown method
  of a known address is an error, a known method without an entry is not ok, and all callers treat
  these and an unknown address alike.\<close>

definition GetChainContract :: "registry \<Rightarrow> address \<Rightarrow> bytes \<Rightarrow> contract option" where
  "GetChainContract r a sel =
     (case r a of
        None \<Rightarrow> None
      | Some p \<Rightarrow> (case cc_MethodById p sel of None \<Rightarrow> None | Some name \<Rightarrow> cc_m p name))"

definition IsChainContract :: "registry \<Rightarrow> address \<Rightarrow> bool" where
  "IsChainContract r a \<longleftrightarrow> r a \<noteq> None"

text \<open>\<open>NewVMContextWithBlock\<close> needs the PoV header the block refers to, or the latest one when the
  block is ahead.\<close>

definition NewVMContextWithBlock :: "ledger \<Rightarrow> state_block \<Rightarrow> vm_context option" where
  "NewVMContextWithBlock l b =
     (case l_povLatest l of
        None \<Rightarrow> None
      | Some latest \<Rightarrow>
          let povHeight = (if sb_PoVHeight b > latest then latest else sb_PoVHeight b)
          in if \<not> l_povHeader l povHeight then None
             else case ContractAddress l b of
                    Inl _ \<Rightarrow> None
                  | Inr a \<Rightarrow> Some \<lparr>vm_contractAddr = a, vm_poVHeight = povHeight\<rparr>)"

text \<open>\<open>SaveStorage\<close> with a cache, and \<open>Trie.Save\<close>: every entry goes into the batch.\<close>

definition SaveStorage :: "(bytes \<times> bytes) list \<Rightarrow> unit batch" where
  "SaveStorage kvs = mapME (\<lambda>(k, v). cput (KVMStorage k) (VBytes v)) kvs"

definition saveTrie :: "(bytes \<times> bytes) list \<Rightarrow> unit batch" where
  "saveTrie kvs = mapME (\<lambda>(k, v). cput (KTrie k) (VBytes v)) kvs"

end
