(* ===== verification/Ledger_Check.thy ===== *)
theory Ledger_Check
  imports Contracts
begin

text \<open>The checks a block passes before it is processed (\<open>ledger/process/ledger_check.go\<close>, the check
  tables of \<open>ledger_processor.go\<close> and \<open>cache_processor.go\<close>, and \<open>verifier.go\<close>). Every check exists twice:
  against the confirmed ledger, and (prefix \<open>cache\<close>) against the ledger with the unconfirmed blocks.
  A check returns its result and whether it also returns an error.\<close>

section \<open>Results\<close>

datatype ProcessResult = Progress | BadWork | BadSignature | BadHash | BadMerkleRoot | BadTarget
  | BadStateHash | BadCoinbase | Old | Fork | GapPrevious | GapSource | GapSmartContract
  | GapTransaction | GapTokenInfo | GapPovHeight | GapPublish | GapDoDSettleState | BalanceMismatch
  | UnReceivable | InvalidData | InvalidTime | InvalidTxNum | InvalidHeight | InvalidTxOrder
  | BadConsensus | ReceiveRepeated | BadAuxHeader | Other

fun ProcessResult_String :: "ProcessResult \<Rightarrow> string" where
  "ProcessResult_String Progress = ''Progress''"
| "ProcessResult_String BadWork = ''BadWork''"
| "ProcessResult_String BadSignature = ''BadSignature''"
| "ProcessResult_String BadHash = ''BadHash''"
| "ProcessResult_String BadMerkleRoot = ''BadMerkleRoot''"
| "ProcessResult_String BadTarget = ''BadTarget''"
| "ProcessResult_String BadStateHash = ''BadStateHash''"
| "ProcessResult_String BadCoinbase = ''BadCoinbase''"
| "ProcessResult_String Old = ''Old''"
| "ProcessResult_String Fork = ''Fork''"
| "ProcessResult_String GapPrevious = ''GapPrevious''"
| "ProcessResult_String GapSource = ''GapSource''"
| "ProcessResult_String GapSmartContract = ''GapSmartContract''"
| "ProcessResult_String GapTransaction = ''GapTransaction''"
| "ProcessResult_String GapTokenInfo = ''GapTokenInfo''"
| "ProcessResult_String GapPublish = ''GapPublish''"
| "ProcessResult_String GapPovHeight = ''GapPovHeight''"
| "ProcessResult_String GapDoDSettleState = ''GapDoDSettleState''"
| "ProcessResult_String BalanceMismatch = ''BalanceMismatch''"
| "ProcessResult_String UnReceivable = ''UnReceivable''"
| "ProcessResult_String InvalidData = ''InvalidData''"
| "ProcessResult_String InvalidTime = ''InvalidTime''"
| "ProcessResult_String InvalidTxNum = ''InvalidTxNum''"
| "ProcessResult_String InvalidHeight = ''InvalidHeight''"
| "ProcessResult_String InvalidTxOrder = ''InvalidTxOrder''"
| "ProcessResult_String BadConsensus = ''BadConsensus''"
| "ProcessResult_String ReceiveRepeated = ''ReceiveRepeated''"
| "ProcessResult_String BadAuxHeader = ''BadAuxHeader''"
| "ProcessResult_String Other = ''<invalid>''"

type_synonym check = "ProcessResult \<times> string option"

abbreviation pass :: check where "pass \<equiv> (Progress, None)"

text \<open>\<open>errorP\<close> always returns an error; the text keeps the result's name and the detail.\<close>

definition errorP :: "ProcessResult \<Rightarrow> string \<Rightarrow> check" where
  "errorP r detail =
     (r, Some (case r of
        Other \<Rightarrow> detail
      | GapPrevious \<Rightarrow> ''gap previous''
      | GapSource \<Rightarrow> ''gap source''
      | _ \<Rightarrow> if detail = [] then ProcessResult_String r else ProcessResult_String r @ '', '' @ detail))"

definition invalidBlockType :: "BlockType \<Rightarrow> string" where
  "invalidBlockType t = ''invalid process block type, '' @ BlockType_String t"

text \<open>\<open>if r, err := a; r != Progress || err != nil { return r, err }\<close>, then \<open>b\<close>.\<close>

definition andC :: "check \<Rightarrow> check \<Rightarrow> check" where
  "andC a b = (if fst a \<noteq> Progress \<or> snd a \<noteq> None then a else b)"

section \<open>Base information\<close>

text \<open>Whether work and signature of a contract block are checked is up to the contract it calls.\<close>

definition signed_work_check :: "config \<Rightarrow> state_block \<Rightarrow> contract option \<Rightarrow> check" where
  "signed_work_check E b c =
     (let checkWork = (case c of None \<Rightarrow> True | Some c \<Rightarrow> d_work (c_Describe c));
          checkSign = (case c of None \<Rightarrow> True | Some c \<Rightarrow> d_signature (c_Describe c))
      in if checkWork \<and> \<not> StateBlock_IsValid (cf_H64 E) b then errorP BadWork []
         else if checkSign \<and> \<not> cf_Verify E (sb_Address b) (be_bytes 32 (GetHash (cf_H E) b)) (sb_Signature b)
         then errorP BadSignature []
         else pass)"

definition blockBaseInfoCheck :: "config \<Rightarrow> registry \<Rightarrow> ledger \<Rightarrow> state_block \<Rightarrow> check" where
  "blockBaseInfoCheck E R l b =
     (case HasStateBlockConfirmed l (GetHash (cf_H E) b) of
        Inl _ \<Rightarrow> errorP Other ''has state block''
      | Inr True \<Rightarrow> errorP Old []
      | Inr False \<Rightarrow>
          if sb_Type b = ContractSend
          then if IsPrivate b \<and> \<not> IsRecipient b then pass
               else signed_work_check E b (GetChainContract R (sb_Link b) (GetPayload b))
          else if sb_Type b = ContractReward
          then if IsPrivate b \<and> \<not> IsRecipient b then pass
               else case GetStateBlockConfirmed l None (sb_Link b) of
                      Inl _ \<Rightarrow> errorP GapSource []
                    | Inr linkBlk \<Rightarrow> signed_work_check E b (GetChainContract R (sb_Link linkBlk) (GetPayload linkBlk))
          else signed_work_check E b None)"

text \<open>\<open>checkReceiveBlockRepeat\<close>: the iteration is never cut short, since the sentinel error is nil.\<close>

definition checkReceiveBlockRepeat :: "config \<Rightarrow> ledger \<Rightarrow> state_block \<Rightarrow> ProcessResult" where
  "checkReceiveBlockRepeat E l b =
     (if IsReceiveBlock b \<and>
         (\<exists>(_, b') \<in> set (l_blockCache l). sb_Link b = sb_Link b' \<and> GetHash (cf_H E) b \<noteq> GetHash (cf_H E) b')
      then ReceiveRepeated else Progress)"

definition cacheBlockBaseInfoCheck :: "config \<Rightarrow> registry \<Rightarrow> ledger \<Rightarrow> state_block \<Rightarrow> check" where
  "cacheBlockBaseInfoCheck E R l b =
     (if checkReceiveBlockRepeat E l b \<noteq> Progress then errorP (checkReceiveBlockRepeat E l b) []
      else case HasStateBlock l (GetHash (cf_H E) b) of
        Inl _ \<Rightarrow> errorP Other ''has state block''
      | Inr True \<Rightarrow> errorP Old []
      | Inr False \<Rightarrow>
          if sb_Type b = ContractSend
          then if IsPrivate b \<and> \<not> IsRecipient b then pass
               else signed_work_check E b (GetChainContract R (sb_Link b) (GetPayload b))
          else if sb_Type b = ContractReward
          then if IsPrivate b \<and> \<not> IsRecipient b then pass
               else case GetStateBlock l None (sb_Link b) of
                      Inl _ \<Rightarrow> errorP GapSource []
                    | Inr linkBlk \<Rightarrow>
                        if IsPrivate linkBlk \<and> \<not> IsRecipient linkBlk then pass
                        else signed_work_check E b (GetChainContract R (sb_Link linkBlk) (GetPayload linkBlk))
          else signed_work_check E b None)"

section \<open>Forks\<close>

definition fork_after :: "config \<Rightarrow> lerr + token_meta \<Rightarrow> lerr + state_block \<Rightarrow> check" where
  "fork_after E tmr prev =
     (case prev of
        Inl _ \<Rightarrow> errorP GapPrevious []
      | Inr previous \<Rightarrow>
          (case tmr of
             Inr tm \<Rightarrow> if GetHash (cf_H E) previous \<noteq> tm_Header tm then errorP Fork ''previous is not the token header'' else pass
           | Inl _ \<Rightarrow> pass))"

definition fork_open :: "lerr + token_meta \<Rightarrow> check" where
  "fork_open tmr = (case tmr of Inr _ \<Rightarrow> errorP Fork ''open block, but token already exist'' | Inl _ \<Rightarrow> pass)"

definition fork_check :: "config \<Rightarrow> state_block \<Rightarrow> lerr + token_meta \<Rightarrow> lerr + state_block \<Rightarrow> check" where
  "fork_check E b tmr prev =
     (case sb_Type b of
        Send \<Rightarrow> fork_after E tmr prev
      | Receive \<Rightarrow> fork_after E tmr prev
      | Change \<Rightarrow> fork_after E tmr prev
      | Online \<Rightarrow> fork_after E tmr prev
      | ContractSend \<Rightarrow> fork_after E tmr prev
      | Open \<Rightarrow> fork_open tmr
      | ContractReward \<Rightarrow> if \<not> IsOpen b then fork_after E tmr prev else fork_open tmr
      | _ \<Rightarrow> errorP Other (invalidBlockType (sb_Type b)))"

definition blockForkCheck :: "config \<Rightarrow> ledger \<Rightarrow> state_block \<Rightarrow> check" where
  "blockForkCheck E l b =
     fork_check E b (GetTokenMetaConfirmed l (sb_Address b) (sb_Token b)) (GetStateBlockConfirmed l None (sb_Previous b))"

definition cacheBlockForkCheck :: "config \<Rightarrow> ledger \<Rightarrow> state_block \<Rightarrow> check" where
  "cacheBlockForkCheck E l b =
     fork_check E b (GetTokenMeta E l (sb_Address b) (sb_Token b)) (GetStateBlock l None (sb_Previous b))"

section \<open>Balances\<close>

definition weights_equal :: "state_block \<Rightarrow> state_block \<Rightarrow> bool" where
  "weights_equal previous b \<longleftrightarrow>
     Balance_Compare (StateBlock_GetVote previous) (StateBlock_GetVote b) = BalanceCompEqual \<and>
     Balance_Compare (StateBlock_GetNetwork previous) (StateBlock_GetNetwork b) = BalanceCompEqual \<and>
     Balance_Compare (StateBlock_GetStorage previous) (StateBlock_GetStorage b) = BalanceCompEqual \<and>
     Balance_Compare (StateBlock_GetOracle previous) (StateBlock_GetOracle b) = BalanceCompEqual"

definition balance_check :: "state_block \<Rightarrow> lerr + state_block \<Rightarrow> check" where
  "balance_check b prev =
     (case sb_Type b of
        Send \<Rightarrow>
          (case prev of
             Inl _ \<Rightarrow> errorP GapPrevious []
           | Inr previous \<Rightarrow>
               if \<not> Balance_Compare (sb_Balance previous) (sb_Balance b) = BalanceCompBigger
               then errorP BalanceMismatch ''previous, block''
               else if \<not> weights_equal previous b then errorP BalanceMismatch ''weight not equal'' else pass)
      | ContractSend \<Rightarrow>
          (case prev of
             Inl _ \<Rightarrow> errorP GapPrevious []
           | Inr previous \<Rightarrow>
               if Balance_Compare (StateBlock_TotalBalance previous) (StateBlock_TotalBalance b) = BalanceCompSmaller
               then errorP BalanceMismatch ''previous, block'' else pass)
      | t \<Rightarrow>
          if t = Change \<or> t = Online
          then case prev of
                 Inl _ \<Rightarrow> errorP GapPrevious []
               | Inr previous \<Rightarrow>
                   if Balance_Compare (sb_Balance b) (sb_Balance previous) \<noteq> BalanceCompEqual
                   then errorP BalanceMismatch ''previous, block''
                   else if \<not> weights_equal previous b then errorP BalanceMismatch ''weight not equal'' else pass
          else errorP Other (invalidBlockType t))"

definition blockBalanceCheck :: "ledger \<Rightarrow> state_block \<Rightarrow> check" where
  "blockBalanceCheck l b = balance_check b (GetStateBlockConfirmed l None (sb_Previous b))"

definition cacheBlockBalanceCheck :: "ledger \<Rightarrow> state_block \<Rightarrow> check" where
  "cacheBlockBalanceCheck l b = balance_check b (GetStateBlock l None (sb_Previous b))"

section \<open>Pendings\<close>

definition checkContractPending :: "registry \<Rightarrow> ledger \<Rightarrow> state_block \<Rightarrow> check" where
  "checkContractPending R l b =
     (case GetStateBlockConfirmed l None (sb_Link b) of
        Inl _ \<Rightarrow> errorP GapSource []
      | Inr input \<Rightarrow>
          if IsPrivate input \<and> \<not> IsRecipient input then pass
          else case GetChainContract R (sb_Link input) (GetPayload input) of
                 None \<Rightarrow> errorP Other ''can not find chain contract''
               | Some c \<Rightarrow>
                   if d_pending (c_Describe c)
                   then case GetPending l (sb_Address b, sb_Link b) of
                          Inr _ \<Rightarrow> pass
                        | Inl e \<Rightarrow> if e = ErrPendingNotFound then errorP UnReceivable ''pending key''
                                  else errorP Other ''get contract pending''
                   else pass)"

text \<open>The transferred amount of a receive is the difference to the account's balance.\<close>

definition receive_pending :: "ledger \<Rightarrow> state_block \<Rightarrow> lerr + token_meta \<Rightarrow> state_block \<Rightarrow> check" where
  "receive_pending l b tmr previous =
     (case GetPending l (sb_Address b, sb_Link b) of
        Inr pending \<Rightarrow>
          (case tmr of
             Inr tm \<Rightarrow>
               let transferAmount = Balance_Sub (sb_Balance b) (tm_Balance tm)
               in if \<not> Balance_Equal (Some (pi_Amount pending)) (Some transferAmount) \<or> pi_Type pending \<noteq> sb_Token b
                  then errorP BalanceMismatch ''pending, transfer''
                  else if \<not> weights_equal previous b then errorP BalanceMismatch ''weight not equal'' else pass
           | Inl _ \<Rightarrow> errorP Other ''token meta'')
      | Inl e \<Rightarrow> if e = ErrPendingNotFound then errorP UnReceivable ''pending key'' else errorP Other ''get pending'')"

definition open_pending :: "ledger \<Rightarrow> state_block \<Rightarrow> check" where
  "open_pending l b =
     (case GetPending l (sb_Address b, sb_Link b) of
        Inr pending \<Rightarrow>
          if \<not> Balance_Equal (Some (pi_Amount pending)) (Some (sb_Balance b)) \<or> pi_Type pending \<noteq> sb_Token b
          then errorP BalanceMismatch ''pending, block''
          else if \<not> Balance_IsZero (Some (StateBlock_GetVote b)) \<or> \<not> Balance_IsZero (Some (StateBlock_GetNetwork b)) \<or>
            \<not> Balance_IsZero (Some (StateBlock_GetStorage b)) \<or> \<not> Balance_IsZero (Some (StateBlock_GetOracle b))
          then errorP BalanceMismatch ''weight is not zero'' else pass
      | Inl e \<Rightarrow> if e = ErrPendingNotFound then errorP UnReceivable ''pending key'' else errorP Other ''get pending'')"

definition blockPendingCheck :: "registry \<Rightarrow> ledger \<Rightarrow> state_block \<Rightarrow> check" where
  "blockPendingCheck R l b =
     (case sb_Type b of
        Receive \<Rightarrow>
          (case GetStateBlockConfirmed l None (sb_Previous b) of
             Inl _ \<Rightarrow> errorP GapPrevious []
           | Inr previous \<Rightarrow> receive_pending l b (GetTokenMetaConfirmed l (sb_Address b) (sb_Token b)) previous)
      | Open \<Rightarrow> open_pending l b
      | ContractReward \<Rightarrow> checkContractPending R l b
      | t \<Rightarrow> errorP Other (invalidBlockType t))"

text \<open>The unconfirmed variant reports a missing previous block without an error.\<close>

definition cacheBlockPendingCheck :: "config \<Rightarrow> registry \<Rightarrow> ledger \<Rightarrow> state_block \<Rightarrow> check" where
  "cacheBlockPendingCheck E R l b =
     (case sb_Type b of
        Receive \<Rightarrow>
          (case GetStateBlock l None (sb_Previous b) of
             Inl _ \<Rightarrow> (GapPrevious, None)
           | Inr previous \<Rightarrow> receive_pending l b (GetTokenMeta E l (sb_Address b) (sb_Token b)) previous)
      | Open \<Rightarrow> open_pending l b
      | ContractReward \<Rightarrow> checkContractPending R l b
      | t \<Rightarrow> errorP Other (invalidBlockType t))"

section \<open>Sources\<close>

definition source_check :: "state_block \<Rightarrow> lerr + bool \<Rightarrow> check" where
  "source_check b has =
     (case sb_Type b of
        Receive \<Rightarrow> if has = Inr False then errorP GapSource [] else pass
      | Open \<Rightarrow> if has = Inr False then errorP GapSource [] else pass
      | ContractReward \<Rightarrow> pass
      | t \<Rightarrow> errorP Other (invalidBlockType t))"

definition blockSourceCheck :: "ledger \<Rightarrow> state_block \<Rightarrow> check" where
  "blockSourceCheck l b = source_check b (HasStateBlockConfirmed l (sb_Link b))"

definition cacheBlockSourceCheck :: "ledger \<Rightarrow> state_block \<Rightarrow> check" where
  "cacheBlockSourceCheck l b = source_check b (HasStateBlock l (sb_Link b))"

section \<open>Contracts\<close>

definition data_equal_check :: "config \<Rightarrow> state_block \<Rightarrow> state_block \<Rightarrow> check" where
  "data_equal_check E b clone =
     (if cf_EqualFold E (sb_Data b) (sb_Data clone) then pass else errorP InvalidData ''data not equal'')"

definition checkContractSendBlock :: "config \<Rightarrow> registry \<Rightarrow> ledger \<Rightarrow> state_block \<Rightarrow> check" where
  "checkContractSendBlock E R l b =
     (let address = sb_Link b
      in if \<not> IsChainContract R address \<and> \<not> HasSmartContractBlock l address then errorP GapSmartContract []
         else if IsPrivate b \<and> \<not> IsRecipient b then pass
         else case GetChainContract R address (GetPayload b) of
           None \<Rightarrow> errorP Other ''can not find chain contract''
         | Some c \<Rightarrow>
             (case NewVMContextWithBlock l b of
                None \<Rightarrow> errorP Other ''can not get vm context''
              | Some vmCtx \<Rightarrow>
                  (case d_specVer (c_Describe c) of
                     SpecVer1 \<Rightarrow>
                       (case c_DoSend c l vmCtx (StateBlock_Clone b) of
                          Inr clone \<Rightarrow> data_equal_check E b clone
                        | Inl _ \<Rightarrow> errorP Other ''v1 ProcessSend error'')
                   | SpecVer2 \<Rightarrow>
                       (case c_DoGap c l vmCtx (StateBlock_Clone b) of
                          Inl _ \<Rightarrow> errorP Other ''do gap error''
                        | Inr ContractRewardGapPov \<Rightarrow> errorP GapPovHeight []
                        | Inr ContractDPKIGapPublish \<Rightarrow> errorP GapPublish []
                        | Inr ContractDoDOrderState \<Rightarrow> errorP GapDoDSettleState []
                        | Inr _ \<Rightarrow>
                            (case c_ProcessSend c l vmCtx (StateBlock_Clone b) of
                               Inr r \<Rightarrow> data_equal_check E b (sr_block r)
                             | Inl _ \<Rightarrow> errorP Other ''v2 ProcessSend error''))
                   | SpecVerInvalid \<Rightarrow> errorP Other ''unsupported chain contract version'')))"

definition contract_receive_check :: "config \<Rightarrow> registry \<Rightarrow> ledger \<Rightarrow> state_block \<Rightarrow> lerr + state_block \<Rightarrow> check" where
  "contract_receive_check E R l b source =
     (case source of
        Inl _ \<Rightarrow> errorP GapSource []
      | Inr input \<Rightarrow>
          if IsPrivate input \<and> \<not> IsRecipient input then pass
          else let address = sb_Link input
            in case GetChainContract R address (GetPayload input) of
              None \<Rightarrow> errorP Other ''can not find chain contract''
            | Some c \<Rightarrow>
                (case NewVMContextWithBlock l b of
                   None \<Rightarrow> errorP Other ''check contract: can not get vm context''
                 | Some vmCtx \<Rightarrow>
                     (case c_DoReceive c l vmCtx (StateBlock_Clone b) input of
                        Inl e \<Rightarrow>
                          if address = cf_MintageAddress E \<and> e = ErrStorageNotFound then errorP GapTokenInfo []
                          else errorP Other ''DoReceive err''
                      | Inr [] \<Rightarrow> errorP Other ''can not generate receive block''
                      | Inr (g # _) \<Rightarrow>
                          (case CalculateAmount E l b of
                             Inl _ \<Rightarrow> errorP Other ''calculate amount error''
                           | Inr amount \<Rightarrow>
                               if cf_EqualFold E (sb_Data (cb_Block g)) (sb_Data b) \<and> cb_Token g = sb_Token b \<and>
                                  Balance_Compare (cb_Amount g) amount = BalanceCompEqual \<and> cb_ToAddress g = sb_Address b
                               then pass else errorP InvalidData ''data from contract, data from block''))))"

definition contract_check :: "config \<Rightarrow> registry \<Rightarrow> ledger \<Rightarrow> state_block \<Rightarrow> lerr + state_block \<Rightarrow> check" where
  "contract_check E R l b source =
     (if IsPrivate b \<and> \<not> IsRecipient b then pass
      else case sb_Type b of
             ContractSend \<Rightarrow> checkContractSendBlock E R l b
           | ContractReward \<Rightarrow> contract_receive_check E R l b source
           | t \<Rightarrow> errorP Other (invalidBlockType t))"

definition blockContractCheck :: "config \<Rightarrow> registry \<Rightarrow> ledger \<Rightarrow> state_block \<Rightarrow> check" where
  "blockContractCheck E R l b = contract_check E R l b (GetStateBlockConfirmed l None (sb_Link b))"

definition cacheBlockContractCheck :: "config \<Rightarrow> registry \<Rightarrow> ledger \<Rightarrow> state_block \<Rightarrow> check" where
  "cacheBlockContractCheck E R l b = contract_check E R l b (GetStateBlock l None (sb_Link b))"

section \<open>The checks of each block type\<close>

definition sendBlockCheck :: "config \<Rightarrow> registry \<Rightarrow> ledger \<Rightarrow> state_block \<Rightarrow> check" where
  "sendBlockCheck E R l b =
     andC (blockBaseInfoCheck E R l b) (andC (blockForkCheck E l b) (blockBalanceCheck l b))"

definition contractSendBlockCheck :: "config \<Rightarrow> registry \<Rightarrow> ledger \<Rightarrow> state_block \<Rightarrow> check" where
  "contractSendBlockCheck E R l b =
     (if IsGenesisBlock E b then pass
      else andC (blockBaseInfoCheck E R l b) (andC (blockForkCheck E l b)
        (andC (blockBalanceCheck l b) (blockContractCheck E R l b))))"

definition receiveBlockCheck :: "config \<Rightarrow> registry \<Rightarrow> ledger \<Rightarrow> state_block \<Rightarrow> check" where
  "receiveBlockCheck E R l b =
     andC (blockBaseInfoCheck E R l b) (andC (blockForkCheck E l b)
       (andC (blockSourceCheck l b) (blockPendingCheck R l b)))"

definition contractReceiveBlockCheck :: "config \<Rightarrow> registry \<Rightarrow> ledger \<Rightarrow> state_block \<Rightarrow> check" where
  "contractReceiveBlockCheck E R l b =
     (if IsGenesisBlock E b then pass
      else andC (blockBaseInfoCheck E R l b) (andC (blockForkCheck E l b)
        (andC (blockPendingCheck R l b) (andC (blockSourceCheck l b) (blockContractCheck E R l b)))))"

definition openBlockCheck :: "config \<Rightarrow> registry \<Rightarrow> ledger \<Rightarrow> state_block \<Rightarrow> check" where
  "openBlockCheck E R l b =
     (if sb_Previous b \<noteq> ZeroHash then (Other, Some ''open block previous is not zero'')
      else andC (blockBaseInfoCheck E R l b) (andC (blockSourceCheck l b)
        (andC (blockForkCheck E l b) (blockPendingCheck R l b))))"

definition changeBlockCheck :: "config \<Rightarrow> registry \<Rightarrow> ledger \<Rightarrow> state_block \<Rightarrow> check" where
  "changeBlockCheck E R l b =
     (if sb_Link b \<noteq> ZeroHash then (Other, Some ''invalid link hash'')
      else if sb_Token b \<noteq> cf_ChainToken E then (Other, Some ''invalid token'')
      else andC (blockBaseInfoCheck E R l b) (andC (blockForkCheck E l b) (blockBalanceCheck l b)))"

definition onlineBlockCheck :: "config \<Rightarrow> registry \<Rightarrow> ledger \<Rightarrow> state_block \<Rightarrow> check" where
  "onlineBlockCheck E R l b =
     (if sb_Link b \<noteq> ZeroHash then (Other, Some ''invalid link hash'')
      else if sb_Token b \<noteq> cf_ChainToken E then (Other, Some ''invalid token'')
      else andC (blockBaseInfoCheck E R l b) (andC (blockForkCheck E l b) (blockBalanceCheck l b)))"

definition newBlockCheck :: "config \<Rightarrow> registry \<Rightarrow> BlockType \<Rightarrow> (ledger \<Rightarrow> state_block \<Rightarrow> check) option" where
  "newBlockCheck E R t =
     (case t of
        Open \<Rightarrow> Some (openBlockCheck E R)
      | Send \<Rightarrow> Some (sendBlockCheck E R)
      | Receive \<Rightarrow> Some (receiveBlockCheck E R)
      | Change \<Rightarrow> Some (changeBlockCheck E R)
      | Online \<Rightarrow> Some (onlineBlockCheck E R)
      | ContractSend \<Rightarrow> Some (contractSendBlockCheck E R)
      | ContractReward \<Rightarrow> Some (contractReceiveBlockCheck E R)
      | _ \<Rightarrow> None)"

text \<open>\<open>BlockCheck\<close>: hashes of the verified data pass even when their pending is gone.\<close>

definition BlockCheck :: "config \<Rightarrow> registry \<Rightarrow> ledger \<Rightarrow> state_block \<Rightarrow> check" where
  "BlockCheck E R l b =
     (case newBlockCheck E R (sb_Type b) of
        None \<Rightarrow> (Other, Some (''unsupport block type '' @ BlockType_String (sb_Type b)))
      | Some c \<Rightarrow>
          if fst (c l b) = UnReceivable \<and> l_verified l (GetHash (cf_H E) b) then pass else c l b)"

definition cacheSendBlockCheck :: "config \<Rightarrow> registry \<Rightarrow> ledger \<Rightarrow> state_block \<Rightarrow> check" where
  "cacheSendBlockCheck E R l b =
     andC (cacheBlockBaseInfoCheck E R l b) (andC (cacheBlockForkCheck E l b) (cacheBlockBalanceCheck l b))"

definition cacheContractSendBlockCheck :: "config \<Rightarrow> registry \<Rightarrow> ledger \<Rightarrow> state_block \<Rightarrow> check" where
  "cacheContractSendBlockCheck E R l b =
     (if IsGenesisBlock E b then pass
      else andC (cacheBlockBaseInfoCheck E R l b) (andC (cacheBlockForkCheck E l b)
        (andC (cacheBlockBalanceCheck l b) (cacheBlockContractCheck E R l b))))"

definition cacheReceiveBlockCheck :: "config \<Rightarrow> registry \<Rightarrow> ledger \<Rightarrow> state_block \<Rightarrow> check" where
  "cacheReceiveBlockCheck E R l b =
     andC (cacheBlockBaseInfoCheck E R l b) (andC (cacheBlockForkCheck E l b)
       (andC (cacheBlockSourceCheck l b) (cacheBlockPendingCheck E R l b)))"

definition cacheContractReceiveBlockCheck :: "config \<Rightarrow> registry \<Rightarrow> ledger \<Rightarrow> state_block \<Rightarrow> check" where
  "cacheContractReceiveBlockCheck E R l b =
     (if IsGenesisBlock E b then pass
      else andC (cacheBlockBaseInfoCheck E R l b) (andC (cacheBlockForkCheck E l b)
        (andC (cacheBlockSourceCheck l b) (andC (cacheBlockPendingCheck E R l b) (cacheBlockContractCheck E R l b)))))"

definition cacheOpenBlockCheck :: "config \<Rightarrow> registry \<Rightarrow> ledger \<Rightarrow> state_block \<Rightarrow> check" where
  "cacheOpenBlockCheck E R l b =
     (if sb_Previous b \<noteq> ZeroHash then (Other, Some ''open block previous is not zero'')
      else andC (cacheBlockBaseInfoCheck E R l b) (andC (cacheBlockSourceCheck l b)
        (andC (cacheBlockForkCheck E l b) (cacheBlockPendingCheck E R l b))))"

definition cacheChangeBlockCheck :: "config \<Rightarrow> registry \<Rightarrow> ledger \<Rightarrow> state_block \<Rightarrow> check" where
  "cacheChangeBlockCheck E R l b =
     (if sb_Link b \<noteq> ZeroHash then (Other, Some ''invalid link hash'')
      else if sb_Token b \<noteq> cf_ChainToken E then (Other, Some ''invalid token Id'')
      else andC (cacheBlockBaseInfoCheck E R l b) (andC (cacheBlockForkCheck E l b) (cacheBlockBalanceCheck l b)))"

definition newCacheBlockCheck :: "config \<Rightarrow> registry \<Rightarrow> BlockType \<Rightarrow> (ledger \<Rightarrow> state_block \<Rightarrow> check) option" where
  "newCacheBlockCheck E R t =
     (case t of
        Open \<Rightarrow> Some (cacheOpenBlockCheck E R)
      | Send \<Rightarrow> Some (cacheSendBlockCheck E R)
      | Receive \<Rightarrow> Some (cacheReceiveBlockCheck E R)
      | Change \<Rightarrow> Some (cacheChangeBlockCheck E R)
      | Online \<Rightarrow> Some (cacheChangeBlockCheck E R)
      | ContractSend \<Rightarrow> Some (cacheContractSendBlockCheck E R)
      | ContractReward \<Rightarrow> Some (cacheContractReceiveBlockCheck E R)
      | _ \<Rightarrow> None)"

definition BlockCacheCheck :: "config \<Rightarrow> registry \<Rightarrow> ledger \<Rightarrow> state_block \<Rightarrow> check" where
  "BlockCacheCheck E R l b =
     (case newCacheBlockCheck E R (sb_Type b) of
        None \<Rightarrow> (Other, Some (''unsupport block type '' @ BlockType_String (sb_Type b)))
      | Some c \<Rightarrow> c l b)"

end
