(* ===== verification/Ledger_Process.thy ===== *)
theory Ledger_Process
  imports Ledger_Check
begin

text \<open>Applying a checked block to the confirmed ledger (\<open>ledger/process/ledger_processor.go\<close>) and to the
  unconfirmed tables (\<open>cache_processor.go\<close>). \<open>now\<close> is the time stamp the code takes from the clock.\<close>

section \<open>The steps of a batch\<close>

text \<open>\<open>updatePending\<close> returns the block, since the contract of a version 2 send may change it.\<close>

definition updatePending :: "config \<Rightarrow> registry \<Rightarrow> ledger \<Rightarrow> state_block \<Rightarrow> state_block batch" where
  "updatePending E R l b =
     (case sb_Type b of
        Send \<Rightarrow>
          (case GetStateBlockConfirmed l None (sb_Previous b) of
             Inl _ \<Rightarrow> throwM (ErrMsg ''previous block not found'')
           | Inr preBlk \<Rightarrow>
               bindM (AddPending E (sb_Link b, GetHash (cf_H E) b)
                   \<lparr>pi_Source = sb_Address b, pi_Amount = Balance_Sub (sb_Balance preBlk) (sb_Balance b),
                    pi_Type = sb_Token b\<rparr>) (\<lambda>_. returnM b))
      | Open \<Rightarrow> bindM (DeletePending E l (sb_Address b, sb_Link b)) (\<lambda>_. returnM b)
      | Receive \<Rightarrow> bindM (DeletePending E l (sb_Address b, sb_Link b)) (\<lambda>_. returnM b)
      | ContractSend \<Rightarrow>
          if IsPrivate b \<and> \<not> IsRecipient b then returnM b
          else (case GetChainContract R (sb_Link b) (GetPayload b) of
                  None \<Rightarrow> returnM b
                | Some c \<Rightarrow>
                    (case d_specVer (c_Describe c) of
                       SpecVer1 \<Rightarrow>
                         (case c_DoPending c b of
                            Inr (Some (pk, p)) \<Rightarrow> bindM (AddPending E pk p) (\<lambda>_. returnM b)
                          | _ \<Rightarrow> returnM b)
                     | SpecVer2 \<Rightarrow>
                         (case NewVMContextWithBlock l b of
                            None \<Rightarrow> throwM (ErrMsg ''can not get vm context'')
                          | Some vmCtx \<Rightarrow>
                              (case c_ProcessSend c l vmCtx b of
                                 Inl _ \<Rightarrow> returnM b
                               | Inr r \<Rightarrow>
                                   (case sr_pending r of
                                      None \<Rightarrow> returnM (sr_block r)
                                    | Some (pk, p) \<Rightarrow> bindM (AddPending E pk p) (\<lambda>_. returnM (sr_block r)))))
                     | SpecVerInvalid \<Rightarrow> throwM (ErrMsg ''unsupported chain contract version'')))
      | ContractReward \<Rightarrow> bindM (DeletePending E l (sb_Address b, sb_Link b)) (\<lambda>_. returnM b)
      | _ \<Rightarrow> returnM b)"

definition updateFrontier :: "config \<Rightarrow> ledger \<Rightarrow> state_block \<Rightarrow> token_meta option \<Rightarrow> unit batch" where
  "updateFrontier E l b tm =
     (let h = GetHash (cf_H E) b
      in case tm of
           Some tm \<Rightarrow>
             (case GetFrontier l None (tm_Header tm) of
                Inl e \<Rightarrow> throwM e
              | Inr f \<Rightarrow> bindM (DeleteFrontier (fr_HeaderBlock f))
                  (\<lambda>_. AddFrontier \<lparr>fr_HeaderBlock = h, fr_OpenBlock = tm_OpenBlock tm\<rparr>))
         | None \<Rightarrow> AddFrontier \<lparr>fr_HeaderBlock = h, fr_OpenBlock = h\<rparr>)"

definition updateContractData :: "config \<Rightarrow> registry \<Rightarrow> ledger \<Rightarrow> state_block \<Rightarrow> unit batch" where
  "updateContractData E R l b =
     (if IsGenesisBlock E b then returnM ()
      else case sb_Type b of
        ContractReward \<Rightarrow>
          if IsPrivate b \<and> \<not> IsRecipient b then returnM ()
          else (case GetStateBlockConfirmed l None (sb_Link b) of
             Inl _ \<Rightarrow> throwM (ErrMsg ''get contract reward block'')
           | Inr input \<Rightarrow>
               if IsPrivate input \<and> \<not> IsRecipient input then returnM ()
               else (case GetChainContract R (sb_Link input) (GetPayload input) of
                  None \<Rightarrow> throwM (ErrMsg ''invaild contract'')
                | Some c \<Rightarrow>
                    (case NewVMContextWithBlock l b of
                       None \<Rightarrow> throwM (ErrMsg ''update contract: can not get vm context'')
                     | Some vmCtx \<Rightarrow>
                         (case c_DoReceive c l vmCtx (StateBlock_Clone b) input of
                            Inr (g # _) \<Rightarrow>
                              (case cb_context g of
                                 Some (st, tr) \<Rightarrow> bindM (SaveStorage st) (\<lambda>_. saveTrie tr)
                               | None \<Rightarrow> throwM (ErrMsg ''invalid contract data''))
                          | Inr [] \<Rightarrow> throwM (ErrMsg ''invalid contract data'')
                          | Inl _ \<Rightarrow> throwM (ErrMsg ''updateContract DoReceive error'')))))
      | ContractSend \<Rightarrow>
          if IsPrivate b \<and> \<not> IsRecipient b then returnM ()
          else (case GetChainContract R (sb_Link b) (GetPayload b) of
                  None \<Rightarrow> returnM ()
                | Some c \<Rightarrow>
                    if d_specVer (c_Describe c) = SpecVer2
                    then (case NewVMContextWithBlock l b of
                            None \<Rightarrow> throwM (ErrMsg ''update contract data: can not get vm context'')
                          | Some vmCtx \<Rightarrow>
                              (case c_ProcessSend c l vmCtx b of
                                 Inr r \<Rightarrow> bindM (SaveStorage (sr_storage r)) (\<lambda>_. saveTrie (sr_trie r))
                               | Inl _ \<Rightarrow> returnM ()))
                    else returnM ())
      | _ \<Rightarrow> returnM ())"

definition new_token_meta :: "config \<Rightarrow> int \<Rightarrow> state_block \<Rightarrow> token_meta" where
  "new_token_meta E now b =
     \<lparr>tm_Type = sb_Token b, tm_Header = GetHash (cf_H E) b, tm_Representative = sb_Representative b,
      tm_OpenBlock = GetHash (cf_H E) b, tm_Balance = sb_Balance b, tm_BelongTo = sb_Address b,
      tm_Modified = now, tm_BlockCount = 1\<rparr>"

definition set_coins :: "config \<Rightarrow> state_block \<Rightarrow> account_meta \<Rightarrow> account_meta" where
  "set_coins E b am =
     (if sb_Token b = cf_ChainToken E
      then am\<lparr>am_CoinBalance := Some (sb_Balance b), am_CoinOracle := Some (StateBlock_GetOracle b),
              am_CoinNetwork := Some (StateBlock_GetNetwork b), am_CoinVote := Some (StateBlock_GetVote b),
              am_CoinStorage := Some (StateBlock_GetStorage b)\<rparr>
      else am)"

definition next_token_meta :: "config \<Rightarrow> int \<Rightarrow> state_block \<Rightarrow> token_meta \<Rightarrow> token_meta" where
  "next_token_meta E now b tm =
     tm\<lparr>tm_Header := GetHash (cf_H E) b, tm_Representative := sb_Representative b, tm_Balance := sb_Balance b,
        tm_BlockCount := tm_BlockCount tm + 1, tm_Modified := now\<rparr>"

text \<open>The account a block leads to: from an existing account, and from none.\<close>

definition next_account :: "config \<Rightarrow> int \<Rightarrow> state_block \<Rightarrow> account_meta \<Rightarrow> account_meta" where
  "next_account E now b am =
     (set_coins E b am)\<lparr>am_Tokens :=
        (if AccountMeta_Token am (sb_Token b) \<noteq> None
         then upd_token (sb_Token b) (next_token_meta E now b) (am_Tokens am)
         else am_Tokens am @ [new_token_meta E now b])\<rparr>"

definition new_account :: "config \<Rightarrow> int \<Rightarrow> state_block \<Rightarrow> account_meta" where
  "new_account E now b =
     set_coins E b \<lparr>am_Address = sb_Address b, am_CoinBalance = None, am_CoinVote = None, am_CoinNetwork = None,
       am_CoinStorage = None, am_CoinOracle = None, am_Tokens = [new_token_meta E now b]\<rparr>"

definition updateAccountMeta :: "config \<Rightarrow> int \<Rightarrow> ledger \<Rightarrow> state_block \<Rightarrow> account_meta option \<Rightarrow> unit batch" where
  "updateAccountMeta E now l b am =
     (case am of
        Some am \<Rightarrow>
          (let am' = next_account E now b (AccountMeta_Clone am)
           in case AccountMeta_Token am' (sb_Token b) of
                None \<Rightarrow> throwM Panic
              | Some tm \<Rightarrow> bindM (AddAccountMetaHistory E tm b) (\<lambda>_. UpdateAccountMeta am'))
      | None \<Rightarrow> bindM (AddAccountMetaHistory E (new_token_meta E now b) b)
          (\<lambda>_. AddAccountMeta l (new_account E now b)))"

definition account_benefit :: "account_meta \<Rightarrow> benefit" where
  "account_benefit am =
     \<lparr>bf_Balance = AccountMeta_GetBalance am, bf_Vote = AccountMeta_GetVote am, bf_Network = AccountMeta_GetNetwork am,
      bf_Storage = AccountMeta_GetStorage am, bf_Oracle = AccountMeta_GetOracle am,
      bf_Total = AccountMeta_TotalBalance am\<rparr>"

definition block_benefit :: "state_block \<Rightarrow> benefit" where
  "block_benefit b =
     \<lparr>bf_Balance = sb_Balance b, bf_Vote = StateBlock_GetVote b, bf_Network = StateBlock_GetNetwork b,
      bf_Storage = StateBlock_GetStorage b, bf_Oracle = StateBlock_GetOracle b,
      bf_Total = StateBlock_TotalBalance b\<rparr>"

text \<open>A token of an account implies the account, so the nil dereference of \<open>am\<close> below is a panic that
  never happens.\<close>

definition updateRepresentative ::
    "config \<Rightarrow> ledger \<Rightarrow> state_block \<Rightarrow> account_meta option \<Rightarrow> token_meta option \<Rightarrow> unit batch" where
  "updateRepresentative E l b am tm =
     (if sb_Token b = cf_ChainToken E
      then bindM (case tm of
                    None \<Rightarrow> returnM ()
                  | Some tm \<Rightarrow>
                      if tm_Representative tm = ZeroAddress then returnM ()
                      else (case am of
                              None \<Rightarrow> throwM Panic
                            | Some am \<Rightarrow> SubRepresentation l (tm_Representative tm) (account_benefit am)))
             (\<lambda>_. AddRepresentation l (sb_Representative b) (block_benefit b))
      else returnM ())"

section \<open>Processing a block\<close>

text \<open>A failed lookup other than not found dereferences the nil account for its message.\<close>

definition processStateBlock :: "config \<Rightarrow> registry \<Rightarrow> int \<Rightarrow> ledger \<Rightarrow> state_block \<Rightarrow> state_block batch" where
  "processStateBlock E R now l b =
     bindM (case GetAccountMetaConfirmed l None (sb_Address b) of
              Inr am \<Rightarrow> returnM (Some am)
            | Inl e \<Rightarrow> if e = ErrAccountNotFound then returnM None else throwM Panic)
     (\<lambda>am. bindM (case GetTokenMetaConfirmed l (sb_Address b) (sb_Token b) of
              Inr tm \<Rightarrow> returnM (Some tm)
            | Inl e \<Rightarrow> if e = ErrAccountNotFound \<or> e = ErrTokenNotFound then returnM None
                       else throwM (ErrMsg ''get token meta error''))
     (\<lambda>tm. bindM (UpdateStateBlock E l b)
     (\<lambda>_. bindM (updatePending E R l b)
     (\<lambda>b. bindM (updateFrontier E l b tm)
     (\<lambda>_. bindM (updateContractData E R l b)
     (\<lambda>_. bindM (updateAccountMeta E now l b am)
     (\<lambda>_. bindM (updateRepresentative E l b am tm) (\<lambda>_. returnM b))))))))"

text \<open>\<open>BlockProcess\<close>: the batch, and on success the two notifications.\<close>

definition BlockProcess :: "config \<Rightarrow> registry \<Rightarrow> int \<Rightarrow> bool \<Rightarrow> state_block \<Rightarrow> ledger \<Rightarrow> ((lerr + unit) \<times> ledger) option" where
  "BlockProcess E R now elapsed b l =
     map_option (\<lambda>(r, l'). case r of
         Inl e \<Rightarrow> (Inl e, l')
       | Inr b' \<Rightarrow> (Inr (), l'\<lparr>l_events := l_events l' @
           [EventAddRelation (GetHash (cf_H E) b'), EventBlockConfirmed (GetHash (cf_H E) b')]\<rparr>))
       (BatchUpdate elapsed (processStateBlock E R now l b) l)"

definition Process :: "config \<Rightarrow> registry \<Rightarrow> int \<Rightarrow> bool \<Rightarrow> state_block \<Rightarrow> ledger \<Rightarrow> (check \<times> ledger) option" where
  "Process E R now elapsed b l =
     (let (r, err) = BlockCheck E R l b
      in if r \<noteq> Progress \<or> err \<noteq> None then Some ((r, err), l)
         else map_option (\<lambda>(res, l'). case res of
                  Inl _ \<Rightarrow> ((Other, Some ''block process''), l')
                | Inr _ \<Rightarrow> (pass, l')) (BlockProcess E R now elapsed b l))"

section \<open>Unconfirmed blocks\<close>

definition updateAccountMetaCache :: "config \<Rightarrow> int \<Rightarrow> state_block \<Rightarrow> account_meta option \<Rightarrow> unit ubatch" where
  "updateAccountMetaCache E now b am =
     (case am of
        Some am \<Rightarrow> AddOrUpdateAccountMetaCache (next_account E now b am)
      | None \<Rightarrow> AddAccountMetaCache (new_account E now b))"

definition BlockCacheProcess :: "config \<Rightarrow> int \<Rightarrow> state_block \<Rightarrow> ledger \<Rightarrow> (lerr + unit) \<times> ledger" where
  "BlockCacheProcess E now b l =
     (case (case GetAccountMeta E l None (sb_Address b) of
              Inr am \<Rightarrow> Inr (Some am)
            | Inl e \<Rightarrow> if e = ErrAccountNotFound then Inr None else Inl (ErrMsg ''get account meta cache error'')) of
        Inl e \<Rightarrow> (Inl e, l)
      | Inr am \<Rightarrow>
          BatchWrite (bindM (AddBlockCache E b) (\<lambda>_. updateAccountMetaCache E now b am)) l)"

end
