(* ===== verification/Ledger_View.thy ===== *)
theory Ledger_View
  imports Ledger_Process
begin

text \<open>What the accessors of the ledger read, in terms of the view behind the memory cache: under the
  ring invariant and with well-typed contents every getter is a lookup in the view, and no getter
  panics or fails to return.\<close>

section \<open>The view\<close>

definition lview :: "ledger \<Rightarrow> key \<rightharpoonup> val" where
  "lview l = mc_view (l_db l)"

definition txview :: "ledger \<Rightarrow> tx \<Rightarrow> key \<rightharpoonup> val" where
  "txview l t = over (t_cache t) (lview l)"

abbreviation rview :: "ledger \<Rightarrow> (key, val) overlay option \<Rightarrow> key \<rightharpoonup> val" where
  "rview l c \<equiv> over (tmp_of c) (lview l)"

lemma rview_simps [simp]: "rview l None = lview l" "rview l (Some (t_cache t)) = txview l t"
  by (simp_all add: txview_def)

text \<open>Well-typed contents: the value kinds of each table, with stored objects equal to their copies.\<close>

fun val_ok :: "config \<Rightarrow> key \<Rightarrow> val \<Rightarrow> bool" where
  "val_ok E (KBlock h) v = (case v of VBlock b \<Rightarrow> GetHash (cf_H E) b = h \<and> StateBlock_Clone b = b | _ \<Rightarrow> False)"
| "val_ok E (KAccount a) v = (case v of VAccount am \<Rightarrow> am_Address am = a \<and> AccountMeta_Clone am = am | _ \<Rightarrow> False)"
| "val_ok E (KPending a h) v = (case v of VPending p \<Rightarrow> True | _ \<Rightarrow> False)"
| "val_ok E (KFrontier h) v = (case v of VHash x \<Rightarrow> True | _ \<Rightarrow> False)"
| "val_ok E (KChild h) v = (case v of VHash x \<Rightarrow> True | _ \<Rightarrow> False)"
| "val_ok E (KLink h) v = (case v of VHash x \<Rightarrow> True | _ \<Rightarrow> False)"
| "val_ok E (KRepresentation a) v = (case v of VBenefit b \<Rightarrow> Benefit_Clone b = b | _ \<Rightarrow> False)"
| "val_ok E _ v = True"

definition well_typed :: "config \<Rightarrow> (key \<rightharpoonup> val) \<Rightarrow> bool" where
  "well_typed E m \<longleftrightarrow> (\<forall>k v. m k = Some v \<longrightarrow> val_ok E k v)"

lemma well_typedD: "well_typed E m \<Longrightarrow> m k = Some v \<Longrightarrow> val_ok E k v"
  by (simp add: well_typed_def)

lemma well_typed_upd [intro]: "well_typed E m \<Longrightarrow> val_ok E k v \<Longrightarrow> well_typed E (m(k \<mapsto> v))"
  by (simp add: well_typed_def)

lemma well_typed_del [intro]: "well_typed E m \<Longrightarrow> well_typed E (m(k := None))"
  by (simp add: well_typed_def)

definition blk :: "(key \<rightharpoonup> val) \<Rightarrow> hash \<Rightarrow> state_block option" where
  "blk m h = Option.bind (m (KBlock h)) block_of"

definition acct :: "(key \<rightharpoonup> val) \<Rightarrow> address \<Rightarrow> account_meta option" where
  "acct m a = Option.bind (m (KAccount a)) account_of"

definition tok :: "(key \<rightharpoonup> val) \<Rightarrow> address \<Rightarrow> hash \<Rightarrow> token_meta option" where
  "tok m a tt = Option.bind (acct m a) (\<lambda>am. AccountMeta_Token am tt)"

definition pend :: "(key \<rightharpoonup> val) \<Rightarrow> address \<Rightarrow> hash \<Rightarrow> pending_info option" where
  "pend m a h = Option.bind (m (KPending a h)) pending_of"

definition benefit_at :: "(key \<rightharpoonup> val) \<Rightarrow> address \<Rightarrow> benefit option" where
  "benefit_at m a = Option.bind (m (KRepresentation a)) benefit_of"

definition hash_at :: "(key \<rightharpoonup> val) \<Rightarrow> key \<Rightarrow> hash option" where
  "hash_at m k = Option.bind (m k) hash_of"

lemmas table_defs = blk_def acct_def pend_def benefit_at_def hash_at_def

lemma well_typed_blk:
  assumes "well_typed E m" "blk m h = Some b"
  shows "m (KBlock h) = Some (VBlock b)" "GetHash (cf_H E) b = h" "StateBlock_Clone b = b"
proof -
  obtain v where v: "m (KBlock h) = Some v" "block_of v = Some b"
    using assms(2) by (auto simp: blk_def bind_eq_Some_conv)
  then show "m (KBlock h) = Some (VBlock b)" by (cases v) auto
  then show "GetHash (cf_H E) b = h" "StateBlock_Clone b = b" using well_typedD [OF assms(1)] by force+
qed

lemma well_typed_blk_None: "well_typed E m \<Longrightarrow> blk m h = None \<longleftrightarrow> m (KBlock h) = None"
  by (cases "m (KBlock h)") (auto simp: blk_def dest!: well_typedD split: val.splits)

lemma well_typed_acct:
  assumes "well_typed E m" "acct m a = Some am"
  shows "m (KAccount a) = Some (VAccount am)" "am_Address am = a" "AccountMeta_Clone am = am"
proof -
  obtain v where v: "m (KAccount a) = Some v" "account_of v = Some am"
    using assms(2) by (auto simp: acct_def bind_eq_Some_conv)
  then show "m (KAccount a) = Some (VAccount am)" by (cases v) auto
  then show "am_Address am = a" "AccountMeta_Clone am = am" using well_typedD [OF assms(1)] by force+
qed

lemma well_typed_acct_None: "well_typed E m \<Longrightarrow> acct m a = None \<longleftrightarrow> m (KAccount a) = None"
  by (cases "m (KAccount a)") (auto simp: acct_def dest!: well_typedD split: val.splits)

lemma well_typed_benefit:
  assumes "well_typed E m" "benefit_at m a = Some b"
  shows "m (KRepresentation a) = Some (VBenefit b)" "Benefit_Clone b = b"
proof -
  obtain v where v: "m (KRepresentation a) = Some v" "benefit_of v = Some b"
    using assms(2) by (auto simp: benefit_at_def bind_eq_Some_conv)
  then show "m (KRepresentation a) = Some (VBenefit b)" by (cases v) auto
  then show "Benefit_Clone b = b" using well_typedD [OF assms(1)] by force
qed

section \<open>Getters\<close>

text \<open>The pattern of all getters: what is found in a cache is read as an object, what is found in the
  store as bytes.\<close>

definition in_cache :: "ledger \<Rightarrow> (key, val) overlay option \<Rightarrow> key \<Rightarrow> bool" where
  "in_cache l c k \<longleftrightarrow> (mc_overlay (l_cache l) ++ tmp_of c) k \<noteq> None"

lemma read_cached_view:
  assumes "mc_inv (l_cache l)"
  shows "read_cached nf fo fb l c k =
    (case rview l c k of
       None \<Rightarrow> Inl nf
     | Some v \<Rightarrow> if in_cache l c k then (case fo v of Some x \<Rightarrow> Inr x | None \<Rightarrow> Inl Panic)
               else (case fb v of Some x \<Rightarrow> Inr x | None \<Rightarrow> Inl (ErrMsg ''deserialize'')))"
proof -
  let ?o = "mc_overlay (l_cache l) ++ tmp_of c"
  have g: "getFromCache c (l_db l) k = Cache_Get ?o k"
    using getFromCache_overlay [of "l_db l" c k] assms by simp
  have v: "rview l c k = over ?o (l_store l) k"
    by (simp add: lview_def mc_view_def over_over)
  show ?thesis unfolding read_cached_def g v in_cache_def
    by (cases "?o k") (auto simp: Cache_Get_def over_app split: option.split)
qed

lemma has_cached_view:
  assumes "mc_inv (l_cache l)"
  shows "has_cached l k = Inr (lview l k \<noteq> None)"
proof -
  have g: "getFromCache None (l_db l) k = Cache_Get (mc_overlay (l_cache l)) k"
    using getFromCache_overlay [of "l_db l" None k] assms by simp
  show ?thesis unfolding has_cached_def g lview_def mc_view_def
    by (cases "mc_overlay (l_cache l) k") (auto simp: Cache_Get_def over_app split: option.split)
qed

lemma HasStateBlockConfirmed_view [view_simps]:
  "mc_inv (l_cache l) \<Longrightarrow> HasStateBlockConfirmed l h = Inr (lview l (KBlock h) \<noteq> None)"
  by (simp add: HasStateBlockConfirmed_def has_cached_view)

lemma HasAccountMetaConfirmed_view [view_simps]:
  "mc_inv (l_cache l) \<Longrightarrow> HasAccountMetaConfirmed l a = Inr (lview l (KAccount a) \<noteq> None)"
  by (simp add: HasAccountMetaConfirmed_def has_cached_view)

definition of_option :: "'e \<Rightarrow> 'a option \<Rightarrow> 'e + 'a" where
  "of_option e r = (case r of None \<Rightarrow> Inl e | Some x \<Rightarrow> Inr x)"

lemma of_option_simps [simp]: "of_option e None = Inl e" "of_option e (Some x) = Inr x"
  by (simp_all add: of_option_def)

lemma of_option_eq [simp]:
  "of_option e r = Inr x \<longleftrightarrow> r = Some x" "of_option e r = Inl e' \<longleftrightarrow> r = None \<and> e' = e"
  by (cases r; auto)+

text \<open>A block read from the store carries the private payload of its table.\<close>

definition block_read :: "ledger \<Rightarrow> (key, val) overlay option \<Rightarrow> hash \<Rightarrow> state_block \<Rightarrow> state_block" where
  "block_read l c h b = (if in_cache l c (KBlock h) then b else with_payload l h b)"

lemma GetStateBlockConfirmed_view:
  assumes "mc_inv (l_cache l)" "well_typed E (rview l c)"
  shows "GetStateBlockConfirmed l c h =
    of_option ErrBlockNotFound (map_option (block_read l c h) (blk (rview l c) h))"
proof (cases "blk (rview l c) h")
  case None
  then have "rview l c (KBlock h) = None" using well_typed_blk_None [OF assms(2)] by simp
  then show ?thesis
    unfolding GetStateBlockConfirmed_def read_cached_view [OF assms(1)] using None by simp
next
  case (Some b)
  note w = well_typed_blk [OF assms(2) Some]
  show ?thesis
    unfolding GetStateBlockConfirmed_def read_cached_view [OF assms(1)] w(1) Some
    using w(3) by (simp add: block_read_def)
qed

lemma GetAccountMetaConfirmed_view:
  assumes "mc_inv (l_cache l)" "well_typed E (rview l c)"
  shows "GetAccountMetaConfirmed l c a = of_option ErrAccountNotFound (acct (rview l c) a)"
proof (cases "acct (rview l c) a")
  case None
  then have "rview l c (KAccount a) = None" using well_typed_acct_None [OF assms(2)] by simp
  then show ?thesis
    unfolding GetAccountMetaConfirmed_def read_cached_view [OF assms(1)] using None by simp
next
  case (Some am)
  note w = well_typed_acct [OF assms(2) Some]
  show ?thesis
    unfolding GetAccountMetaConfirmed_def read_cached_view [OF assms(1)] w(1) Some
    using w(3) by simp
qed

lemma GetTokenMetaConfirmed_view:
  assumes "mc_inv (l_cache l)" "well_typed E (lview l)"
  shows "GetTokenMetaConfirmed l a tt =
    (case acct (lview l) a of None \<Rightarrow> Inl ErrAccountNotFound
     | Some am \<Rightarrow> of_option ErrTokenNotFound (AccountMeta_Token am tt))"
  using GetAccountMetaConfirmed_view [OF assms(1), of E None a] assms(2)
  by (auto simp: GetTokenMetaConfirmed_def of_option_def split: option.split)

lemma GetTokenMetaConfirmed_Inr:
  assumes "mc_inv (l_cache l)" "well_typed E (lview l)"
  shows "GetTokenMetaConfirmed l a tt = Inr tm \<longleftrightarrow> tok (lview l) a tt = Some tm"
  using GetTokenMetaConfirmed_view [OF assms] by (auto simp: tok_def split: option.split)

lemma GetPending_view:
  assumes "mc_inv (l_cache l)" "well_typed E (lview l)"
  shows "GetPending l pk = of_option ErrPendingNotFound (pend (lview l) (fst pk) (snd pk))"
  using well_typedD [OF assms(2), of "KPending (fst pk) (snd pk)"]
  by (auto simp: GetPending_def read_cached_view [OF assms(1)] pend_def split: option.split val.splits)

lemma read_hash_view:
  assumes "mc_inv (l_cache l)" "\<And>v. rview l c k = Some v \<Longrightarrow> \<exists>x. v = VHash x"
  shows "read_cached nf hash_of hash_of l c k = of_option nf (hash_at (rview l c) k)"
  using assms(2) by (auto simp: read_cached_view [OF assms(1)] hash_at_def split: option.split)

lemma GetBlockChild_view:
  assumes "mc_inv (l_cache l)" "well_typed E (rview l c)"
  shows "GetBlockChild l c h = of_option (ErrMsg ''block child not found'') (hash_at (rview l c) (KChild h))"
  unfolding GetBlockChild_def using well_typedD [OF assms(2), of "KChild h"]
  by (intro read_hash_view [OF assms(1)]) (auto split: val.splits)

lemma GetBlockLink_view:
  assumes "mc_inv (l_cache l)" "well_typed E (rview l c)"
  shows "GetBlockLink l c h = of_option (ErrMsg ''block link not found'') (hash_at (rview l c) (KLink h))"
  unfolding GetBlockLink_def using well_typedD [OF assms(2), of "KLink h"]
  by (intro read_hash_view [OF assms(1)]) (auto split: val.splits)

lemma GetFrontier_view:
  assumes "mc_inv (l_cache l)" "well_typed E (rview l c)"
  shows "GetFrontier l c h = of_option ErrFrontierNotFound
    (map_option (\<lambda>x. \<lparr>fr_HeaderBlock = h, fr_OpenBlock = x\<rparr>) (hash_at (rview l c) (KFrontier h)))"
proof -
  have "read_cached ErrFrontierNotFound hash_of hash_of l c (KFrontier h) =
    of_option ErrFrontierNotFound (hash_at (rview l c) (KFrontier h))"
    using well_typedD [OF assms(2), of "KFrontier h"]
    by (intro read_hash_view [OF assms(1)]) (auto split: val.splits)
  then show ?thesis
    by (cases "hash_at (rview l c) (KFrontier h)") (simp_all add: GetFrontier_def)
qed

lemma GetRepresentation_view:
  assumes "mc_inv (l_cache l)" "well_typed E (rview l c)"
  shows "GetRepresentation l c a = of_option ErrRepresentationNotFound (benefit_at (rview l c) a)"
proof (cases "rview l c (KRepresentation a)")
  case None
  then show ?thesis by (simp add: GetRepresentation_def read_cached_view [OF assms(1)] benefit_at_def)
next
  case (Some v)
  then obtain b where "v = VBenefit b" "Benefit_Clone b = b"
    using well_typedD [OF assms(2) Some] by (auto split: val.splits)
  with Some show ?thesis
    by (simp add: GetRepresentation_def read_cached_view [OF assms(1)] benefit_at_def)
qed

text \<open>Reading adds at most the private payload, so the hashed fields are those of the stored block.\<close>

lemma with_payload_sels [simp]:
  "sb_Type (with_payload l h b) = sb_Type b" "sb_Token (with_payload l h b) = sb_Token b"
  "sb_Address (with_payload l h b) = sb_Address b" "sb_Balance (with_payload l h b) = sb_Balance b"
  "sb_Vote (with_payload l h b) = sb_Vote b" "sb_Network (with_payload l h b) = sb_Network b"
  "sb_Storage (with_payload l h b) = sb_Storage b" "sb_Oracle (with_payload l h b) = sb_Oracle b"
  "sb_Previous (with_payload l h b) = sb_Previous b" "sb_Link (with_payload l h b) = sb_Link b"
  "sb_Representative (with_payload l h b) = sb_Representative b"
  "sb_Extra (with_payload l h b) = sb_Extra b" "sb_PoVHeight (with_payload l h b) = sb_PoVHeight b"
  "sb_Timestamp (with_payload l h b) = sb_Timestamp b" "sb_PrivateFrom (with_payload l h b) = sb_PrivateFrom b"
  "BuildHashData (with_payload l h b) = BuildHashData b"
  by (auto simp: with_payload_def SetPrivatePayload_def BuildHashData_def split: sum.split)

lemma block_read_sels [simp]:
  "sb_Type (block_read l c h b) = sb_Type b" "sb_Token (block_read l c h b) = sb_Token b"
  "sb_Address (block_read l c h b) = sb_Address b" "sb_Balance (block_read l c h b) = sb_Balance b"
  "sb_Vote (block_read l c h b) = sb_Vote b" "sb_Network (block_read l c h b) = sb_Network b"
  "sb_Storage (block_read l c h b) = sb_Storage b" "sb_Oracle (block_read l c h b) = sb_Oracle b"
  "sb_Previous (block_read l c h b) = sb_Previous b" "sb_Link (block_read l c h b) = sb_Link b"
  "sb_Representative (block_read l c h b) = sb_Representative b"
  "sb_Extra (block_read l c h b) = sb_Extra b" "sb_PoVHeight (block_read l c h b) = sb_PoVHeight b"
  "sb_Timestamp (block_read l c h b) = sb_Timestamp b" "sb_PrivateFrom (block_read l c h b) = sb_PrivateFrom b"
  "GetHash H (block_read l c h b) = GetHash H b"
  by (simp_all add: block_read_def GetHash_def)

text \<open>The two uses of the getters: inside a batch, and on the committed ledger.\<close>

lemma tx_reads:
  assumes "mc_inv (l_cache l)" "well_typed E (txview l t)"
  shows "GetBlockChild l (Some (t_cache t)) h = of_option (ErrMsg ''block child not found'') (hash_at (txview l t) (KChild h))"
    "GetFrontier l (Some (t_cache t)) h = of_option ErrFrontierNotFound
       (map_option (\<lambda>x. \<lparr>fr_HeaderBlock = h, fr_OpenBlock = x\<rparr>) (hash_at (txview l t) (KFrontier h)))"
    "GetRepresentation l (Some (t_cache t)) a = of_option ErrRepresentationNotFound (benefit_at (txview l t) a)"
    "GetAccountMetaConfirmed l (Some (t_cache t)) a = of_option ErrAccountNotFound (acct (txview l t) a)"
  using GetBlockChild_view [OF assms(1), of E "Some (t_cache t)" h] GetFrontier_view [OF assms(1), of E "Some (t_cache t)" h]
    GetRepresentation_view [OF assms(1), of E "Some (t_cache t)" a] GetAccountMetaConfirmed_view [OF assms(1), of E "Some (t_cache t)" a]
    assms(2) by (simp_all add: txview_def)

lemma ledger_reads:
  assumes "mc_inv (l_cache l)" "well_typed E (lview l)"
  shows "GetBlockChild l None h = of_option (ErrMsg ''block child not found'') (hash_at (lview l) (KChild h))"
    "GetBlockLink l None h = of_option (ErrMsg ''block link not found'') (hash_at (lview l) (KLink h))"
    "GetFrontier l None h = of_option ErrFrontierNotFound
       (map_option (\<lambda>x. \<lparr>fr_HeaderBlock = h, fr_OpenBlock = x\<rparr>) (hash_at (lview l) (KFrontier h)))"
    "GetRepresentation l None a = of_option ErrRepresentationNotFound (benefit_at (lview l) a)"
    "GetAccountMetaConfirmed l None a = of_option ErrAccountNotFound (acct (lview l) a)"
    "GetStateBlockConfirmed l None h = of_option ErrBlockNotFound (map_option (block_read l None h) (blk (lview l) h))"
    "GetPending l pk = of_option ErrPendingNotFound (pend (lview l) (fst pk) (snd pk))"
  using GetBlockChild_view [OF assms(1), of E None h] GetBlockLink_view [OF assms(1), of E None h]
    GetFrontier_view [OF assms(1), of E None h] GetRepresentation_view [OF assms(1), of E None a]
    GetAccountMetaConfirmed_view [OF assms(1), of E None a] GetStateBlockConfirmed_view [OF assms(1), of E None h]
    GetPending_view [OF assms] assms(2) by simp_all

section \<open>Writing\<close>

lemma cput_app [simp]: "cput k v t = (Inr (), t\<lparr>t_cache := Cache_Put k v (t_cache t)\<rparr>)"
  by (simp add: cput_def)

lemma cdel_app [simp]: "cdel k t = (Inr (), t\<lparr>t_cache := Cache_Delete k (t_cache t)\<rparr>)"
  by (simp add: cdel_def)

lemma bindM_cput [simp]: "bindM (cput k v) f t = f () (t\<lparr>t_cache := Cache_Put k v (t_cache t)\<rparr>)"
  by (simp add: cput_def)

lemma bindM_cdel [simp]: "bindM (cdel k) f t = f () (t\<lparr>t_cache := Cache_Delete k (t_cache t)\<rparr>)"
  by (simp add: cdel_def)

lemma over_Put [simp]: "over (Cache_Put k v c) m = (over c m)(k \<mapsto> v)"
  by (simp add: Cache_Put_def)

lemma over_Delete [simp]: "over (Cache_Delete k c) m = (over c m)(k := None)"
  by (simp add: Cache_Delete_def)

lemma txview_upd [simp]:
  "txview l (t\<lparr>t_cache := c\<rparr>) = over c (lview l)"
  "txview l (t\<lparr>t_rcache := r\<rparr>) = txview l t" "txview l (t\<lparr>t_events := e\<rparr>) = txview l t"
  by (simp_all add: txview_def)

lemma txview_fold [simp]: "over (t_cache t) (lview l) = txview l t"
  by (simp add: txview_def)

text \<open>A batch that ends well makes its temporary cache part of the view; a failing one leaves the view
  alone.\<close>

definition start_tx :: "ledger \<Rightarrow> tx" where
  "start_tx l = \<lparr>t_cache = Map.empty, t_rcache = l_rcache l, t_events = l_events l\<rparr>"

lemma txview_start [simp]: "txview l (start_tx l) = lview l"
  by (simp add: txview_def start_tx_def)

lemma lview_cache: "lview (l\<lparr>l_cache := mc, l_rcache := r, l_events := ev\<rparr>) = mc_view (mc, l_store l)"
  by (simp add: lview_def)

lemma lview_events [simp]: "lview (l\<lparr>l_events := ev\<rparr>) = lview l" "lview (l\<lparr>l_rcache := r\<rparr>) = lview l"
  by (simp_all add: lview_def)

lemma BatchUpdate_cases:
  assumes "BatchUpdate e f l = Some (r, l')" "mc_inv (l_cache l)"
  obtains (fail) x t where "f (start_tx l) = (Inl x, t)" "r = Inl x"
      "l' = l\<lparr>l_rcache := t_rcache t, l_events := t_events t\<rparr>"
  | (ok) x t mc where "f (start_tx l) = (Inr x, t)" "r = Inr x"
      "BatchUpdate_commit e (t_cache t) (l_cache l) = Some mc"
      "l' = l\<lparr>l_cache := mc, l_rcache := t_rcache t, l_events := t_events t\<rparr>"
      "mc_inv mc" "lview l' = txview l t"
proof -
  obtain y t where f: "f (start_tx l) = (y, t)" by (cases "f (start_tx l)")
  show thesis
  proof (cases y)
    case (Inl x)
    then show thesis using assms(1) f by (intro fail [of x t]) (auto simp: BatchUpdate_def start_tx_def)
  next
    case (Inr x)
    then obtain mc where mc: "BatchUpdate_commit e (t_cache t) (l_cache l) = Some mc"
      and l': "l' = l\<lparr>l_cache := mc, l_rcache := t_rcache t, l_events := t_events t\<rparr>" "r = Inr x"
      using assms(1) f by (auto simp: BatchUpdate_def start_tx_def)
    moreover have "lview l' = txview l t"
      using commit_view [OF assms(2) mc, of "l_store l"] by (simp add: l' lview_cache txview_def lview_def)
    ultimately show thesis using f Inr commit_inv [OF assms(2) mc] by (intro ok [of x t mc]) auto
  qed
qed

end
