(* ===== verification/Ledger_Spec.thy ===== *)
theory Ledger_Spec
  imports Ledger_View
begin

text \<open>What processing a block does to the view of the ledger, as one function on maps
  (\<open>spec_process\<close>), and the proof that the batch of \<open>processStateBlock\<close> refines it: exactly for the
  block types that call no contract, and on all tables but pendings, VM storage and trie nodes for
  contract blocks.\<close>

section \<open>The specification\<close>

definition has_parent :: "config \<Rightarrow> state_block \<Rightarrow> bool" where
  "has_parent E b \<longleftrightarrow> \<not> IsGenesisBlock E b \<and> \<not> IsOpen b"

definition spec_block :: "config \<Rightarrow> state_block \<Rightarrow> (key \<rightharpoonup> val) \<Rightarrow> (key \<rightharpoonup> val)" where
  "spec_block E b m =
     (let h = GetHash (cf_H E) b;
          m1 = (if has_parent E b then m(KChild (sb_Previous b) \<mapsto> VHash h) else m);
          m2 = (if IsReceiveBlock b then m1(KLink (sb_Link b) \<mapsto> VHash h) else m1)
      in m2(KBlock h \<mapsto> VBlock (StateBlock_Clone b)))"

definition spec_pending :: "config \<Rightarrow> state_block \<Rightarrow> state_block option \<Rightarrow> (key \<rightharpoonup> val) \<Rightarrow> (key \<rightharpoonup> val)" where
  "spec_pending E b prev m =
     (case sb_Type b of
        Send \<Rightarrow>
          (case prev of
             None \<Rightarrow> m
           | Some p \<Rightarrow> m(KPending (sb_Link b) (GetHash (cf_H E) b) \<mapsto>
               VPending \<lparr>pi_Source = sb_Address b, pi_Amount = Balance_Sub (sb_Balance p) (sb_Balance b),
                 pi_Type = sb_Token b\<rparr>))
      | ContractSend \<Rightarrow> m
      | _ \<Rightarrow> if IsReceiveBlock b then m(KPending (sb_Address b) (sb_Link b) := None) else m)"

definition spec_frontier :: "config \<Rightarrow> state_block \<Rightarrow> token_meta option \<Rightarrow> (key \<rightharpoonup> val) \<Rightarrow> (key \<rightharpoonup> val)" where
  "spec_frontier E b tm m =
     (let h = GetHash (cf_H E) b
      in case tm of
           None \<Rightarrow> m(KFrontier h \<mapsto> VHash h)
         | Some tm \<Rightarrow> (m(KFrontier (tm_Header tm) := None))(KFrontier h \<mapsto> VHash (tm_OpenBlock tm)))"

definition account_after :: "config \<Rightarrow> int \<Rightarrow> state_block \<Rightarrow> account_meta option \<Rightarrow> account_meta" where
  "account_after E now b am =
     (case am of None \<Rightarrow> new_account E now b | Some am \<Rightarrow> next_account E now b am)"

definition token_after :: "config \<Rightarrow> int \<Rightarrow> state_block \<Rightarrow> token_meta option \<Rightarrow> token_meta" where
  "token_after E now b tm =
     (case tm of None \<Rightarrow> new_token_meta E now b | Some tm \<Rightarrow> next_token_meta E now b tm)"

definition spec_account :: "config \<Rightarrow> int \<Rightarrow> state_block \<Rightarrow> account_meta option \<Rightarrow> token_meta option \<Rightarrow>
    (key \<rightharpoonup> val) \<Rightarrow> (key \<rightharpoonup> val)" where
  "spec_account E now b am tm m =
     (let tm' = TokenMeta_Clone (token_after E now b tm)
      in m(KAccountBlockHash (GetHash (cf_H E) b) \<mapsto> VToken tm',
           KAccountPovHeight (tm_BelongTo tm') (sb_PoVHeight b) (tm_Type tm') \<mapsto> VToken tm',
           KAccount (sb_Address b) \<mapsto> VAccount (AccountMeta_Clone (account_after E now b am))))"

definition benefit_or_zero :: "(key \<rightharpoonup> val) \<Rightarrow> address \<Rightarrow> benefit" where
  "benefit_or_zero m a = (case benefit_at m a of None \<Rightarrow> Benefit_Clone ZeroBenefit | Some b \<Rightarrow> b)"

definition spec_sub_rep :: "account_meta option \<Rightarrow> token_meta option \<Rightarrow> (key \<rightharpoonup> val) \<Rightarrow> (key \<rightharpoonup> val)" where
  "spec_sub_rep am tm m =
     (case (am, tm) of
        (Some am, Some tm) \<Rightarrow>
          if tm_Representative tm = ZeroAddress then m
          else m(KRepresentation (tm_Representative tm) \<mapsto>
            VBenefit (Benefit_Clone (Benefit_minus (benefit_or_zero m (tm_Representative tm)) (account_benefit am))))
      | _ \<Rightarrow> m)"

definition spec_rep :: "config \<Rightarrow> state_block \<Rightarrow> account_meta option \<Rightarrow> token_meta option \<Rightarrow>
    (key \<rightharpoonup> val) \<Rightarrow> (key \<rightharpoonup> val)" where
  "spec_rep E b am tm m =
     (if sb_Token b = cf_ChainToken E
      then let m1 = spec_sub_rep am tm m
           in m1(KRepresentation (sb_Representative b) \<mapsto>
             VBenefit (Benefit_Clone (Benefit_plus (benefit_or_zero m1 (sb_Representative b)) (block_benefit b))))
      else m)"

definition spec_process :: "config \<Rightarrow> int \<Rightarrow> state_block \<Rightarrow> (key \<rightharpoonup> val) \<Rightarrow> (key \<rightharpoonup> val)" where
  "spec_process E now b m =
     (let am = acct m (sb_Address b); tm = tok m (sb_Address b) (sb_Token b)
      in spec_rep E b am tm (spec_account E now b am tm (spec_frontier E b tm
           (spec_pending E b (blk m (sb_Previous b)) (spec_block E b m)))))"

section \<open>Effects of the steps\<close>

lemma UpdateStateBlock_run:
  assumes "mc_inv (l_cache l)" "well_typed E (txview l t)"
  shows "UpdateStateBlock E l b t =
    (if CheckPrivateRecvRsp b then (Inl (ErrMsg ''private does not got recv rsp''), t)
     else if has_parent E b \<and> \<not> HasBlockCache l (sb_Previous b) \<and> lview l (KBlock (sb_Previous b)) = None
     then (Inl (ErrMsg ''can not find parent''), t)
     else if has_parent E b \<and> hash_at (txview l t) (KChild (sb_Previous b)) \<noteq> None
     then (Inl (ErrMsg ''already have child''), t)
     else (Inr (), snd (UpdateStateBlock E l b t)))"
  by (auto simp: UpdateStateBlock_def setStateBlock_def setBlockChild_def setBlockLink_def has_parent_def
        Parent_def IsOpen_def Let_def HasStateBlockConfirmed_view [OF assms(1)] tx_reads(1) [OF assms] bindM_def of_option_def
      split: option.splits)

lemma UpdateStateBlock_view:
  assumes "mc_inv (l_cache l)" "well_typed E (txview l t)" "UpdateStateBlock E l b t = (Inr (), t')"
  shows "txview l t' = spec_block E b (txview l t)"
  using assms(3)
  by (auto simp: UpdateStateBlock_def setStateBlock_def setBlockChild_def setBlockLink_def has_parent_def
        Parent_def IsOpen_def Let_def HasStateBlockConfirmed_view [OF assms(1)] tx_reads(1) [OF assms(1,2)] bindM_def of_option_def
      spec_block_def IsReceiveBlock_def split: option.splits if_splits)

text \<open>The tables contracts write to.\<close>

fun core_key :: "key \<Rightarrow> bool" where
  "core_key (KPending a h) = False"
| "core_key (KVMStorage k) = False"
| "core_key (KTrie k) = False"
| "core_key _ = True"

text \<open>What the processing of a contract send relies on: the contract leaves the block as it is. A call that
  rewrites the block's data would make the later steps work with another hash.\<close>

definition keeps_block :: "registry \<Rightarrow> ledger \<Rightarrow> state_block \<Rightarrow> bool" where
  "keeps_block R l b \<longleftrightarrow> (sb_Type b = ContractSend \<longrightarrow>
     (\<forall>c vm r. GetChainContract R (sb_Link b) (GetPayload b) = Some c \<longrightarrow> c_ProcessSend c l vm b = Inr r \<longrightarrow> sr_block r = b))"

lemma keeps_block_other: "sb_Type b \<noteq> ContractSend \<Longrightarrow> keeps_block R l b"
  by (simp add: keeps_block_def)

lemma AddPending_run: "AddPending E pk p t = (Inr (), t') \<Longrightarrow>
    txview l t' = (txview l t)(KPending (fst pk) (snd pk) \<mapsto> VPending p)"
  by (auto simp: AddPending_def)

lemma DeletePending_run:
  assumes "mc_inv (l_cache l)" "well_typed E (lview l)" "DeletePending E l pk t = (r, t')"
    and "txview l t (KPending (fst pk) (snd pk)) = lview l (KPending (fst pk) (snd pk))"
  shows "r = Inr () \<and> txview l t' = (txview l t)(KPending (fst pk) (snd pk) := None)"
proof (cases "pend (lview l) (fst pk) (snd pk)")
  case None
  then have "lview l (KPending (fst pk) (snd pk)) = None"
    using well_typedD [OF assms(2), of "KPending (fst pk) (snd pk)"]
    by (cases "lview l (KPending (fst pk) (snd pk))") (auto simp: pend_def split: val.splits)
  with assms(3,4) None show ?thesis
    by (auto simp: DeletePending_def ledger_reads [OF assms(1,2)] fun_upd_idem)
next
  case (Some p)
  with assms(3) show ?thesis by (auto simp: DeletePending_def ledger_reads [OF assms(1,2)])
qed

text \<open>A block whose type calls no contract.\<close>

definition ordinary :: "state_block \<Rightarrow> bool" where
  "ordinary b \<longleftrightarrow> sb_Type b = Send \<or> sb_Type b = Receive \<or> sb_Type b = Change \<or> sb_Type b = Open \<or> sb_Type b = Online"

lemma updatePending_ordinary:
  assumes "mc_inv (l_cache l)" "well_typed E (lview l)" "updatePending E R l b t = (Inr b', t')"
    and "\<And>a h. txview l t (KPending a h) = lview l (KPending a h)"
    and "sb_Type b \<noteq> ContractSend"
  shows "b' = b \<and> txview l t' = spec_pending E b (blk (lview l) (sb_Previous b)) (txview l t)"
proof (cases "IsReceiveBlock b")
  case True
  then obtain t1 where "DeletePending E l (sb_Address b, sb_Link b) t = (Inr (), t1)" "t' = t1" "b' = b"
    using assms(3) by (auto simp: updatePending_def IsReceiveBlock_def elim!: bindM_InrE)
  with DeletePending_run [OF assms(1,2), of "(sb_Address b, sb_Link b)" t] assms(4) True show ?thesis
    by (auto simp: spec_pending_def IsReceiveBlock_def split: BlockType.splits)
next
  case nr: False
  show ?thesis
  proof (cases "sb_Type b = Send")
    case True
    with assms(3) show ?thesis
      by (auto simp: updatePending_def spec_pending_def AddPending_def ledger_reads [OF assms(1,2)] of_option_def
          split: option.splits)
  next
    case False
    with nr assms(3,5) show ?thesis
      by (auto simp: updatePending_def spec_pending_def IsReceiveBlock_def split: BlockType.splits)
  qed
qed

lemma AddPending_core:
  "bindM (AddPending E pk p) (\<lambda>_. returnM b) t = (Inr b', t') \<Longrightarrow>
    b' = b \<and> (\<forall>k. core_key k \<longrightarrow> txview l t' k = txview l t k)"
  by (auto simp: AddPending_def)

lemma DeletePending_core:
  "bindM (DeletePending E l pk) (\<lambda>_. returnM b) t = (Inr b', t') \<Longrightarrow>
    b' = b \<and> (\<forall>k. core_key k \<longrightarrow> txview l t' k = txview l t k)"
  by (auto simp: DeletePending_def split: sum.splits)

lemma updatePending_core:
  assumes "updatePending E R l b t = (Inr b', t')" "keeps_block R l b"
  shows "b' = b \<and> (\<forall>k. core_key k \<longrightarrow> txview l t' k = txview l t k)"
proof (cases "sb_Type b = ContractSend")
  case True
  with assms(2) have k: "sr_block r = b"
    if "GetChainContract R (sb_Link b) (GetPayload b) = Some c" "c_ProcessSend c l vm b = Inr r" for c vm r
    using that by (simp add: keeps_block_def)
  from assms(1) True show ?thesis
    by (auto simp: updatePending_def k
        split: if_splits option.split_asm SpecVer.split_asm sum.split_asm prod.split_asm
        dest: AddPending_core [where l = l])
next
  case False
  with assms show ?thesis
    by (auto simp: updatePending_def split: BlockType.split_asm sum.split_asm
        dest: AddPending_core [where l = l] DeletePending_core)
qed

lemma updateFrontier_run:
  assumes "mc_inv (l_cache l)" "well_typed E (lview l)" "updateFrontier E l b tm t = (Inr (), t')"
  shows "txview l t' = spec_frontier E b tm (txview l t)"
  using assms(3)
  by (auto simp: updateFrontier_def spec_frontier_def AddFrontier_def DeleteFrontier_def Let_def
      ledger_reads [OF assms(1,2)] of_option_def split: option.splits)

lemma SaveStorage_core:
  "SaveStorage kvs t = (r, t') \<Longrightarrow> r = Inr () \<and> (\<forall>k. core_key k \<longrightarrow> txview l t' k = txview l t k)"
proof (induction kvs arbitrary: t)
  case (Cons kv kvs)
  then show ?case using Cons.IH by (cases kv) (fastforce simp: SaveStorage_def)
qed (simp add: SaveStorage_def)

lemma saveTrie_core:
  "saveTrie kvs t = (r, t') \<Longrightarrow> r = Inr () \<and> (\<forall>k. core_key k \<longrightarrow> txview l t' k = txview l t k)"
proof (induction kvs arbitrary: t)
  case (Cons kv kvs)
  then show ?case using Cons.IH by (cases kv) (fastforce simp: saveTrie_def)
qed (simp add: saveTrie_def)

lemma updateContractData_core:
  assumes "updateContractData E R l b t = (Inr (), t')" "core_key k"
  shows "txview l t' k = txview l t k"
proof -
  have save: "txview l t2 k = txview l t k" if "bindM (SaveStorage st) (\<lambda>_. saveTrie tr) t = (Inr (), t2)" for st tr t2
    using that assms(2) SaveStorage_core saveTrie_core by (elim bindM_InrE) metis
  then show ?thesis using assms(1)
    by (auto simp: updateContractData_def split: if_splits BlockType.splits sum.splits option.splits list.splits prod.splits)
qed

lemma updateContractData_ordinary:
  "ordinary b \<Longrightarrow> updateContractData E R l b t = (Inr (), t)"
  by (auto simp: updateContractData_def ordinary_def)

lemma find_upd_token:
  assumes "\<And>t. tm_Type (f t) = tm_Type t"
  shows "find (\<lambda>t. tm_Type t = tt) (upd_token tt f ts) = map_option f (find (\<lambda>t. tm_Type t = tt) ts)"
  by (induction ts) (simp_all add: assms)

lemma find_upd_token_other:
  assumes "\<And>t. tm_Type (f t) = tm_Type t" "tt' \<noteq> tt"
  shows "find (\<lambda>t. tm_Type t = tt') (upd_token tt f ts) = find (\<lambda>t. tm_Type t = tt') ts"
  using assms(2) by (induction ts) (auto simp: assms(1))

lemma next_token_meta_sels [simp]:
  "tm_Type (next_token_meta E now b t) = tm_Type t" "tm_Header (next_token_meta E now b t) = GetHash (cf_H E) b"
  "tm_Representative (next_token_meta E now b t) = sb_Representative b" "tm_Balance (next_token_meta E now b t) = sb_Balance b"
  "tm_OpenBlock (next_token_meta E now b t) = tm_OpenBlock t" "tm_BelongTo (next_token_meta E now b t) = tm_BelongTo t"
  by (simp_all add: next_token_meta_def)

lemma new_token_meta_sels [simp]:
  "tm_Type (new_token_meta E now b) = sb_Token b" "tm_Header (new_token_meta E now b) = GetHash (cf_H E) b"
  "tm_Representative (new_token_meta E now b) = sb_Representative b" "tm_Balance (new_token_meta E now b) = sb_Balance b"
  "tm_OpenBlock (new_token_meta E now b) = GetHash (cf_H E) b" "tm_BelongTo (new_token_meta E now b) = sb_Address b"
  by (simp_all add: new_token_meta_def)

lemma set_coins_sels [simp]:
  "am_Tokens (set_coins E b am) = am_Tokens am" "am_Address (set_coins E b am) = am_Address am"
  by (simp_all add: set_coins_def)

lemma TokenMeta_Clone_sels [simp]:
  "tm_Type (TokenMeta_Clone t) = tm_Type t" "tm_Header (TokenMeta_Clone t) = tm_Header t"
  "tm_Representative (TokenMeta_Clone t) = tm_Representative t" "tm_OpenBlock (TokenMeta_Clone t) = tm_OpenBlock t"
  "tm_BelongTo (TokenMeta_Clone t) = tm_BelongTo t" "tm_Balance (TokenMeta_Clone t) = \<bar>tm_Balance t\<bar>"
  "tm_BlockCount (TokenMeta_Clone t) = tm_BlockCount t"
  by (simp_all add: TokenMeta_Clone_def)

lemma AccountMeta_Clone_sels [simp]:
  "am_Address (AccountMeta_Clone am) = am_Address am" "am_Tokens (AccountMeta_Clone am) = map TokenMeta_Clone (am_Tokens am)"
  "am_CoinBalance (AccountMeta_Clone am) = am_CoinBalance am" "am_CoinVote (AccountMeta_Clone am) = am_CoinVote am"
  "am_CoinNetwork (AccountMeta_Clone am) = am_CoinNetwork am" "am_CoinStorage (AccountMeta_Clone am) = am_CoinStorage am"
  "am_CoinOracle (AccountMeta_Clone am) = am_CoinOracle am"
  by (simp_all add: AccountMeta_Clone_def)

lemma token_next_account:
  "AccountMeta_Token (next_account E now b am) (sb_Token b) =
     Some (token_after E now b (AccountMeta_Token am (sb_Token b)))"
proof (cases "AccountMeta_Token am (sb_Token b)")
  case None
  then show ?thesis by (simp add: next_account_def AccountMeta_Token_def token_after_def find_snoc)
next
  case (Some tm)
  then show ?thesis
    using find_upd_token [of "next_token_meta E now b" "sb_Token b" "am_Tokens am"]
    by (simp add: next_account_def AccountMeta_Token_def token_after_def)
qed

lemma updateAccountMeta_run:
  assumes "mc_inv (l_cache l)" "well_typed E (lview l)" "am = acct (lview l) (sb_Address b)"
    and "tm = tok (lview l) (sb_Address b) (sb_Token b)"
  shows "\<exists>t'. updateAccountMeta E now l b am t = (Inr (), t') \<and>
    txview l t' = spec_account E now b am tm (txview l t)"
proof (cases am)
  case None
  then have "acct (lview l) (sb_Address b) = None" "tm = None" using assms(3,4) by (simp_all add: tok_def)
  moreover have "am_Address (new_account E now b) = sb_Address b" by (simp add: new_account_def)
  ultimately show ?thesis using None
    by (simp add: updateAccountMeta_def AddAccountMetaHistory_def AddAccountMeta_def ledger_reads [OF assms(1,2)]
        spec_account_def Let_def token_after_def account_after_def)
next
  case (Some a)
  note w = well_typed_acct [OF assms(2), of "sb_Address b" a]
  have "acct (lview l) (sb_Address b) = Some a" "tm = AccountMeta_Token a (sb_Token b)"
    using Some assms(3,4) by (simp_all add: tok_def)
  moreover have "am_Address (next_account E now b a) = am_Address a" by (simp add: next_account_def)
  ultimately show ?thesis using Some w
    by (simp add: updateAccountMeta_def token_next_account AddAccountMetaHistory_def UpdateAccountMeta_def
        spec_account_def Let_def account_after_def)
qed

lemma benefit_at_upd [simp]:
  "benefit_at (m(KRepresentation a \<mapsto> VBenefit b)) a' = (if a' = a then Some b else benefit_at m a')"
  by (simp add: benefit_at_def)

lemma Benefit_Clone_idem [simp]: "Benefit_Clone (Benefit_Clone b) = Benefit_Clone b"
  by (simp add: Benefit_Clone_def)

lemma SubRepresentation_run:
  assumes "mc_inv (l_cache l)" "well_typed E (txview l t)" "SubRepresentation l a d t = (Inr (), t')"
  shows "txview l t' = (txview l t)(KRepresentation a \<mapsto>
      VBenefit (Benefit_Clone (Benefit_minus (benefit_or_zero (txview l t) a) d)))"
    and "benefit_at (txview l t) a \<noteq> None"
  using assms(3) by (auto simp: SubRepresentation_def tx_reads [OF assms(1,2)] of_option_def
      setRepresentation_def benefit_or_zero_def split: option.splits)

lemma AddRepresentation_run:
  assumes "mc_inv (l_cache l)" "well_typed E (txview l t)"
  shows "\<exists>t'. AddRepresentation l a d t = (Inr (), t') \<and>
    txview l t' = (txview l t)(KRepresentation a \<mapsto>
      VBenefit (Benefit_Clone (Benefit_plus (benefit_or_zero (txview l t) a) d)))"
  by (cases "benefit_at (txview l t) a")
    (simp_all add: AddRepresentation_def tx_reads [OF assms] setRepresentation_def benefit_or_zero_def)

lemma updateRepresentative_run:
  assumes "mc_inv (l_cache l)" "well_typed E (txview l t)" "updateRepresentative E l b am tm t = (Inr (), t')"
    and "tm \<noteq> None \<Longrightarrow> am \<noteq> None"
  shows "txview l t' = spec_rep E b am tm (txview l t)"
proof (cases "sb_Token b = cf_ChainToken E")
  case False
  with assms(3) show ?thesis by (simp add: updateRepresentative_def spec_rep_def)
next
  case True
  then obtain t1 where t1: "(case tm of None \<Rightarrow> returnM ()
      | Some tm \<Rightarrow> if tm_Representative tm = ZeroAddress then returnM ()
          else (case am of None \<Rightarrow> throwM Panic | Some am \<Rightarrow> SubRepresentation l (tm_Representative tm) (account_benefit am))) t
        = (Inr (), t1)"
    and t2: "AddRepresentation l (sb_Representative b) (block_benefit b) t1 = (Inr (), t')"
    using assms(3) by (auto simp: updateRepresentative_def elim!: bindM_InrE)
  have v1: "txview l t1 = spec_sub_rep am tm (txview l t)"
    using t1 assms(4) SubRepresentation_run(1) [OF assms(1,2)]
    by (auto simp: spec_sub_rep_def split: option.splits if_splits)
  then have "well_typed E (txview l t1)"
    using assms(2) by (auto simp: spec_sub_rep_def split: option.splits intro!: well_typed_upd)
  from AddRepresentation_run [OF assms(1) this, of "sb_Representative b" "block_benefit b"] t2 v1 True
  show ?thesis by (simp add: spec_rep_def Let_def)
qed

section \<open>Refinement\<close>

lemma StateBlock_Clone_idem [simp]: "StateBlock_Clone (StateBlock_Clone b) = StateBlock_Clone b"
  by (simp add: StateBlock_Clone_def StateBlock_Unmarshal_def)

lemma TokenMeta_Clone_idem [simp]: "TokenMeta_Clone (TokenMeta_Clone t) = TokenMeta_Clone t"
  by (simp add: TokenMeta_Clone_def)

lemma AccountMeta_Clone_idem [simp]: "AccountMeta_Clone (AccountMeta_Clone a) = AccountMeta_Clone a"
  by (simp add: AccountMeta_Clone_def)

lemma spec_block_typed: "well_typed E m \<Longrightarrow> well_typed E (spec_block E b m)"
  by (auto simp: spec_block_def Let_def intro!: well_typed_upd)

lemma spec_pending_typed: "well_typed E m \<Longrightarrow> well_typed E (spec_pending E b p m)"
  by (auto simp: spec_pending_def intro!: well_typed_upd split: BlockType.splits option.splits)

lemma spec_frontier_typed: "well_typed E m \<Longrightarrow> well_typed E (spec_frontier E b tm m)"
  by (auto simp: spec_frontier_def Let_def intro!: well_typed_upd split: option.splits)

lemma account_after_address: "(\<And>a. am = Some a \<Longrightarrow> am_Address a = sb_Address b) \<Longrightarrow>
    am_Address (account_after E now b am) = sb_Address b"
  by (auto simp: account_after_def new_account_def next_account_def split: option.splits)

lemma spec_account_typed:
  "well_typed E m \<Longrightarrow> (\<And>a. am = Some a \<Longrightarrow> am_Address a = sb_Address b) \<Longrightarrow>
    well_typed E (spec_account E now b am tm m)"
  by (auto simp: spec_account_def Let_def account_after_address intro!: well_typed_upd)

lemma spec_sub_rep_typed: "well_typed E m \<Longrightarrow> well_typed E (spec_sub_rep am tm m)"
  by (auto simp: spec_sub_rep_def intro!: well_typed_upd split: option.splits)

lemma spec_rep_typed: "well_typed E m \<Longrightarrow> well_typed E (spec_rep E b am tm m)"
  by (auto simp: spec_rep_def Let_def intro!: well_typed_upd spec_sub_rep_typed)

lemma spec_process_typed: "well_typed E m \<Longrightarrow> well_typed E (spec_process E now b m)"
  unfolding spec_process_def Let_def
  by (intro spec_rep_typed spec_account_typed spec_frontier_typed spec_pending_typed spec_block_typed)
    (auto dest: well_typed_acct)

lemma spec_block_pending [simp]: "spec_block E b m (KPending a h) = m (KPending a h)"
  by (simp add: spec_block_def Let_def)

text \<open>The batch of \<open>processStateBlock\<close> on the account and the token the view holds, and a batch that
  succeeds, taken apart.\<close>

lemma processStateBlock_unfold:
  fixes b :: state_block
  assumes "mc_inv (l_cache l)" "well_typed E (lview l)"
  defines "am \<equiv> acct (lview l) (sb_Address b)" and "tm \<equiv> tok (lview l) (sb_Address b) (sb_Token b)"
  shows "processStateBlock E R now l b =
     bindM (UpdateStateBlock E l b)
     (\<lambda>_. bindM (updatePending E R l b)
     (\<lambda>b. bindM (updateFrontier E l b tm)
     (\<lambda>_. bindM (updateContractData E R l b)
     (\<lambda>_. bindM (updateAccountMeta E now l b am)
     (\<lambda>_. bindM (updateRepresentative E l b am tm) (\<lambda>_. returnM b))))))"
proof -
  have a: "(case GetAccountMetaConfirmed l None (sb_Address b) of Inr am \<Rightarrow> returnM (Some am)
      | Inl e \<Rightarrow> if e = ErrAccountNotFound then returnM None else throwM Panic) = returnM am"
    unfolding am_def ledger_reads(5) [OF assms(1,2)]
    by (cases "acct (lview l) (sb_Address b)") simp_all
  have k: "(case GetTokenMetaConfirmed l (sb_Address b) (sb_Token b) of Inr tm \<Rightarrow> returnM (Some tm)
      | Inl e \<Rightarrow> if e = ErrAccountNotFound \<or> e = ErrTokenNotFound then returnM None
          else throwM (ErrMsg ''get token meta error'')) = returnM tm"
    unfolding tm_def tok_def GetTokenMetaConfirmed_view [OF assms(1,2)]
    by (cases "acct (lview l) (sb_Address b)") (auto simp: of_option_def split: option.split)
  show ?thesis unfolding processStateBlock_def a k by (rule ext) simp
qed

lemma processStateBlock_steps:
  assumes "mc_inv (l_cache l)" "well_typed E (lview l)"
    and "processStateBlock E R now l b t = (Inr b', t')"
  defines "am \<equiv> acct (lview l) (sb_Address b)" and "tm \<equiv> tok (lview l) (sb_Address b) (sb_Token b)"
  obtains t1 t2 t3 t4 t5 where
    "UpdateStateBlock E l b t = (Inr (), t1)" "updatePending E R l b t1 = (Inr b', t2)"
    "updateFrontier E l b' tm t2 = (Inr (), t3)" "updateContractData E R l b' t3 = (Inr (), t4)"
    "updateAccountMeta E now l b' am t4 = (Inr (), t5)" "updateRepresentative E l b' am tm t5 = (Inr (), t')"
  using assms(3) unfolding processStateBlock_unfold [OF assms(1,2)] am_def tm_def
  by (auto elim!: bindM_InrE intro: that)

lemma process_refines:
  assumes "mc_inv (l_cache l)" "well_typed E (lview l)" "ordinary b"
    and "processStateBlock E R now l b (start_tx l) = (Inr b', t')"
  shows "b' = b \<and> txview l t' = spec_process E now b (lview l)"
proof -
  let ?m = "lview l"
  let ?am = "acct ?m (sb_Address b)" and ?tm = "tok ?m (sb_Address b) (sb_Token b)"
  have w0: "well_typed E (txview l (start_tx l))" using assms(2) by simp
  from processStateBlock_steps [OF assms(1,2,4)] obtain t1 t2 t3 t4 t5 where
    s: "UpdateStateBlock E l b (start_tx l) = (Inr (), t1)" "updatePending E R l b t1 = (Inr b', t2)"
    "updateFrontier E l b' ?tm t2 = (Inr (), t3)" "updateContractData E R l b' t3 = (Inr (), t4)"
    "updateAccountMeta E now l b' ?am t4 = (Inr (), t5)" "updateRepresentative E l b' ?am ?tm t5 = (Inr (), t')"
    by blast
  have v1: "txview l t1 = spec_block E b ?m" using UpdateStateBlock_view [OF assms(1) w0 s(1)] by simp
  have "sb_Type b \<noteq> ContractSend" using assms(3) by (auto simp: ordinary_def)
  then have v2: "b' = b" "txview l t2 = spec_pending E b (blk ?m (sb_Previous b)) (txview l t1)"
    using updatePending_ordinary [OF assms(1,2) s(2)] by (simp_all add: v1)
  have v3: "txview l t3 = spec_frontier E b ?tm (txview l t2)"
    using updateFrontier_run [OF assms(1,2) s(3)] v2(1) by simp
  have v4: "t4 = t3" using s(4) updateContractData_ordinary [OF assms(3), of E R l t3] v2(1) by simp
  have v5: "txview l t5 = spec_account E now b ?am ?tm (txview l t4)"
    using updateAccountMeta_run [OF assms(1,2) refl refl, where b = b and now = now and t = t4] s(5) v2(1) by simp
  have "well_typed E (txview l t5)"
    unfolding v5 v4 v3 v2(2) v1 using assms(2)
    by (intro spec_account_typed spec_frontier_typed spec_pending_typed spec_block_typed) (auto dest: well_typed_acct)
  then have "txview l t' = spec_rep E b ?am ?tm (txview l t5)"
    using updateRepresentative_run [OF assms(1) _ s(6)] v2(1) by (simp add: tok_def bind_eq_None_conv)
  then show ?thesis by (simp add: spec_process_def Let_def v1 v2 v3 v4 v5)
qed

subsection \<open>Contract blocks\<close>

definition core_eq :: "(key \<rightharpoonup> val) \<Rightarrow> (key \<rightharpoonup> val) \<Rightarrow> bool" where
  "core_eq m m' \<longleftrightarrow> (\<forall>k. core_key k \<longrightarrow> m k = m' k)"

lemma core_eqD: "core_eq m m' \<Longrightarrow> core_key k \<Longrightarrow> m k = m' k"
  by (simp add: core_eq_def)

lemma core_eq_refl [simp]: "core_eq m m"
  by (simp add: core_eq_def)

lemma core_eq_trans [trans]: "core_eq m m' \<Longrightarrow> core_eq m' m'' \<Longrightarrow> core_eq m m''"
  by (simp add: core_eq_def)

lemma core_eq_sym: "core_eq m m' \<Longrightarrow> core_eq m' m"
  by (simp add: core_eq_def)

lemma core_eq_upd: "core_eq m m' \<Longrightarrow> core_eq (m(k := r)) (m'(k := r))"
  by (simp add: core_eq_def)

lemma core_eq_tables:
  assumes "core_eq m m'"
  shows "blk m h = blk m' h" "acct m a = acct m' a" "tok m a tt = tok m' a tt"
    "benefit_at m a = benefit_at m' a" "hash_at m (KChild h) = hash_at m' (KChild h)"
    "hash_at m (KFrontier h) = hash_at m' (KFrontier h)" "benefit_or_zero m a = benefit_or_zero m' a"
  using assms by (simp_all add: core_eq_def tok_def benefit_or_zero_def table_defs)

lemma spec_pending_core: "core_eq (spec_pending E b p m) m"
  by (auto simp: core_eq_def spec_pending_def split: BlockType.splits option.splits)

lemma spec_frontier_core: "core_eq m m' \<Longrightarrow> core_eq (spec_frontier E b tm m) (spec_frontier E b tm m')"
  by (auto simp: spec_frontier_def Let_def intro!: core_eq_upd split: option.splits)

lemma spec_account_core: "core_eq m m' \<Longrightarrow> core_eq (spec_account E now b am tm m) (spec_account E now b am tm m')"
  by (auto simp: spec_account_def Let_def intro!: core_eq_upd)

lemma spec_sub_rep_core: "core_eq m m' \<Longrightarrow> core_eq (spec_sub_rep am tm m) (spec_sub_rep am tm m')"
  by (auto simp: spec_sub_rep_def core_eq_tables intro!: core_eq_upd split: option.splits)

lemma spec_rep_core:
  assumes "core_eq m m'"
  shows "core_eq (spec_rep E b am tm m) (spec_rep E b am tm m')"
  using spec_sub_rep_core [OF assms, of am tm] core_eq_tables(7) [OF spec_sub_rep_core [OF assms, of am tm]] assms
  by (auto simp: spec_rep_def Let_def intro!: core_eq_upd)

lemma updatePending_typed:
  assumes "updatePending E R l b t = (Inr b', t')" "well_typed E (txview l t)"
  shows "well_typed E (txview l t')"
proof -
  have a: "well_typed E (txview l t2)" if "bindM (AddPending E pk p) (\<lambda>_. returnM x) t = (Inr y, t2)" for pk p x y t2
    using that assms(2) by (auto simp: AddPending_def intro!: well_typed_upd)
  have d: "well_typed E (txview l t2)" if "bindM (DeletePending E l pk) (\<lambda>_. returnM x) t = (Inr y, t2)" for pk x y t2
    using that assms(2) by (auto simp: DeletePending_def intro!: well_typed_del split: sum.splits)
  show ?thesis
  proof (cases "sb_Type b = ContractSend")
    case True
    with assms show ?thesis
      by (auto simp: updatePending_def split: if_splits option.split_asm SpecVer.split_asm sum.split_asm prod.split_asm dest: a)
  next
    case False
    with assms show ?thesis
      by (auto simp: updatePending_def split: BlockType.split_asm sum.split_asm dest: a d)
  qed
qed

lemma mapME_put_typed:
  assumes "\<And>k v. val_ok E (K k) (VBytes v)"
  shows "mapME (\<lambda>(k, v). cput (K k) (VBytes v)) kvs t = (r, t') \<Longrightarrow> well_typed E (txview l t) \<Longrightarrow> well_typed E (txview l t')"
proof (induction kvs arbitrary: t)
  case (Cons kv kvs)
  obtain k v where kv: "kv = (k, v)" by (cases kv)
  let ?t = "t\<lparr>t_cache := Cache_Put (K k) (VBytes v) (t_cache t)\<rparr>"
  have "well_typed E (txview l ?t)" using Cons.prems(2) assms by (simp add: well_typed_upd)
  moreover have "mapME (\<lambda>(k, v). cput (K k) (VBytes v)) kvs ?t = (r, t')"
    using Cons.prems(1) kv by (simp del: cput_app)
  ultimately show ?case by (intro Cons.IH [of ?t])
qed simp

lemma updateContractData_typed:
  assumes "updateContractData E R l b t = (Inr (), t')" "well_typed E (txview l t)"
  shows "well_typed E (txview l t')"
proof -
  have save: "well_typed E (txview l t2)" if "bindM (SaveStorage st) (\<lambda>_. saveTrie tr) t = (Inr (), t2)" for st tr t2
    using that assms(2) mapME_put_typed [of E KVMStorage] mapME_put_typed [of E KTrie]
    unfolding SaveStorage_def saveTrie_def by (elim bindM_InrE) fastforce
  then show ?thesis using assms
    by (auto simp: updateContractData_def split: if_splits BlockType.splits sum.splits option.splits list.splits prod.splits)
qed

lemma process_refines_core:
  assumes "mc_inv (l_cache l)" "well_typed E (lview l)" "keeps_block R l b"
    and "processStateBlock E R now l b (start_tx l) = (Inr b', t')"
  shows "b' = b \<and> well_typed E (txview l t') \<and> core_eq (txview l t') (spec_process E now b (lview l))"
proof -
  let ?m = "lview l"
  let ?am = "acct ?m (sb_Address b)" and ?tm = "tok ?m (sb_Address b) (sb_Token b)"
  have w0: "well_typed E (txview l (start_tx l))" using assms(2) by simp
  from processStateBlock_steps [OF assms(1,2,4)] obtain t1 t2 t3 t4 t5 where
    s: "UpdateStateBlock E l b (start_tx l) = (Inr (), t1)" "updatePending E R l b t1 = (Inr b', t2)"
    "updateFrontier E l b' ?tm t2 = (Inr (), t3)" "updateContractData E R l b' t3 = (Inr (), t4)"
    "updateAccountMeta E now l b' ?am t4 = (Inr (), t5)" "updateRepresentative E l b' ?am ?tm t5 = (Inr (), t')"
    by blast
  have v1: "txview l t1 = spec_block E b ?m" using UpdateStateBlock_view [OF assms(1) w0 s(1)] by simp
  have v2: "b' = b" "core_eq (txview l t2) (spec_pending E b (blk ?m (sb_Previous b)) (spec_block E b ?m))"
    using updatePending_core [OF s(2) assms(3)] core_eqD [OF spec_pending_core [of E b "blk ?m (sb_Previous b)" "spec_block E b ?m"]]
    by (simp_all add: v1 core_eq_def)
  have w2: "well_typed E (txview l t2)"
    using updatePending_typed [OF s(2)] assms(2) by (simp add: v1 spec_block_typed)
  have v3: "txview l t3 = spec_frontier E b ?tm (txview l t2)"
    using updateFrontier_run [OF assms(1,2) s(3)] v2(1) by simp
  have v4: "core_eq (txview l t4) (txview l t3)"
    using updateContractData_core [OF s(4)] by (simp add: core_eq_def)
  have w4: "well_typed E (txview l t4)"
    using updateContractData_typed [OF s(4)] by (simp add: v3 spec_frontier_typed w2)
  have v5: "txview l t5 = spec_account E now b ?am ?tm (txview l t4)"
    using updateAccountMeta_run [OF assms(1,2) refl refl, where b = b and now = now and t = t4] s(5) v2(1) by simp
  have w5: "well_typed E (txview l t5)"
    unfolding v5 using w4 assms(2) by (intro spec_account_typed) (auto dest: well_typed_acct)
  have v6: "txview l t' = spec_rep E b ?am ?tm (txview l t5)"
    using updateRepresentative_run [OF assms(1) w5 s(6)] v2(1) by (simp add: tok_def bind_eq_None_conv)
  have "core_eq (txview l t') (spec_process E now b ?m)"
    unfolding v6 v5 spec_process_def Let_def
    by (intro spec_rep_core spec_account_core core_eq_trans [OF v4], unfold v3) (intro spec_frontier_core v2(2))
  with v2(1) w5 show ?thesis by (simp add: v6 spec_rep_typed)
qed

end
