(* ===== verification/Ledger_Inv.thy ===== *)
theory Ledger_Inv
  imports Ledger_Spec
begin

text \<open>Invariants of the confirmed ledger: the lattice of chains (every block has one successor at most,
  every token of an account points at its last block and the frontier table agrees), and the
  conservation of every token's supply. What a passed check guarantees is extracted first.\<close>

section \<open>What a passed check guarantees\<close>

lemma errorP_pass [simp]: "errorP r d \<noteq> pass"
  by (simp add: errorP_def)

lemma errorP_fst [simp]: "fst (errorP r d) = r"
  by (simp add: errorP_def)

lemma andC_pass [simp]: "andC a b = pass \<longleftrightarrow> a = pass \<and> b = pass"
  by (cases a; cases b) (auto simp: andC_def)

lemma andC_UnReceivable:
  "fst (andC a b) = UnReceivable \<Longrightarrow> fst a \<noteq> UnReceivable \<Longrightarrow> a = pass \<and> fst b = UnReceivable"
  by (cases a) (auto simp: andC_def split: if_splits)

lemma signed_work_UnReceivable: "fst (signed_work_check E b c) \<noteq> UnReceivable"
  by (simp add: signed_work_check_def Let_def)

lemma base_UnReceivable: "fst (blockBaseInfoCheck E R l b) \<noteq> UnReceivable"
  by (auto simp: blockBaseInfoCheck_def signed_work_UnReceivable split: sum.splits bool.splits)

lemma fork_UnReceivable: "fst (blockForkCheck E l b) \<noteq> UnReceivable"
  by (auto simp: blockForkCheck_def fork_check_def fork_after_def fork_open_def split: BlockType.splits sum.splits)

lemma source_UnReceivable: "fst (blockSourceCheck l b) \<noteq> UnReceivable"
  by (auto simp: blockSourceCheck_def source_check_def split: BlockType.splits)

lemma balance_UnReceivable: "fst (blockBalanceCheck l b) \<noteq> UnReceivable"
  by (auto simp: blockBalanceCheck_def balance_check_def split: BlockType.splits sum.splits)

text \<open>Every accepted block that is not a genesis block has passed the base and the fork check, even when
  the verified data let it pass.\<close>

lemma check_base_fork:
  assumes "BlockCheck E R l b = pass" "\<not> IsGenesisBlock E b"
  shows "blockBaseInfoCheck E R l b = pass" "blockForkCheck E l b = pass"
proof -
  note nu = base_UnReceivable [of E R l b] fork_UnReceivable [of E l b] source_UnReceivable [of l b]
    balance_UnReceivable [of l b]
  have a: "x = pass" if "fst (andC x y) = UnReceivable \<or> andC x y = pass" "fst x \<noteq> UnReceivable" for x y
    using that andC_UnReceivable [of x y] andC_pass [of x y] by blast
  have u: "fst y = UnReceivable \<or> y = pass" if "fst (andC x y) = UnReceivable \<or> andC x y = pass" "fst x \<noteq> UnReceivable" for x y
    using that andC_UnReceivable [of x y] andC_pass [of x y] by blast
  obtain c where c: "newBlockCheck E R (sb_Type b) = Some c" "fst (c l b) = UnReceivable \<or> c l b = pass"
    using assms(1) by (auto simp: BlockCheck_def split: option.splits if_splits)
  let ?ok = "\<lambda>x. fst x = UnReceivable \<or> x = pass"
  have bf: "blockBaseInfoCheck E R l b = pass \<and> blockForkCheck E l b = pass"
    if "?ok (andC (blockBaseInfoCheck E R l b) (andC (blockForkCheck E l b) y))" for y
    using a [OF that nu(1)] a [OF u [OF that nu(1)] nu(2)] by blast
  have bsf: "blockBaseInfoCheck E R l b = pass \<and> blockForkCheck E l b = pass"
    if "?ok (andC (blockBaseInfoCheck E R l b) (andC (blockSourceCheck l b) (andC (blockForkCheck E l b) y)))" for y
    using a [OF that nu(1)] a [OF u [OF u [OF that nu(1)] nu(3)] nu(2)] by blast
  note defs = newBlockCheck_def sendBlockCheck_def receiveBlockCheck_def changeBlockCheck_def onlineBlockCheck_def
    contractSendBlockCheck_def contractReceiveBlockCheck_def openBlockCheck_def
  have "blockBaseInfoCheck E R l b = pass \<and> blockForkCheck E l b = pass"
  proof (cases "sb_Type b")
    case Send
    show ?thesis by (rule bf [of "blockBalanceCheck l b"]) (use c Send in \<open>auto simp: defs simp del: andC_pass\<close>)
  next
    case Receive
    show ?thesis by (rule bf) (use c Receive in \<open>auto simp: defs simp del: andC_pass\<close>)
  next
    case Change
    show ?thesis by (rule bf) (use c Change in \<open>auto simp: defs simp del: andC_pass split: if_splits\<close>)
  next
    case Open
    show ?thesis by (rule bsf) (use c Open in \<open>auto simp: defs simp del: andC_pass split: if_splits\<close>)
  next
    case ContractReward
    show ?thesis by (rule bf) (use c ContractReward assms(2) in \<open>auto simp: defs simp del: andC_pass\<close>)
  next
    case ContractSend
    show ?thesis by (rule bf) (use c ContractSend assms(2) in \<open>auto simp: defs simp del: andC_pass\<close>)
  next
    case Online
    show ?thesis by (rule bf) (use c Online in \<open>auto simp: defs simp del: andC_pass split: if_splits\<close>)
  qed (use c in \<open>simp_all add: newBlockCheck_def\<close>)
  then show "blockBaseInfoCheck E R l b = pass" "blockForkCheck E l b = pass" by simp_all
qed

lemma base_new:
  assumes "mc_inv (l_cache l)" "blockBaseInfoCheck E R l b = pass"
  shows "lview l (KBlock (GetHash (cf_H E) b)) = None"
  using assms by (auto simp: blockBaseInfoCheck_def HasStateBlockConfirmed_view split: bool.splits)

lemma fork_previous:
  assumes "mc_inv (l_cache l)" "well_typed E (lview l)" "blockForkCheck E l b = pass"
    and "sb_Type b = ContractReward \<Longrightarrow> \<not> IsOpen b" "sb_Type b \<noteq> Open"
  shows "blk (lview l) (sb_Previous b) \<noteq> None"
    and "tok (lview l) (sb_Address b) (sb_Token b) = Some tm \<Longrightarrow> sb_Previous b = tm_Header tm"
proof -
  have f: "fork_after E (GetTokenMetaConfirmed l (sb_Address b) (sb_Token b)) (GetStateBlockConfirmed l None (sb_Previous b)) = pass"
    using assms(3-5) by (auto simp: blockForkCheck_def fork_check_def split: BlockType.splits)
  then obtain p where p: "blk (lview l) (sb_Previous b) = Some p"
    by (auto simp: fork_after_def ledger_reads [OF assms(1,2)] of_option_def split: option.splits)
  then show "blk (lview l) (sb_Previous b) \<noteq> None" by simp
  assume "tok (lview l) (sb_Address b) (sb_Token b) = Some tm"
  then have "GetTokenMetaConfirmed l (sb_Address b) (sb_Token b) = Inr tm"
    using GetTokenMetaConfirmed_Inr [OF assms(1,2)] by simp
  with f p have "GetHash (cf_H E) p = tm_Header tm"
    by (auto simp: fork_after_def ledger_reads [OF assms(1,2)] split: if_splits)
  then show "sb_Previous b = tm_Header tm" using well_typed_blk(2) [OF assms(2) p] by simp
qed

section \<open>The lattice\<close>

text \<open>A token's header is a block of its account and token with its balance and representative, and the
  frontier table lists it with its open block.\<close>

definition header_ok :: "(key \<rightharpoonup> val) \<Rightarrow> address \<Rightarrow> token_meta \<Rightarrow> bool" where
  "header_ok m a tm \<longleftrightarrow> (\<exists>hb. blk m (tm_Header tm) = Some hb \<and> sb_Address hb = a \<and> sb_Token hb = tm_Type tm \<and>
     sb_Balance hb = tm_Balance tm \<and> sb_Representative hb = tm_Representative tm \<and>
     hash_at m (KFrontier (tm_Header tm)) = Some (tm_OpenBlock tm))"

definition chain_ok :: "config \<Rightarrow> (key \<rightharpoonup> val) \<Rightarrow> bool" where
  "chain_ok E m \<longleftrightarrow>
     (\<forall>h b. blk m h = Some b \<longrightarrow> has_parent E b \<longrightarrow> hash_at m (KChild (sb_Previous b)) = Some h) \<and>
     (\<forall>a am. acct m a = Some am \<longrightarrow> distinct (map tm_Type (am_Tokens am)) \<and>
        (\<forall>tm \<in> set (am_Tokens am). header_ok m a tm))"

text \<open>Every confirmed block is on top of a confirmed block.\<close>

definition rooted :: "config \<Rightarrow> (key \<rightharpoonup> val) \<Rightarrow> bool" where
  "rooted E m \<longleftrightarrow> (\<forall>h b. blk m h = Some b \<longrightarrow> has_parent E b \<longrightarrow> blk m (sb_Previous b) \<noteq> None)"

text \<open>The representative of every holder of the chain token has an entry in the representation table.\<close>

definition rep_ok :: "config \<Rightarrow> (key \<rightharpoonup> val) \<Rightarrow> bool" where
  "rep_ok E m \<longleftrightarrow> (\<forall>a tm. tok m a (cf_ChainToken E) = Some tm \<longrightarrow> tm_Representative tm \<noteq> ZeroAddress \<longrightarrow>
     benefit_at m (tm_Representative tm) \<noteq> None)"

definition ledger_inv :: "config \<Rightarrow> ledger \<Rightarrow> bool" where
  "ledger_inv E l \<longleftrightarrow> mc_inv (l_cache l) \<and> well_typed E (lview l) \<and> chain_ok E (lview l) \<and> rep_ok E (lview l)"

lemma ledger_invD:
  assumes "ledger_inv E l"
  shows "mc_inv (l_cache l)" "well_typed E (lview l)" "chain_ok E (lview l)" "rep_ok E (lview l)"
  using assms by (simp_all add: ledger_inv_def)

lemma chain_parent:
  assumes "chain_ok E m" "blk m h = Some b" "has_parent E b"
  shows "hash_at m (KChild (sb_Previous b)) = Some h"
  using assms by (auto simp: chain_ok_def)

lemma chain_account:
  assumes "chain_ok E m" "acct m a = Some am"
  shows "distinct (map tm_Type (am_Tokens am))" "tm \<in> set (am_Tokens am) \<Longrightarrow> header_ok m a tm"
  using assms by (auto simp: chain_ok_def)

lemma tok_Some:
  assumes "tok m a tt = Some tm"
  obtains am where "acct m a = Some am" "tm \<in> set (am_Tokens am)" "tm_Type tm = tt" "AccountMeta_Token am tt = Some tm"
proof -
  obtain am where am: "acct m a = Some am" "AccountMeta_Token am tt = Some tm"
    using assms by (auto simp: tok_def bind_eq_Some_conv)
  then have "tm \<in> set (am_Tokens am)" "tm_Type tm = tt"
    by (auto simp: AccountMeta_Token_def find_Some_iff)
  with am that show thesis by blast
qed

text \<open>No two confirmed blocks extend the same block.\<close>

lemma chain_no_fork:
  assumes "chain_ok E m" "blk m h1 = Some b1" "blk m h2 = Some b2" "has_parent E b1" "has_parent E b2"
    and "sb_Previous b1 = sb_Previous b2"
  shows "h1 = h2"
  using chain_parent [OF assms(1,2,4)] chain_parent [OF assms(1,3,5)] assms(6) by simp

text \<open>The tables after \<open>spec_process\<close>.\<close>

lemma spec_tables:
  fixes b m now E
  defines "h \<equiv> GetHash (cf_H E) b" and "m' \<equiv> spec_process E now b m"
  shows "blk m' x = (if x = h then Some (StateBlock_Clone b) else blk m x)"
    and "acct m' a = (if a = sb_Address b
      then Some (AccountMeta_Clone (account_after E now b (acct m (sb_Address b)))) else acct m a)"
    and "hash_at m' (KChild p) = (if has_parent E b \<and> p = sb_Previous b then Some h else hash_at m (KChild p))"
    and "hash_at m' (KFrontier x) = (if x = h
      then Some (tm_OpenBlock (token_after E now b (tok m (sb_Address b) (sb_Token b))))
      else if \<exists>tm. tok m (sb_Address b) (sb_Token b) = Some tm \<and> x = tm_Header tm then None
      else hash_at m (KFrontier x))"
proof -
  have rep: "spec_rep E b am tm n k = n k" if "\<And>a. k \<noteq> KRepresentation a" for am tm n k
    using that by (simp add: spec_rep_def spec_sub_rep_def Let_def split: option.split)
  have acc: "spec_account E now b am tm n k = n k"
    if "\<And>a. k \<noteq> KAccount a" "\<And>x. k \<noteq> KAccountBlockHash x" "\<And>x y z. k \<noteq> KAccountPovHeight x y z" for am tm n k
    using that by (simp add: spec_account_def Let_def)
  have fr: "spec_frontier E b tm n k = n k" if "\<And>x. k \<noteq> KFrontier x" for tm n k
    using that by (simp add: spec_frontier_def Let_def split: option.split)
  have pe: "spec_pending E b p n k = n k" if "core_key k" for p n k
    using that core_eqD [OF spec_pending_core] by blast
  show "blk m' x = (if x = h then Some (StateBlock_Clone b) else blk m x)"
    by (simp add: m'_def spec_process_def Let_def blk_def rep acc fr pe spec_block_def h_def)
  show "acct m' a = (if a = sb_Address b
      then Some (AccountMeta_Clone (account_after E now b (acct m (sb_Address b)))) else acct m a)"
    by (auto simp: m'_def spec_process_def Let_def acct_def rep fr pe spec_account_def spec_block_def)
  show "hash_at m' (KChild p) = (if has_parent E b \<and> p = sb_Previous b then Some h else hash_at m (KChild p))"
    by (auto simp: m'_def spec_process_def Let_def hash_at_def rep acc fr pe spec_block_def h_def)
  show "hash_at m' (KFrontier x) = (if x = h
      then Some (tm_OpenBlock (token_after E now b (tok m (sb_Address b) (sb_Token b))))
      else if \<exists>tm. tok m (sb_Address b) (sb_Token b) = Some tm \<and> x = tm_Header tm then None
      else hash_at m (KFrontier x))"
    by (auto simp: m'_def spec_process_def Let_def hash_at_def rep acc pe spec_frontier_def spec_block_def
        h_def token_after_def split: option.split)
qed

lemma upd_token_types:
  "(\<And>t. tm_Type (f t) = tm_Type t) \<Longrightarrow> map tm_Type (upd_token tt f ts) = map tm_Type ts"
  by (induction ts) auto

lemma upd_token_set:
  assumes "distinct (map tm_Type ts)" "t \<in> set (upd_token tt f ts)"
  shows "(\<exists>t0. find (\<lambda>t. tm_Type t = tt) ts = Some t0 \<and> t = f t0) \<or> t \<in> set ts \<and> tm_Type t \<noteq> tt"
  using assms by (induction ts) (auto simp: image_iff split: if_splits)

text \<open>The tokens of the account after a block: the one of the block's token, and the others as they were.\<close>

lemma account_after_tokens:
  assumes "\<forall>a. am = Some a \<longrightarrow> distinct (map tm_Type (am_Tokens a))"
    and "tm = Option.bind am (\<lambda>a. AccountMeta_Token a (sb_Token b))"
  shows "distinct (map tm_Type (am_Tokens (account_after E now b am)))"
    and "t \<in> set (am_Tokens (account_after E now b am)) \<Longrightarrow>
      t = token_after E now b tm \<or> (\<exists>a. am = Some a \<and> t \<in> set (am_Tokens a) \<and> tm_Type t \<noteq> sb_Token b)"
proof -
  have "distinct (map tm_Type (am_Tokens (account_after E now b am))) \<and>
    (t \<in> set (am_Tokens (account_after E now b am)) \<longrightarrow>
      t = token_after E now b tm \<or> (\<exists>a. am = Some a \<and> t \<in> set (am_Tokens a) \<and> tm_Type t \<noteq> sb_Token b))"
  proof (cases am)
    case None
    then show ?thesis using assms(2) by (simp add: account_after_def new_account_def token_after_def)
  next
    case (Some a)
    have d: "distinct (map tm_Type (am_Tokens a))" using assms(1) Some by simp
    show ?thesis
    proof (cases "AccountMeta_Token a (sb_Token b)")
      case None
      then have "sb_Token b \<notin> tm_Type ` set (am_Tokens a)"
        by (auto simp: AccountMeta_Token_def find_None_iff)
      with Some None d assms(2) show ?thesis
        by (auto simp: account_after_def next_account_def token_after_def image_iff)
    next
      case (Some tm0)
      with \<open>am = Some a\<close> d assms(2) show ?thesis
        using upd_token_types [of "next_token_meta E now b" "sb_Token b" "am_Tokens a"]
          upd_token_set [OF d, of t "sb_Token b" "next_token_meta E now b"]
        by (auto simp: account_after_def next_account_def token_after_def AccountMeta_Token_def)
    qed
  qed
  then show "distinct (map tm_Type (am_Tokens (account_after E now b am)))"
    and "t \<in> set (am_Tokens (account_after E now b am)) \<Longrightarrow>
      t = token_after E now b tm \<or> (\<exists>a. am = Some a \<and> t \<in> set (am_Tokens a) \<and> tm_Type t \<noteq> sb_Token b)"
    by blast+
qed

lemma token_after_sels [simp]:
  "tm_Header (token_after E now b tm) = GetHash (cf_H E) b"
  "tm_Representative (token_after E now b tm) = sb_Representative b"
  "tm_Balance (token_after E now b tm) = sb_Balance b"
  by (simp_all add: token_after_def split: option.split)

lemma token_after_type: "(\<And>t. tm = Some t \<Longrightarrow> tm_Type t = sb_Token b) \<Longrightarrow> tm_Type (token_after E now b tm) = sb_Token b"
  by (simp add: token_after_def split: option.split)

lemma has_parent_Clone [simp]: "has_parent E (StateBlock_Clone b) = has_parent E b"
  by (simp add: has_parent_def IsGenesisBlock_def IsOpen_def)

lemma header_keep:
  assumes "chain_ok E m" "header_ok m a t" "blk m (GetHash (cf_H E) b) = None"
    and "a \<noteq> sb_Address b \<or> tm_Type t \<noteq> sb_Token b"
  shows "header_ok (spec_process E now b m) a t"
proof -
  obtain hb where hb: "blk m (tm_Header t) = Some hb" "sb_Address hb = a" "sb_Token hb = tm_Type t"
    "sb_Balance hb = tm_Balance t" "sb_Representative hb = tm_Representative t"
    "hash_at m (KFrontier (tm_Header t)) = Some (tm_OpenBlock t)"
    using assms(2) by (auto simp: header_ok_def)
  have "tm_Header t \<noteq> GetHash (cf_H E) b" using hb(1) assms(3) by auto
  moreover have "tm_Header t \<noteq> tm_Header tm" if tm: "tok m (sb_Address b) (sb_Token b) = Some tm" for tm
  proof
    assume e: "tm_Header t = tm_Header tm"
    obtain am where am: "acct m (sb_Address b) = Some am" "tm \<in> set (am_Tokens am)" "tm_Type tm = sb_Token b"
      using tok_Some [OF tm] by metis
    from chain_account(2) [OF assms(1) am(1,2)] e hb(1-3) am(3) assms(4) show False
      by (auto simp: header_ok_def)
  qed
  ultimately show ?thesis using hb by (auto simp: header_ok_def spec_tables)
qed

lemma chain_ok_spec:
  assumes "well_typed E m" "chain_ok E m" "blk m (GetHash (cf_H E) b) = None"
    and "has_parent E b \<Longrightarrow> hash_at m (KChild (sb_Previous b)) = None"
  shows "chain_ok E (spec_process E now b m)"
  unfolding chain_ok_def
proof (intro conjI allI impI)
  let ?m = "spec_process E now b m" and ?h = "GetHash (cf_H E) b"
  let ?am = "acct m (sb_Address b)" and ?tm = "tok m (sb_Address b) (sb_Token b)"
  fix x b0 assume x: "blk ?m x = Some b0" and p: "has_parent E b0"
  show "hash_at ?m (KChild (sb_Previous b0)) = Some x"
    using x p assms(4) chain_parent [OF assms(2), of x b0] by (auto simp: spec_tables split: if_splits)
next
  let ?m = "spec_process E now b m" and ?h = "GetHash (cf_H E) b"
  let ?am = "acct m (sb_Address b)" and ?tm = "tok m (sb_Address b) (sb_Token b)"
  fix a am assume am: "acct ?m a = Some am"
  have d: "\<forall>a. ?am = Some a \<longrightarrow> distinct (map tm_Type (am_Tokens a))"
    using chain_account(1) [OF assms(2)] by blast
  note after = account_after_tokens [OF d tok_def [of m "sb_Address b" "sb_Token b"]]
  have d': "distinct (map tm_Type (am_Tokens am)) \<and> (\<forall>t \<in> set (am_Tokens am). header_ok ?m a t)"
  proof (cases "a = sb_Address b")
    case False
    then have "acct m a = Some am" using am by (simp add: spec_tables)
    with False chain_account [OF assms(2), of a am] header_keep [OF assms(2) _ assms(3)] show ?thesis by auto
  next
    case True
    then have am': "am = AccountMeta_Clone (account_after E now b ?am)" using am by (simp add: spec_tables)
    have "header_ok ?m a (TokenMeta_Clone t)" if t: "t \<in> set (am_Tokens (account_after E now b ?am))" for t
    proof -
      from after(2) [OF t] consider (new) "t = token_after E now b ?tm"
        | (old) a0 where "?am = Some a0" "t \<in> set (am_Tokens a0)" "tm_Type t \<noteq> sb_Token b"
        by blast
      then show ?thesis
      proof cases
        case new
        have "tm_Type t = sb_Token b" unfolding new by (rule token_after_type) (auto elim: tok_Some)
        with new True show ?thesis by (auto simp: header_ok_def spec_tables)
      next
        case old
        have "AccountMeta_Clone a0 = a0" using well_typed_acct(3) [OF assms(1) old(1)] .
        then have "map TokenMeta_Clone (am_Tokens a0) = am_Tokens a0"
          by (metis AccountMeta_Clone_sels(2))
        then have "TokenMeta_Clone t = t" using old(2) by (metis in_set_conv_nth length_map nth_map)
        with old True header_keep [OF assms(2) _ assms(3), of a t] chain_account(2) [OF assms(2) old(1,2)]
        show ?thesis by simp
      qed
    qed
    moreover have "distinct (map tm_Type (am_Tokens am))"
      using after(1) by (simp add: am' o_def)
    ultimately show ?thesis by (auto simp: am')
  qed
  then show "distinct (map tm_Type (am_Tokens am))" by simp
  show "\<forall>t \<in> set (am_Tokens am). header_ok ?m a t" using d' by simp
qed

lemma rooted_spec:
  assumes "rooted E m" "has_parent E b \<Longrightarrow> blk m (sb_Previous b) \<noteq> None"
  shows "rooted E (spec_process E now b m)"
  unfolding rooted_def
proof (intro allI impI)
  fix h b0 assume h: "blk (spec_process E now b m) h = Some b0" "has_parent E b0"
  show "blk (spec_process E now b m) (sb_Previous b0) \<noteq> None"
  proof (cases "h = GetHash (cf_H E) b")
    case True
    then have "b0 = StateBlock_Clone b" using h(1) by (simp add: spec_tables)
    with h(2) assms(2) show ?thesis by (simp add: spec_tables)
  next
    case False
    with h assms(1) show ?thesis by (simp add: spec_tables rooted_def)
  qed
qed

lemma AccountMeta_Token_Clone:
  "AccountMeta_Token (AccountMeta_Clone am) tt = map_option TokenMeta_Clone (AccountMeta_Token am tt)"
proof -
  have "find (\<lambda>t. tm_Type t = tt) (map TokenMeta_Clone ts) = map_option TokenMeta_Clone (find (\<lambda>t. tm_Type t = tt) ts)" for ts
    by (induction ts) auto
  then show ?thesis by (simp add: AccountMeta_Token_def)
qed

lemma AccountMeta_Token_after:
  "AccountMeta_Token (account_after E now b am) tt =
    (if tt = sb_Token b then Some (token_after E now b (Option.bind am (\<lambda>a. AccountMeta_Token a (sb_Token b))))
     else Option.bind am (\<lambda>a. AccountMeta_Token a tt))"
proof (cases am)
  case None
  then show ?thesis by (simp add: account_after_def new_account_def AccountMeta_Token_def token_after_def)
next
  case (Some a)
  show ?thesis
  proof (cases "tt = sb_Token b")
    case True
    then show ?thesis using Some token_next_account [of E now b a] by (simp add: account_after_def)
  next
    case False
    then show ?thesis using Some find_upd_token_other [of "next_token_meta E now b" tt "sb_Token b" "am_Tokens a"]
      by (simp add: account_after_def next_account_def AccountMeta_Token_def find_snoc split: option.split)
  qed
qed

lemma spec_tok:
  assumes "well_typed E m"
  shows "tok (spec_process E now b m) a tt =
    (if a = sb_Address b \<and> tt = sb_Token b
     then Some (TokenMeta_Clone (token_after E now b (tok m (sb_Address b) (sb_Token b)))) else tok m a tt)"
proof (cases "a = sb_Address b")
  case False
  then show ?thesis by (simp add: tok_def spec_tables)
next
  case True
  have "map_option TokenMeta_Clone (tok m a tt) = tok m a tt"
  proof (cases "acct m a")
    case (Some am)
    have "AccountMeta_Token (AccountMeta_Clone am) tt = AccountMeta_Token am tt"
      using well_typed_acct(3) [OF assms Some] by simp
    with Some show ?thesis by (simp add: tok_def AccountMeta_Token_Clone)
  qed (simp add: tok_def)
  with True show ?thesis
    by (simp add: tok_def spec_tables AccountMeta_Token_Clone AccountMeta_Token_after)
qed

lemma spec_account_benefit: "benefit_at (spec_account E now b am tm n) x = benefit_at n x"
  by (simp add: spec_account_def benefit_at_def Let_def)

lemma spec_frontier_benefit: "benefit_at (spec_frontier E b tm n) x = benefit_at n x"
  by (simp add: spec_frontier_def benefit_at_def Let_def split: option.split)

lemma spec_pending_benefit: "benefit_at (spec_pending E b p n) x = benefit_at n x"
  using core_eq_tables(4) [OF spec_pending_core] by blast

lemma spec_block_benefit: "benefit_at (spec_block E b n) x = benefit_at n x"
  by (simp add: spec_block_def benefit_at_def Let_def)

lemmas spec_benefits = spec_account_benefit spec_frontier_benefit spec_pending_benefit spec_block_benefit

lemma spec_benefit:
  assumes "benefit_at m x \<noteq> None \<or> sb_Token b = cf_ChainToken E \<and> x = sb_Representative b"
  shows "benefit_at (spec_process E now b m) x \<noteq> None"
  using assms
  by (auto simp: spec_process_def spec_rep_def spec_sub_rep_def Let_def spec_benefits split: option.splits)

lemma rep_ok_spec:
  assumes "well_typed E m" "rep_ok E m"
  shows "rep_ok E (spec_process E now b m)"
  unfolding rep_ok_def
proof (intro allI impI)
  fix a tm assume t: "tok (spec_process E now b m) a (cf_ChainToken E) = Some tm" "tm_Representative tm \<noteq> ZeroAddress"
  show "benefit_at (spec_process E now b m) (tm_Representative tm) \<noteq> None"
  proof (cases "a = sb_Address b \<and> cf_ChainToken E = sb_Token b")
    case True
    with t(1) have "tm_Representative tm = sb_Representative b" by (auto simp: spec_tok [OF assms(1)])
    then show ?thesis using True spec_benefit [of m "tm_Representative tm"] by simp
  next
    case False
    with t(1) have "tok m a (cf_ChainToken E) = Some tm" by (auto simp: spec_tok [OF assms(1)])
    then show ?thesis using spec_benefit [of m "tm_Representative tm"] assms(2) t(2) by (auto simp: rep_ok_def)
  qed
qed

lemma rep_ok_core: "core_eq m m' \<Longrightarrow> rep_ok E m' \<Longrightarrow> rep_ok E m"
  unfolding rep_ok_def by (simp add: core_eq_tables)

section \<open>Steps of the ledger\<close>

lemma chain_ok_core:
  assumes "core_eq m m'" "chain_ok E m'"
  shows "chain_ok E m"
  using assms(2) unfolding chain_ok_def header_ok_def core_eq_tables [OF assms(1)] .

lemma well_typed_tokens:
  assumes "well_typed E m" "acct m a = Some am"
  shows "map TokenMeta_Clone (am_Tokens am) = am_Tokens am"
  using well_typed_acct(3) [OF assms] by (metis AccountMeta_Clone_sels(2))

subsection \<open>The flusher\<close>

text \<open>What has been through serialisation keeps every field the chains are made of.\<close>

lemma Unmarshal_sels [simp]:
  "sb_Type (StateBlock_Unmarshal b) = sb_Type (StateBlock_Clone b)"
  "sb_Address (StateBlock_Unmarshal b) = sb_Address b" "sb_Token (StateBlock_Unmarshal b) = sb_Token b"
  "sb_Previous (StateBlock_Unmarshal b) = sb_Previous b" "sb_Balance (StateBlock_Unmarshal b) = \<bar>sb_Balance b\<bar>"
  "sb_Representative (StateBlock_Unmarshal b) = sb_Representative b" "sb_Link (StateBlock_Unmarshal b) = sb_Link b"
  by (simp_all add: StateBlock_Unmarshal_def StateBlock_Clone_def)

lemma has_parent_Unmarshal [simp]: "has_parent E (StateBlock_Unmarshal b) = has_parent E b"
  by (simp add: has_parent_def IsGenesisBlock_def IsOpen_def)

lemma StateBlock_Unmarshal_idem [simp]: "StateBlock_Unmarshal (StateBlock_Unmarshal b) = StateBlock_Unmarshal b"
  by (simp add: StateBlock_Unmarshal_def)

lemma Clone_Unmarshal [simp]: "StateBlock_Clone (StateBlock_Unmarshal b) = StateBlock_Unmarshal b"
  by (simp add: StateBlock_Unmarshal_def StateBlock_Clone_def)

lemma Account_Unmarshal_sels [simp]:
  "am_Address (AccountMeta_Unmarshal a) = am_Address a"
  "am_Tokens (AccountMeta_Unmarshal a) = map TokenMeta_Clone (am_Tokens a)"
  by (simp_all add: AccountMeta_Unmarshal_def)

lemma Account_Unmarshal_idem [simp]:
  "AccountMeta_Unmarshal (AccountMeta_Unmarshal a) = AccountMeta_Unmarshal a"
  "AccountMeta_Clone (AccountMeta_Unmarshal a) = AccountMeta_Unmarshal a"
  by (simp_all add: AccountMeta_Unmarshal_def AccountMeta_Clone_def)

lemma val_dump_idem: "val_dump (val_dump v) = val_dump v"
  by (cases v) (simp_all add: PendingInfo_Unmarshal_def Benefit_Unmarshal_def)

lemma val_dump_ok: "val_ok E k v \<Longrightarrow> val_ok E k (val_dump v)"
  by (cases "(E, k, v)" rule: val_ok.cases) (auto split: val.splits simp: Benefit_Unmarshal_def)

lemma dump_typed:
  assumes "well_typed E m" "dump_rel val_dump m m'"
  shows "well_typed E m'"
  unfolding well_typed_def
proof (intro allI impI)
  fix k v assume v: "m' k = Some v"
  have "m' k = m k \<or> m' k = map_option val_dump (m k)" using assms(2) by (simp add: dump_rel_def)
  with v well_typedD [OF assms(1)] val_dump_ok show "val_ok E k v" by fastforce
qed

lemma dump_blk:
  assumes "well_typed E m" "dump_rel val_dump m m'"
  shows "blk m' h = blk m h \<or> blk m' h = map_option StateBlock_Unmarshal (blk m h)"
proof (cases "m (KBlock h)")
  case None
  then show ?thesis using assms(2) by (auto simp: dump_rel_def blk_def dest!: spec [of _ "KBlock h"])
next
  case (Some v)
  then obtain b where "v = VBlock b" using well_typedD [OF assms(1) Some] by (auto split: val.splits)
  moreover have "m' (KBlock h) = m (KBlock h) \<or> m' (KBlock h) = map_option val_dump (m (KBlock h))"
    using assms(2) by (simp add: dump_rel_def)
  ultimately show ?thesis using Some by (auto simp: blk_def)
qed

lemma dump_acct:
  assumes "well_typed E m" "dump_rel val_dump m m'"
  shows "acct m' a = acct m a \<or> acct m' a = map_option AccountMeta_Unmarshal (acct m a)"
proof (cases "m (KAccount a)")
  case None
  then show ?thesis using assms(2) by (auto simp: dump_rel_def acct_def dest!: spec [of _ "KAccount a"])
next
  case (Some v)
  then obtain am where "v = VAccount am" using well_typedD [OF assms(1) Some] by (auto split: val.splits)
  moreover have "m' (KAccount a) = m (KAccount a) \<or> m' (KAccount a) = map_option val_dump (m (KAccount a))"
    using assms(2) by (simp add: dump_rel_def)
  ultimately show ?thesis using Some by (auto simp: acct_def)
qed

lemma dump_hash:
  assumes "dump_rel val_dump m m'"
  shows "hash_at m' k = hash_at m k"
proof -
  have "hash_of (val_dump v) = hash_of v" for v by (cases v) simp_all
  moreover have "m' k = m k \<or> m' k = map_option val_dump (m k)" using assms by (simp add: dump_rel_def)
  ultimately show ?thesis by (cases "m k") (auto simp: hash_at_def)
qed

lemma dump_chain:
  assumes "well_typed E m" "dump_rel val_dump m m'" "chain_ok E m"
  shows "chain_ok E m'"
proof -
  have b: "\<exists>b0. blk m h = Some b0 \<and> sb_Previous b0 = sb_Previous b \<and> has_parent E b0 = has_parent E b"
    if "blk m' h = Some b" for h b
    using dump_blk [OF assms(1,2), of h] that by (cases "blk m h") auto
  have a: "\<exists>am0. acct m a = Some am0 \<and> am_Tokens am0 = am_Tokens am" if "acct m' a = Some am" for a am
    using dump_acct [OF assms(1,2), of a] that well_typed_tokens [OF assms(1), of a] by (cases "acct m a") auto
  have h: "header_ok m' a t" if "header_ok m a t" for a t
  proof -
    from that obtain hb where hb: "blk m (tm_Header t) = Some hb" "sb_Address hb = a" "sb_Token hb = tm_Type t"
      "sb_Balance hb = tm_Balance t" "sb_Representative hb = tm_Representative t"
      "hash_at m (KFrontier (tm_Header t)) = Some (tm_OpenBlock t)"
      by (auto simp: header_ok_def)
    have "sb_Balance (StateBlock_Clone hb) = sb_Balance hb"
      using well_typed_blk(3) [OF assms(1) hb(1)] by simp
    then have "\<bar>sb_Balance hb\<bar> = sb_Balance hb" by simp
    with hb dump_blk [OF assms(1,2), of "tm_Header t"] show ?thesis
      by (auto simp: header_ok_def dump_hash [OF assms(2)])
  qed
  show ?thesis unfolding chain_ok_def dump_hash [OF assms(2)]
    using b a h chain_parent [OF assms(3)] chain_account [OF assms(3)] by metis
qed

lemma dump_tok:
  assumes "well_typed E m" "dump_rel val_dump m m'"
  shows "tok m' a tt = tok m a tt"
proof (cases "acct m a")
  case None
  then show ?thesis using dump_acct [OF assms, of a] by (auto simp: tok_def)
next
  case (Some am)
  have "AccountMeta_Token (AccountMeta_Unmarshal am) tt = AccountMeta_Token am tt"
    using well_typed_tokens [OF assms(1) Some] by (simp add: AccountMeta_Token_def)
  with Some show ?thesis using dump_acct [OF assms, of a] by (auto simp: tok_def)
qed

lemma dump_rep:
  assumes "well_typed E m" "dump_rel val_dump m m'" "rep_ok E m"
  shows "rep_ok E m'"
proof -
  have "benefit_at m' x \<noteq> None" if x: "benefit_at m x \<noteq> None" for x
  proof -
    obtain b where "m (KRepresentation x) = Some (VBenefit b)"
      using x well_typed_benefit(1) [OF assms(1)] by blast
    moreover have "m' (KRepresentation x) = m (KRepresentation x) \<or>
        m' (KRepresentation x) = map_option val_dump (m (KRepresentation x))"
      using assms(2) by (simp add: dump_rel_def)
    ultimately show ?thesis by (auto simp: benefit_at_def)
  qed
  with assms(3) show ?thesis by (simp add: rep_ok_def dump_tok [OF assms(1,2)])
qed

lemma dump_inv:
  assumes "ledger_inv E l" "mc_inv (l_cache l')" "dump_rel val_dump (lview l) (lview l')"
  shows "ledger_inv E l'"
  using assms dump_typed dump_chain dump_rep by (auto simp: ledger_inv_def)

subsection \<open>Processing a block\<close>

lemma check_parent:
  assumes "ledger_inv E l" "BlockCheck E R l b = pass" "has_parent E b"
  shows "blk (lview l) (sb_Previous b) \<noteq> None"
proof -
  note i = ledger_invD [OF assms(1)]
  have n: "\<not> IsGenesisBlock E b" "\<not> IsOpen b" using assms(3) by (simp_all add: has_parent_def)
  have "sb_Type b \<noteq> Open"
    using assms(2) n(2) by (auto simp: BlockCheck_def newBlockCheck_def openBlockCheck_def IsOpen_def)
  with fork_previous(1) [OF i(1,2) check_base_fork(2) [OF assms(2) n(1)]] n(2) show ?thesis by simp
qed

lemma BlockProcess_cases:
  assumes "BlockProcess E R now e b l = Some (r, l')" "mc_inv (l_cache l)"
  obtains (fail) x where "r = Inl x" "mc_inv (l_cache l')" "lview l' = lview l"
  | (ok) b' t where "r = Inr ()" "processStateBlock E R now l b (start_tx l) = (Inr b', t)"
      "mc_inv (l_cache l')" "lview l' = txview l t"
proof -
  obtain q l1 where q: "BatchUpdate e (processStateBlock E R now l b) l = Some (q, l1)"
    using assms(1) by (auto simp: BlockProcess_def)
  show thesis
  proof (rule BatchUpdate_cases [OF q assms(2)], goal_cases)
    case (1 x t)
    with q assms show ?case by (intro fail [of x]) (auto simp: BlockProcess_def)
  next
    case (2 x t mc)
    with q assms show ?case by (intro ok [of x t]) (auto simp: BlockProcess_def)
  qed
qed

lemma Process_cases:
  assumes "Process E R now e b l = Some (r, l')" "ledger_inv E l"
  obtains (refused) "r = BlockCheck E R l b" "r \<noteq> pass" "l' = l"
  | (fail) "BlockCheck E R l b = pass" "fst r = Other" "mc_inv (l_cache l')" "lview l' = lview l"
  | (ok) b' t where "BlockCheck E R l b = pass" "r = pass" "processStateBlock E R now l b (start_tx l) = (Inr b', t)"
      "mc_inv (l_cache l')" "lview l' = txview l t"
proof (cases "BlockCheck E R l b = pass")
  case False
  then show thesis using assms(1) by (intro refused) (auto simp: Process_def split: prod.splits if_splits)
next
  case True
  then obtain q l1 where q1: "BlockProcess E R now e b l = Some (q, l1)"
    using assms(1) by (auto simp: Process_def)
  with True assms(1) have q: "BlockProcess E R now e b l = Some (q, l')"
    "r = (case q of Inl _ \<Rightarrow> (Other, Some ''block process'') | Inr _ \<Rightarrow> pass)"
    by (cases q; auto simp: Process_def)+
  show thesis
    by (rule BlockProcess_cases [OF q(1) ledger_invD(1) [OF assms(2)]]) (use q(2) True fail ok in auto)
qed

text \<open>A successful batch on a block that is not confirmed yet.\<close>

lemma processed_chain:
  assumes "ledger_inv E l" "lview l (KBlock (GetHash (cf_H E) b)) = None"
    and "keeps_block R l b"
    and "processStateBlock E R now l b (start_tx l) = (Inr b', t)"
  shows "b' = b" "well_typed E (txview l t)" "core_eq (txview l t) (spec_process E now b (lview l))"
    and "chain_ok E (txview l t)" "rep_ok E (txview l t)"
proof -
  note i = ledger_invD [OF assms(1)]
  note r = process_refines_core [OF i(1,2) assms(3,4)]
  then show "b' = b" "well_typed E (txview l t)" "core_eq (txview l t) (spec_process E now b (lview l))"
    by simp_all
  have new: "blk (lview l) (GetHash (cf_H E) b) = None" using assms(2) by (simp add: blk_def)
  obtain t1 where "UpdateStateBlock E l b (start_tx l) = (Inr (), t1)"
    by (rule processStateBlock_steps [OF i(1,2) assms(4)])
  then have "has_parent E b \<Longrightarrow> hash_at (lview l) (KChild (sb_Previous b)) = None"
    using UpdateStateBlock_run [OF i(1), of E "start_tx l" b] i(2) by (auto split: if_splits)
  with chain_ok_spec [OF i(2,3) new] have "chain_ok E (spec_process E now b (lview l))" by blast
  with r show "chain_ok E (txview l t)" by (auto intro: chain_ok_core)
  show "rep_ok E (txview l t)" using r rep_ok_core rep_ok_spec [OF i(2,4)] by blast
qed

lemma BlockProcess_inv:
  assumes "ledger_inv E l" "BlockProcess E R now e b l = Some (r, l')"
    and "HasStateBlockConfirmed l (GetHash (cf_H E) b) = Inr False"
    and "keeps_block R l b"
  shows "ledger_inv E l'"
  using assms(2) ledger_invD(1) [OF assms(1)]
proof (cases rule: BlockProcess_cases)
  case fail
  then show ?thesis using ledger_invD [OF assms(1)] by (simp add: ledger_inv_def)
next
  case (ok b' t)
  have "lview l (KBlock (GetHash (cf_H E) b)) = None"
    using assms(3) HasStateBlockConfirmed_view [OF ledger_invD(1) [OF assms(1)]] by simp
  from processed_chain [OF assms(1) this assms(4) ok(2)] ok show ?thesis by (simp add: ledger_inv_def)
qed

lemma checked_new:
  assumes "ledger_inv E l" "BlockCheck E R l b = pass" "\<not> IsGenesisBlock E b"
  shows "HasStateBlockConfirmed l (GetHash (cf_H E) b) = Inr False"
  using base_new [OF ledger_invD(1) [OF assms(1)] check_base_fork(1) [OF assms(2,3)]]
    HasStateBlockConfirmed_view [OF ledger_invD(1) [OF assms(1)]] by simp

lemma Process_inv:
  assumes "ledger_inv E l" "Process E R now e b l = Some (r, l')" "\<not> IsGenesisBlock E b"
    and "keeps_block R l b"
  shows "ledger_inv E l'"
proof (cases "BlockCheck E R l b = pass")
  case False
  then show ?thesis using assms(1,2) by (auto simp: Process_def split: prod.splits if_splits)
next
  case True
  then obtain q l1 where "BlockProcess E R now e b l = Some (q, l1)"
    using assms(2) by (auto simp: Process_def)
  moreover from this True assms(2) have "l1 = l'" by (cases q) (auto simp: Process_def)
  ultimately show ?thesis using BlockProcess_inv [OF assms(1) _ checked_new [OF assms(1) True assms(3)] assms(4)] by blast
qed

text \<open>A checked block is put on a confirmed one.\<close>

lemma Process_rooted:
  assumes "ledger_inv E l" "Process E R now e b l = Some (r, l')" "\<not> IsGenesisBlock E b"
    and "keeps_block R l b" "rooted E (lview l)"
  shows "rooted E (lview l')"
  using assms(2,1)
proof (cases rule: Process_cases)
  case (ok b' t)
  have "lview l (KBlock (GetHash (cf_H E) b)) = None"
    by (rule base_new [OF ledger_invD(1) [OF assms(1)] check_base_fork(1) [OF ok(1) assms(3)]])
  note c = processed_chain(3) [OF assms(1) this assms(4) ok(3)]
  have "rooted E (spec_process E now b (lview l))"
    using rooted_spec [OF assms(5) check_parent [OF assms(1) ok(1)]] by blast
  then show ?thesis unfolding ok(5) rooted_def core_eq_tables [OF c] .
qed (use assms(5) in auto)

text \<open>Adding a block without an account, as the mintage blocks of the genesis are.\<close>

lemma spec_block_tables:
  "blk (spec_block E b m) x = (if x = GetHash (cf_H E) b then Some (StateBlock_Clone b) else blk m x)"
  "acct (spec_block E b m) a = acct m a" "hash_at (spec_block E b m) (KFrontier x) = hash_at m (KFrontier x)"
  "hash_at (spec_block E b m) (KChild p) =
     (if has_parent E b \<and> p = sb_Previous b then Some (GetHash (cf_H E) b) else hash_at m (KChild p))"
  by (simp_all add: spec_block_def Let_def table_defs)

lemma spec_block_chain:
  assumes "chain_ok E m" "blk m (GetHash (cf_H E) b) = None"
    and "has_parent E b \<Longrightarrow> hash_at m (KChild (sb_Previous b)) = None"
  shows "chain_ok E (spec_block E b m)"
  unfolding chain_ok_def
proof (intro conjI allI impI)
  fix h b0 assume h: "blk (spec_block E b m) h = Some b0" "has_parent E b0"
  show "hash_at (spec_block E b m) (KChild (sb_Previous b0)) = Some h"
    using h assms(3) chain_parent [OF assms(1), of h b0] by (auto simp: spec_block_tables split: if_splits)
next
  fix a am assume "acct (spec_block E b m) a = Some am"
  then have am: "acct m a = Some am" by (simp add: spec_block_tables)
  from chain_account(1) [OF assms(1) am] show "distinct (map tm_Type (am_Tokens am))" .
  show "\<forall>t \<in> set (am_Tokens am). header_ok (spec_block E b m) a t"
    using chain_account(2) [OF assms(1) am] assms(2) by (force simp: header_ok_def spec_block_tables)
qed

lemma AddStateBlock_inv:
  assumes "ledger_inv E l" "AddStateBlock E e b l = Some (r, l')"
    and "HasStateBlockConfirmed l (GetHash (cf_H E) b) = Inr False"
  shows "ledger_inv E l'"
proof -
  note i = ledger_invD [OF assms(1)]
  have w: "well_typed E (txview l (start_tx l))" using i(2) by simp
  have new: "blk (lview l) (GetHash (cf_H E) b) = None"
    using assms(3) HasStateBlockConfirmed_view [OF i(1)] by (simp add: blk_def)
  obtain q l1 where q: "BatchUpdate e (UpdateStateBlock E l b) l = Some (q, l1)"
    using assms(2) by (auto simp: AddStateBlock_def)
  show ?thesis
  proof (rule BatchUpdate_cases [OF q i(1)], goal_cases)
    case (1 x t)
    with q assms(2) i show ?case by (auto simp: AddStateBlock_def ledger_inv_def)
  next
    case (2 x t mc)
    have c: "has_parent E b \<Longrightarrow> hash_at (lview l) (KChild (sb_Previous b)) = None"
      using UpdateStateBlock_run [OF i(1) w, of b] 2(1) by (auto split: if_splits)
    have "txview l t = spec_block E b (lview l)"
      using UpdateStateBlock_view [OF i(1) w, of b t] 2(1) by simp
    moreover have "rep_ok E (spec_block E b (lview l))"
      using i(4) by (simp add: rep_ok_def tok_def spec_block_tables spec_block_benefit)
    ultimately show ?case using 2 q assms(2) spec_block_typed [OF i(2)] spec_block_chain [OF i(3) new c]
      by (auto simp: AddStateBlock_def ledger_inv_def)
  qed
qed

subsection \<open>Runs\<close>

text \<open>What the node does to the ledger: checking and processing a block; processing a block the consensus
  has confirmed, or a genesis block, without another check once it is known not to be in the ledger;
  adding the mintage blocks; putting blocks on the unconfirmed tables; rounds of the flusher, and
  explicit flushes. A contract that is called leaves the block as it is: contracts that assign packed
  parameters to the block's data (\<open>vm/contract/mintage.go\<close>, \<open>nep5_pledge.go\<close>, \<open>kyc.go\<close>) do so when the data was
  packed the same way. The writes of the flusher succeed; \<open>Mem_Cache\<close> shows what is lost when they fail.\<close>

inductive ledger_step :: "config \<Rightarrow> registry \<Rightarrow> ledger \<Rightarrow> ledger \<Rightarrow> bool" for E R where
  step_process: "Process E R now e b l = Some (r, l') \<Longrightarrow> \<not> IsGenesisBlock E b \<Longrightarrow> keeps_block R l b \<Longrightarrow>
    ledger_step E R l l'"
| step_confirm: "HasStateBlockConfirmed l (GetHash (cf_H E) b) = Inr False \<Longrightarrow>
    BlockProcess E R now e b l = Some (r, l') \<Longrightarrow> keeps_block R l b \<Longrightarrow> ledger_step E R l l'"
| step_add: "HasStateBlockConfirmed l (GetHash (cf_H E) b) = Inr False \<Longrightarrow>
    AddStateBlock E e b l = Some (r, l') \<Longrightarrow> ledger_step E R l l'"
| step_cache: "BlockCacheProcess E now b l = (r, l') \<Longrightarrow> ledger_step E R l l'"
| step_flush: "MemoryCache_flush all_ok val_dump (l_db l) = Some (mc, st) \<Longrightarrow>
    ledger_step E R l (l\<lparr>l_cache := mc, l_store := st\<rparr>)"
| step_rebuild: "MemoryCache_rebuild all_ok val_dump (l_db l) = Some (mc, st) \<Longrightarrow>
    ledger_step E R l (l\<lparr>l_cache := mc, l_store := st\<rparr>)"

lemma BlockCacheProcess_db:
  assumes "BlockCacheProcess E now b l = (r, l')"
  shows "l_cache l' = l_cache l" "l_store l' = l_store l"
  using assms by (auto simp: BlockCacheProcess_def BatchWrite_def split: sum.splits if_splits prod.splits)

lemma ledger_step_inv:
  assumes "ledger_step E R l l'" "ledger_inv E l"
  shows "ledger_inv E l'"
  using assms
proof cases
  case (step_process now e b r)
  then show ?thesis using Process_inv [OF assms(2)] by blast
next
  case (step_confirm b now e r)
  then show ?thesis using BlockProcess_inv [OF assms(2)] by blast
next
  case (step_add b e r)
  then show ?thesis using AddStateBlock_inv [OF assms(2)] by blast
next
  case (step_cache now b r)
  then show ?thesis using assms(2) BlockCacheProcess_db [OF step_cache] by (simp add: ledger_inv_def lview_def)
next
  case (step_flush mc st)
  from flush_keeps [OF _ val_dump_idem step_flush(2)] ledger_invD(1) [OF assms(2)]
  show ?thesis by (intro dump_inv [OF assms(2)]) (simp_all add: step_flush(1) lview_def)
next
  case (step_rebuild mc st)
  from rebuild_keeps [OF _ val_dump_idem step_rebuild(2)] ledger_invD(1) [OF assms(2)]
  show ?thesis by (intro dump_inv [OF assms(2)]) (simp_all add: step_rebuild(1) lview_def)
qed

lemma ledger_run_inv:
  assumes "(ledger_step E R)\<^sup>*\<^sup>* l l'" "ledger_inv E l"
  shows "ledger_inv E l'"
  using assms by (induction rule: rtranclp_induct) (auto intro: ledger_step_inv)

section \<open>Processing succeeds\<close>

lemma updatePending_succeeds:
  assumes "mc_inv (l_cache l)" "well_typed E (lview l)" "ordinary b"
    and "sb_Type b = Send \<Longrightarrow> blk (lview l) (sb_Previous b) \<noteq> None"
  obtains t' where "updatePending E R l b t = (Inr b, t')"
proof -
  have d: "\<exists>t'. DeletePending E l pk t = (Inr (), t')" for pk
    by (auto simp: DeletePending_def ledger_reads [OF assms(1,2)] of_option_def split: option.split)
  have "\<exists>t'. updatePending E R l b t = (Inr b, t')"
    using assms(3) unfolding ordinary_def
  proof (elim disjE)
    assume s: "sb_Type b = Send"
    then obtain p where "blk (lview l) (sb_Previous b) = Some p" using assms(4) by blast
    with s show ?thesis by (simp add: updatePending_def ledger_reads [OF assms(1,2)] AddPending_def)
  next
    assume "sb_Type b = Receive"
    with d [of "(sb_Address b, sb_Link b)"] show ?thesis by (auto simp: updatePending_def bindM_def)
  next
    assume "sb_Type b = Open"
    with d [of "(sb_Address b, sb_Link b)"] show ?thesis by (auto simp: updatePending_def bindM_def)
  qed (auto simp: updatePending_def)
  with that show thesis by blast
qed

lemma updateFrontier_succeeds:
  assumes "ledger_inv E l" "tm = tok (lview l) (sb_Address b) (sb_Token b)"
  obtains t' where "updateFrontier E l b tm t = (Inr (), t')"
proof (cases tm)
  case None
  with that show thesis by (auto simp: updateFrontier_def AddFrontier_def Let_def)
next
  case (Some x)
  note i = ledger_invD [OF assms(1)]
  obtain am where "acct (lview l) (sb_Address b) = Some am" "x \<in> set (am_Tokens am)"
    by (rule tok_Some [of "lview l" "sb_Address b" "sb_Token b" x]) (use assms(2) Some in auto)
  then have "hash_at (lview l) (KFrontier (tm_Header x)) = Some (tm_OpenBlock x)"
    using chain_account(2) [OF i(3)] by (auto simp: header_ok_def)
  with Some that show thesis
    by (auto simp: updateFrontier_def AddFrontier_def DeleteFrontier_def Let_def ledger_reads [OF i(1,2)])
qed

lemma updateRepresentative_succeeds:
  assumes "mc_inv (l_cache l)" "well_typed E (txview l t)" "tm \<noteq> None \<Longrightarrow> am \<noteq> None"
    and "\<And>x. tm = Some x \<Longrightarrow> sb_Token b = cf_ChainToken E \<Longrightarrow> tm_Representative x \<noteq> ZeroAddress \<Longrightarrow>
      benefit_at (txview l t) (tm_Representative x) \<noteq> None"
  obtains t' where "updateRepresentative E l b am tm t = (Inr (), t')"
proof -
  have add: "\<exists>t'. AddRepresentation l a d u = (Inr (), t')" if "well_typed E (txview l u)" for a d u
    using AddRepresentation_run [OF assms(1) that] by blast
  have sub: "\<exists>t'. SubRepresentation l a d t = (Inr (), t') \<and> well_typed E (txview l t')"
    if "benefit_at (txview l t) a \<noteq> None" for a d
  proof -
    have "\<exists>t'. SubRepresentation l a d t = (Inr (), t')"
      using that by (auto simp: SubRepresentation_def tx_reads [OF assms(1,2)] setRepresentation_def)
    then obtain t' where t': "SubRepresentation l a d t = (Inr (), t')" by blast
    with SubRepresentation_run(1) [OF assms(1,2) t'] assms(2) show ?thesis by (auto intro!: well_typed_upd)
  qed
  have "\<exists>t'. updateRepresentative E l b am tm t = (Inr (), t')"
  proof (cases "sb_Token b = cf_ChainToken E")
    case False
    then show ?thesis by (simp add: updateRepresentative_def)
  next
    case True
    show ?thesis
    proof (cases "\<exists>x. tm = Some x \<and> tm_Representative x \<noteq> ZeroAddress")
      case False
      then show ?thesis using True add [OF assms(2)] by (auto simp: updateRepresentative_def split: option.splits)
    next
      case rep: True
      then obtain x a where x: "tm = Some x" "tm_Representative x \<noteq> ZeroAddress" "am = Some a" using assms(3) by auto
      obtain t1 where "SubRepresentation l (tm_Representative x) (account_benefit a) t = (Inr (), t1)" "well_typed E (txview l t1)"
        using sub [OF assms(4) [OF x(1) True x(2)]] by blast
      with x True add show ?thesis by (simp add: updateRepresentative_def bindM_def)
    qed
  qed
  with that show thesis by blast
qed

text \<open>The batch of a block succeeds when its pending step does and its contract step does nothing.\<close>

lemma batch_succeeds:
  assumes "ledger_inv E l" "\<not> CheckPrivateRecvRsp b"
    and "has_parent E b \<Longrightarrow> blk (lview l) (sb_Previous b) \<noteq> None \<and> hash_at (lview l) (KChild (sb_Previous b)) = None"
    and "\<And>t. \<exists>t'. updatePending E R l b t = (Inr b, t') \<and> (well_typed E (txview l t) \<longrightarrow> well_typed E (txview l t')) \<and>
      (\<forall>x. benefit_at (txview l t') x = benefit_at (txview l t) x)"
    and "\<And>t. updateContractData E R l b t = (Inr (), t)"
  shows "\<exists>t. processStateBlock E R now l b (start_tx l) = (Inr b, t)"
proof -
  let ?m = "lview l" and ?s = "start_tx l"
  let ?am = "acct ?m (sb_Address b)" and ?tm = "tok ?m (sb_Address b) (sb_Token b)"
  note i = ledger_invD [OF assms(1)]
  have w0: "well_typed E (txview l ?s)" using i(2) by simp
  have "lview l (KBlock h) = None \<longleftrightarrow> blk ?m h = None" for h using well_typed_blk_None [OF i(2)] by simp
  then have "UpdateStateBlock E l b ?s = (Inr (), snd (UpdateStateBlock E l b ?s))"
    using UpdateStateBlock_run [OF i(1) w0, of b] assms(2,3) by (simp split: if_splits)
  then obtain t1 where s1: "UpdateStateBlock E l b ?s = (Inr (), t1)" by blast
  have v1: "txview l t1 = spec_block E b ?m" using UpdateStateBlock_view [OF i(1) w0 s1] by simp
  then have w1: "well_typed E (txview l t1)" using i(2) by (simp add: spec_block_typed)
  obtain t2 where s2: "updatePending E R l b t1 = (Inr b, t2)" and w2: "well_typed E (txview l t2)"
    and b2: "\<And>x. benefit_at (txview l t2) x = benefit_at (txview l t1) x"
    using assms(4) [of t1] w1 by blast
  obtain t3 where s3: "updateFrontier E l b ?tm t2 = (Inr (), t3)"
    by (rule updateFrontier_succeeds [OF assms(1) refl])
  have v3: "txview l t3 = spec_frontier E b ?tm (txview l t2)" by (rule updateFrontier_run [OF i(1,2) s3])
  obtain t5 where s5: "updateAccountMeta E now l b ?am t3 = (Inr (), t5)"
    and v5: "txview l t5 = spec_account E now b ?am ?tm (txview l t3)"
    using updateAccountMeta_run [OF i(1,2) refl refl, where b = b and now = now and t = t3] by blast
  have w5: "well_typed E (txview l t5)"
    unfolding v5 v3 using w2 i(2) by (intro spec_account_typed spec_frontier_typed) (auto dest: well_typed_acct)
  have "benefit_at (txview l t5) x = benefit_at ?m x" for x
    by (simp add: v5 v3 b2 v1 spec_benefits)
  moreover have "?tm \<noteq> None \<Longrightarrow> ?am \<noteq> None" by (auto simp: tok_def bind_eq_Some_conv)
  ultimately obtain t6 where s6: "updateRepresentative E l b ?am ?tm t5 = (Inr (), t6)"
    using updateRepresentative_succeeds [OF i(1) w5, of ?tm ?am b] i(4) by (auto simp: rep_ok_def)
  show ?thesis by (simp add: processStateBlock_unfold [OF i(1,2)] bindM_def s1 s2 s3 assms(5) s5 s6)
qed

lemma processStateBlock_succeeds:
  assumes "ledger_inv E l" "ordinary b" "\<not> CheckPrivateRecvRsp b"
    and "has_parent E b \<Longrightarrow> blk (lview l) (sb_Previous b) \<noteq> None \<and> hash_at (lview l) (KChild (sb_Previous b)) = None"
    and "sb_Type b = Send \<Longrightarrow> blk (lview l) (sb_Previous b) \<noteq> None"
  obtains t where "processStateBlock E R now l b (start_tx l) = (Inr b, t)"
proof -
  note i = ledger_invD [OF assms(1)]
  have n: "sb_Type b \<noteq> ContractSend" using assms(2) by (auto simp: ordinary_def)
  have p: "\<exists>t'. updatePending E R l b t = (Inr b, t') \<and> (well_typed E (txview l t) \<longrightarrow> well_typed E (txview l t')) \<and>
      (\<forall>x. benefit_at (txview l t') x = benefit_at (txview l t) x)" for t
  proof -
    obtain t' where t': "updatePending E R l b t = (Inr b, t')"
      by (rule updatePending_succeeds [OF i(1,2) assms(2,5)])
    with updatePending_typed [OF t'] updatePending_core [OF t' keeps_block_other [OF n]] show ?thesis by (auto simp: benefit_at_def)
  qed
  have "\<exists>t. processStateBlock E R now l b (start_tx l) = (Inr b, t)"
    by (rule batch_succeeds [OF assms(1,3,4) p updateContractData_ordinary [OF assms(2)]])
  with that show thesis by blast
qed

lemma BlockProcess_succeeds:
  assumes "mc_inv (l_cache l)" "GetCache e (l_cache l) \<noteq> None" "processStateBlock E R now l b (start_tx l) = (Inr b', t)"
  obtains l' where "BlockProcess E R now e b l = Some (Inr (), l')" "lview l' = txview l t"
proof -
  obtain mc where mc: "BatchUpdate_commit e (t_cache t) (l_cache l) = Some mc"
    using assms(2) by (auto simp: BatchUpdate_commit_def)
  have "BatchUpdate e (processStateBlock E R now l b) l =
      Some (Inr b', l\<lparr>l_cache := mc, l_rcache := t_rcache t, l_events := t_events t\<rparr>)"
    using assms(3) mc by (simp add: BatchUpdate_def start_tx_def)
  then obtain l' where l': "BlockProcess E R now e b l = Some (Inr (), l')" by (auto simp: BlockProcess_def)
  have "lview l' = txview l t"
    by (rule BlockProcess_cases [OF l' assms(1)]) (use assms(3) in auto)
  with l' that show thesis by blast
qed

lemma Process_succeeds:
  assumes "ledger_inv E l" "BlockCheck E R l b = pass" "GetCache e (l_cache l) \<noteq> None" "ordinary b"
    and "\<not> CheckPrivateRecvRsp b" "has_parent E b \<Longrightarrow> hash_at (lview l) (KChild (sb_Previous b)) = None"
    and "sb_Type b = Send \<Longrightarrow> blk (lview l) (sb_Previous b) \<noteq> None"
  obtains l' where "Process E R now e b l = Some (pass, l')" "lview l' = spec_process E now b (lview l)"
proof -
  note i = ledger_invD [OF assms(1)]
  obtain t where t: "processStateBlock E R now l b (start_tx l) = (Inr b, t)"
    by (rule processStateBlock_succeeds [OF assms(1,4,5) _ assms(7)])
      (use assms(6) check_parent [OF assms(1,2)] in blast)+
  obtain l' where l': "BlockProcess E R now e b l = Some (Inr (), l')" "lview l' = txview l t"
    by (rule BlockProcess_succeeds [OF i(1) assms(3) t])
  have "Process E R now e b l = Some (pass, l')" using assms(2) l'(1) by (simp add: Process_def)
  moreover have "lview l' = spec_process E now b (lview l)"
    using process_refines [OF i(1,2) assms(4) t] l'(2) by simp
  ultimately show thesis by (rule that)
qed

end
