(* ===== verification/Ledger_Supply.thy ===== *)
theory Ledger_Supply
  imports Ledger_Inv
begin

text \<open>Balances. The supply of a token is the sum of all account balances and all pending amounts of it.
  What each check guarantees about balances is extracted first; then transfers, receives, opens and
  representative changes on the accounts' own chains keep the supply of every token.\<close>

section \<open>Supply\<close>

definition tok_balance :: "(key \<rightharpoonup> val) \<Rightarrow> address \<Rightarrow> hash \<Rightarrow> int" where
  "tok_balance m a tt = (case tok m a tt of None \<Rightarrow> 0 | Some tm \<Rightarrow> tm_Balance tm)"

definition pend_amount :: "(key \<rightharpoonup> val) \<Rightarrow> hash \<Rightarrow> address \<times> hash \<Rightarrow> int" where
  "pend_amount m tt ah =
     (case pend m (fst ah) (snd ah) of None \<Rightarrow> 0 | Some p \<Rightarrow> if pi_Type p = tt then pi_Amount p else 0)"

definition total_supply :: "(key \<rightharpoonup> val) \<Rightarrow> hash \<Rightarrow> int" where
  "total_supply m tt = (\<Sum>a\<in>UNIV. tok_balance m a tt) + (\<Sum>ah\<in>UNIV. pend_amount m tt ah)"

text \<open>Balances are below \<open>2^64\<close>, and a pending is a positive amount some confirmed block has sent.\<close>

definition amounts_ok :: "(key \<rightharpoonup> val) \<Rightarrow> bool" where
  "amounts_ok m \<longleftrightarrow>
     (\<forall>a tt tm. tok m a tt = Some tm \<longrightarrow> fits64 (tm_Balance tm)) \<and>
     (\<forall>a h p. pend m a h = Some p \<longrightarrow> 0 < pi_Amount p \<and> fits64 (pi_Amount p) \<and> blk m h \<noteq> None)"

lemma sum_upd_int:
  fixes f :: "'a::finite \<Rightarrow> int"
  shows "(\<Sum>x\<in>UNIV. if x = a then v else f x) = (\<Sum>x\<in>UNIV. f x) - f a + v"
proof -
  have "(\<Sum>x\<in>UNIV. if x = a then v else f x) = (if a = a then v else f a) + (\<Sum>x\<in>UNIV - {a}. if x = a then v else f x)"
    by (rule sum.remove) simp_all
  also have "(\<Sum>x\<in>UNIV - {a}. if x = a then v else f x) = (\<Sum>x\<in>UNIV - {a}. f x)"
    by (rule sum.cong) auto
  finally show ?thesis using sum.remove [of UNIV a f] by simp
qed

section \<open>Tables after processing\<close>

lemma spec_tok_balance:
  assumes "well_typed E m"
  shows "tok_balance (spec_process E now b m) a tt =
    (if a = sb_Address b \<and> tt = sb_Token b then \<bar>sb_Balance b\<bar> else tok_balance m a tt)"
  by (simp add: tok_balance_def spec_tok [OF assms])

lemma spec_pend:
  "pend (spec_process E now b m) a h =
    (if sb_Type b = Send \<and> a = sb_Link b \<and> h = GetHash (cf_H E) b \<and> blk m (sb_Previous b) \<noteq> None
     then Some \<lparr>pi_Source = sb_Address b,
       pi_Amount = Balance_Sub (sb_Balance (the (blk m (sb_Previous b)))) (sb_Balance b), pi_Type = sb_Token b\<rparr>
     else if IsReceiveBlock b \<and> a = sb_Address b \<and> h = sb_Link b then None
     else pend m a h)"
proof -
  have rep: "spec_rep E b am tm n (KPending a h) = n (KPending a h)" for am tm n
    by (simp add: spec_rep_def spec_sub_rep_def Let_def split: option.split)
  have acc: "spec_account E now b am tm n (KPending a h) = n (KPending a h)" for am tm n
    by (simp add: spec_account_def Let_def)
  have fr: "spec_frontier E b tm n (KPending a h) = n (KPending a h)" for tm n
    by (simp add: spec_frontier_def Let_def split: option.split)
  show ?thesis
    by (auto simp: pend_def spec_process_def Let_def rep acc fr spec_pending_def IsReceiveBlock_def
        split: BlockType.splits option.splits)
qed

text \<open>The change of the supply: the new balance, the new pending, and what they replace.\<close>

lemma spec_supply:
  assumes "well_typed E m"
  shows "total_supply (spec_process E now b m) tt = total_supply m tt
    + (if tt = sb_Token b then \<bar>sb_Balance b\<bar> - tok_balance m (sb_Address b) tt else 0)
    + (if sb_Type b = Send \<and> blk m (sb_Previous b) \<noteq> None
       then (if tt = sb_Token b then Balance_Sub (sb_Balance (the (blk m (sb_Previous b)))) (sb_Balance b) else 0)
         - pend_amount m tt (sb_Link b, GetHash (cf_H E) b)
       else if IsReceiveBlock b then - pend_amount m tt (sb_Address b, sb_Link b) else 0)"
proof -
  have b: "(\<Sum>a\<in>UNIV. tok_balance (spec_process E now b m) a tt) =
    (\<Sum>a\<in>UNIV. tok_balance m a tt) + (if tt = sb_Token b then \<bar>sb_Balance b\<bar> - tok_balance m (sb_Address b) tt else 0)"
    using sum_upd_int [of "sb_Address b" "\<bar>sb_Balance b\<bar>" "\<lambda>a. tok_balance m a tt"]
    by (simp add: spec_tok_balance [OF assms])
  have p: "pend_amount (spec_process E now b m) tt = (\<lambda>ah.
    if sb_Type b = Send \<and> blk m (sb_Previous b) \<noteq> None \<and> ah = (sb_Link b, GetHash (cf_H E) b)
    then (if tt = sb_Token b then Balance_Sub (sb_Balance (the (blk m (sb_Previous b)))) (sb_Balance b) else 0)
    else if IsReceiveBlock b \<and> ah = (sb_Address b, sb_Link b) then 0 else pend_amount m tt ah)"
    by (rule ext) (auto simp: pend_amount_def spec_pend)
  consider "sb_Type b = Send \<and> blk m (sb_Previous b) \<noteq> None" | "IsReceiveBlock b"
    | "\<not> (sb_Type b = Send \<and> blk m (sb_Previous b) \<noteq> None)" "\<not> IsReceiveBlock b" by blast
  then have "(\<Sum>ah\<in>UNIV. pend_amount (spec_process E now b m) tt ah) = (\<Sum>ah\<in>UNIV. pend_amount m tt ah)
    + (if sb_Type b = Send \<and> blk m (sb_Previous b) \<noteq> None
       then (if tt = sb_Token b then Balance_Sub (sb_Balance (the (blk m (sb_Previous b)))) (sb_Balance b) else 0)
         - pend_amount m tt (sb_Link b, GetHash (cf_H E) b)
       else if IsReceiveBlock b then - pend_amount m tt (sb_Address b, sb_Link b) else 0)"
  proof cases
    case 1
    then have "\<not> IsReceiveBlock b" by (simp add: IsReceiveBlock_def)
    with 1 show ?thesis by (simp add: p sum_upd_int)
  next
    case 2
    then have "sb_Type b \<noteq> Send" by (auto simp: IsReceiveBlock_def)
    with 2 show ?thesis by (simp add: p sum_upd_int)
  next
    case 3
    then show ?thesis by (auto simp: p)
  qed
  with b show ?thesis by (simp add: total_supply_def)
qed

section \<open>What the checks say about balances\<close>

lemma BlockCheck_plain:
  assumes "BlockCheck E R l b = pass" "\<not> l_verified l (GetHash (cf_H E) b)"
  obtains c where "newBlockCheck E R (sb_Type b) = Some c" "c l b = pass"
  using assms by (auto simp: BlockCheck_def split: option.splits if_splits)

lemma check_transfer:
  assumes "ledger_inv E l" "BlockCheck E R l b = pass" "\<not> l_verified l (GetHash (cf_H E) b)"
  shows "sb_Type b = Send \<Longrightarrow> \<exists>p. blk (lview l) (sb_Previous b) = Some p \<and> sb_Balance b < sb_Balance p"
    and "sb_Type b = Change \<or> sb_Type b = Online \<Longrightarrow>
      \<exists>p. blk (lview l) (sb_Previous b) = Some p \<and> sb_Balance b = sb_Balance p"
    and "sb_Type b = Receive \<Longrightarrow> \<exists>tm p. tok (lview l) (sb_Address b) (sb_Token b) = Some tm \<and>
      pend (lview l) (sb_Address b) (sb_Link b) = Some p \<and> pi_Type p = sb_Token b \<and>
      pi_Amount p = Balance_Sub (sb_Balance b) (tm_Balance tm)"
    and "sb_Type b = Open \<Longrightarrow> tok (lview l) (sb_Address b) (sb_Token b) = None \<and>
      (\<exists>p. pend (lview l) (sb_Address b) (sb_Link b) = Some p \<and> pi_Type p = sb_Token b \<and> pi_Amount p = sb_Balance b)"
proof -
  note i = ledger_invD(1,2) [OF assms(1)] and r = ledger_reads [OF ledger_invD(1,2) [OF assms(1)]]
  obtain c where c: "newBlockCheck E R (sb_Type b) = Some c" "c l b = pass"
    by (rule BlockCheck_plain [OF assms(2,3)])
  { assume t: "sb_Type b = Send"
    with c have "blockBalanceCheck l b = pass" by (auto simp: newBlockCheck_def sendBlockCheck_def)
    with t show "\<exists>p. blk (lview l) (sb_Previous b) = Some p \<and> sb_Balance b < sb_Balance p"
      by (auto simp: blockBalanceCheck_def balance_check_def r of_option_def split: option.splits if_splits) }
  { assume t: "sb_Type b = Change \<or> sb_Type b = Online"
    with c have "blockBalanceCheck l b = pass"
      by (auto simp: newBlockCheck_def changeBlockCheck_def onlineBlockCheck_def split: if_splits)
    with t show "\<exists>p. blk (lview l) (sb_Previous b) = Some p \<and> sb_Balance b = sb_Balance p"
      by (auto simp: blockBalanceCheck_def balance_check_def r of_option_def split: option.splits if_splits) }
  { assume t: "sb_Type b = Receive"
    with c have "blockPendingCheck R l b = pass" by (auto simp: newBlockCheck_def receiveBlockCheck_def)
    with t show "\<exists>tm p. tok (lview l) (sb_Address b) (sb_Token b) = Some tm \<and>
      pend (lview l) (sb_Address b) (sb_Link b) = Some p \<and> pi_Type p = sb_Token b \<and>
      pi_Amount p = Balance_Sub (sb_Balance b) (tm_Balance tm)"
      by (auto simp: blockPendingCheck_def receive_pending_def r Let_def GetTokenMetaConfirmed_Inr [OF i]
          split: sum.splits if_splits) }
  { assume t: "sb_Type b = Open"
    with c have "blockPendingCheck R l b = pass" "blockForkCheck E l b = pass"
      by (auto simp: newBlockCheck_def openBlockCheck_def split: if_splits)
    with t show "tok (lview l) (sb_Address b) (sb_Token b) = None \<and>
      (\<exists>p. pend (lview l) (sb_Address b) (sb_Link b) = Some p \<and> pi_Type p = sb_Token b \<and> pi_Amount p = sb_Balance b)"
      using GetTokenMetaConfirmed_Inr [OF i, of "sb_Address b" "sb_Token b"]
      by (auto simp: blockPendingCheck_def open_pending_def r blockForkCheck_def fork_check_def fork_open_def
          split: sum.splits if_splits) }
qed

text \<open>A block on its account's own chain: only blocks that open a chain have no token yet.\<close>

definition own_chain :: "(key \<rightharpoonup> val) \<Rightarrow> state_block \<Rightarrow> bool" where
  "own_chain m b \<longleftrightarrow> sb_Type b = Open \<or> tok m (sb_Address b) (sb_Token b) \<noteq> None"

lemma own_previous:
  assumes "ledger_inv E l" "BlockCheck E R l b = pass" "\<not> IsGenesisBlock E b" "sb_Type b = Send \<or> sb_Type b = Receive \<or>
      sb_Type b = Change \<or> sb_Type b = Online"
    and "tok (lview l) (sb_Address b) (sb_Token b) = Some tm" "blk (lview l) (sb_Previous b) = Some p"
  shows "sb_Balance p = tm_Balance tm" "sb_Previous b = tm_Header tm"
proof -
  note i = ledger_invD [OF assms(1)]
  show h: "sb_Previous b = tm_Header tm"
    using fork_previous(2) [OF i(1,2) check_base_fork(2) [OF assms(2,3)] _ _ assms(5)] assms(4) by auto
  obtain am where "acct (lview l) (sb_Address b) = Some am" "tm \<in> set (am_Tokens am)"
    by (rule tok_Some [OF assms(5)])
  from chain_account(2) [OF i(3) this] h assms(6) show "sb_Balance p = tm_Balance tm"
    by (auto simp: header_ok_def)
qed

section \<open>Conservation\<close>

text \<open>A block the theorem is about: no contract, on its own chain, a balance the 64-bit arithmetic can
  represent, and not one of the blocks the verified data lets pass without a pending.\<close>

definition transfer :: "config \<Rightarrow> ledger \<Rightarrow> state_block \<Rightarrow> bool" where
  "transfer E l b \<longleftrightarrow> ordinary b \<and> \<not> IsGenesisBlock E b \<and> own_chain (lview l) b \<and> fits64 (sb_Balance b) \<and>
     \<not> l_verified l (GetHash (cf_H E) b)"

lemma amounts_okD:
  assumes "amounts_ok m"
  shows "tok m a tt = Some tm \<Longrightarrow> fits64 (tm_Balance tm)"
    "pend m a h = Some p \<Longrightarrow> 0 < pi_Amount p" "pend m a h = Some p \<Longrightarrow> fits64 (pi_Amount p)"
    "pend m a h = Some p \<Longrightarrow> blk m h \<noteq> None"
  using assms by (auto simp: amounts_ok_def)

lemma transferD:
  assumes "transfer E l b"
  shows "ordinary b" "\<not> IsGenesisBlock E b" "own_chain (lview l) b" "fits64 (sb_Balance b)"
    "\<not> l_verified l (GetHash (cf_H E) b)"
  using assms by (simp_all add: transfer_def)

lemma transfer_send:
  assumes "ledger_inv E l" "amounts_ok (lview l)" "BlockCheck E R l b = pass" "transfer E l b" "sb_Type b = Send"
  obtains p tm where "blk (lview l) (sb_Previous b) = Some p" "tok (lview l) (sb_Address b) (sb_Token b) = Some tm"
    "sb_Balance b < tm_Balance tm" "Balance_Sub (sb_Balance p) (sb_Balance b) = tm_Balance tm - sb_Balance b"
proof -
  note t = transferD [OF assms(4)]
  obtain p tm where p: "blk (lview l) (sb_Previous b) = Some p" "sb_Balance b < sb_Balance p"
    and tm: "tok (lview l) (sb_Address b) (sb_Token b) = Some tm"
    using check_transfer(1) [OF assms(1,3) t(5) assms(5)] t(3) assms(5) by (auto simp: own_chain_def)
  have e: "sb_Balance p = tm_Balance tm" using own_previous(1) [OF assms(1,3) t(2) _ tm p(1)] assms(5) by blast
  have "Balance_Sub (sb_Balance p) (sb_Balance b) = tm_Balance tm - sb_Balance b"
    using Balance_Sub_exact [of "tm_Balance tm" "sb_Balance b"] amounts_okD(1) [OF assms(2) tm] t(4) p(2) e by simp
  with p tm e that show thesis by auto
qed

lemma transfer_receive:
  assumes "ledger_inv E l" "amounts_ok (lview l)" "BlockCheck E R l b = pass" "transfer E l b" "sb_Type b = Receive"
  obtains tm p where "tok (lview l) (sb_Address b) (sb_Token b) = Some tm"
    "pend (lview l) (sb_Address b) (sb_Link b) = Some p" "pi_Type p = sb_Token b"
    "pi_Amount p = sb_Balance b - tm_Balance tm"
proof -
  note t = transferD [OF assms(4)]
  from check_transfer(3) [OF assms(1,3) t(5) assms(5)]
  obtain tm p where tp: "tok (lview l) (sb_Address b) (sb_Token b) = Some tm"
    "pend (lview l) (sb_Address b) (sb_Link b) = Some p" "pi_Type p = sb_Token b"
    "pi_Amount p = Balance_Sub (sb_Balance b) (tm_Balance tm)" by blast
  have "pi_Amount p = sb_Balance b - tm_Balance tm"
    using Balance_Sub_exact [of "sb_Balance b" "tm_Balance tm"] amounts_okD(1) [OF assms(2) tp(1)] t(4)
      amounts_okD(2) [OF assms(2) tp(2)] tp(4) by (simp split: if_splits)
  with tp that show thesis by blast
qed

lemma transfer_same:
  assumes "ledger_inv E l" "BlockCheck E R l b = pass" "transfer E l b" "sb_Type b = Change \<or> sb_Type b = Online"
  obtains tm where "tok (lview l) (sb_Address b) (sb_Token b) = Some tm" "sb_Balance b = tm_Balance tm"
proof -
  note t = transferD [OF assms(3)]
  obtain p tm where p: "blk (lview l) (sb_Previous b) = Some p" "sb_Balance b = sb_Balance p"
    and tm: "tok (lview l) (sb_Address b) (sb_Token b) = Some tm"
    using check_transfer(2) [OF assms(1,2) t(5) assms(4)] t(3) assms(4) by (auto simp: own_chain_def)
  with own_previous(1) [OF assms(1,2) t(2) _ tm p(1)] assms(4) that show thesis by auto
qed

text \<open>No pending waits for a block that is not confirmed yet.\<close>

lemma transfer_fresh:
  assumes "ledger_inv E l" "amounts_ok (lview l)" "BlockCheck E R l b = pass" "\<not> IsGenesisBlock E b"
  shows "blk (lview l) (GetHash (cf_H E) b) = None" "pend (lview l) a (GetHash (cf_H E) b) = None"
proof -
  show new: "blk (lview l) (GetHash (cf_H E) b) = None"
    using base_new [OF ledger_invD(1) [OF assms(1)] check_base_fork(1) [OF assms(3,4)]] by (simp add: blk_def)
  then show "pend (lview l) a (GetHash (cf_H E) b) = None"
    using amounts_okD(4) [OF assms(2), of a "GetHash (cf_H E) b"]
    by (cases "pend (lview l) a (GetHash (cf_H E) b)") auto
qed

lemma transfer_supply:
  assumes "ledger_inv E l" "amounts_ok (lview l)" "BlockCheck E R l b = pass" "transfer E l b"
  shows "total_supply (spec_process E now b (lview l)) tt = total_supply (lview l) tt"
proof -
  note i = ledger_invD [OF assms(1)] and t = transferD [OF assms(4)]
  note sp = spec_supply [OF i(2)] tok_balance_def pend_amount_def IsReceiveBlock_def
  show ?thesis using t(1) unfolding ordinary_def
  proof (elim disjE)
    assume s: "sb_Type b = Send"
    show ?thesis
      by (rule transfer_send [OF assms s]) (use s t(4) transfer_fresh(2) [OF assms(1-3) t(2)] in \<open>auto simp: sp\<close>)
  next
    assume s: "sb_Type b = Receive"
    show ?thesis by (rule transfer_receive [OF assms s]) (use s t(4) in \<open>auto simp: sp\<close>)
  next
    assume s: "sb_Type b = Change"
    show ?thesis
      by (rule transfer_same [OF assms(1,3,4) disjI1 [OF s]]) (use s t(4) in \<open>auto simp: sp\<close>)
  next
    assume s: "sb_Type b = Open"
    with check_transfer(4) [OF assms(1,3) t(5) s] t(4) show ?thesis by (auto simp: sp)
  next
    assume s: "sb_Type b = Online"
    show ?thesis
      by (rule transfer_same [OF assms(1,3,4) disjI2 [OF s]]) (use s t(4) in \<open>auto simp: sp\<close>)
  qed
qed

lemma transfer_amounts:
  assumes "ledger_inv E l" "amounts_ok (lview l)" "BlockCheck E R l b = pass" "transfer E l b"
  shows "amounts_ok (spec_process E now b (lview l))"
  unfolding amounts_ok_def
proof (intro conjI allI impI)
  let ?m = "lview l" and ?h = "GetHash (cf_H E) b"
  note i = ledger_invD [OF assms(1)] and a = amounts_okD [OF assms(2)] and t = transferD [OF assms(4)]
  { fix x tt tm assume "tok (spec_process E now b ?m) x tt = Some tm"
    then have "fits64 (tm_Balance tm)" using a(1) [of x tt tm] t(4) by (auto simp: spec_tok [OF i(2)] split: if_splits)
    then show "0 \<le> tm_Balance tm" "tm_Balance tm < 2 ^ 64" by simp_all }
  fix x h p assume p: "pend (spec_process E now b ?m) x h = Some p"
  have "0 < pi_Amount p \<and> pi_Amount p < 2 ^ 64 \<and> (h = ?h \<or> blk ?m h \<noteq> None)"
  proof (cases "pend ?m x h = Some p")
    case True
    then show ?thesis using a(2-4) by blast
  next
    case False
    then have s: "sb_Type b = Send" "h = ?h"
      and d: "pi_Amount p = Balance_Sub (sb_Balance (the (blk ?m (sb_Previous b)))) (sb_Balance b)"
      using p by (auto simp: spec_pend split: if_splits)
    show ?thesis
      by (rule transfer_send [OF assms s(1)])
        (use s(2) d Balance_Sub_fits [of "sb_Balance (the (blk ?m (sb_Previous b)))" "sb_Balance b"] in auto)
  qed
  then show "0 < pi_Amount p" "0 \<le> pi_Amount p" "pi_Amount p < 2 ^ 64" "blk (spec_process E now b ?m) h \<noteq> None"
    by (auto simp: spec_tables)
qed

text \<open>Serialisation keeps balances and amounts, so the flusher keeps the supply.\<close>

lemma dump_pend:
  assumes "well_typed E m" "dump_rel val_dump m m'" "amounts_ok m"
  shows "pend m' a h = pend m a h"
proof (cases "m (KPending a h)")
  case None
  then show ?thesis using assms(2) by (auto simp: dump_rel_def pend_def dest!: spec [of _ "KPending a h"])
next
  case (Some v)
  then obtain p where v: "v = VPending p" using well_typedD [OF assms(1) Some] by (auto split: val.splits)
  then have "PendingInfo_Unmarshal p = p"
    using amounts_okD(2) [OF assms(3), of a h p] Some by (simp add: pend_def PendingInfo_Unmarshal_def)
  moreover have "m' (KPending a h) = m (KPending a h) \<or> m' (KPending a h) = map_option val_dump (m (KPending a h))"
    using assms(2) by (simp add: dump_rel_def)
  ultimately show ?thesis using Some v by (auto simp: pend_def)
qed

lemma dump_supply:
  assumes "well_typed E m" "dump_rel val_dump m m'" "amounts_ok m"
  shows "amounts_ok m'" "total_supply m' tt = total_supply m tt"
proof -
  have "blk m h \<noteq> None \<Longrightarrow> blk m' h \<noteq> None" for h using dump_blk [OF assms(1,2), of h] by auto
  with assms(3) show "amounts_ok m'"
    by (simp add: amounts_ok_def dump_tok [OF assms(1,2)] dump_pend [OF assms])
  show "total_supply m' tt = total_supply m tt"
    by (simp add: total_supply_def tok_balance_def pend_amount_def dump_tok [OF assms(1,2)] dump_pend [OF assms])
qed

lemma transfer_process:
  assumes "ledger_inv E l" "amounts_ok (lview l)" "Process E R now e b l = Some (r, l')" "transfer E l b"
  shows "total_supply (lview l') tt = total_supply (lview l) tt \<and> amounts_ok (lview l')"
  using assms(3,1)
proof (cases rule: Process_cases)
  case (ok b' t)
  note i = ledger_invD [OF assms(1)]
  have "lview l' = spec_process E now b (lview l)"
    using process_refines [OF i(1,2) transferD(1) [OF assms(4)] ok(3)] ok(5) by simp
  with transfer_supply [OF assms(1,2) ok(1) assms(4)] transfer_amounts [OF assms(1,2) ok(1) assms(4)]
  show ?thesis by simp
qed (use assms(2) in auto)

text \<open>Runs whose blocks are transfers.\<close>

inductive transfer_step :: "config \<Rightarrow> registry \<Rightarrow> ledger \<Rightarrow> ledger \<Rightarrow> bool" for E R where
  ts_process: "Process E R now e b l = Some (r, l') \<Longrightarrow> transfer E l b \<Longrightarrow> transfer_step E R l l'"
| ts_cache: "BlockCacheProcess E now b l = (r, l') \<Longrightarrow> transfer_step E R l l'"
| ts_flush: "MemoryCache_flush all_ok val_dump (l_db l) = Some (mc, st) \<Longrightarrow>
    transfer_step E R l (l\<lparr>l_cache := mc, l_store := st\<rparr>)"
| ts_rebuild: "MemoryCache_rebuild all_ok val_dump (l_db l) = Some (mc, st) \<Longrightarrow>
    transfer_step E R l (l\<lparr>l_cache := mc, l_store := st\<rparr>)"

lemma transfer_step_keeps:
  assumes "transfer_step E R l l'" "ledger_inv E l" "amounts_ok (lview l)"
  shows "ledger_inv E l' \<and> amounts_ok (lview l') \<and> total_supply (lview l') tt = total_supply (lview l) tt"
  using assms
proof cases
  case (ts_process now e b r)
  have "ordinary b \<Longrightarrow> keeps_block R l b" by (auto simp: ordinary_def keeps_block_def)
  then show ?thesis using transfer_process [OF assms(2,3) ts_process, of tt] transferD [OF ts_process(2)]
      Process_inv [OF assms(2) ts_process(1)] by blast
next
  case (ts_cache now b r)
  then have "lview l' = lview l" "l_cache l' = l_cache l"
    using BlockCacheProcess_db [OF ts_cache] by (simp_all add: lview_def)
  then show ?thesis using assms(2,3) by (simp add: ledger_inv_def)
next
  case (ts_flush mc st)
  note k = flush_keeps [OF _ val_dump_idem ts_flush(2)]
  have d: "dump_rel val_dump (lview l) (lview l')" "mc_inv (l_cache l')"
    using k ledger_invD(1) [OF assms(2)] by (simp_all add: ts_flush(1) lview_def)
  show ?thesis using dump_inv [OF assms(2) d(2,1)] dump_supply [OF ledger_invD(2) [OF assms(2)] d(1) assms(3)] by simp
next
  case (ts_rebuild mc st)
  note k = rebuild_keeps [OF _ val_dump_idem ts_rebuild(2)]
  have d: "dump_rel val_dump (lview l) (lview l')" "mc_inv (l_cache l')"
    using k ledger_invD(1) [OF assms(2)] by (simp_all add: ts_rebuild(1) lview_def)
  show ?thesis using dump_inv [OF assms(2) d(2,1)] dump_supply [OF ledger_invD(2) [OF assms(2)] d(1) assms(3)] by simp
qed

lemma transfer_run_keeps:
  assumes "(transfer_step E R)\<^sup>*\<^sup>* l l'" "ledger_inv E l" "amounts_ok (lview l)"
  shows "ledger_inv E l' \<and> amounts_ok (lview l') \<and> total_supply (lview l') tt = total_supply (lview l) tt"
  using assms
proof (induction rule: rtranclp_induct)
  case (step l1 l2)
  then show ?case using transfer_step_keeps [OF step(2), of tt] by simp
qed simp

end
