(* ===== verification/Ledger_Live.thy ===== *)
theory Ledger_Live
  imports Ledger_Supply
begin

text \<open>Progress of accounts: as long as nobody else extends the last block of an account's chain, the
  account's next checked block is processed; and a pending, once received, never comes back.\<close>

section \<open>Free headers\<close>

text \<open>The last block of every token chain has no successor, and successors are recorded for confirmed
  blocks only.\<close>

definition free_headers :: "(key \<rightharpoonup> val) \<Rightarrow> bool" where
  "free_headers m \<longleftrightarrow>
     (\<forall>a tt tm. tok m a tt = Some tm \<longrightarrow> hash_at m (KChild (tm_Header tm)) = None) \<and>
     (\<forall>p. hash_at m (KChild p) \<noteq> None \<longrightarrow> blk m p \<noteq> None)"

lemma free_headersD:
  assumes "free_headers m"
  shows "tok m a tt = Some tm \<Longrightarrow> hash_at m (KChild (tm_Header tm)) = None"
    "hash_at m (KChild p) \<noteq> None \<Longrightarrow> blk m p \<noteq> None"
  using assms by (auto simp: free_headers_def)

lemma tok_header:
  assumes "chain_ok E m" "tok m a tt = Some tm"
  obtains hb where "blk m (tm_Header tm) = Some hb" "sb_Address hb = a" "sb_Token hb = tt"
proof -
  obtain am where "acct m a = Some am" "tm \<in> set (am_Tokens am)" "tm_Type tm = tt" by (rule tok_Some [OF assms(2)])
  with chain_account(2) [OF assms(1), of a am tm] that show thesis by (auto simp: header_ok_def)
qed

lemma transfer_previous:
  assumes "ledger_inv E l" "BlockCheck E R l b = pass" "transfer E l b" "has_parent E b"
  obtains tm where "tok (lview l) (sb_Address b) (sb_Token b) = Some tm" "sb_Previous b = tm_Header tm"
proof -
  note t = transferD [OF assms(3)]
  have n: "sb_Type b \<noteq> Open"
    using assms(2,4) by (auto simp: has_parent_def IsOpen_def BlockCheck_def newBlockCheck_def openBlockCheck_def)
  then obtain tm where tm: "tok (lview l) (sb_Address b) (sb_Token b) = Some tm"
    using t(3) by (auto simp: own_chain_def)
  obtain p where p: "blk (lview l) (sb_Previous b) = Some p" using check_parent [OF assms(1,2,4)] by blast
  have "sb_Previous b = tm_Header tm"
    by (rule own_previous(2) [OF assms(1,2) t(2) _ tm p]) (use t(1) n in \<open>auto simp: ordinary_def\<close>)
  with tm that show thesis by blast
qed

lemma transfer_free:
  assumes "ledger_inv E l" "BlockCheck E R l b = pass" "transfer E l b" "free_headers (lview l)"
  shows "free_headers (spec_process E now b (lview l))"
proof -
  let ?m = "lview l" and ?h = "GetHash (cf_H E) b"
  note i = ledger_invD [OF assms(1)] and f = free_headersD [OF assms(4)] and t = transferD [OF assms(3)]
  have new: "blk ?m ?h = None"
    using base_new [OF i(1) check_base_fork(1) [OF assms(2) t(2)]] by (simp add: blk_def)
  have ch: "hash_at ?m (KChild ?h) = None" using f(2) [of ?h] new by (cases "hash_at ?m (KChild ?h)") auto
  have prev: "has_parent E b \<Longrightarrow> sb_Previous b \<noteq> ?h"
    using check_parent [OF assms(1,2)] new by auto
  have other: "tm_Header tm \<noteq> sb_Previous b"
    if tm: "tok ?m a tt = Some tm" and ne: "a \<noteq> sb_Address b \<or> tt \<noteq> sb_Token b" and hp: "has_parent E b" for a tt tm
  proof -
    obtain tm0 where tm0: "tok ?m (sb_Address b) (sb_Token b) = Some tm0" "sb_Previous b = tm_Header tm0"
      by (rule transfer_previous [OF assms(1-3) hp])
    obtain hb where "blk ?m (tm_Header tm) = Some hb" "sb_Address hb = a" "sb_Token hb = tt"
      by (rule tok_header [OF i(3) tm])
    moreover obtain hb0 where "blk ?m (tm_Header tm0) = Some hb0" "sb_Address hb0 = sb_Address b" "sb_Token hb0 = sb_Token b"
      by (rule tok_header [OF i(3) tm0(1)])
    ultimately show ?thesis using ne tm0(2) by auto
  qed
  show ?thesis unfolding free_headers_def
  proof (intro conjI allI impI)
    fix a tt tm assume tm: "tok (spec_process E now b ?m) a tt = Some tm"
    show "hash_at (spec_process E now b ?m) (KChild (tm_Header tm)) = None"
    proof (cases "a = sb_Address b \<and> tt = sb_Token b")
      case True
      then have "tm_Header tm = ?h" using tm by (auto simp: spec_tok [OF i(2)])
      then show ?thesis using ch prev by (auto simp: spec_tables)
    next
      case False
      then have "tok ?m a tt = Some tm" using tm by (auto simp: spec_tok [OF i(2)])
      then show ?thesis using f(1) other False by (auto simp: spec_tables)
    qed
  next
    fix p assume "hash_at (spec_process E now b ?m) (KChild p) \<noteq> None"
    then show "blk (spec_process E now b ?m) p \<noteq> None"
      using f(2) [of p] check_parent [OF assms(1,2)] by (auto simp: spec_tables split: if_splits)
  qed
qed

lemma dump_free:
  assumes "well_typed E m" "dump_rel val_dump m m'" "free_headers m"
  shows "free_headers m'"
proof -
  have "blk m h \<noteq> None \<Longrightarrow> blk m' h \<noteq> None" for h using dump_blk [OF assms(1,2), of h] by auto
  with assms(3) show ?thesis by (simp add: free_headers_def dump_tok [OF assms(1,2)] dump_hash [OF assms(2)])
qed

text \<open>A transfer on a free header is processed as soon as it passes the check.\<close>

lemma transfer_processed:
  assumes "ledger_inv E l" "free_headers (lview l)" "transfer E l b" "\<not> CheckPrivateRecvRsp b"
    and "BlockCheck E R l b = pass" "GetCache e (l_cache l) \<noteq> None"
  obtains l' where "Process E R now e b l = Some (pass, l')" "lview l' = spec_process E now b (lview l)"
proof -
  note t = transferD [OF assms(3)]
  have "hash_at (lview l) (KChild (sb_Previous b)) = None" if "has_parent E b"
    by (rule transfer_previous [OF assms(1,5,3) that]) (use free_headersD(1) [OF assms(2)] in simp)
  moreover have "sb_Type b = Send \<Longrightarrow> blk (lview l) (sb_Previous b) \<noteq> None"
    using check_transfer(1) [OF assms(1,5) t(5)] by auto
  ultimately show thesis
    by (rule Process_succeeds [OF assms(1,5,6) t(1) assms(4)]) (use that in blast)+
qed

section \<open>Received pendings\<close>

text \<open>The pending of a confirmed block that is gone.\<close>

definition spent :: "(key \<rightharpoonup> val) \<Rightarrow> address \<Rightarrow> hash \<Rightarrow> bool" where
  "spent m a h \<longleftrightarrow> blk m h \<noteq> None \<and> pend m a h = None"

lemma spent_spec:
  assumes "spent m a h" "blk m (GetHash (cf_H E) b) = None"
  shows "spent (spec_process E now b m) a h"
  using assms by (auto simp: spent_def spec_tables spec_pend)

lemma dump_spent:
  assumes "well_typed E m" "dump_rel val_dump m m'" "spent m a h"
  shows "spent m' a h"
proof -
  have "m (KPending a h) = None"
    using assms(3) well_typedD [OF assms(1), of "KPending a h"]
    by (cases "m (KPending a h)") (auto simp: spent_def pend_def split: val.splits)
  moreover have "m' (KPending a h) = m (KPending a h) \<or> m' (KPending a h) = map_option val_dump (m (KPending a h))"
    using assms(2) by (simp add: dump_rel_def)
  moreover have "blk m' h \<noteq> None" using dump_blk [OF assms(1,2), of h] assms(3) by (auto simp: spent_def)
  ultimately show ?thesis by (auto simp: spent_def pend_def)
qed

lemma received_spent:
  assumes "ledger_inv E l" "Process E R now e b l = Some (pass, l')" "sb_Type b = Receive \<or> sb_Type b = Open"
    and "\<not> IsGenesisBlock E b" "\<not> l_verified l (GetHash (cf_H E) b)"
  shows "spent (lview l') (sb_Address b) (sb_Link b)"
  using assms(2,1)
proof (cases rule: Process_cases)
  case (ok b' t)
  note i = ledger_invD [OF assms(1)]
  have o: "ordinary b" using assms(3) by (auto simp: ordinary_def)
  have v: "lview l' = spec_process E now b (lview l)" using process_refines [OF i(1,2) o ok(3)] ok(5) by simp
  obtain c where c: "newBlockCheck E R (sb_Type b) = Some c" "c l b = pass" by (rule BlockCheck_plain [OF ok(1) assms(5)])
  have "blockSourceCheck l b = pass"
    using assms(3) c by (auto simp: newBlockCheck_def receiveBlockCheck_def openBlockCheck_def split: if_splits)
  then have "lview l (KBlock (sb_Link b)) \<noteq> None"
    using assms(3) by (auto simp: blockSourceCheck_def source_check_def HasStateBlockConfirmed_view [OF i(1)] split: if_splits)
  then have "blk (lview l) (sb_Link b) \<noteq> None" using well_typed_blk_None [OF i(2)] by simp
  with assms(3) show ?thesis by (auto simp: spent_def v spec_tables spec_pend IsReceiveBlock_def)
qed auto

lemma spent_unreceivable:
  assumes "ledger_inv E l" "spent (lview l) (sb_Address b) (sb_Link b)" "sb_Type b = Receive \<or> sb_Type b = Open"
    and "\<not> l_verified l (GetHash (cf_H E) b)"
  shows "BlockCheck E R l b \<noteq> pass"
  using check_transfer(3,4) [OF assms(1) _ assms(4), of R] assms(2,3) by (auto simp: spent_def)

section \<open>Runs of transfers\<close>

definition good :: "config \<Rightarrow> ledger \<Rightarrow> bool" where
  "good E l \<longleftrightarrow> ledger_inv E l \<and> amounts_ok (lview l) \<and> free_headers (lview l)"

lemma transfer_step_cases:
  assumes "transfer_step E R l l'" "ledger_inv E l"
  obtains (process) now b where "BlockCheck E R l b = pass" "transfer E l b" "lview l' = spec_process E now b (lview l)"
  | (same) "lview l' = lview l"
  | (dump) "dump_rel val_dump (lview l) (lview l')"
  using assms(1)
proof cases
  case (ts_process now e b r)
  show thesis
  proof (rule Process_cases [OF ts_process(1) assms(2)], goal_cases)
    case (3 b' t)
    with process_refines [OF ledger_invD(1,2) [OF assms(2)] transferD(1) [OF ts_process(2)] 3(3)] ts_process(2)
    show ?case by (intro process [of b now]) simp_all
  qed (use same in auto)
next
  case (ts_cache now b r)
  then show thesis using BlockCacheProcess_db [OF ts_cache] by (intro same) (simp add: lview_def)
next
  case (ts_flush mc st)
  show thesis using flush_keeps(3) [OF _ val_dump_idem ts_flush(2)] ledger_invD(1) [OF assms(2)]
    by (intro dump) (simp add: ts_flush(1) lview_def)
next
  case (ts_rebuild mc st)
  note k = rebuild_keeps [OF _ val_dump_idem ts_rebuild(2)]
  show thesis using k ledger_invD(1) [OF assms(2)] by (intro dump) (simp add: ts_rebuild(1) lview_def)
qed

lemma transfer_step_good:
  assumes "transfer_step E R l l'" "good E l"
  shows "good E l'"
proof -
  have g: "ledger_inv E l" "amounts_ok (lview l)" "free_headers (lview l)" using assms(2) by (simp_all add: good_def)
  have "free_headers (lview l')"
    using assms(1) g(1)
  proof (cases rule: transfer_step_cases)
    case (process now b)
    then show ?thesis using transfer_free [OF g(1) process(1,2) g(3)] by simp
  next
    case dump
    then show ?thesis using dump_free [OF ledger_invD(2) [OF g(1)] _ g(3)] by blast
  qed (use g(3) in simp)
  then show ?thesis using transfer_step_keeps [OF assms(1) g(1,2)] by (simp add: good_def)
qed

lemma transfer_run_good: "(transfer_step E R)\<^sup>*\<^sup>* l l' \<Longrightarrow> good E l \<Longrightarrow> good E l'"
  by (induction rule: rtranclp_induct) (auto intro: transfer_step_good)

lemma transfer_step_spent:
  assumes "transfer_step E R l l'" "good E l" "spent (lview l) a h"
  shows "spent (lview l') a h"
proof -
  have g: "ledger_inv E l" "amounts_ok (lview l)" using assms(2) by (simp_all add: good_def)
  show ?thesis using assms(1) g(1)
  proof (cases rule: transfer_step_cases)
    case (process now b)
    then show ?thesis
      using spent_spec [OF assms(3)] transfer_fresh(1) [OF g process(1) transferD(2) [OF process(2)]] by simp
  next
    case dump
    then show ?thesis using dump_spent [OF ledger_invD(2) [OF g(1)] _ assms(3)] by blast
  qed (use assms(3) in simp)
qed

lemma transfer_run_spent:
  assumes "(transfer_step E R)\<^sup>*\<^sup>* l l'" "good E l" "spent (lview l) a h"
  shows "spent (lview l') a h"
  using assms(1)
proof (induction rule: rtranclp_induct)
  case (step l1 l2)
  then show ?case using transfer_step_spent transfer_run_good [OF step(1) assms(2)] by blast
qed (rule assms(3))

end
