(* ===== verification/Ledger_Weight.thy ===== *)
theory Ledger_Weight
  imports Ledger_Live
begin

text \<open>Voting weights: the balance a representative is credited with in the representation table is the
  sum of the chain token balances of the accounts that name it.\<close>

definition delegated :: "config \<Rightarrow> (key \<rightharpoonup> val) \<Rightarrow> address \<Rightarrow> address \<Rightarrow> int" where
  "delegated E m r a = (case tok m a (cf_ChainToken E) of None \<Rightarrow> 0
     | Some tm \<Rightarrow> if tm_Representative tm = r then tm_Balance tm else 0)"

definition delegation :: "config \<Rightarrow> (key \<rightharpoonup> val) \<Rightarrow> address \<Rightarrow> int" where
  "delegation E m r = (\<Sum>a\<in>UNIV. delegated E m r a)"

text \<open>The account's coin balance is the balance of its chain token.\<close>

definition coins_ok :: "config \<Rightarrow> (key \<rightharpoonup> val) \<Rightarrow> bool" where
  "coins_ok E m \<longleftrightarrow> (\<forall>a am tm. acct m a = Some am \<longrightarrow> AccountMeta_Token am (cf_ChainToken E) = Some tm \<longrightarrow>
     am_CoinBalance am = Some (tm_Balance tm))"

definition weights_ok :: "config \<Rightarrow> (key \<rightharpoonup> val) \<Rightarrow> bool" where
  "weights_ok E m \<longleftrightarrow> coins_ok E m \<and>
     (\<forall>r. r \<noteq> ZeroAddress \<longrightarrow> bf_Balance (benefit_or_zero m r) = delegation E m r)"

lemma spec_delegated:
  assumes "well_typed E m" "0 \<le> sb_Balance b"
  shows "delegated E (spec_process E now b m) r a =
    (if a = sb_Address b \<and> sb_Token b = cf_ChainToken E
     then (if sb_Representative b = r then sb_Balance b else 0) else delegated E m r a)"
  using assms(2) by (auto simp: delegated_def spec_tok [OF assms(1)])

lemma spec_delegation:
  assumes "well_typed E m" "0 \<le> sb_Balance b"
  shows "delegation E (spec_process E now b m) r = delegation E m r +
    (if sb_Token b = cf_ChainToken E
     then (if sb_Representative b = r then sb_Balance b else 0) - delegated E m r (sb_Address b) else 0)"
proof (cases "sb_Token b = cf_ChainToken E")
  case True
  then have "delegated E (spec_process E now b m) r =
      (\<lambda>a. if a = sb_Address b then (if sb_Representative b = r then sb_Balance b else 0) else delegated E m r a)"
    by (intro ext) (simp add: spec_delegated [OF assms])
  with True show ?thesis by (simp add: delegation_def sum_upd_int)
next
  case False
  then have "delegated E (spec_process E now b m) r = delegated E m r"
    by (intro ext) (simp add: spec_delegated [OF assms])
  with False show ?thesis by (simp add: delegation_def)
qed

lemma set_coins_balance:
  "am_CoinBalance (account_after E now b am) =
    (if sb_Token b = cf_ChainToken E then Some (sb_Balance b) else Option.bind am am_CoinBalance)"
  by (auto simp: account_after_def new_account_def next_account_def set_coins_def split: option.split)

lemma spec_coins:
  assumes "well_typed E m" "0 \<le> sb_Balance b" "coins_ok E m"
  shows "coins_ok E (spec_process E now b m)"
  unfolding coins_ok_def
proof (intro allI impI)
  fix a am tm assume am: "acct (spec_process E now b m) a = Some am" "AccountMeta_Token am (cf_ChainToken E) = Some tm"
  then have tok': "tok (spec_process E now b m) a (cf_ChainToken E) = Some tm" by (simp add: tok_def)
  show "am_CoinBalance am = Some (tm_Balance tm)"
  proof (cases "a = sb_Address b")
    case False
    with am assms(3) show ?thesis by (auto simp: spec_tables coins_ok_def)
  next
    case addr: True
    then have am': "am = AccountMeta_Clone (account_after E now b (acct m a))" using am(1) by (simp add: spec_tables)
    show ?thesis
    proof (cases "sb_Token b = cf_ChainToken E")
      case True
      with tok' addr assms(2) show ?thesis
        by (auto simp: am' set_coins_balance spec_tok [OF assms(1)])
    next
      case False
      then have "tok m a (cf_ChainToken E) = Some tm" using tok' by (auto simp: spec_tok [OF assms(1)])
      then obtain a0 where "acct m a = Some a0" "AccountMeta_Token a0 (cf_ChainToken E) = Some tm"
        by (auto elim: tok_Some)
      with False assms(3) show ?thesis by (auto simp: am' set_coins_balance coins_ok_def)
    qed
  qed
qed

text \<open>The balances credited after a block: what the account had delegated is taken back, and the block's
  balance is delegated to its representative.\<close>

lemma spec_weight:
  assumes "well_typed E m"
  shows "bf_Balance (benefit_or_zero (spec_process E now b m) r) =
    (let w = bf_Balance (benefit_or_zero m r);
         w1 = (case (acct m (sb_Address b), tok m (sb_Address b) (sb_Token b)) of
             (Some am, Some tm) \<Rightarrow>
               if r = tm_Representative tm \<and> tm_Representative tm \<noteq> ZeroAddress
               then Balance_Sub w (AccountMeta_GetBalance am) else w
           | _ \<Rightarrow> w)
     in if sb_Token b \<noteq> cf_ChainToken E then w
        else if r = sb_Representative b then Balance_Add w1 (sb_Balance b) else w1)"
proof -
  have bz: "benefit_or_zero n x = benefit_or_zero m x"
    if "n = spec_account E now b am tm (spec_frontier E b tm (spec_pending E b p (spec_block E b m)))" for n am tm p x
    by (simp add: that benefit_or_zero_def spec_benefits)
  have abs: "\<bar>Balance_Sub x y\<bar> = Balance_Sub x y" "\<bar>Balance_Add x y\<bar> = Balance_Add x y" for x y
    using Balance_Sub_fits [of x y] Balance_Add_fits [of x y] by simp_all
  have upd: "benefit_or_zero (n(KRepresentation x \<mapsto> VBenefit v)) y = (if y = x then v else benefit_or_zero n y)" for n x v y
    by (simp add: benefit_or_zero_def)
  show ?thesis unfolding spec_process_def Let_def spec_rep_def spec_sub_rep_def
    by (auto simp: bz [OF refl] upd Benefit_Clone_def Benefit_minus_def Benefit_plus_def account_benefit_def block_benefit_def abs
        split: option.split)
qed

lemma delegated_bounds:
  assumes "amounts_ok m"
  shows "0 \<le> delegated E m r a" "delegated E m r a \<le> tok_balance m a (cf_ChainToken E)"
  using amounts_okD(1) [OF assms, of a "cf_ChainToken E"]
  by (auto simp: delegated_def tok_balance_def split: option.splits)

lemma delegation_bounds:
  assumes "amounts_ok m"
  shows "0 \<le> delegation E m r" "delegated E m r a \<le> delegation E m r"
    "delegation E m r \<le> total_supply m (cf_ChainToken E)"
proof -
  note d = delegated_bounds [OF assms]
  show "0 \<le> delegation E m r" unfolding delegation_def by (rule sum_nonneg) (rule d(1))
  show "delegated E m r a \<le> delegation E m r" unfolding delegation_def by (rule member_le_sum) (auto intro: d(1))
  have "0 \<le> pend_amount m (cf_ChainToken E) ah" for ah
    using amounts_okD(2) [OF assms, of "fst ah" "snd ah"] by (fastforce simp: pend_amount_def split: option.split)
  then have "0 \<le> (\<Sum>ah\<in>UNIV. pend_amount m (cf_ChainToken E) ah)" by (rule sum_nonneg)
  moreover have "delegation E m r \<le> (\<Sum>a\<in>UNIV. tok_balance m a (cf_ChainToken E))"
    unfolding delegation_def by (rule sum_mono) (rule d(2))
  ultimately show "delegation E m r \<le> total_supply m (cf_ChainToken E)" by (simp add: total_supply_def)
qed

lemma weights_spec:
  assumes "well_typed E m" "amounts_ok m" "weights_ok E m" "fits64 (sb_Balance b)"
    and "amounts_ok (spec_process E now b m)" "total_supply (spec_process E now b m) (cf_ChainToken E) < 2 ^ 64"
    and "total_supply m (cf_ChainToken E) < 2 ^ 64"
  shows "weights_ok E (spec_process E now b m)"
  unfolding weights_ok_def
proof (intro conjI allI impI)
  let ?m' = "spec_process E now b m" and ?c = "cf_ChainToken E"
  have b0: "0 \<le> sb_Balance b" using assms(4) by simp
  have w: "coins_ok E m" "\<And>r. r \<noteq> ZeroAddress \<Longrightarrow> bf_Balance (benefit_or_zero m r) = delegation E m r"
    using assms(3) by (auto simp: weights_ok_def)
  show "coins_ok E ?m'" by (rule spec_coins [OF assms(1) b0 w(1)])
  fix r assume r: "r \<noteq> ZeroAddress"
  have b': "0 \<le> delegation E ?m' r" "delegation E ?m' r < 2 ^ 64"
    using delegation_bounds [OF assms(5), of E r] assms(6) by simp_all
  have bd: "fits64 (delegation E m r)" "delegated E m r (sb_Address b) \<le> delegation E m r" "0 \<le> delegated E m r (sb_Address b)"
    using delegation_bounds [OF assms(2), of E r] delegated_bounds [OF assms(2), of E r] assms(7) by auto
  have sd: "delegation E ?m' r = delegation E m r + (if sb_Token b = ?c
     then (if sb_Representative b = r then sb_Balance b else 0) - delegated E m r (sb_Address b) else 0)"
    by (rule spec_delegation [OF assms(1) b0])
  show "bf_Balance (benefit_or_zero ?m' r) = delegation E ?m' r"
  proof (cases "sb_Token b = ?c")
    case False
    then show ?thesis using sd w(2) [OF r] by (simp add: spec_weight [OF assms(1)] Let_def)
  next
    case True
    let ?w1 = "delegation E m r - delegated E m r (sb_Address b)"
    have w1: "(case (acct m (sb_Address b), tok m (sb_Address b) ?c) of
        (Some am, Some tm) \<Rightarrow>
          if r = tm_Representative tm \<and> tm_Representative tm \<noteq> ZeroAddress
          then Balance_Sub (delegation E m r) (AccountMeta_GetBalance am) else delegation E m r
      | _ \<Rightarrow> delegation E m r) = ?w1"
    proof (cases "tok m (sb_Address b) ?c")
      case None
      then show ?thesis by (simp add: delegated_def split: option.split)
    next
      case (Some tm)
      then obtain am where am: "acct m (sb_Address b) = Some am" "AccountMeta_Token am ?c = Some tm" by (auto elim: tok_Some)
      then have "AccountMeta_GetBalance am = tm_Balance tm" using w(1) by (simp add: coins_ok_def AccountMeta_GetBalance_def)
      with Some am r bd show ?thesis
        using Balance_Sub_exact [of "delegation E m r" "tm_Balance tm"] amounts_okD(1) [OF assms(2) Some]
        by (auto simp: delegated_def)
    qed
    have "Balance_Add ?w1 (sb_Balance b) = ?w1 + sb_Balance b" if "sb_Representative b = r"
      using Balance_Add_exact [of ?w1 "sb_Balance b"] bd b' sd True that assms(4) by simp
    then show ?thesis using True sd w(2) [OF r] w1 by (auto simp: spec_weight [OF assms(1)])
  qed
qed

lemma dump_weights:
  assumes "well_typed E m" "dump_rel val_dump m m'" "weights_ok E m" "amounts_ok m"
  shows "weights_ok E m'"
proof -
  have b: "benefit_at m' r = benefit_at m r" for r
  proof (cases "m (KRepresentation r)")
    case None
    then show ?thesis using assms(2) by (auto simp: dump_rel_def benefit_at_def dest!: spec [of _ "KRepresentation r"])
  next
    case (Some v)
    then obtain x where v: "v = VBenefit x" "Benefit_Clone x = x"
      using well_typedD [OF assms(1) Some] by (auto split: val.splits)
    moreover have "m' (KRepresentation r) = m (KRepresentation r) \<or>
        m' (KRepresentation r) = map_option val_dump (m (KRepresentation r))"
      using assms(2) by (simp add: dump_rel_def)
    ultimately show ?thesis using Some by (auto simp: benefit_at_def Benefit_Unmarshal_def)
  qed
  have c: "am_CoinBalance am = Some (tm_Balance tm)"
    if am: "acct m' a = Some am" "AccountMeta_Token am (cf_ChainToken E) = Some tm" for a am tm
  proof -
    have t: "tok m a (cf_ChainToken E) = Some tm"
      using am dump_tok [OF assms(1,2), of a "cf_ChainToken E"] by (simp add: tok_def)
    then obtain a0 where "acct m a = Some a0" "AccountMeta_Token a0 (cf_ChainToken E) = Some tm" by (auto elim: tok_Some)
    moreover from this have "am_CoinBalance a0 = Some (tm_Balance tm)"
      using assms(3) by (simp add: weights_ok_def coins_ok_def)
    ultimately show ?thesis using dump_acct [OF assms(1,2), of a] am amounts_okD(1) [OF assms(4) t]
      by (auto simp: AccountMeta_Unmarshal_def)
  qed
  from assms(3) c show ?thesis
    by (simp add: weights_ok_def coins_ok_def benefit_or_zero_def b delegation_def delegated_def dump_tok [OF assms(1,2)])
qed

lemma transfer_step_weights:
  assumes "transfer_step E R l l'" "good E l" "weights_ok E (lview l)" "total_supply (lview l) (cf_ChainToken E) < 2 ^ 64"
  shows "weights_ok E (lview l')"
proof -
  have g: "ledger_inv E l" "amounts_ok (lview l)" using assms(2) by (simp_all add: good_def)
  note i = ledger_invD [OF g(1)]
  show ?thesis using assms(1) g(1)
  proof (cases rule: transfer_step_cases)
    case (process now b)
    show ?thesis unfolding process(3)
      by (rule weights_spec [OF i(2) g(2) assms(3) transferD(4) [OF process(2)]])
        (use transfer_amounts [OF g process(1,2)] transfer_supply [OF g process(1,2)] assms(4) in auto)
  next
    case dump
    then show ?thesis using dump_weights [OF i(2) _ assms(3) g(2)] by blast
  qed (use assms(3) in simp)
qed

lemma transfer_run_weights:
  assumes "(transfer_step E R)\<^sup>*\<^sup>* l l'" "good E l" "weights_ok E (lview l)" "total_supply (lview l) (cf_ChainToken E) < 2 ^ 64"
  shows "weights_ok E (lview l')"
  using assms(1)
proof (induction rule: rtranclp_induct)
  case (step l1 l2)
  have "total_supply (lview l1) (cf_ChainToken E) < 2 ^ 64"
    using transfer_run_keeps [OF step(1)] assms(2,4) by (simp add: good_def)
  then show ?case using transfer_step_weights [OF step(2) transfer_run_good [OF step(1) assms(2)] step(3)] by simp
qed (rule assms(3))

end
