(* ===== verification/Ledger_Example.thy ===== *)
theory Ledger_Example
  imports Ledger_Process
begin

text \<open>A small ledger: account 100 has got 200 units of the chain token from the genesis block and sent 50 of
  them to account 101, which has not received them yet. The hash of a block is the length of its
  hashed data, so blocks are told apart by the lengths of their data fields.\<close>

definition ex_config :: config where
  "ex_config =
     \<lparr>cf_H = (\<lambda>d. of_nat (length d)), cf_H64 = (\<lambda>_. replicate 8 255), cf_Verify = (\<lambda>_ _ _. True),
      cf_ChainToken = 1, cf_genesisMintageHash = 1, cf_genesisBlockHash = 242, cf_gasMintageHash = 2,
      cf_gasBlockHash = 3, cf_MintageAddress = 4, cf_EqualFold = (=)\<rparr>"

definition ex_registry :: registry where
  "ex_registry = Map.empty"

definition ex_block :: "BlockType \<Rightarrow> address \<Rightarrow> int \<Rightarrow> hash \<Rightarrow> hash \<Rightarrow> nat \<Rightarrow> state_block" where
  "ex_block ty a bal prev link n =
     \<lparr>sb_Type = ty, sb_Token = 1, sb_Address = a, sb_Balance = bal, sb_Vote = Some 0, sb_Network = Some 0,
      sb_Storage = Some 0, sb_Oracle = Some 0, sb_Previous = prev, sb_Link = link, sb_Sender = [], sb_Receiver = [],
      sb_Message = 0, sb_Data = replicate n 0, sb_PoVHeight = 0, sb_Timestamp = 0, sb_Extra = 0,
      sb_Representative = 7, sb_PrivateFrom = [], sb_PrivateFor = [], sb_PrivateGroupID = [], sb_Work = 0,
      sb_Signature = 0, sb_Flag = 0, sb_PrivateRecvRsp = False, sb_PrivatePayload = []\<rparr>"

definition ex_genesis :: state_block where "ex_genesis = ex_block ContractReward 100 200 0 0 0"
definition ex_send :: state_block where "ex_send = ex_block Send 100 150 242 101 1"
definition ex_open :: state_block where "ex_open = ex_block Open 101 50 0 243 2"

definition ex_token :: token_meta where
  "ex_token = \<lparr>tm_Type = 1, tm_Header = 243, tm_Representative = 7, tm_OpenBlock = 242, tm_Balance = 150,
     tm_BelongTo = 100, tm_Modified = 0, tm_BlockCount = 2\<rparr>"

definition ex_account :: account_meta where
  "ex_account =
     \<lparr>am_Address = 100, am_CoinBalance = Some 150, am_CoinVote = Some 0, am_CoinNetwork = Some 0,
      am_CoinStorage = Some 0, am_CoinOracle = Some 0, am_Tokens = [ex_token]\<rparr>"

definition ex_benefit :: benefit where
  "ex_benefit = \<lparr>bf_Balance = 150, bf_Vote = 0, bf_Network = 0, bf_Storage = 0, bf_Oracle = 0, bf_Total = 150\<rparr>"

definition ex_pending :: pending_info where
  "ex_pending = \<lparr>pi_Source = 100, pi_Amount = 50, pi_Type = 1\<rparr>"

definition ex_store :: "key \<rightharpoonup> val" where
  "ex_store =
     [KBlock 242 \<mapsto> VBlock ex_genesis, KBlock 243 \<mapsto> VBlock ex_send, KChild 242 \<mapsto> VHash 243,
      KAccount 100 \<mapsto> VAccount ex_account, KFrontier 243 \<mapsto> VHash 242, KPending 101 243 \<mapsto> VPending ex_pending,
      KRepresentation 7 \<mapsto> VBenefit ex_benefit]"

definition ex_ledger :: ledger where
  "ex_ledger =
     \<lparr>l_cache = NewMemoryCache, l_store = ex_store, l_blockCache = [], l_accountCache = Map.empty,
      l_payload = Map.empty, l_smartBlock = (\<lambda>_. False), l_rcache = Map.empty, l_verified = (\<lambda>_. False),
      l_povLatest = None, l_povHeader = (\<lambda>_. False), l_events = []\<rparr>"

lemma ex_hashes [simp]: "GetHash (cf_H ex_config) ex_genesis = 242" "GetHash (cf_H ex_config) ex_send = 243"
  "GetHash (cf_H ex_config) ex_open = 244"
  by code_simp+

lemma ex_open_checked: "BlockCheck ex_config ex_registry ex_ledger ex_open = pass"
  by code_simp

end
