(* ===== verification/Ledger_Theorems.thy ===== *)
theory Ledger_Theorems
  imports Ledger_Weight Ledger_Example
begin

text \<open>The theorems on the confirmed ledger: no forks, conservation of every token, no double receive,
  progress of accounts, voting weights. Each is applied to the example ledger.\<close>

section \<open>The example ledger\<close>

lemma ex_view: "lview ex_ledger = ex_store"
  by (simp add: lview_def mc_view_def ex_ledger_def NewMemoryCache_overlay)

lemma ex_tables:
  "blk ex_store h = (if h = 242 then Some ex_genesis else if h = 243 then Some ex_send else None)"
  "acct ex_store a = (if a = 100 then Some ex_account else None)"
  "hash_at ex_store (KChild p) = (if p = 242 then Some 243 else None)"
  "hash_at ex_store (KFrontier p) = (if p = 243 then Some 242 else None)"
  "pend ex_store a h = (if a = 101 \<and> h = 243 then Some ex_pending else None)"
  "benefit_at ex_store a = (if a = 7 then Some ex_benefit else None)"
  by (simp_all add: ex_store_def table_defs)

lemma ex_tok: "tok ex_store a tt = (if a = 100 \<and> tt = 1 then Some ex_token else None)"
  by (simp add: tok_def ex_tables ex_account_def AccountMeta_Token_def ex_token_def)

lemma ex_config_sels [simp]:
  "cf_ChainToken ex_config = 1" "cf_genesisBlockHash ex_config = 242" "cf_genesisMintageHash ex_config = 1"
  "cf_gasMintageHash ex_config = 2" "cf_gasBlockHash ex_config = 3"
  by (simp_all add: ex_config_def)

lemma ex_typed: "well_typed ex_config ex_store"
proof -
  have "StateBlock_Clone ex_genesis = ex_genesis" "StateBlock_Clone ex_send = ex_send"
    by (simp_all add: StateBlock_Clone_def StateBlock_Unmarshal_def ex_genesis_def ex_send_def ex_block_def
        del: BlockType_String.simps)
  moreover have "AccountMeta_Clone ex_account = ex_account" "am_Address ex_account = 100"
    by (simp_all add: AccountMeta_Clone_def ex_account_def TokenMeta_Clone_def ex_token_def)
  moreover have "Benefit_Clone ex_benefit = ex_benefit" by (simp add: Benefit_Clone_def ex_benefit_def)
  ultimately show ?thesis unfolding ex_store_def by (intro well_typed_upd) (simp_all add: well_typed_def)
qed

lemma ex_inv: "ledger_inv ex_config ex_ledger"
proof -
  have g: "IsGenesisBlock ex_config ex_genesis" "\<not> IsGenesisBlock ex_config ex_send"
    by (simp_all add: IsGenesisBlock_def)
  have "chain_ok ex_config ex_store"
    using g unfolding chain_ok_def
    by (auto simp: ex_tables has_parent_def ex_account_def ex_token_def header_ok_def ex_send_def ex_block_def split: if_splits)
  moreover have "rep_ok ex_config ex_store" by (auto simp: rep_ok_def ex_tok ex_tables ex_token_def split: if_splits)
  moreover have "mc_inv (l_cache ex_ledger)" by (simp add: ex_ledger_def NewMemoryCache_inv)
  ultimately show ?thesis using ex_typed by (simp add: ledger_inv_def ex_view)
qed

lemma ex_good: "good ex_config ex_ledger"
proof -
  have "amounts_ok ex_store"
    by (auto simp: amounts_ok_def ex_tok ex_tables ex_token_def ex_pending_def split: if_splits)
  moreover have "free_headers ex_store" by (auto simp: free_headers_def ex_tok ex_tables ex_token_def split: if_splits)
  ultimately show ?thesis using ex_inv by (simp add: good_def ex_view)
qed

lemma ex_supply: "total_supply ex_store 1 = 200"
proof -
  have b: "tok_balance ex_store a 1 = (if a = 100 then 150 else 0)" for a
    by (simp add: tok_balance_def ex_tok ex_token_def)
  have p: "pend_amount ex_store 1 ah = (if ah = (101, 243) then 50 else 0)" for ah
    by (cases ah) (simp add: pend_amount_def ex_tables ex_pending_def)
  show ?thesis unfolding total_supply_def b p by simp
qed

lemma ex_weights: "weights_ok ex_config ex_store"
proof -
  have d: "delegated ex_config ex_store r a = (if a = 100 then if r = 7 then 150 else 0 else 0)" for r a
    by (simp add: delegated_def ex_tok ex_token_def)
  have "delegation ex_config ex_store r = (if r = 7 then 150 else 0)" for r
    unfolding delegation_def d by simp
  then show ?thesis
    by (auto simp: weights_ok_def coins_ok_def benefit_or_zero_def ex_tables ex_benefit_def ex_account_def
        AccountMeta_Token_def ex_token_def Benefit_Clone_def ZeroBenefit_def split: if_splits)
qed

lemma ex_open_sels [simp]:
  "sb_Type ex_open = Open" "sb_Address ex_open = 101" "sb_Balance ex_open = 50" "sb_Link ex_open = 243"
  "sb_Token ex_open = 1" "sb_Previous ex_open = 0" "sb_PrivateFrom ex_open = []" "sb_Representative ex_open = 7"
  by (simp_all add: ex_open_def ex_block_def)

lemma ex_send_sels [simp]: "sb_Previous ex_send = 242" "sb_Address ex_send = 100" "sb_Type ex_send = Send"
  by (simp_all add: ex_send_def ex_block_def)

lemma ex_transfer: "transfer ex_config ex_ledger ex_open"
  by (simp add: transfer_def ordinary_def IsGenesisBlock_def own_chain_def ex_ledger_def)

lemma ex_public: "\<not> CheckPrivateRecvRsp ex_open"
  by (simp add: CheckPrivateRecvRsp_def IsPrivate_def)

lemma BatchUpdate_verified: "BatchUpdate e f l = Some (q, l') \<Longrightarrow> l_verified l' = l_verified l"
  by (auto simp: BatchUpdate_def split: prod.splits sum.splits)

lemma BlockProcess_verified:
  assumes "BlockProcess E R now e b l = Some (r, l')"
  shows "l_verified l' = l_verified l"
proof -
  obtain q l1 where q: "BatchUpdate e (processStateBlock E R now l b) l = Some (q, l1)"
    using assms by (auto simp: BlockProcess_def)
  then have "l_verified l1 = l_verified l" by (rule BatchUpdate_verified)
  with q assms show ?thesis by (cases q) (auto simp: BlockProcess_def)
qed

lemma Process_verified:
  assumes "Process E R now e b l = Some (r, l')"
  shows "l_verified l' = l_verified l"
proof (cases "BlockCheck E R l b = pass")
  case False
  then show ?thesis using assms by (auto simp: Process_def split: prod.splits if_splits)
next
  case True
  then obtain q l1 where q: "BlockProcess E R now e b l = Some (q, l1)" using assms by (auto simp: Process_def)
  then show ?thesis using True assms BlockProcess_verified [OF q] by (cases q) (auto simp: Process_def)
qed

text \<open>The ledger after account 101 has been opened.\<close>

lemma ex_opened:
  obtains l where "Process ex_config ex_registry 0 False ex_open ex_ledger = Some (pass, l)"
    "lview l = spec_process ex_config 0 ex_open ex_store" "transfer_step ex_config ex_registry ex_ledger l"
proof -
  have "GetCache False (l_cache ex_ledger) \<noteq> None" by (simp add: GetCache_def needsFlush_def)
  then obtain l where l: "Process ex_config ex_registry 0 False ex_open ex_ledger = Some (pass, l)"
    "lview l = spec_process ex_config 0 ex_open ex_store"
    using transfer_processed [OF ex_inv _ ex_transfer ex_public ex_open_checked] ex_good
    unfolding good_def ex_view by blast
  with ts_process [OF l(1) ex_transfer] that show thesis by blast
qed

lemma ex_opened_run:
  obtains l where "(ledger_step ex_config ex_registry)\<^sup>*\<^sup>* ex_ledger l" "ledger_inv ex_config l"
    "lview l = spec_process ex_config 0 ex_open ex_store"
proof -
  obtain l where l: "Process ex_config ex_registry 0 False ex_open ex_ledger = Some (pass, l)"
    "lview l = spec_process ex_config 0 ex_open ex_store" by (rule ex_opened)
  have "ledger_step ex_config ex_registry ex_ledger l"
    by (rule step_process [OF l(1)]) (simp_all add: IsGenesisBlock_def keeps_block_def)
  then have "(ledger_step ex_config ex_registry)\<^sup>*\<^sup>* ex_ledger l" by simp
  with ledger_run_inv [OF this ex_inv] l(2) that show thesis by blast
qed

section \<open>Theorems\<close>

lemma has_parent_read [simp]: "has_parent E (block_read l c h b) = has_parent E b"
  by (simp add: has_parent_def IsGenesisBlock_def IsOpen_def)

lemma confirmed_blk:
  assumes "ledger_inv E l" "GetStateBlockConfirmed l None h = Inr b"
  obtains b0 where "blk (lview l) h = Some b0" "b = block_read l None h b0"
  using assms(2) ledger_reads(6) [OF ledger_invD(1,2) [OF assms(1)]] by (auto simp: of_option_def split: option.splits)

text \<open>C1: No fork is ever confirmed. However blocks are processed, confirmed, added, cached and flushed,
  two confirmed blocks with the same previous block are the same block, and it is the one the child
  table names.\<close>

theorem no_fork:
  assumes "ledger_inv E l0" "(ledger_step E R)\<^sup>*\<^sup>* l0 l"
    and "GetStateBlockConfirmed l None h1 = Inr b1" "GetStateBlockConfirmed l None h2 = Inr b2"
    and "has_parent E b1" "has_parent E b2" "sb_Previous b1 = sb_Previous b2"
  shows "h1 = h2 \<and> GetBlockChild l None (sb_Previous b1) = Inr h1"
proof -
  have i: "ledger_inv E l" by (rule ledger_run_inv [OF assms(2,1)])
  obtain c1 where c1: "blk (lview l) h1 = Some c1" "b1 = block_read l None h1 c1" by (rule confirmed_blk [OF i assms(3)])
  obtain c2 where c2: "blk (lview l) h2 = Some c2" "b2 = block_read l None h2 c2" by (rule confirmed_blk [OF i assms(4)])
  note ch = chain_parent [OF ledger_invD(3) [OF i]]
  have "hash_at (lview l) (KChild (sb_Previous b1)) = Some h1" using ch [OF c1(1)] assms(5) c1(2) by simp
  moreover have "hash_at (lview l) (KChild (sb_Previous b2)) = Some h2" using ch [OF c2(1)] assms(6) c2(2) by simp
  ultimately show ?thesis using assms(7) ledger_reads(1) [OF ledger_invD(1,2) [OF i]] by simp
qed

theorem no_fork_witness:
  "\<exists>l. (ledger_step ex_config ex_registry)\<^sup>*\<^sup>* ex_ledger l \<and> l \<noteq> ex_ledger \<and>
     (\<exists>b. GetStateBlockConfirmed l None 243 = Inr b) \<and> GetBlockChild l None 242 = Inr 243"
proof -
  obtain l where run: "(ledger_step ex_config ex_registry)\<^sup>*\<^sup>* ex_ledger l" and i: "ledger_inv ex_config l"
    and l: "lview l = spec_process ex_config 0 ex_open ex_store" by (rule ex_opened_run)
  have "blk (lview l) 243 = Some ex_send" by (simp add: l spec_tables ex_tables)
  then have b: "GetStateBlockConfirmed l None 243 = Inr (block_read l None 243 ex_send)"
    by (simp add: ledger_reads [OF ledger_invD(1,2) [OF i]])
  have p: "has_parent ex_config ex_send" by (simp add: has_parent_def IsGenesisBlock_def IsOpen_def)
  have "blk (lview l) 244 \<noteq> None" by (simp add: l spec_tables)
  then have "l \<noteq> ex_ledger" by (auto simp: ex_view ex_tables)
  with run b p no_fork [OF ex_inv run b b] show ?thesis by auto
qed

text \<open>C2: Conservation. Take a run of sends, receives, opens, changes and online blocks, and of flushes in
  between. Every block is on its account's own chain, has a balance below \<open>2^64\<close>, is no genesis block and
  is not in the verified data, and the balances and pendings at the start are below \<open>2^64\<close> as well. Then
  the sum of all balances and pendings of every token stays the same.\<close>

theorem supply_conserved:
  assumes "ledger_inv E l0" "amounts_ok (lview l0)" "(transfer_step E R)\<^sup>*\<^sup>* l0 l"
  shows "total_supply (lview l) tt = total_supply (lview l0) tt"
  using transfer_run_keeps [OF assms(3,1,2)] by blast

theorem supply_conserved_witness:
  "\<exists>l. (transfer_step ex_config ex_registry)\<^sup>*\<^sup>* ex_ledger l \<and> tok_balance (lview l) 101 1 = 50 \<and>
     total_supply (lview l) 1 = 200"
proof -
  obtain l where l: "lview l = spec_process ex_config 0 ex_open ex_store" "transfer_step ex_config ex_registry ex_ledger l"
    by (rule ex_opened)
  have run: "(transfer_step ex_config ex_registry)\<^sup>*\<^sup>* ex_ledger l" using l(2) by simp
  have "amounts_ok (lview ex_ledger)" using ex_good by (simp add: good_def)
  from supply_conserved [OF ex_inv this run, of 1] have "total_supply (lview l) 1 = 200" by (simp add: ex_view ex_supply)
  moreover have "tok_balance (lview l) 101 1 = 50" by (simp add: l(1) spec_tok_balance [OF ex_typed])
  ultimately show ?thesis using run by blast
qed

text \<open>C4: No double receive. Once a receive or open block has taken a pending, no later receive or open
  block of the same account for it passes the check after any run of transfers and flushes, unless its
  hash is in the verified data, for which the check accepts a missing pending. Transfers are the blocks
  of the conservation theorem: on the account's own chain, with a balance below \<open>2^64\<close>, neither genesis
  blocks nor contract calls, and not in the verified data.\<close>

theorem no_double_receive:
  assumes "good E l" "transfer E l b" "Process E R now e b l = Some (pass, l1)" "sb_Type b = Receive \<or> sb_Type b = Open"
    and "(transfer_step E R)\<^sup>*\<^sup>* l1 l2" "sb_Type b2 = Receive \<or> sb_Type b2 = Open"
    and "sb_Address b2 = sb_Address b" "sb_Link b2 = sb_Link b" "\<not> l_verified l2 (GetHash (cf_H E) b2)"
  shows "BlockCheck E R l2 b2 \<noteq> pass"
proof -
  have i: "ledger_inv E l" using assms(1) by (simp add: good_def)
  have "spent (lview l1) (sb_Address b) (sb_Link b)"
    by (rule received_spent [OF i assms(3,4) transferD(2,5) [OF assms(2)]])
  moreover have g1: "good E l1" by (rule transfer_step_good [OF ts_process [OF assms(3,2)] assms(1)])
  ultimately have "spent (lview l2) (sb_Address b) (sb_Link b)" using transfer_run_spent [OF assms(5)] by blast
  moreover have "ledger_inv E l2" using transfer_run_good [OF assms(5) g1] by (simp add: good_def)
  ultimately show ?thesis using spent_unreceivable assms(6-9) by simp
qed

theorem no_double_receive_witness:
  "\<exists>l. Process ex_config ex_registry 0 False ex_open ex_ledger = Some (pass, l) \<and>
     BlockCheck ex_config ex_registry l ex_open \<noteq> pass"
proof -
  obtain l where l: "Process ex_config ex_registry 0 False ex_open ex_ledger = Some (pass, l)" by (rule ex_opened)
  have "\<not> l_verified l 244" using Process_verified [OF l] by (simp add: ex_ledger_def)
  then have "BlockCheck ex_config ex_registry l ex_open \<noteq> pass"
    by (intro no_double_receive [OF ex_good ex_transfer l _ rtranclp.rtrancl_refl]) simp_all
  with l show ?thesis by blast
qed



text \<open>C6: Voting weights. Start from a ledger whose weights are sums of delegated balances and whose supply of
  the chain token is below \<open>2^64\<close>. After any run of transfers and flushes, without rollbacks and contract
  calls, the balance the representation table credits to a representative other than the zero address is
  the sum of the chain token balances of the accounts that name it.\<close>

theorem representation_sums:
  assumes "good E l0" "weights_ok E (lview l0)" "total_supply (lview l0) (cf_ChainToken E) < 2 ^ 64"
    and "(transfer_step E R)\<^sup>*\<^sup>* l0 l" "GetRepresentation l None r = Inr bf" "r \<noteq> ZeroAddress"
  shows "bf_Balance bf = (\<Sum>a\<in>UNIV. case tok (lview l) a (cf_ChainToken E) of None \<Rightarrow> 0
    | Some tm \<Rightarrow> if tm_Representative tm = r then tm_Balance tm else 0)"
proof -
  have i: "ledger_inv E l" using transfer_run_good [OF assms(4,1)] by (simp add: good_def)
  have "benefit_at (lview l) r = Some bf" using assms(5) ledger_reads(4) [OF ledger_invD(1,2) [OF i]] by simp
  moreover have "weights_ok E (lview l)" by (rule transfer_run_weights [OF assms(4,1,2,3)])
  ultimately show ?thesis using assms(6)
    by (auto simp: weights_ok_def benefit_or_zero_def delegation_def delegated_def)
qed

theorem representation_sums_witness:
  "\<exists>l bf. (transfer_step ex_config ex_registry)\<^sup>*\<^sup>* ex_ledger l \<and> GetRepresentation l None 7 = Inr bf \<and> bf_Balance bf =
    (\<Sum>a\<in>UNIV. case tok (lview l) a 1 of None \<Rightarrow> 0 | Some tm \<Rightarrow> if tm_Representative tm = 7 then tm_Balance tm else 0)"
proof -
  obtain l where l: "lview l = spec_process ex_config 0 ex_open ex_store" "transfer_step ex_config ex_registry ex_ledger l"
    by (rule ex_opened)
  have run: "(transfer_step ex_config ex_registry)\<^sup>*\<^sup>* ex_ledger l" using l(2) by simp
  have i: "ledger_inv ex_config l" using transfer_run_good [OF run ex_good] by (simp add: good_def)
  obtain bf where "benefit_at (lview l) 7 = Some bf"
    using spec_benefit [of ex_store 7 ex_open ex_config 0] by (auto simp: l(1) ex_tables)
  then have "GetRepresentation l None 7 = Inr bf" by (simp add: ledger_reads [OF ledger_invD(1,2) [OF i]])
  with representation_sums [OF ex_good _ _ run this] ex_weights ex_supply run show ?thesis
    by (auto simp: ex_view)
qed

text \<open>C7: Processing is atomic and has the specified effect. For a block that calls no contract, a result
  other than success leaves the confirmed ledger as it was, and success changes it exactly as
  specified.\<close>

theorem process_atomic:
  assumes "ledger_inv E l" "ordinary b" "Process E R now e b l = Some (r, l')"
  shows "lview l' = (if r = pass then spec_process E now b (lview l) else lview l)"
  using assms(3,1)
proof (cases rule: Process_cases)
  case (ok b' t)
  then show ?thesis using process_refines [OF ledger_invD(1,2) [OF assms(1)] assms(2) ok(3)] by simp
qed auto

theorem process_atomic_witness:
  "\<exists>l. Process ex_config ex_registry 0 False ex_open ex_ledger = Some (pass, l) \<and>
     lview l = spec_process ex_config 0 ex_open (lview ex_ledger)"
proof -
  obtain l where l: "Process ex_config ex_registry 0 False ex_open ex_ledger = Some (pass, l)" by (rule ex_opened)
  have "ordinary ex_open" by (simp add: ordinary_def)
  from process_atomic [OF ex_inv this l] l show ?thesis by auto
qed

text \<open>C9: Account chains are consistent. In every ledger reached by steps in which the contracts that are
  called leave the block as it is and the writes of the flusher succeed, the token the ledger returns
  for an account points at a confirmed block of that account and token, with the token's balance and
  representative, and the frontier table lists that block with the chain's open block.\<close>

theorem token_header_confirmed:
  assumes "ledger_inv E l0" "(ledger_step E R)\<^sup>*\<^sup>* l0 l" "GetTokenMetaConfirmed l a tt = Inr tm"
  shows "\<exists>hb. GetStateBlockConfirmed l None (tm_Header tm) = Inr hb \<and> sb_Address hb = a \<and> sb_Token hb = tt \<and>
    sb_Balance hb = tm_Balance tm \<and> sb_Representative hb = tm_Representative tm \<and>
    GetFrontier l None (tm_Header tm) = Inr \<lparr>fr_HeaderBlock = tm_Header tm, fr_OpenBlock = tm_OpenBlock tm\<rparr>"
proof -
  note i = ledger_invD [OF ledger_run_inv [OF assms(2,1)]]
  have "tok (lview l) a tt = Some tm" using GetTokenMetaConfirmed_Inr [OF i(1,2)] assms(3) by blast
  then obtain am where "acct (lview l) a = Some am" "tm \<in> set (am_Tokens am)" "tm_Type tm = tt" by (rule tok_Some)
  with chain_account(2) [OF i(3)] have "header_ok (lview l) a tm" by blast
  with \<open>tm_Type tm = tt\<close> show ?thesis by (auto simp: header_ok_def ledger_reads [OF i(1,2)])
qed

theorem token_header_confirmed_witness:
  "\<exists>l tm hb. (ledger_step ex_config ex_registry)\<^sup>*\<^sup>* ex_ledger l \<and> GetTokenMetaConfirmed ex_ledger 101 1 = Inl ErrAccountNotFound \<and>
     GetTokenMetaConfirmed l 101 1 = Inr tm \<and> tm_Header tm = 244 \<and> GetStateBlockConfirmed l None 244 = Inr hb \<and>
     sb_Address hb = 101 \<and> sb_Balance hb = tm_Balance tm"
proof -
  obtain l where run: "(ledger_step ex_config ex_registry)\<^sup>*\<^sup>* ex_ledger l" and i: "ledger_inv ex_config l"
    and l: "lview l = spec_process ex_config 0 ex_open ex_store" by (rule ex_opened_run)
  obtain tm where "tok (lview l) 101 1 = Some tm" "tm_Header tm = 244"
    using spec_tok [OF ex_typed, of 0 ex_open 101 1] by (auto simp: l)
  moreover from this have t: "GetTokenMetaConfirmed l 101 1 = Inr tm"
    using GetTokenMetaConfirmed_Inr [OF ledger_invD(1,2) [OF i]] by blast
  moreover have "GetTokenMetaConfirmed ex_ledger 101 1 = Inl ErrAccountNotFound"
    by (simp add: GetTokenMetaConfirmed_def ledger_reads [OF ledger_invD(1,2) [OF ex_inv]] ex_view ex_tables)
  ultimately show ?thesis using token_header_confirmed [OF ex_inv run t] run by metis
qed

text \<open>C8: the ledger is well typed. Objects are cached behind an interface and asserted to the type of their table when
  they are read, and a failed assertion panics. In every ledger reached by steps in which the contracts that are called
  leave the block as it is and the writes of the flusher succeed, no read panics or fails to decode: a block is found
  under its own hash and an account under its own address, and whatever else is asked for is found or reported as
  missing.\<close>

theorem ledger_reads_typed:
  assumes "ledger_inv E l0" "(ledger_step E R)\<^sup>*\<^sup>* l0 l"
  shows "(case GetStateBlockConfirmed l None h of Inr b \<Rightarrow> GetHash (cf_H E) b = h | Inl e \<Rightarrow> e = ErrBlockNotFound) \<and>
    (case GetAccountMetaConfirmed l None a of Inr am \<Rightarrow> am_Address am = a | Inl e \<Rightarrow> e = ErrAccountNotFound) \<and>
    (case GetPending l pk of Inr _ \<Rightarrow> True | Inl e \<Rightarrow> e = ErrPendingNotFound) \<and>
    (case GetFrontier l None h of Inr f \<Rightarrow> fr_HeaderBlock f = h | Inl e \<Rightarrow> e = ErrFrontierNotFound) \<and>
    (case GetRepresentation l None a of Inr _ \<Rightarrow> True | Inl e \<Rightarrow> e = ErrRepresentationNotFound) \<and>
    (case GetBlockChild l None h of Inr _ \<Rightarrow> True | Inl e \<Rightarrow> e = ErrMsg ''block child not found'') \<and>
    (case GetBlockLink l None h of Inr _ \<Rightarrow> True | Inl e \<Rightarrow> e = ErrMsg ''block link not found'')"
proof -
  note i = ledger_invD(1,2) [OF ledger_run_inv [OF assms(2,1)]]
  have "GetHash (cf_H E) (block_read l None h b) = h" if "blk (lview l) h = Some b" for b
    using well_typed_blk(2) [OF i(2) that]
    by (auto simp: block_read_def with_payload_def SetPrivatePayload_def GetHash_def BuildHashData_def split: sum.split)
  moreover have "am_Address am = a" if "acct (lview l) a = Some am" for am using well_typed_acct(2) [OF i(2) that] .
  ultimately show ?thesis by (auto simp: ledger_reads [OF i] of_option_def split: option.splits)
qed

theorem ledger_reads_typed_witness:
  "\<exists>l b am. (ledger_step ex_config ex_registry)\<^sup>*\<^sup>* ex_ledger l \<and> GetStateBlockConfirmed ex_ledger None 244 = Inl ErrBlockNotFound \<and>
     GetStateBlockConfirmed l None 244 = Inr b \<and> GetHash (cf_H ex_config) b = 244 \<and>
     GetAccountMetaConfirmed l None 101 = Inr am \<and> am_Address am = 101 \<and>
     GetBlockChild l None 244 = Inl (ErrMsg ''block child not found'')"
proof -
  obtain l where run: "(ledger_step ex_config ex_registry)\<^sup>*\<^sup>* ex_ledger l" and i: "ledger_inv ex_config l"
    and l: "lview l = spec_process ex_config 0 ex_open ex_store" by (rule ex_opened_run)
  note rd = ledger_reads [OF ledger_invD(1,2) [OF i]]
  obtain b am where "GetStateBlockConfirmed l None 244 = Inr b" "GetAccountMetaConfirmed l None 101 = Inr am"
    by (simp add: rd l spec_tables)
  moreover have "GetStateBlockConfirmed ex_ledger None 244 = Inl ErrBlockNotFound"
    by (simp add: ledger_reads [OF ledger_invD(1,2) [OF ex_inv]] ex_view ex_tables)
  moreover have "GetBlockChild l None 244 = Inl (ErrMsg ''block child not found'')"
    by (simp add: rd l spec_tables ex_tables has_parent_def IsOpen_def)
  ultimately show ?thesis
    using ledger_reads_typed [OF ex_inv run, of 244 101] run by auto
qed

end
