(* ===== verification/Ledger_Gaps.thy ===== *)
theory Ledger_Gaps
  imports Ledger_Theorems
begin

text \<open>What the checks of the confirmed ledger do not prevent: a block of an account without the token may
  extend another account's chain, a receive may carry a balance of more than 64 bits, a genesis block
  may be processed again, and the signature of a private contract call is not checked by nodes that
  take no part in it.\<close>

section \<open>Extending a foreign chain\<close>

lemma foreign_check:
  assumes "ledger_inv E l" "blk (lview l) (sb_Previous b) = Some p" "tok (lview l) (sb_Address b) (sb_Token b) = None"
    and "sb_Type b = Send" "sb_Balance b < sb_Balance p" "weights_equal p b"
    and "lview l (KBlock (GetHash (cf_H E) b)) = None" "signed_work_check E b None = pass"
  shows "BlockCheck E R l b = pass"
proof -
  note i = ledger_invD(1,2) [OF assms(1)] and r = ledger_reads [OF ledger_invD(1,2) [OF assms(1)]]
  have t: "\<exists>x. GetTokenMetaConfirmed l (sb_Address b) (sb_Token b) = Inl x"
    using GetTokenMetaConfirmed_Inr [OF i, of "sb_Address b" "sb_Token b"] assms(3)
    by (cases "GetTokenMetaConfirmed l (sb_Address b) (sb_Token b)") auto
  have base: "blockBaseInfoCheck E R l b = pass"
    using assms(4,7,8) by (simp add: blockBaseInfoCheck_def HasStateBlockConfirmed_view [OF i(1)])
  have fork: "blockForkCheck E l b = pass"
    using t assms(2,4) by (auto simp: blockForkCheck_def fork_check_def fork_after_def r)
  have w: "weights_equal (block_read l None (sb_Previous b) p) b = weights_equal p b"
    by (simp add: weights_equal_def StateBlock_GetVote_def StateBlock_GetNetwork_def StateBlock_GetStorage_def
        StateBlock_GetOracle_def)
  have "blockBalanceCheck l b = pass"
    using assms(2,4-6) w by (simp add: blockBalanceCheck_def balance_check_def r)
  with base fork assms(4) show ?thesis by (simp add: BlockCheck_def newBlockCheck_def sendBlockCheck_def)
qed

lemma child_blocks:
  assumes "ledger_inv E l" "hash_at (lview l) (KChild (sb_Previous b)) \<noteq> None" "has_parent E b"
    and "Process E R now e b l = Some (r, l')"
  shows "r \<noteq> pass \<and> lview l' = lview l"
  using assms(4,1)
proof (cases rule: Process_cases)
  case (ok b' t)
  note i = ledger_invD [OF assms(1)]
  obtain t1 where "UpdateStateBlock E l b (start_tx l) = (Inr (), t1)" by (rule processStateBlock_steps [OF i(1,2) ok(3)])
  then have False using UpdateStateBlock_run [OF i(1), of E "start_tx l" b] i(2) assms(2,3) by (auto split: if_splits)
  then show ?thesis by simp
qed auto

text \<open>C3: A send of an account that has no such token passes the check on top of any confirmed block of
  any account, when that block has no successor yet. Processing it mints the whole balance of the
  foreign block, and from then on no block of the owner on top of it can be processed.\<close>

theorem foreign_previous_mints:
  assumes "ledger_inv E l" "amounts_ok (lview l)" "GetStateBlockConfirmed l None (sb_Previous b) = Inr p"
    and "tok (lview l) (sb_Address b) (sb_Token b) = None" "GetBlockChild l None (sb_Previous b) = Inl x"
    and "sb_Type b = Send" "0 \<le> sb_Balance b" "sb_Balance b < sb_Balance p" "sb_Balance p < 2 ^ 64" "weights_equal p b"
    and "HasStateBlockConfirmed l (GetHash (cf_H E) b) = Inr False" "signed_work_check E b None = pass"
    and "has_parent E b" "\<not> CheckPrivateRecvRsp b" "GetCache e (l_cache l) \<noteq> None"
  shows "\<exists>l'. Process E R now e b l = Some (pass, l') \<and>
    total_supply (lview l') (sb_Token b) = total_supply (lview l) (sb_Token b) + sb_Balance p \<and>
    (\<forall>b2 now2 e2 r l2. has_parent E b2 \<longrightarrow> sb_Previous b2 = sb_Previous b \<longrightarrow>
       Process E R now2 e2 b2 l' = Some (r, l2) \<longrightarrow> r \<noteq> pass \<and> lview l2 = lview l')"
proof -
  note i = ledger_invD [OF assms(1)] and rd = ledger_reads [OF ledger_invD(1,2) [OF assms(1)]]
  let ?m = "lview l"
  obtain p0 where p0: "blk ?m (sb_Previous b) = Some p0" "p = block_read l None (sb_Previous b) p0"
    by (rule confirmed_blk [OF assms(1,3)])
  have bal: "sb_Balance p0 = sb_Balance p" and w: "weights_equal p0 b"
    using assms(10) p0(2) by (simp_all add: weights_equal_def StateBlock_GetVote_def StateBlock_GetNetwork_def
        StateBlock_GetStorage_def StateBlock_GetOracle_def)
  have new: "?m (KBlock (GetHash (cf_H E) b)) = None"
    using assms(11) HasStateBlockConfirmed_view [OF i(1)] by simp
  have ok: "BlockCheck E R l b = pass"
    by (rule foreign_check [OF assms(1) p0(1) assms(4,6) _ w new assms(12)]) (use bal assms(8) in simp)
  have "hash_at ?m (KChild (sb_Previous b)) = None" using assms(5) rd(1) by simp
  moreover have "ordinary b" using assms(6) by (simp add: ordinary_def)
  ultimately obtain l' where l': "Process E R now e b l = Some (pass, l')" "lview l' = spec_process E now b ?m"
    using Process_succeeds [OF assms(1) ok assms(15) _ assms(14)] p0(1) by blast
  have ng: "\<not> IsGenesisBlock E b" using assms(13) by (simp add: has_parent_def)
  have "Balance_Sub (sb_Balance p) (sb_Balance b) = sb_Balance p - sb_Balance b"
    using Balance_Sub_exact [of "sb_Balance p" "sb_Balance b"] assms(7-9) by simp
  with p0(1) bal assms(4,6,7) transfer_fresh(2) [OF assms(1,2) ok ng]
  have s: "total_supply (lview l') (sb_Token b) = total_supply ?m (sb_Token b) + sb_Balance p"
    by (simp add: l'(2) spec_supply [OF i(2)] tok_balance_def pend_amount_def)
  have "ledger_inv E l'" by (rule Process_inv [OF assms(1) l'(1) ng]) (simp add: assms(6) keeps_block_def)
  moreover have "hash_at (lview l') (KChild (sb_Previous b)) \<noteq> None" using assms(13) by (simp add: l'(2) spec_tables)
  ultimately show ?thesis using l'(1) s child_blocks by metis
qed

definition ex_foreign :: state_block where "ex_foreign = ex_block Send 55 149 243 55 3"

lemma ex_foreign_sels [simp]:
  "sb_Type ex_foreign = Send" "sb_Address ex_foreign = 55" "sb_Balance ex_foreign = 149" "sb_Token ex_foreign = 1"
  "sb_Previous ex_foreign = 243" "sb_PrivateFrom ex_foreign = []"
  by (simp_all add: ex_foreign_def ex_block_def)

lemma ex_foreign_hash [simp]: "GetHash (cf_H ex_config) ex_foreign = 245"
  by code_simp

theorem foreign_previous_mints_witness:
  "\<exists>l'. Process ex_config ex_registry 0 False ex_foreign ex_ledger = Some (pass, l') \<and>
     total_supply (lview l') 1 = 350 \<and>
     (\<forall>b2 now2 e2 r l2. has_parent ex_config b2 \<longrightarrow> sb_Previous b2 = 243 \<longrightarrow>
       Process ex_config ex_registry now2 e2 b2 l' = Some (r, l2) \<longrightarrow> r \<noteq> pass \<and> lview l2 = lview l')"
proof -
  note i = ledger_invD [OF ex_inv] and rd = ledger_reads [OF ledger_invD(1,2) [OF ex_inv]]
  have a: "amounts_ok (lview ex_ledger)" using ex_good by (simp add: good_def)
  have p: "GetStateBlockConfirmed ex_ledger None (sb_Previous ex_foreign) = Inr (block_read ex_ledger None 243 ex_send)"
    by (simp add: rd ex_view ex_tables)
  have "\<exists>l'. Process ex_config ex_registry 0 False ex_foreign ex_ledger = Some (pass, l') \<and>
    total_supply (lview l') (sb_Token ex_foreign) = total_supply (lview ex_ledger) (sb_Token ex_foreign)
      + sb_Balance (block_read ex_ledger None 243 ex_send) \<and>
    (\<forall>b2 now2 e2 r l2. has_parent ex_config b2 \<longrightarrow> sb_Previous b2 = sb_Previous ex_foreign \<longrightarrow>
       Process ex_config ex_registry now2 e2 b2 l' = Some (r, l2) \<longrightarrow> r \<noteq> pass \<and> lview l2 = lview l')"
  proof (rule foreign_previous_mints [OF ex_inv a p])
    show "signed_work_check ex_config ex_foreign None = pass" by code_simp
    show "weights_equal (block_read ex_ledger None 243 ex_send) ex_foreign"
      by (simp add: weights_equal_def StateBlock_GetVote_def StateBlock_GetNetwork_def StateBlock_GetStorage_def
        StateBlock_GetOracle_def ex_send_def ex_foreign_def ex_block_def)
    show "HasStateBlockConfirmed ex_ledger (GetHash (cf_H ex_config) ex_foreign) = Inr False"
      by (simp add: HasStateBlockConfirmed_view [OF i(1)] ex_view ex_store_def)
    show "GetBlockChild ex_ledger None (sb_Previous ex_foreign) = Inl (ErrMsg ''block child not found'')"
      by (simp add: rd ex_view ex_tables)
    show "sb_Balance ex_foreign < sb_Balance (block_read ex_ledger None 243 ex_send)"
      "sb_Balance (block_read ex_ledger None 243 ex_send) < 2 ^ 64"
      by (simp_all add: ex_send_def ex_block_def)
    show "has_parent ex_config ex_foreign" by (simp add: has_parent_def IsGenesisBlock_def IsOpen_def)
    show "\<not> CheckPrivateRecvRsp ex_foreign" by (simp add: CheckPrivateRecvRsp_def IsPrivate_def)
    show "GetCache False (l_cache ex_ledger) \<noteq> None" by (simp add: GetCache_def needsFlush_def)
  qed (simp_all add: ex_view ex_tok)
  moreover have "sb_Balance (block_read ex_ledger None 243 ex_send) = 150" by (simp add: ex_send_def ex_block_def)
  ultimately show ?thesis by (simp add: ex_view ex_supply)
qed

section \<open>Wide balances\<close>

lemma big_Uint64_wrap: "0 \<le> b \<Longrightarrow> big_Uint64 (b + 2 ^ 64 * int k) = big_Uint64 b"
proof -
  assume b: "0 \<le> b"
  have z: "(18446744073709551616 :: u64) = 0" by code_simp
  have "(18446744073709551616 :: u64) * of_nat k = 0" unfolding z by simp
  then show ?thesis using b by (simp add: big_Uint64_def)
qed

text \<open>The pending check of a receive does not see the bits of the new balance above the 64th: with any
  multiple of \<open>2^64\<close> added to the balance the check gives the same answer.\<close>

lemma receive_check_wraps:
  assumes "0 \<le> n"
  shows "blockPendingCheck R l (b\<lparr>sb_Type := Receive, sb_Balance := n + 2 ^ 64 * int k\<rparr>) =
   blockPendingCheck R l (b\<lparr>sb_Type := Receive, sb_Balance := n\<rparr>)"
proof -
  have "Balance_Sub (n + 2 ^ 64 * int k) x = Balance_Sub n x" for x
    unfolding Balance_Sub_def big_Uint64_wrap [OF assms] ..
  then have w: "receive_pending l (b\<lparr>sb_Type := Receive, sb_Balance := n + 2 ^ 64 * int k\<rparr>) tmr prev =
      receive_pending l (b\<lparr>sb_Type := Receive, sb_Balance := n\<rparr>) tmr prev" for tmr prev
    by (simp add: receive_pending_def weights_equal_def StateBlock_GetVote_def StateBlock_GetNetwork_def
        StateBlock_GetStorage_def StateBlock_GetOracle_def Let_def del: power.simps power_numeral split: sum.split)
  show ?thesis unfolding blockPendingCheck_def by (simp add: w del: power_numeral split: sum.split)
qed

section \<open>Genesis blocks\<close>

text \<open>The batch for a genesis reward cannot fail.\<close>

lemma genesis_succeeds:
  assumes "ledger_inv E l" "IsGenesisBlock E b" "sb_Type b = ContractReward" "\<not> CheckPrivateRecvRsp b"
  shows "\<exists>t. processStateBlock E R now l b (start_tx l) = (Inr b, t)"
proof -
  have np: "\<not> has_parent E b" using assms(2) by (simp add: has_parent_def)
  let ?u = "\<lambda>t. updatePending E R l b t"
  have pend: "\<exists>t'. ?u t = (Inr b, t') \<and> (well_typed E (txview l t) \<longrightarrow> well_typed E (txview l t')) \<and>
      (\<forall>x. benefit_at (txview l t') x = benefit_at (txview l t) x)" for t
  proof -
    note rd = ledger_reads [OF ledger_invD(1,2) [OF assms(1)]]
    have "\<exists>t'. ?u t = (Inr b, t')"
      using assms(3) by (auto simp: updatePending_def DeletePending_def rd of_option_def split: option.split)
    then obtain t' where t': "?u t = (Inr b, t')" by blast
    with updatePending_typed [OF t'] updatePending_core [OF t' keeps_block_other] assms(3) show ?thesis
      by (auto simp: benefit_at_def)
  qed
  show ?thesis
    by (rule batch_succeeds [OF assms(1,4) _ pend]) (use assms np in \<open>auto simp: updateContractData_def\<close>)
qed

text \<open>C35: A genesis block of a contract type passes the check on every ledger, also on one that holds it
  already. Processing the genesis reward again succeeds and puts the account of the genesis back to
  the genesis block and its balance.\<close>

theorem genesis_replay:
  assumes "ledger_inv E l" "IsGenesisBlock E b" "sb_Type b = ContractReward" "Process E R now e b l = Some (r, l')"
    and "\<not> CheckPrivateRecvRsp b" "GetCache e (l_cache l) \<noteq> None"
  shows "r = pass \<and> (\<exists>tm. tok (lview l') (sb_Address b) (sb_Token b) = Some tm \<and>
    tm_Header tm = GetHash (cf_H E) b \<and> tm_Balance tm = \<bar>sb_Balance b\<bar>)"
proof -
  note i = ledger_invD [OF assms(1)]
  have c: "BlockCheck E R l b = pass"
    using assms(2,3) by (simp add: BlockCheck_def newBlockCheck_def contractReceiveBlockCheck_def)
  show ?thesis using assms(4,1)
  proof (cases rule: Process_cases)
    case (ok b' t)
    have "core_eq (txview l t) (spec_process E now b (lview l))"
      using process_refines_core [OF i(1,2) keeps_block_other ok(3)] assms(3) by simp
    then have "tok (lview l') (sb_Address b) (sb_Token b) =
        Some (TokenMeta_Clone (token_after E now b (tok (lview l) (sb_Address b) (sb_Token b))))"
      by (simp add: ok(5) core_eq_tables(3) spec_tok [OF i(2)])
    then show ?thesis using ok(2) by simp
  next
    case fail
    have "\<exists>t. processStateBlock E R now l b (start_tx l) = (Inr b, t)"
      by (rule genesis_succeeds [OF assms(1-3,5)])
    then obtain t where t: "processStateBlock E R now l b (start_tx l) = (Inr b, t)" by blast
    obtain l2 where "BlockProcess E R now e b l = Some (Inr (), l2)" by (rule BlockProcess_succeeds [OF i(1) assms(6) t])
    then have "r = pass" using c assms(4) by (simp add: Process_def)
    with fail(2) show ?thesis by simp
  qed (use c in simp)
qed

lemma ex_genesis_sels [simp]:
  "sb_Type ex_genesis = ContractReward" "sb_Address ex_genesis = 100" "sb_Token ex_genesis = 1" "sb_Balance ex_genesis = 200"
  "sb_PrivateFrom ex_genesis = []"
  by (simp_all add: ex_genesis_def ex_block_def)

theorem genesis_replay_witness:
  "\<exists>l'. Process ex_config ex_registry 0 False ex_genesis ex_ledger = Some (pass, l') \<and> blk (lview ex_ledger) 242 \<noteq> None \<and>
     tok_balance (lview ex_ledger) 100 1 = 150 \<and> tok_balance (lview l') 100 1 = 200"
proof -
  have g: "IsGenesisBlock ex_config ex_genesis" "\<not> CheckPrivateRecvRsp ex_genesis"
    by (simp_all add: IsGenesisBlock_def CheckPrivateRecvRsp_def IsPrivate_def)
  have m: "GetCache False (l_cache ex_ledger) \<noteq> None" by (simp add: GetCache_def needsFlush_def)
  obtain t where t: "processStateBlock ex_config ex_registry 0 ex_ledger ex_genesis (start_tx ex_ledger) = (Inr ex_genesis, t)"
    using genesis_succeeds [OF ex_inv g(1) _ g(2)] by auto
  obtain l' where "BlockProcess ex_config ex_registry 0 False ex_genesis ex_ledger = Some (Inr (), l')"
    by (rule BlockProcess_succeeds [OF ledger_invD(1) [OF ex_inv] m t])
  moreover have "BlockCheck ex_config ex_registry ex_ledger ex_genesis = pass"
    using g(1) by (simp add: BlockCheck_def newBlockCheck_def contractReceiveBlockCheck_def)
  ultimately have p: "Process ex_config ex_registry 0 False ex_genesis ex_ledger = Some (pass, l')" by (simp add: Process_def)
  from genesis_replay [OF ex_inv g(1) _ p g(2) m] have "tok_balance (lview l') 100 1 = 200"
    by (auto simp: tok_balance_def)
  with p show ?thesis by (simp add: ex_view ex_tables tok_balance_def ex_tok ex_token_def)
qed

section \<open>Private contract calls\<close>

text \<open>For a private contract call whose payload the node has not got, the verdict does not depend on
  the signature, the work or the contract: replacing the signature check and the registry by anything
  gives the same result.\<close>

lemma private_call_unchecked:
  assumes "sb_Type b = ContractSend" "IsPrivate b" "\<not> IsRecipient b"
  shows "BlockCheck (E\<lparr>cf_Verify := V, cf_H64 := W\<rparr>) R' l b = BlockCheck E R l b"
proof -
  let ?E = "E\<lparr>cf_Verify := V, cf_H64 := W\<rparr>"
  have "IsGenesisBlock ?E b = IsGenesisBlock E b" by (simp add: IsGenesisBlock_def)
  moreover have "blockBaseInfoCheck ?E R' l b = blockBaseInfoCheck E R l b"
    using assms(1-3) by (simp add: blockBaseInfoCheck_def)
  moreover have "blockForkCheck ?E l b = blockForkCheck E l b"
    using assms(1) by (simp add: blockForkCheck_def fork_check_def fork_after_def split: sum.split)
  moreover have "blockContractCheck ?E R' l b = blockContractCheck E R l b"
    using assms(1-3) by (simp add: blockContractCheck_def contract_check_def)
  ultimately show ?thesis using assms(1)
    by (simp add: BlockCheck_def newBlockCheck_def contractSendBlockCheck_def)
qed

definition ex_private :: state_block where
  "ex_private = (ex_block ContractSend 100 150 243 9 4)\<lparr>sb_PrivateFrom := ''a'', sb_PrivateRecvRsp := True\<rparr>"

lemma private_call_unchecked_witness:
  "BlockCheck (ex_config\<lparr>cf_Verify := (\<lambda>_ _ _. False), cf_H64 := (\<lambda>_. [])\<rparr>) Map.empty ex_ledger ex_private = pass"
proof -
  have p: "sb_Type ex_private = ContractSend" "IsPrivate ex_private" "\<not> IsRecipient ex_private"
    by (simp_all add: ex_private_def ex_block_def IsPrivate_def IsRecipient_def)
  have "BlockCheck ex_config ex_registry ex_ledger ex_private = pass" by code_simp
  with private_call_unchecked [OF p, where E = ex_config and V = "\<lambda>_ _ _. False" and W = "\<lambda>_. []" and R' = Map.empty
      and l = ex_ledger and R = ex_registry] show ?thesis by simp
qed

end
