(* ===== verification/Ledger_Rollback.thy ===== *)
theory Ledger_Rollback
  imports Ledger_Process "HOL-Library.AList"
begin

text \<open>Rolling back blocks (\<open>ledger/process/rollback.go\<close>): the unconfirmed blocks of an account
  (\<open>RollbackCache\<close>) and confirmed chains with everything received from them (\<open>Rollback\<close>).

  A confirmed rollback writes to two transactions at once, the batch of the memory cache and a store
  transaction over the unconfirmed tables; both are dropped on failure. Loops over a chain run on
  fuel, \<open>Diverges\<close> standing for a chain that does not lead to the block looked for. Go ranges over the
  map of rolled back chains in no particular order: the order is the argument \<open>ord\<close>. The length of the
  third-party queue is the argument \<open>qcap\<close>; a full queue drops what is put into it. Trie contents
  come from the record \<open>trie_reader\<close>: the entries and the node hashes of the trie with a given root,
  and whether the bytes of an entry can be read back as a registered object.\<close>

section \<open>The two transactions\<close>

record rtx =
  r_tx :: tx
  r_utx :: utx

type_synonym 'a rbatch = "(lerr, rtx, 'a) stm"

definition onT :: "'a batch \<Rightarrow> 'a rbatch" where
  "onT m s = (case m (r_tx s) of (r, t) \<Rightarrow> (r, s\<lparr>r_tx := t\<rparr>))"

definition onU :: "'a ubatch \<Rightarrow> 'a rbatch" where
  "onU m s = (case m (r_utx s) of (r, u) \<Rightarrow> (r, s\<lparr>r_utx := u\<rparr>))"

record trie_reader =
  tr_entries :: "ledger \<Rightarrow> hash \<Rightarrow> (bytes \<times> bytes) list"
  tr_nodes :: "ledger \<Rightarrow> hash \<Rightarrow> bytes list"
  tr_convertible :: "bytes \<Rightarrow> bool"

section \<open>Unconfirmed blocks\<close>

definition rollbackCacheAccount :: "config \<Rightarrow> int \<Rightarrow> ledger \<Rightarrow> state_block \<Rightarrow> unit ubatch" where
  "rollbackCacheAccount E now l b u =
     (case GetAccountMeteCache_batch (sb_Address b) u of
        (Inl _, _) \<Rightarrow> (Inr (), u)
      | (Inr ac, _) \<Rightarrow>
          (case GetBlockCache l (sb_Previous b) of
             Inl _ \<Rightarrow> (Inr (), u)
           | Inr preBlk \<Rightarrow>
               (let ac' = set_coins E preBlk ac
                in case AccountMeta_Token ac' (sb_Token b) of
                     None \<Rightarrow> (Inr (), u)
                   | Some tm \<Rightarrow>
                       UpdateAccountMeteCache (ac'\<lparr>am_Tokens := upd_token (tm_Type tm)
                         (\<lambda>tm. tm\<lparr>tm_Balance := sb_Balance preBlk, tm_Header := GetHash (cf_H E) preBlk,
                            tm_Representative := sb_Representative preBlk, tm_BlockCount := tm_BlockCount tm - 1,
                            tm_Modified := now\<rparr>) (am_Tokens ac')\<rparr>) u)))"

definition rollbackCacheAccountDel :: "address \<Rightarrow> hash \<Rightarrow> unit ubatch" where
  "rollbackCacheAccountDel a tt u =
     (case GetAccountMeteCache_batch a u of
        (Inl e, _) \<Rightarrow> if e = ErrAccountNotFound then (Inr (), u) else (Inl e, u)
      | (Inr ac, _) \<Rightarrow>
          if AccountMeta_Token ac tt = None then (Inr (), u)
          else if length (am_Tokens ac) = 1 then DeleteAccountMetaCache a u
          else DeleteTokenMetaCache a tt u)"

definition rollback_cache_one :: "config \<Rightarrow> int \<Rightarrow> ledger \<Rightarrow> state_block \<Rightarrow> unit rbatch" where
  "rollback_cache_one E now l b =
     bindM (onU (DeleteBlockCache (GetHash (cf_H E) b)))
     (\<lambda>_. bindM (onT (publish (EventRollback (GetHash (cf_H E) b))))
     (\<lambda>_. if HasBlockCache l (sb_Previous b) then onU (rollbackCacheAccount E now l b)
          else onU (rollbackCacheAccountDel (sb_Address b) (sb_Token b))))"

definition rollbackCacheBlocks :: "config \<Rightarrow> int \<Rightarrow> ledger \<Rightarrow> state_block list \<Rightarrow> bool \<Rightarrow> unit rbatch" where
  "rollbackCacheBlocks E now l blocks cache =
     (case blocks of
        [] \<Rightarrow> returnM ()
      | blk0 # _ \<Rightarrow>
          if cache then mapME (rollback_cache_one E now l) (rev blocks)
          else bindM (mapME (\<lambda>b. bindM (onU (DeleteBlockCache (GetHash (cf_H E) b)))
                       (\<lambda>_. onT (publish (EventRollback (GetHash (cf_H E) b))))) blocks)
                 (\<lambda>_. onU (rollbackCacheAccountDel (sb_Address blk0) (sb_Token blk0))))"

text \<open>\<open>GetBlockCaches\<close> filtered by account and token, in key order.\<close>

definition cache_blocks_of :: "ledger \<Rightarrow> state_block \<Rightarrow> state_block list" where
  "cache_blocks_of l block =
     filter (\<lambda>b. sb_Address block = sb_Address b \<and> sb_Token block = sb_Token b) (map snd (l_blockCache l))"

text \<open>A receive whose source is received twice: the first other block with that link decides.\<close>

definition later_receive :: "config \<Rightarrow> state_block list \<Rightarrow> state_block \<Rightarrow> state_block" where
  "later_receive E blocks block =
     (if IsReceiveBlock block
      then case find (\<lambda>b. sb_Link block = sb_Link b \<and> GetHash (cf_H E) block \<noteq> GetHash (cf_H E) b) blocks of
             None \<Rightarrow> block
           | Some b \<Rightarrow> if sb_Timestamp b > sb_Timestamp block then b else block
      else block)"

text \<open>The blocks that follow one on its chain. Without a cycle each step uses up one of the candidates, so
  running out of fuel is a loop that does not end.\<close>

fun followers :: "nat \<Rightarrow> config \<Rightarrow> state_block list \<Rightarrow> state_block \<Rightarrow> state_block list option" where
  "followers 0 E ts b = None"
| "followers (Suc n) E ts b =
     (case find (\<lambda>x. sb_Previous x = GetHash (cf_H E) b) ts of
        None \<Rightarrow> Some [b]
      | Some x \<Rightarrow> map_option ((#) b) (followers n E ts x))"

definition rollbackCache :: "config \<Rightarrow> int \<Rightarrow> ledger \<Rightarrow> hash \<Rightarrow> unit rbatch" where
  "rollbackCache E now l h =
     (case GetBlockCache l h of
        Inl _ \<Rightarrow> throwM (ErrMsg ''get cache block err'')
      | Inr block \<Rightarrow>
          (let blocks = cache_blocks_of l block;
               rollBlock = later_receive E blocks block;
               tempBlocks = sort_key sb_Timestamp (filter (\<lambda>b. sb_Timestamp b \<ge> sb_Timestamp rollBlock) blocks)
           in case followers (Suc (length tempBlocks)) E tempBlocks rollBlock of
                None \<Rightarrow> throwM Diverges
              | Some rollBlocks \<Rightarrow> rollbackCacheBlocks E now l rollBlocks True))"

definition start_rtx :: "ledger \<Rightarrow> rtx" where
  "start_rtx l =
     \<lparr>r_tx = \<lparr>t_cache = Map.empty, t_rcache = l_rcache l, t_events = l_events l\<rparr>,
      r_utx = \<lparr>u_blockCache = l_blockCache l, u_accountCache = l_accountCache l\<rparr>\<rparr>"

text \<open>\<open>BatchWrite\<close> around \<open>rollbackCache\<close>: the notifications go out before the transaction commits.\<close>

definition RollbackCache :: "config \<Rightarrow> int \<Rightarrow> hash \<Rightarrow> ledger \<Rightarrow> (lerr + unit) \<times> ledger" where
  "RollbackCache E now h l =
     (if HasBlockCache l h
      then case rollbackCache E now l h (start_rtx l) of
             (Inl e, s) \<Rightarrow> (Inl e, l\<lparr>l_events := t_events (r_tx s)\<rparr>)
           | (Inr _, s) \<Rightarrow> (Inr (), l\<lparr>l_blockCache := u_blockCache (r_utx s),
               l_accountCache := u_accountCache (r_utx s), l_events := t_events (r_tx s)\<rparr>)
      else (Inr (), l))"

section \<open>The tables of a confirmed block\<close>

definition rollBackFrontier :: "ledger \<Rightarrow> hash \<Rightarrow> hash \<Rightarrow> unit batch" where
  "rollBackFrontier l pre cur t =
     (case GetFrontier l (Some (t_cache t)) cur of
        Inl e \<Rightarrow> throwM e t
      | Inr f \<Rightarrow> bindM (DeleteFrontier cur)
          (\<lambda>_. if pre \<noteq> ZeroHash then AddFrontier (f\<lparr>fr_HeaderBlock := pre\<rparr>) else returnM ()) t)"

definition prev_token_meta :: "config \<Rightarrow> int \<Rightarrow> state_block \<Rightarrow> token_meta \<Rightarrow> token_meta" where
  "prev_token_meta E now pre tm =
     tm\<lparr>tm_Balance := sb_Balance pre, tm_Header := GetHash (cf_H E) pre, tm_Representative := sb_Representative pre,
        tm_BlockCount := tm_BlockCount tm - 1, tm_Modified := now\<rparr>"

definition rollBackToken :: "config \<Rightarrow> int \<Rightarrow> ledger \<Rightarrow> token_meta \<Rightarrow> state_block \<Rightarrow> unit batch" where
  "rollBackToken E now l token pre t =
     (case GetAccountMetaConfirmed l (Some (t_cache t)) (tm_BelongTo token) of
        Inl e \<Rightarrow> throwM e t
      | Inr ac \<Rightarrow>
          (let ac' = set_coins E pre ac
           in case AccountMeta_Token ac' (sb_Token pre) of
                None \<Rightarrow> throwM (ErrMsg ''can not get token from account'') t
              | Some tm \<Rightarrow> UpdateAccountMeta
                  (ac'\<lparr>am_Tokens := upd_token (tm_Type tm) (prev_token_meta E now pre) (am_Tokens ac')\<rparr>) t))"

definition rollBackTokenDel :: "ledger \<Rightarrow> token_meta \<Rightarrow> unit batch" where
  "rollBackTokenDel l tm =
     bindM (DeleteTokenMetaConfirmed l (tm_BelongTo tm) (tm_Type tm))
       (\<lambda>_ t. case GetAccountMetaConfirmed l (Some (t_cache t)) (tm_BelongTo tm) of
                Inl e \<Rightarrow> throwM e t
              | Inr ac \<Rightarrow> if am_Tokens ac = [] then DeleteAccountMeta (tm_BelongTo tm) t else returnM () t)"

definition block_diff :: "state_block \<Rightarrow> state_block \<Rightarrow> benefit" where
  "block_diff x y =
     \<lparr>bf_Balance = Balance_Sub (sb_Balance x) (sb_Balance y),
      bf_Vote = Balance_Sub (StateBlock_GetVote x) (StateBlock_GetVote y),
      bf_Network = Balance_Sub (StateBlock_GetNetwork x) (StateBlock_GetNetwork y),
      bf_Storage = Balance_Sub (StateBlock_GetStorage x) (StateBlock_GetStorage y),
      bf_Oracle = Balance_Sub (StateBlock_GetOracle x) (StateBlock_GetOracle y),
      bf_Total = Balance_Sub (StateBlock_TotalBalance x) (StateBlock_TotalBalance y)\<rparr>"

definition rollBackRep :: "config \<Rightarrow> ledger \<Rightarrow> address \<Rightarrow> state_block \<Rightarrow> state_block option \<Rightarrow> bool \<Rightarrow> hash \<Rightarrow> unit batch" where
  "rollBackRep E l rep blockCur blockPre isSend token =
     (if token = cf_ChainToken E
      then if isSend
           then (case blockPre of
                   None \<Rightarrow> throwM Panic
                 | Some pre \<Rightarrow> AddRepresentation l rep (block_diff pre blockCur))
           else SubRepresentation l rep
                  (case blockPre of None \<Rightarrow> block_benefit blockCur | Some pre \<Rightarrow> block_diff blockCur pre)
      else returnM ())"

definition rollBackRepChange :: "ledger \<Rightarrow> address \<Rightarrow> address \<Rightarrow> state_block \<Rightarrow> unit batch" where
  "rollBackRepChange l preRep curRep blockCur =
     bindM (AddRepresentation l preRep (block_benefit blockCur))
       (\<lambda>_. SubRepresentation l curRep (block_benefit blockCur))"

definition rollBackPendingAdd :: "config \<Rightarrow> registry \<Rightarrow> ledger \<Rightarrow> state_block \<Rightarrow> int \<Rightarrow> hash \<Rightarrow> unit batch" where
  "rollBackPendingAdd E R l blockCur amount token =
     (case GetStateBlockConfirmed l None (sb_Link blockCur) of
        Inl e \<Rightarrow> throwM (ErrMsg ''link not found'')
      | Inr blockLink \<Rightarrow>
          if IsPrivate blockLink \<and> \<not> IsRecipient blockLink then returnM ()
          else if sb_Type blockCur = ContractReward
          then (case GetChainContract R (sb_Link blockLink) (GetPayload blockLink) of
                  None \<Rightarrow> returnM ()
                | Some c \<Rightarrow>
                    (case d_specVer (c_Describe c) of
                       SpecVer1 \<Rightarrow>
                         (case c_DoPending c blockLink of
                            Inr (Some (pk, p)) \<Rightarrow> AddPending E pk p
                          | _ \<Rightarrow> returnM ())
                     | SpecVer2 \<Rightarrow>
                         (case NewVMContextWithBlock l blockLink of
                            None \<Rightarrow> throwM (ErrMsg ''rollback: can not get vm context'')
                          | Some vmCtx \<Rightarrow>
                              (case c_ProcessSend c l vmCtx blockLink of
                                 Inr r \<Rightarrow> (case sr_pending r of
                                     Some (pk, p) \<Rightarrow> AddPending E pk p
                                   | None \<Rightarrow> throwM (ErrMsg ''process send error''))
                               | Inl _ \<Rightarrow> throwM (ErrMsg ''process send error'')))
                     | SpecVerInvalid \<Rightarrow> throwM (ErrMsg ''unsupported chain contract version'')))
          else AddPending E (sb_Address blockCur, GetHash (cf_H E) blockLink)
                 \<lparr>pi_Source = sb_Address blockLink, pi_Amount = amount, pi_Type = token\<rparr>)"

definition rollBackPendingDel :: "config \<Rightarrow> registry \<Rightarrow> ledger \<Rightarrow> state_block \<Rightarrow> unit batch" where
  "rollBackPendingDel E R l blockCur =
     (if IsPrivate blockCur \<and> \<not> IsRecipient blockCur then returnM ()
      else if sb_Type blockCur = ContractSend
      then (case GetChainContract R (sb_Link blockCur) (GetPayload blockCur) of
              None \<Rightarrow> returnM ()
            | Some c \<Rightarrow>
                (case d_specVer (c_Describe c) of
                   SpecVer1 \<Rightarrow>
                     (case c_DoPending c blockCur of
                        Inr (Some (pk, _)) \<Rightarrow> DeletePending E l pk
                      | _ \<Rightarrow> returnM ())
                 | SpecVer2 \<Rightarrow>
                     (case NewVMContextWithBlock l blockCur of
                        None \<Rightarrow> throwM (ErrMsg ''rollback pending: can not get vm context'')
                      | Some vmCtx \<Rightarrow>
                          (case c_ProcessSend c l vmCtx blockCur of
                             Inr r \<Rightarrow> (case sr_pending r of
                                 Some (pk, _) \<Rightarrow> DeletePending E l pk
                               | None \<Rightarrow> returnM ())
                           | Inl _ \<Rightarrow> returnM ()))
                 | SpecVerInvalid \<Rightarrow> throwM (ErrMsg ''unsupported chain contract'')))
      else DeletePending E l (sb_Link blockCur, GetHash (cf_H E) blockCur))"

section \<open>Contract data\<close>

definition MinerAddress :: address where "MinerAddress = 21"
definition RepAddress :: address where "RepAddress = 23"

definition IsRewardContractAddress :: "address \<Rightarrow> bool" where
  "IsRewardContractAddress a \<longleftrightarrow> a \<in> {MinerAddress, RepAddress}"

fun bytes_of :: "val \<Rightarrow> bytes option" where
  "bytes_of (VBytes bs) = Some bs" | "bytes_of _ = None"

definition Ledger_Get :: "ledger \<Rightarrow> (key, val) overlay option \<Rightarrow> key \<Rightarrow> lerr + bytes" where
  "Ledger_Get l c k = read_cached (ErrMsg ''key not found'') bytes_of bytes_of l c k"

definition RemoveStorage :: "trie_reader \<Rightarrow> bytes \<Rightarrow> bytes \<Rightarrow> unit batch" where
  "RemoveStorage T k v =
     (if tr_convertible T v then cdel (KVMStorage k) else throwM (ErrMsg ''remove storage''))"

text \<open>A value that cannot be converted is only logged by the caller.\<close>

definition SaveStorageByConvert :: "trie_reader \<Rightarrow> bytes \<Rightarrow> bytes \<Rightarrow> unit batch" where
  "SaveStorageByConvert T k v =
     (if tr_convertible T v then cput (KVMStorage k) (VBytes v) else throwM (ErrMsg ''remove storage''))"

definition removeTrie :: "bytes list \<Rightarrow> unit batch" where
  "removeTrie ks = mapME (\<lambda>k. cdel (KTrie k)) ks"

definition remove_entry :: "trie_reader \<Rightarrow> ledger \<Rightarrow> hash \<Rightarrow> bytes \<times> bytes \<Rightarrow> unit batch" where
  "remove_entry T l root kv t =
     (case Ledger_Get l (Some (t_cache t)) (KVMStorage (fst kv)) of
        Inl _ \<Rightarrow> throwM (ErrMsg ''get storage by key'') t
      | Inr contractData \<Rightarrow>
          if contractData \<noteq> snd kv then throwM (ErrMsg ''contract data is invalid'') t
          else bindM (RemoveStorage T (fst kv) contractData) (\<lambda>_. removeTrie (tr_nodes T l root)) t)"

definition restore_entry :: "trie_reader \<Rightarrow> bytes \<times> bytes \<Rightarrow> unit batch" where
  "restore_entry T kv t =
     (case SaveStorageByConvert T (fst kv) (snd kv) t of (Inl _, t') \<Rightarrow> (Inr (), t') | r \<Rightarrow> r)"

text \<open>The data of the last block of the chain that called the same reward contract.\<close>

fun restore_previous :: "nat \<Rightarrow> trie_reader \<Rightarrow> ledger \<Rightarrow> state_block \<Rightarrow> hash \<Rightarrow> unit batch" where
  "restore_previous 0 T l b preHash = throwM Diverges"
| "restore_previous (Suc n) T l b preHash =
     (if preHash = ZeroHash then returnM ()
      else case GetStateBlockConfirmed l None preHash of
        Inl _ \<Rightarrow> throwM (ErrMsg ''contract block previous not found'')
      | Inr preBlock \<Rightarrow>
          if sb_Type preBlock = sb_Type b \<and> sb_Link preBlock = sb_Link b
          then mapME (restore_entry T) (tr_entries T l (sb_Extra preBlock))
          else restore_previous n T l b (sb_Previous preBlock))"

definition rollBackContractData :: "nat \<Rightarrow> trie_reader \<Rightarrow> ledger \<Rightarrow> state_block \<Rightarrow> unit batch" where
  "rollBackContractData n T l b =
     (if sb_Extra b = ZeroHash then returnM ()
      else bindM (mapME (remove_entry T l (sb_Extra b)) (tr_entries T l (sb_Extra b)))
        (\<lambda>_. if IsRewardContractAddress (sb_Link b) then restore_previous n T l b (sb_Previous b)
             else returnM ()))"

section \<open>Confirmed chains\<close>

text \<open>One block of a chain that is rolled back. \<open>sends\<close> are the sends that go as well.\<close>

definition rollback_block :: "config \<Rightarrow> registry \<Rightarrow> trie_reader \<Rightarrow> nat \<Rightarrow> int \<Rightarrow> ledger \<Rightarrow> hash list \<Rightarrow>
    token_meta \<Rightarrow> state_block \<Rightarrow> state_block \<Rightarrow> unit batch" where
  "rollback_block E R T n now l sends tm cur pre =
     (let h = GetHash (cf_H E) cur; ph = GetHash (cf_H E) pre; tt = sb_Token cur;
          back = (\<lambda>f. bindM (rollBackToken E now l tm pre) (\<lambda>_. bindM (rollBackFrontier l ph h) (\<lambda>_. f)));
          unless_sent = (\<lambda>f. if sb_Link cur \<in> set sends then returnM () else f)
      in case sb_Type cur of
           Open \<Rightarrow>
             bindM (rollBackTokenDel l tm)
             (\<lambda>_. bindM (rollBackRep E l (sb_Representative cur) cur None False tt)
             (\<lambda>_. bindM (rollBackFrontier l ZeroHash h)
             (\<lambda>_. unless_sent (rollBackPendingAdd E R l cur (tm_Balance tm) tt))))
         | Send \<Rightarrow>
             back (bindM (rollBackRep E l (sb_Representative cur) cur (Some pre) True tt)
             (\<lambda>_. rollBackPendingDel E R l cur))
         | Receive \<Rightarrow>
             back (bindM (rollBackRep E l (sb_Representative cur) cur (Some pre) False tt)
             (\<lambda>_. unless_sent (rollBackPendingAdd E R l cur (Balance_Sub (sb_Balance cur) (sb_Balance pre)) tt)))
         | Change \<Rightarrow> back (rollBackRepChange l (sb_Representative pre) (sb_Representative cur) cur)
         | Online \<Rightarrow> back (rollBackRepChange l (sb_Representative pre) (sb_Representative cur) cur)
         | ContractReward \<Rightarrow>
             bindM (if sb_Previous cur = ZeroHash
                    then bindM (rollBackTokenDel l tm) (\<lambda>_. rollBackFrontier l ZeroHash h)
                    else back (returnM ()))
             (\<lambda>_. bindM (unless_sent (rollBackPendingAdd E R l cur 0 ZeroHash))
             (\<lambda>_. rollBackContractData n T l cur))
         | ContractSend \<Rightarrow>
             back (bindM (rollBackPendingDel E R l cur) (\<lambda>_. rollBackContractData n T l cur))
         | _ \<Rightarrow> returnM ())"

definition checkBlockCache :: "config \<Rightarrow> int \<Rightarrow> ledger \<Rightarrow> state_block \<Rightarrow> unit rbatch" where
  "checkBlockCache E now l b =
     (let rollbacks = cache_blocks_of l b
      in bindM (if rollbacks \<noteq> [] then rollbackCacheBlocks E now l rollbacks False
                else onU (rollbackCacheAccountDel (sb_Address b) (sb_Token b)))
           (\<lambda>_. if IsSendBlock b
                then mapME (\<lambda>x. rollbackCache E now l (GetHash (cf_H E) x))
                       (filter (\<lambda>x. GetHash (cf_H E) b = sb_Link x) (map snd (l_blockCache l)))
                else returnM ()))"

text \<open>From the header down to the oldest block.\<close>

fun rollback_chain :: "nat \<Rightarrow> config \<Rightarrow> registry \<Rightarrow> trie_reader \<Rightarrow> int \<Rightarrow> ledger \<Rightarrow> hash list \<Rightarrow> token_meta \<Rightarrow>
    hash \<Rightarrow> hash \<Rightarrow> state_block \<Rightarrow> unit rbatch" where
  "rollback_chain 0 E R T now l sends tm oldest hashCur cur = throwM Diverges"
| "rollback_chain (Suc n) E R T now l sends tm oldest hashCur cur =
     bindM (liftM (if IsOpen cur then Inr zero_block
                   else case GetStateBlockConfirmed l None (sb_Previous cur) of
                          Inl _ \<Rightarrow> Inl (ErrMsg ''get previous block'') | Inr p \<Rightarrow> Inr p))
     (\<lambda>pre. bindM (onT (rollback_block E R T n now l sends tm cur pre))
     (\<lambda>_. bindM (onT (DeleteStateBlock l hashCur))
     (\<lambda>_. bindM (onT (publish (EventRollback hashCur)))
     (\<lambda>_. bindM (checkBlockCache E now l cur)
     (\<lambda>_. if hashCur = oldest then returnM ()
          else case GetStateBlockConfirmed l None (sb_Previous cur) of
                 Inl _ \<Rightarrow> throwM (ErrMsg ''get previous block error'')
               | Inr b \<Rightarrow> rollback_chain n E R T now l sends tm oldest (sb_Previous cur) b)))))"

text \<open>The send blocks of one chain, from the header down to the oldest block.\<close>

fun sends_of_chain :: "nat \<Rightarrow> config \<Rightarrow> ledger \<Rightarrow> hash \<Rightarrow> state_block \<Rightarrow> lerr + hash list" where
  "sends_of_chain 0 E l oldest cur = Inl Diverges"
| "sends_of_chain (Suc n) E l oldest cur =
     (let here = (if IsSendBlock cur then [GetHash (cf_H E) cur] else [])
      in if GetHash (cf_H E) cur = oldest then Inr here
         else case GetStateBlockConfirmed l None (sb_Previous cur) of
                Inl _ \<Rightarrow> Inl (ErrMsg ''can not get previous block'')
              | Inr b \<Rightarrow> map_sum id ((@) here) (sends_of_chain n E l oldest b))"

definition header_of :: "ledger \<Rightarrow> state_block \<Rightarrow> lerr + token_meta \<times> state_block" where
  "header_of l b =
     (case GetTokenMetaConfirmed l (sb_Address b) (sb_Token b) of
        Inl _ \<Rightarrow> Inl (ErrMsg ''get tokenmeta error'')
      | Inr tm \<Rightarrow> (case GetStateBlockConfirmed l None (tm_Header tm) of
          Inl _ \<Rightarrow> Inl (ErrMsg ''get block error'')
        | Inr hb \<Rightarrow> Inr (tm, hb)))"

fun sendBlocksInRollback :: "nat \<Rightarrow> config \<Rightarrow> ledger \<Rightarrow> state_block list \<Rightarrow> lerr + hash list" where
  "sendBlocksInRollback n E l [] = Inr []"
| "sendBlocksInRollback n E l (oldest # bs) =
     (case header_of l oldest of
        Inl e \<Rightarrow> Inl e
      | Inr (tm, hb) \<Rightarrow>
          (case sends_of_chain n E l (GetHash (cf_H E) oldest) hb of
             Inl e \<Rightarrow> Inl e
           | Inr hs \<Rightarrow> map_sum id ((@) hs) (sendBlocksInRollback n E l bs)))"

definition rollbackBlocks :: "nat \<Rightarrow> config \<Rightarrow> registry \<Rightarrow> trie_reader \<Rightarrow> int \<Rightarrow> ledger \<Rightarrow> state_block list \<Rightarrow> unit rbatch" where
  "rollbackBlocks n E R T now l bs =
     (case sendBlocksInRollback n E l bs of
        Inl e \<Rightarrow> throwM e
      | Inr sends \<Rightarrow>
          mapME (\<lambda>oldest. case header_of l oldest of
                   Inl e \<Rightarrow> throwM e
                 | Inr (tm, hb) \<Rightarrow> rollback_chain n E R T now l sends tm (GetHash (cf_H E) oldest) (tm_Header tm) hb) bs)"

section \<open>Collecting the blocks to roll back\<close>

fun order_loop :: "nat \<Rightarrow> config \<Rightarrow> ledger \<Rightarrow> state_block \<Rightarrow> state_block \<Rightarrow> hash \<Rightarrow> lerr + bool" where
  "order_loop 0 E l a b cur = Inl Diverges"
| "order_loop (Suc n) E l a b cur =
     (case GetStateBlockConfirmed l None cur of
        Inl _ \<Rightarrow> Inl (ErrMsg ''get block error'')
      | Inr c \<Rightarrow>
          if GetHash (cf_H E) c = GetHash (cf_H E) a then Inr False
          else if GetHash (cf_H E) c = GetHash (cf_H E) b then Inr True
          else if sb_Previous c = ZeroHash then Inl (ErrMsg ''can not find blocks when block compare'')
          else order_loop n E l a b (sb_Previous c))"

definition blockOrderCompare :: "nat \<Rightarrow> config \<Rightarrow> ledger \<Rightarrow> state_block \<Rightarrow> state_block \<Rightarrow> lerr + bool" where
  "blockOrderCompare n E l a b =
     (if sb_Address a \<noteq> sb_Address b \<or> sb_Token a \<noteq> sb_Token b then Inl (ErrMsg ''can not compare block'')
      else case GetTokenMetaConfirmed l (sb_Address a) (sb_Token a) of
             Inl _ \<Rightarrow> Inl Panic
           | Inr tm \<Rightarrow> order_loop n E l a b (tm_Header tm))"

definition chain_key :: "config \<Rightarrow> state_block \<Rightarrow> hash" where
  "chain_key E b = cf_H E (be_bytes 32 (sb_Address b) @ be_bytes 32 (sb_Token b))"

definition queue_put :: "nat \<Rightarrow> hash \<Rightarrow> hash list \<Rightarrow> hash list" where
  "queue_put qcap h q = (if length q < qcap then q @ [h] else q)"

text \<open>The link of one block of the chain, put into the queue unless an earlier block of its chain is
  rolled back anyway. The only error passed over is \<open>ErrLinkNotFound\<close>.\<close>

definition queue_link :: "nat \<Rightarrow> nat \<Rightarrow> config \<Rightarrow> ledger \<Rightarrow> (hash \<times> state_block) list \<Rightarrow> state_block \<Rightarrow> hash list \<Rightarrow>
    lerr + hash list" where
  "queue_link n qcap E l rbmap cur q =
     (if \<not> IsSendBlock cur then Inr q
      else let lk = GetBlockLink l None (GetHash (cf_H E) cur)
           in if (case lk of Inl e \<Rightarrow> e \<noteq> ErrLinkNotFound | Inr _ \<Rightarrow> False) then Inl (ErrMsg ''can not get link hash'')
              else let linkHash = (case lk of Inl _ \<Rightarrow> ZeroHash | Inr h \<Rightarrow> h)
                   in if linkHash = ZeroHash then Inr q
                      else case GetStateBlockConfirmed l None linkHash of
                             Inl _ \<Rightarrow> Inl (ErrMsg ''can not get link block'')
                           | Inr linkBlock \<Rightarrow>
                               (case map_of rbmap (chain_key E linkBlock) of
                                  Some rBlock \<Rightarrow>
                                    (case blockOrderCompare n E l linkBlock rBlock of
                                       Inl e \<Rightarrow> Inl e
                                     | Inr True \<Rightarrow> Inr (queue_put qcap (GetHash (cf_H E) linkBlock) q)
                                     | Inr False \<Rightarrow> Inr q)
                                | None \<Rightarrow> Inr (queue_put qcap (GetHash (cf_H E) linkBlock) q)))"

fun queue_links :: "nat \<Rightarrow> nat \<Rightarrow> config \<Rightarrow> ledger \<Rightarrow> (hash \<times> state_block) list \<Rightarrow> hash \<Rightarrow> state_block \<Rightarrow> hash list \<Rightarrow>
    lerr + hash list" where
  "queue_links 0 qcap E l rbmap oldest cur q = Inl Diverges"
| "queue_links (Suc n) qcap E l rbmap oldest cur q =
     (case queue_link n qcap E l rbmap cur q of
        Inl e \<Rightarrow> Inl e
      | Inr q' \<Rightarrow>
          if GetHash (cf_H E) cur = oldest then Inr q'
          else case GetStateBlockConfirmed l None (sb_Previous cur) of
                 Inl _ \<Rightarrow> Inl (ErrMsg ''can not get previous block'')
               | Inr b \<Rightarrow> queue_links n qcap E l rbmap oldest b q')"

definition put_oldest :: "nat \<Rightarrow> config \<Rightarrow> ledger \<Rightarrow> state_block \<Rightarrow> (hash \<times> state_block) list \<Rightarrow>
    lerr + (hash \<times> state_block) list" where
  "put_oldest n E l b rbmap =
     (case map_of rbmap (chain_key E b) of
        Some rBlock \<Rightarrow>
          (case blockOrderCompare n E l b rBlock of
             Inl e \<Rightarrow> Inl e
           | Inr True \<Rightarrow> Inr (AList.update (chain_key E b) b rbmap)
           | Inr False \<Rightarrow> Inr rbmap)
      | None \<Rightarrow> Inr (AList.update (chain_key E b) b rbmap))"

fun collect :: "nat \<Rightarrow> nat \<Rightarrow> config \<Rightarrow> ledger \<Rightarrow> (hash \<times> state_block) list \<Rightarrow> hash list \<Rightarrow>
    lerr + (hash \<times> state_block) list" where
  "collect n qcap E l rbmap [] = Inr rbmap"
| "collect 0 qcap E l rbmap (h # q) = Inl Diverges"
| "collect (Suc n) qcap E l rbmap (h # q) =
     (case GetStateBlockConfirmed l None h of
        Inl _ \<Rightarrow> Inl (ErrMsg ''can not get block'')
      | Inr oldest \<Rightarrow>
          (case put_oldest n E l oldest rbmap of
             Inl e \<Rightarrow> Inl e
           | Inr rbmap' \<Rightarrow>
               (case header_of l oldest of
                  Inl e \<Rightarrow> Inl e
                | Inr (tm, hb) \<Rightarrow>
                    (case queue_links n qcap E l rbmap' h hb q of
                       Inl e \<Rightarrow> Inl e
                     | Inr q' \<Rightarrow> collect n qcap E l rbmap' q'))))"

definition Rollback :: "nat \<Rightarrow> nat \<Rightarrow> (state_block list \<Rightarrow> state_block list) \<Rightarrow> config \<Rightarrow> registry \<Rightarrow> trie_reader \<Rightarrow> int \<Rightarrow> bool \<Rightarrow>
    hash \<Rightarrow> ledger \<Rightarrow> ((lerr + unit) \<times> ledger) option" where
  "Rollback n qcap ord E R T now elapsed h l =
     (if HasBlockCache l h then Some (RollbackCache E now h l)
      else if HasStateBlockConfirmed l h \<noteq> Inr True then Some (Inr (), l)
      else case collect n qcap E l [] (queue_put qcap h []) of
             Inl e \<Rightarrow> Some (Inl e, l)
           | Inr rbmap \<Rightarrow>
               (case rollbackBlocks n E R T now l (ord (map snd rbmap)) (start_rtx l) of
                  (Inl e, s) \<Rightarrow> Some (Inl e, l\<lparr>l_rcache := t_rcache (r_tx s), l_events := t_events (r_tx s)\<rparr>)
                | (Inr _, s) \<Rightarrow>
                    map_option (\<lambda>mc. (Inr (), l\<lparr>l_cache := mc, l_rcache := t_rcache (r_tx s), l_events := t_events (r_tx s),
                        l_blockCache := u_blockCache (r_utx s), l_accountCache := u_accountCache (r_utx s)\<rparr>))
                      (BatchUpdate_commit elapsed (t_cache (r_tx s)) (l_cache l))))"

end
