(* ===== verification/Ledger_Undo.thy ===== *)
theory Ledger_Undo
  imports Ledger_Rollback Ledger_Weight
begin

text \<open>What rolling back the newest block of a chain does to the view of the ledger, for the block types that
  call no contract and send nothing (\<open>Receive\<close>, \<open>Change\<close>, \<open>Online\<close>), and how far that undoes the
  processing of the block.\<close>

section \<open>The view after a rollback\<close>

definition prev_account :: "config \<Rightarrow> int \<Rightarrow> state_block \<Rightarrow> account_meta \<Rightarrow> account_meta" where
  "prev_account E now pre ac =
     (set_coins E pre ac)\<lparr>am_Tokens := upd_token (sb_Token pre) (prev_token_meta E now pre) (am_Tokens ac)\<rparr>"

definition undo_rep :: "config \<Rightarrow> state_block \<Rightarrow> state_block \<Rightarrow> (key \<rightharpoonup> val) \<Rightarrow> (key \<rightharpoonup> val)" where
  "undo_rep E cur pre m =
     (let cr = sb_Representative cur; pr = sb_Representative pre
      in if sb_Type cur = Receive
         then if sb_Token cur = cf_ChainToken E
              then m(KRepresentation cr \<mapsto> VBenefit (Benefit_Clone (Benefit_minus (benefit_or_zero m cr) (block_diff cur pre))))
              else m
         else let m1 = m(KRepresentation pr \<mapsto> VBenefit (Benefit_Clone (Benefit_plus (benefit_or_zero m pr) (block_benefit cur))))
              in m1(KRepresentation cr \<mapsto> VBenefit (Benefit_Clone (Benefit_minus (benefit_or_zero m1 cr) (block_benefit cur)))))"

definition undo_pending :: "config \<Rightarrow> state_block \<Rightarrow> state_block \<Rightarrow> state_block \<Rightarrow> (key \<rightharpoonup> val) \<Rightarrow> (key \<rightharpoonup> val)" where
  "undo_pending E cur pre src m =
     (if sb_Type cur = Receive
      then m(KPending (sb_Address cur) (sb_Link cur) \<mapsto> VPending \<lparr>pi_Source = sb_Address src,
             pi_Amount = Balance_Sub (sb_Balance cur) (sb_Balance pre), pi_Type = sb_Token cur\<rparr>)
      else m)"

definition undo_chain :: "config \<Rightarrow> int \<Rightarrow> state_block \<Rightarrow> state_block \<Rightarrow> account_meta \<Rightarrow> hash \<Rightarrow> (key \<rightharpoonup> val) \<Rightarrow> (key \<rightharpoonup> val)" where
  "undo_chain E now cur pre ac op m =
     ((m(KAccount (sb_Address cur) \<mapsto> VAccount (AccountMeta_Clone (prev_account E now pre ac))))
       (KFrontier (GetHash (cf_H E) cur) := None))(KFrontier (GetHash (cf_H E) pre) \<mapsto> VHash op)"

definition undo_block :: "config \<Rightarrow> state_block \<Rightarrow> (key \<rightharpoonup> val) \<Rightarrow> (key \<rightharpoonup> val)" where
  "undo_block E cur m =
     ((m(KBlock (GetHash (cf_H E) cur) := None))(KChild (Parent cur) := None))(KLink (sb_Link cur) := None)"

definition spec_undo :: "config \<Rightarrow> int \<Rightarrow> state_block \<Rightarrow> state_block \<Rightarrow> state_block \<Rightarrow> account_meta \<Rightarrow> hash \<Rightarrow>
    (key \<rightharpoonup> val) \<Rightarrow> (key \<rightharpoonup> val)" where
  "spec_undo E now cur pre src ac op m =
     undo_block E cur (undo_pending E cur pre src (undo_rep E cur pre (undo_chain E now cur pre ac op m)))"

section \<open>The steps\<close>

lemma rollBackToken_run:
  assumes "mc_inv (l_cache l)" "well_typed E (txview l t)" "acct (txview l t) (tm_BelongTo token) = Some ac"
    and "AccountMeta_Token ac (sb_Token pre) \<noteq> None"
  shows "\<exists>t'. rollBackToken E now l token pre t = (Inr (), t') \<and> txview l t' =
    (txview l t)(KAccount (tm_BelongTo token) \<mapsto> VAccount (AccountMeta_Clone (prev_account E now pre ac)))"
proof -
  obtain tm where tm: "AccountMeta_Token ac (sb_Token pre) = Some tm" using assms(4) by auto
  then have "tm_Type tm = sb_Token pre" by (auto simp: AccountMeta_Token_def find_Some_iff)
  moreover have "AccountMeta_Token (set_coins E pre ac) (sb_Token pre) = Some tm" using tm by (simp add: AccountMeta_Token_def)
  moreover have "am_Address ac = tm_BelongTo token" using well_typed_acct(2) [OF assms(2,3)] .
  ultimately show ?thesis
    by (simp add: rollBackToken_def tx_reads [OF assms(1,2)] assms(3) Let_def UpdateAccountMeta_def prev_account_def)
qed

lemma rollBackFrontier_run:
  assumes "mc_inv (l_cache l)" "well_typed E (txview l t)" "hash_at (txview l t) (KFrontier cur) = Some op" "pre \<noteq> ZeroHash"
  shows "\<exists>t'. rollBackFrontier l pre cur t = (Inr (), t') \<and>
    txview l t' = ((txview l t)(KFrontier cur := None))(KFrontier pre \<mapsto> VHash op)"
  using assms(3,4)
  by (simp add: rollBackFrontier_def tx_reads [OF assms(1,2)] DeleteFrontier_def AddFrontier_def)

lemma rollBackPendingAdd_run:
  assumes "mc_inv (l_cache l)" "well_typed E (lview l)" "blk (lview l) (sb_Link cur) = Some src"
    and "\<not> IsPrivate src" "sb_Type cur \<noteq> ContractReward"
  shows "\<exists>t'. rollBackPendingAdd E R l cur amt tt t = (Inr (), t') \<and> txview l t' =
    (txview l t)(KPending (sb_Address cur) (sb_Link cur) \<mapsto>
       VPending \<lparr>pi_Source = sb_Address src, pi_Amount = amt, pi_Type = tt\<rparr>)"
proof -
  have "GetHash (cf_H E) src = sb_Link cur" using well_typed_blk(2) [OF assms(2,3)] .
  moreover have "\<not> IsPrivate (block_read l None (sb_Link cur) src)" using assms(4) by (simp add: IsPrivate_def)
  ultimately show ?thesis
    using assms(5) by (simp add: rollBackPendingAdd_def ledger_reads [OF assms(1,2)] assms(3) AddPending_def)
qed

lemma SubRepresentation_ok:
  assumes "mc_inv (l_cache l)" "well_typed E (txview l t)" "benefit_at (txview l t) a \<noteq> None"
  shows "\<exists>t'. SubRepresentation l a d t = (Inr (), t') \<and>
    txview l t' = (txview l t)(KRepresentation a \<mapsto>
      VBenefit (Benefit_Clone (Benefit_minus (benefit_or_zero (txview l t) a) d)))"
  using assms(3)
  by (auto simp: SubRepresentation_def tx_reads [OF assms(1,2)] of_option_def setRepresentation_def benefit_or_zero_def
      split: option.splits)

lemma DeleteStateBlock_run:
  assumes "mc_inv (l_cache l)" "well_typed E (lview l)" "blk (lview l) h = Some b" "Parent b \<noteq> ZeroHash"
  shows "\<exists>t'. DeleteStateBlock l h t = (Inr (), t') \<and> txview l t' = undo_block E b (txview l t)"
proof -
  have "GetHash (cf_H E) b = h" using well_typed_blk(2) [OF assms(2,3)] .
  moreover have "Parent (block_read l None h b) = Parent b" by (simp add: Parent_def IsOpen_def)
  ultimately show ?thesis
    using assms(4) by (simp add: DeleteStateBlock_def ledger_reads [OF assms(1,2)] assms(3) deleteBlockChild_def deleteBlockLink_def
        publish_def undo_block_def)
qed

section \<open>The newest block of a chain\<close>

lemma block_read_public [simp]: "\<not> IsPrivate b \<Longrightarrow> block_read l c h b = b"
  by (simp add: block_read_def with_payload_def)

lemma onT_app: "onT m s = (fst (m (r_tx s)), s\<lparr>r_tx := snd (m (r_tx s))\<rparr>)"
  by (simp add: onT_def split: prod.split)

lemma bindM_returnM [simp]: "bindM m returnM = m"
  by (auto simp: bindM_def fun_eq_iff split: prod.split sum.split)

lemma onU_app: "onU m s = (fst (m (r_utx s)), s\<lparr>r_utx := snd (m (r_utx s))\<rparr>)"
  by (simp add: onU_def split: prod.split)

definition owners_ok :: "(address \<rightharpoonup> account_meta) \<Rightarrow> bool" where
  "owners_ok ac \<longleftrightarrow> (\<forall>a am. ac a = Some am \<longrightarrow> am_Address am = a)"

lemma rollbackCacheAccountDel_ok:
  assumes "owners_ok (u_accountCache u)"
  shows "\<exists>u'. rollbackCacheAccountDel a tt u = (Inr (), u')"
proof (cases "u_accountCache u a")
  case (Some am)
  then have "am_Address am = a" using assms by (simp add: owners_ok_def)
  with Some show ?thesis
    by (simp add: rollbackCacheAccountDel_def GetAccountMeteCache_batch_def DeleteAccountMetaCache_def
        DeleteTokenMetaCache_def UpdateAccountMeteCache_def bindM_def)
qed (simp add: rollbackCacheAccountDel_def GetAccountMeteCache_batch_def)

lemma drop_cache_blocks_ok:
  "\<exists>s'. mapME (\<lambda>b. bindM (onU (DeleteBlockCache (GetHash (cf_H E) b)))
      (\<lambda>_. onT (publish (EventRollback (GetHash (cf_H E) b))))) bs s = (Inr (), s') \<and>
    t_cache (r_tx s') = t_cache (r_tx s) \<and> u_accountCache (r_utx s') = u_accountCache (r_utx s)"
proof (induction bs arbitrary: s)
  case (Cons b bs)
  let ?s1 = "s\<lparr>r_utx := (r_utx s)\<lparr>u_blockCache :=
      filter (\<lambda>(h', _). h' \<noteq> GetHash (cf_H E) b) (u_blockCache (r_utx s))\<rparr>,
    r_tx := (r_tx s)\<lparr>t_events := t_events (r_tx s) @ [EventRollback (GetHash (cf_H E) b)]\<rparr>\<rparr>"
  show ?case using Cons.IH [of ?s1] by (simp add: bindM_def onU_app onT_app DeleteBlockCache_def publish_def)
qed simp

lemma checkBlockCache_ok:
  assumes "owners_ok (u_accountCache (r_utx s))" "\<not> IsSendBlock b"
  shows "\<exists>s'. checkBlockCache E now l b s = (Inr (), s') \<and> t_cache (r_tx s') = t_cache (r_tx s)"
proof (cases "cache_blocks_of l b")
  case Nil
  with assms(2) rollbackCacheAccountDel_ok [OF assms(1), of "sb_Address b" "sb_Token b"] show ?thesis
    by (auto simp: checkBlockCache_def Let_def bindM_def onU_app)
next
  case (Cons x xs)
  obtain s1 where s1: "mapME (\<lambda>b. bindM (onU (DeleteBlockCache (GetHash (cf_H E) b)))
      (\<lambda>_. onT (publish (EventRollback (GetHash (cf_H E) b))))) (x # xs) s = (Inr (), s1)"
    "t_cache (r_tx s1) = t_cache (r_tx s)" "u_accountCache (r_utx s1) = u_accountCache (r_utx s)"
    using drop_cache_blocks_ok [of E "x # xs" s] by blast
  obtain u' where "rollbackCacheAccountDel (sb_Address x) (sb_Token x) (r_utx s1) = (Inr (), u')"
    using rollbackCacheAccountDel_ok [of "r_utx s1"] assms(1) s1(3) by auto
  with Cons s1(1,2) assms(2) show ?thesis
    by (simp add: checkBlockCache_def Let_def rollbackCacheBlocks_def bindM_Inr [where s = s and s' = s1] onU_app del: mapME.simps)
qed

text \<open>A chain whose newest block is rolled back, in terms of the two batch steps on that block.\<close>

lemma rollback_chain_header:
  assumes "mc_inv (l_cache l)" "well_typed E (lview l)" "\<not> IsSendBlock b" "owners_ok (l_accountCache l)"
    and "if IsOpen b then pre = zero_block
         else (\<exists>p. blk (lview l) (sb_Previous b) = Some p \<and> pre = block_read l None (sb_Previous b) p)"
    and "rollback_block E R T n now l [] tm b pre (start_tx l) = (Inr (), t1)" "DeleteStateBlock l h t1 = (Inr (), t2)"
  shows "\<exists>s. rollback_chain (Suc n) E R T now l [] tm h h b (start_rtx l) = (Inr (), s) \<and> t_cache (r_tx s) = t_cache t2"
proof -
  have p: "(if IsOpen b then Inr zero_block
       else case GetStateBlockConfirmed l None (sb_Previous b) of
              Inl _ \<Rightarrow> Inl (ErrMsg ''get previous block'') | Inr p \<Rightarrow> Inr p) = Inr pre"
    using assms(5) by (auto simp: ledger_reads [OF assms(1,2)] split: if_splits)
  let ?s = "(start_rtx l)\<lparr>r_tx := t2\<lparr>t_events := t_events t2 @ [EventRollback h]\<rparr>\<rparr>"
  obtain s where "checkBlockCache E now l b ?s = (Inr (), s)" "t_cache (r_tx s) = t_cache t2"
    using checkBlockCache_ok [of ?s b E now l] assms(3,4) by (auto simp: start_rtx_def)
  moreover have "r_tx (start_rtx l) = start_tx l" by (simp add: start_rtx_def start_tx_def)
  ultimately show ?thesis
    using assms(6,7) by (simp add: p bindM_def onT_app publish_def)
qed

lemma Rollback_header:
  assumes "ledger_inv E l" "\<not> HasBlockCache l h" "tok (lview l) (sb_Address b) (sb_Token b) = Some tm" "tm_Header tm = h"
    and "blk (lview l) h = Some b" "\<not> IsPrivate b" "\<not> IsSendBlock b" "owners_ok (l_accountCache l)"
    and "if IsOpen b then pre = zero_block
         else (\<exists>p. blk (lview l) (sb_Previous b) = Some p \<and> pre = block_read l None (sb_Previous b) p)"
    and "rollback_block E R T (Suc n) now l [] tm b pre (start_tx l) = (Inr (), t1)" "DeleteStateBlock l h t1 = (Inr (), t2)"
    and "0 < qcap" "ord [b] = [b]" "GetCache e (l_cache l) \<noteq> None"
  shows "\<exists>l'. Rollback (Suc (Suc n)) qcap ord E R T now e h l = Some (Inr (), l') \<and> lview l' = txview l t2"
proof -
  note i = ledger_invD [OF assms(1)]
  have g: "GetHash (cf_H E) b = h" using well_typed_blk(2) [OF i(2) assms(5)] .
  have has: "HasStateBlockConfirmed l h = Inr True"
    using well_typed_blk(1) [OF i(2) assms(5)] by (simp add: view_simps i(1))
  have get: "GetStateBlockConfirmed l None h = Inr b" using assms(5,6) by (simp add: ledger_reads [OF i(1,2)])
  have hd: "header_of l b = Inr (tm, b)"
    using GetTokenMetaConfirmed_Inr [OF i(1,2), of "sb_Address b" "sb_Token b" tm] assms(3,4) get by (simp add: header_of_def)
  have c: "collect (Suc (Suc n)) qcap E l [] (queue_put qcap h []) = Inr [(chain_key E b, b)]"
    using assms(7,12) by (simp add: queue_put_def get put_oldest_def hd queue_link_def g)
  obtain s where s: "rollback_chain (Suc (Suc n)) E R T now l [] tm h h b (start_rtx l) = (Inr (), s)"
    "t_cache (r_tx s) = t_cache t2"
    using rollback_chain_header [OF i(1,2) assms(7-11)] by blast
  have r: "rollbackBlocks (Suc (Suc n)) E R T now l [b] (start_rtx l) = (Inr (), s)"
    using s(1) assms(4,7) by (simp add: rollbackBlocks_def hd g bindM_def del: rollback_chain.simps)
  obtain mc where mc: "BatchUpdate_commit e (t_cache t2) (l_cache l) = Some mc"
    using assms(14) by (auto simp: BatchUpdate_commit_def)
  let ?l = "l\<lparr>l_cache := mc, l_rcache := t_rcache (r_tx s), l_events := t_events (r_tx s),
      l_blockCache := u_blockCache (r_utx s), l_accountCache := u_accountCache (r_utx s)\<rparr>"
  have "Rollback (Suc (Suc n)) qcap ord E R T now e h l = Some (Inr (), ?l)"
    using assms(2,13) has c r s(2) mc by (simp add: Rollback_def del: collect.simps)
  moreover have "lview ?l = txview l t2"
    using commit_view [OF i(1) mc, of "l_store l"] by (simp add: lview_def txview_def)
  ultimately show ?thesis by blast
qed

section \<open>Receive, change and online blocks\<close>

definition undoable :: "state_block \<Rightarrow> bool" where
  "undoable b \<longleftrightarrow> sb_Type b = Receive \<or> sb_Type b = Change \<or> sb_Type b = Online"

lemma rollBackRep_undo:
  assumes "mc_inv (l_cache l)" "well_typed E (txview l t)" "undoable b"
    and "sb_Type b \<noteq> Receive \<or> sb_Token b = cf_ChainToken E \<Longrightarrow> benefit_at (txview l t) (sb_Representative b) \<noteq> None"
  shows "\<exists>t'. (if sb_Type b = Receive then rollBackRep E l (sb_Representative b) b (Some pre) False (sb_Token b)
       else rollBackRepChange l (sb_Representative pre) (sb_Representative b) b) t = (Inr (), t') \<and>
    txview l t' = undo_rep E b pre (txview l t)"
proof (cases "sb_Type b = Receive")
  case True
  then show ?thesis
    using SubRepresentation_ok [OF assms(1,2), of "sb_Representative b" "block_diff b pre"] assms(4)
    by (auto simp: rollBackRep_def undo_rep_def Let_def)
next
  case False
  obtain t1 where t1: "AddRepresentation l (sb_Representative pre) (block_benefit b) t = (Inr (), t1)"
    "txview l t1 = (txview l t)(KRepresentation (sb_Representative pre) \<mapsto>
      VBenefit (Benefit_Clone (Benefit_plus (benefit_or_zero (txview l t) (sb_Representative pre)) (block_benefit b))))"
    using AddRepresentation_run [OF assms(1,2)] by blast
  have "well_typed E (txview l t1)" unfolding t1(2) using assms(2) by (intro well_typed_upd) simp_all
  from SubRepresentation_ok [OF assms(1) this, of "sb_Representative b" "block_benefit b"] t1 False assms(4)
  show ?thesis by (auto simp: rollBackRepChange_def bindM_def undo_rep_def Let_def)
qed

lemma undo_chain_typed:
  assumes "well_typed E m" "am_Address ac = sb_Address cur"
  shows "well_typed E (undo_chain E now cur pre ac op m)"
  unfolding undo_chain_def using assms by (intro well_typed_upd well_typed_del) (simp_all add: prev_account_def)

lemma rollback_block_view:
  assumes "mc_inv (l_cache l)" "well_typed E (lview l)" "undoable b" "tm_BelongTo tm = sb_Address b"
    and "acct (lview l) (sb_Address b) = Some ac" "AccountMeta_Token ac (sb_Token b) \<noteq> None" "sb_Token pre = sb_Token b"
    and "hash_at (lview l) (KFrontier (GetHash (cf_H E) b)) = Some op" "GetHash (cf_H E) pre \<noteq> ZeroHash"
    and "sb_Type b \<noteq> Receive \<or> sb_Token b = cf_ChainToken E \<Longrightarrow> benefit_at (lview l) (sb_Representative b) \<noteq> None"
    and "sb_Type b = Receive \<Longrightarrow> blk (lview l) (sb_Link b) = Some src \<and> \<not> IsPrivate src"
  shows "\<exists>t. rollback_block E R T n now l [] tm b pre (start_tx l) = (Inr (), t) \<and>
    txview l t = undo_pending E b pre src (undo_rep E b pre (undo_chain E now b pre ac op (lview l)))"
proof -
  let ?s = "start_tx l" and ?h = "GetHash (cf_H E) b" and ?p = "GetHash (cf_H E) pre"
  have w: "well_typed E (txview l ?s)" using assms(2) by simp
  obtain t1 where t1: "rollBackToken E now l tm pre ?s = (Inr (), t1)"
    "txview l t1 = (lview l)(KAccount (sb_Address b) \<mapsto> VAccount (AccountMeta_Clone (prev_account E now pre ac)))"
    using rollBackToken_run [OF assms(1) w, of tm ac pre now] assms(4-7) by auto
  have a: "am_Address ac = sb_Address b" using well_typed_acct(2) [OF assms(2,5)] .
  have w1: "well_typed E (txview l t1)"
    unfolding t1(2) using assms(2) a by (intro well_typed_upd) (simp_all add: prev_account_def)
  obtain t2 where t2: "rollBackFrontier l ?p ?h t1 = (Inr (), t2)" "txview l t2 = undo_chain E now b pre ac op (lview l)"
    using rollBackFrontier_run [OF assms(1) w1, of ?h op ?p] assms(8,9) t1(2) by (auto simp: undo_chain_def hash_at_def)
  have w2: "well_typed E (txview l t2)" unfolding t2(2) by (rule undo_chain_typed [OF assms(2) a])
  have "benefit_at (txview l t2) r = benefit_at (lview l) r" for r
    unfolding t2(2) by (simp add: undo_chain_def benefit_at_def)
  then obtain t3 where t3: "(if sb_Type b = Receive then rollBackRep E l (sb_Representative b) b (Some pre) False (sb_Token b)
       else rollBackRepChange l (sb_Representative pre) (sb_Representative b) b) t2 = (Inr (), t3)"
    "txview l t3 = undo_rep E b pre (txview l t2)"
    using rollBackRep_undo [OF assms(1) w2 assms(3), of pre] assms(10) by auto
  show ?thesis
  proof (cases "sb_Type b = Receive")
    case True
    then show ?thesis
      using rollBackPendingAdd_run [OF assms(1,2), of b src R "Balance_Sub (sb_Balance b) (sb_Balance pre)" "sb_Token b" t3]
        assms(11) t1(1) t2 t3 by (auto simp: rollback_block_def Let_def bindM_def undo_pending_def)
  next
    case False
    then show ?thesis using assms(3) t1(1) t2 t3
      by (auto simp: rollback_block_def Let_def bindM_def undo_pending_def undoable_def)
  qed
qed

section \<open>Processing and rolling back\<close>

text \<open>What an undo relies on: tokens name their account, the coin fields of an account are those of the
  newest block of its main chain, frontiers and links are of confirmed blocks, and a pending comes
  from a confirmed block that has not been received.\<close>

definition settled :: "config \<Rightarrow> (key \<rightharpoonup> val) \<Rightarrow> bool" where
  "settled E m \<longleftrightarrow>
     (\<forall>a tt tm. tok m a tt = Some tm \<longrightarrow> tm_BelongTo tm = a) \<and>
     (\<forall>a am tm hb. acct m a = Some am \<longrightarrow> AccountMeta_Token am (cf_ChainToken E) = Some tm \<longrightarrow>
        blk m (tm_Header tm) = Some hb \<longrightarrow> set_coins E hb am = am) \<and>
     (\<forall>h. hash_at m (KFrontier h) \<noteq> None \<longrightarrow> blk m h \<noteq> None) \<and>
     (\<forall>a h p. pend m a h = Some p \<longrightarrow> hash_at m (KLink h) = None \<and>
        (\<exists>src. blk m h = Some src \<and> sb_Address src = pi_Source p))"

lemma settledD:
  assumes "settled E m"
  shows "tok m a tt = Some tm \<Longrightarrow> tm_BelongTo tm = a"
    "acct m a = Some am \<Longrightarrow> AccountMeta_Token am (cf_ChainToken E) = Some tm' \<Longrightarrow> blk m (tm_Header tm') = Some hb \<Longrightarrow>
       set_coins E hb am = am"
    "blk m h = None \<Longrightarrow> hash_at m (KFrontier h) = None"
    "pend m a h = Some p \<Longrightarrow> hash_at m (KLink h) = None"
    "pend m a h = Some p \<Longrightarrow> \<exists>src. blk m h = Some src \<and> sb_Address src = pi_Source p"
  using assms unfolding settled_def by blast+

lemma undo_rep_other: "(\<And>a. k \<noteq> KRepresentation a) \<Longrightarrow> undo_rep E b pre n k = n k"
  by (simp add: undo_rep_def Let_def)

lemma spec_undo_tables:
  fixes b E m now pre src ac op
  defines "h \<equiv> GetHash (cf_H E) b" and "m' \<equiv> spec_undo E now b pre src ac op m"
  shows "blk m' x = (if x = h then None else blk m x)"
    and "acct m' a = (if a = sb_Address b then Some (AccountMeta_Clone (prev_account E now pre ac)) else acct m a)"
    and "hash_at m' (KChild x) = (if x = Parent b then None else hash_at m (KChild x))"
    and "hash_at m' (KLink x) = (if x = sb_Link b then None else hash_at m (KLink x))"
    and "hash_at m' (KFrontier x) = (if x = GetHash (cf_H E) pre then Some op else if x = h then None else hash_at m (KFrontier x))"
    and "pend m' a x = (if sb_Type b = Receive \<and> a = sb_Address b \<and> x = sb_Link b
       then Some \<lparr>pi_Source = sb_Address src, pi_Amount = Balance_Sub (sb_Balance b) (sb_Balance pre), pi_Type = sb_Token b\<rparr>
       else pend m a x)"
    and "benefit_at m' r = benefit_at (undo_rep E b pre m) r"
proof -
  show "benefit_at m' r = benefit_at (undo_rep E b pre m) r"
    unfolding m'_def spec_undo_def undo_block_def undo_pending_def undo_rep_def Let_def
    by (auto simp: benefit_at_def benefit_or_zero_def undo_chain_def)
qed (simp_all add: m'_def h_def spec_undo_def undo_block_def undo_pending_def undo_chain_def table_defs undo_rep_other)

definition touch :: "int \<Rightarrow> hash \<Rightarrow> account_meta \<Rightarrow> account_meta" where
  "touch now tt am = am\<lparr>am_Tokens := upd_token tt (\<lambda>t. t\<lparr>tm_Modified := now\<rparr>) (am_Tokens am)\<rparr>"

lemma upd_token_undo:
  assumes "find (\<lambda>t. tm_Type t = tt) ts = Some tm" "map TokenMeta_Clone ts = ts"
    and "\<And>t. tm_Type (f t) = tm_Type t" "TokenMeta_Clone (g (TokenMeta_Clone (f tm))) = k tm"
  shows "map TokenMeta_Clone (upd_token tt g (map TokenMeta_Clone (upd_token tt f ts))) = upd_token tt k ts"
  using assms(1,2)
proof (induction ts)
  case (Cons x ts)
  show ?case
  proof (cases "tm_Type x = tt")
    case True
    then have "x = tm" using Cons.prems(1) by simp
    with True Cons.prems assms(3,4) show ?thesis by (simp add: o_def)
  next
    case False
    with Cons assms(3) show ?thesis by simp
  qed
qed simp

lemma prev_next_account:
  assumes "AccountMeta_Token am (sb_Token b) = Some tm" "sb_Token pre = sb_Token b" "AccountMeta_Clone am = am"
    and "sb_Balance pre = tm_Balance tm" "GetHash (cf_H E) pre = tm_Header tm" "sb_Representative pre = tm_Representative tm"
    and "sb_Token b = cf_ChainToken E \<Longrightarrow> set_coins E pre am = am"
  shows "AccountMeta_Clone (prev_account E now' pre (AccountMeta_Clone (next_account E now b am))) = touch now' (sb_Token b) am"
proof -
  have ts: "map TokenMeta_Clone (am_Tokens am) = am_Tokens am" using arg_cong [OF assms(3), of am_Tokens] by simp
  have tm: "find (\<lambda>t. tm_Type t = sb_Token b) (am_Tokens am) = Some tm" using assms(1) by (simp add: AccountMeta_Token_def)
  have "tm \<in> set (am_Tokens am)" using tm by (auto simp: find_Some_iff)
  then have "TokenMeta_Clone tm = tm" using ts by (metis map_eq_conv list.map_ident)
  then have "0 \<le> tm_Balance tm" using TokenMeta_Clone_sels(6) [of tm] by simp
  then have k: "TokenMeta_Clone (prev_token_meta E now' pre (TokenMeta_Clone (next_token_meta E now b tm))) =
      tm\<lparr>tm_Modified := now'\<rparr>"
    using assms(4-6) by (simp add: prev_token_meta_def next_token_meta_def TokenMeta_Clone_def)
  have tok: "am_Tokens (AccountMeta_Clone (prev_account E now' pre (AccountMeta_Clone (next_account E now b am)))) =
      am_Tokens (touch now' (sb_Token b) am)"
    using upd_token_undo [OF tm ts, of "next_token_meta E now b" "prev_token_meta E now' pre" "\<lambda>t. t\<lparr>tm_Modified := now'\<rparr>"] k
    by (simp add: prev_account_def next_account_def touch_def assms(1,2))
  show ?thesis
  proof (cases "sb_Token b = cf_ChainToken E")
    case True
    from assms(7) [OF True] have "am_CoinBalance am = Some (sb_Balance pre)" "am_CoinOracle am = Some (StateBlock_GetOracle pre)"
      "am_CoinNetwork am = Some (StateBlock_GetNetwork pre)" "am_CoinVote am = Some (StateBlock_GetVote pre)"
      "am_CoinStorage am = Some (StateBlock_GetStorage pre)"
      unfolding set_coins_def using True assms(2) by (metis (mono_tags) account_meta.select_convs account_meta.surjective
        account_meta.update_convs)+
    with True assms(2) tok show ?thesis
      by (simp add: account_meta.equality prev_account_def next_account_def set_coins_def touch_def)
  next
    case False
    with assms(2) tok show ?thesis
      by (simp add: account_meta.equality prev_account_def next_account_def set_coins_def touch_def)
  qed
qed

lemma spec_link: "hash_at (spec_process E now b m) (KLink x) =
    (if IsReceiveBlock b \<and> x = sb_Link b then Some (GetHash (cf_H E) b) else hash_at m (KLink x))"
  by (simp add: spec_process_def spec_rep_def spec_sub_rep_def spec_account_def spec_frontier_def spec_pending_def
      spec_block_def Let_def hash_at_def split: option.split BlockType.split)

lemma undoable_previous:
  assumes "good E l" "transfer E l b" "undoable b" "BlockCheck E R l b = pass" "sb_Previous b \<noteq> ZeroHash"
  obtains tm am pre where "tok (lview l) (sb_Address b) (sb_Token b) = Some tm" "sb_Previous b = tm_Header tm"
    "acct (lview l) (sb_Address b) = Some am" "AccountMeta_Token am (sb_Token b) = Some tm"
    "blk (lview l) (sb_Previous b) = Some pre" "sb_Token pre = sb_Token b" "sb_Balance pre = tm_Balance tm"
    "sb_Representative pre = tm_Representative tm" "hash_at (lview l) (KFrontier (sb_Previous b)) = Some (tm_OpenBlock tm)"
    "hash_at (lview l) (KChild (sb_Previous b)) = None"
proof -
  have i: "ledger_inv E l" and f: "free_headers (lview l)" using assms(1) by (simp_all add: good_def)
  have "has_parent E b" using transferD(2) [OF assms(2)] assms(3,5) by (simp add: has_parent_def IsOpen_def)
  then obtain tm where tm: "tok (lview l) (sb_Address b) (sb_Token b) = Some tm" "sb_Previous b = tm_Header tm"
    using transfer_previous [OF i assms(4,2)] by blast
  obtain am where am: "acct (lview l) (sb_Address b) = Some am" "tm \<in> set (am_Tokens am)" "tm_Type tm = sb_Token b"
    by (rule tok_Some [OF tm(1)])
  have "AccountMeta_Token am (sb_Token b) = Some tm" using tm(1) am(1) by (simp add: tok_def)
  moreover from chain_account(2) [OF ledger_invD(3) [OF i] am(1,2)] obtain pre where "blk (lview l) (tm_Header tm) = Some pre"
    "sb_Token pre = sb_Token b" "sb_Balance pre = tm_Balance tm" "sb_Representative pre = tm_Representative tm"
    "hash_at (lview l) (KFrontier (tm_Header tm)) = Some (tm_OpenBlock tm)" using am(3) by (auto simp: header_ok_def)
  ultimately show thesis using that tm am(1) free_headersD(1) [OF f tm(1)] by metis
qed

lemma StateBlock_Clone_public: "IsPrivate (StateBlock_Clone b) = IsPrivate b" "sb_Type (StateBlock_Clone b) = sb_Type b"
  by (simp_all add: IsPrivate_def)

lemma change_checked:
  assumes "BlockCheck E R l b = pass" "sb_Type b = Change \<or> sb_Type b = Online"
  shows "sb_Token b = cf_ChainToken E" "sb_Link b = ZeroHash"
  using assms by (auto simp: BlockCheck_def newBlockCheck_def changeBlockCheck_def onlineBlockCheck_def split: if_splits)

lemma receive_source:
  assumes "good E l" "transfer E l b" "BlockCheck E R l b = pass" "sb_Type b = Receive" "settled E (lview l)"
  obtains tm p src where "tok (lview l) (sb_Address b) (sb_Token b) = Some tm"
    "pend (lview l) (sb_Address b) (sb_Link b) = Some p" "blk (lview l) (sb_Link b) = Some src"
    "p = \<lparr>pi_Source = sb_Address src, pi_Amount = sb_Balance b - tm_Balance tm, pi_Type = sb_Token b\<rparr>"
    "hash_at (lview l) (KLink (sb_Link b)) = None"
proof -
  have g: "ledger_inv E l" "amounts_ok (lview l)" using assms(1) by (simp_all add: good_def)
  obtain tm p where p: "tok (lview l) (sb_Address b) (sb_Token b) = Some tm"
    "pend (lview l) (sb_Address b) (sb_Link b) = Some p" "pi_Type p = sb_Token b" "pi_Amount p = sb_Balance b - tm_Balance tm"
    by (rule transfer_receive [OF g assms(3,2,4)])
  obtain src where "blk (lview l) (sb_Link b) = Some src" "sb_Address src = pi_Source p"
    using settledD(5) [OF assms(5) p(2)] by blast
  with p settledD(4) [OF assms(5) p(2)] that show thesis by (cases p) auto
qed

lemma undoable_processed:
  assumes "good E l" "transfer E l b" "undoable b" "Process E R now e b l = Some (pass, l1)"
  shows "BlockCheck E R l b = pass" "ledger_inv E l1" "lview l1 = spec_process E now b (lview l)"
    "blk (lview l) (GetHash (cf_H E) b) = None"
proof -
  have i: "ledger_inv E l" "amounts_ok (lview l)" using assms(1) by (simp_all add: good_def)
  show chk: "BlockCheck E R l b = pass" using assms(4) by (auto simp: Process_def split: prod.splits if_splits)
  show "ledger_inv E l1"
    by (rule Process_inv [OF i(1) assms(4) transferD(2) [OF assms(2)]]) (use assms(3) in \<open>auto simp: undoable_def keeps_block_def\<close>)
  show "lview l1 = spec_process E now b (lview l)"
    using assms(4) i(1) process_refines [OF ledger_invD(1,2) [OF i(1)] transferD(1) [OF assms(2)]]
    by (cases rule: Process_cases) auto
  show "blk (lview l) (GetHash (cf_H E) b) = None" by (rule transfer_fresh(1) [OF i chk transferD(2) [OF assms(2)]])
qed

lemma undoable_clone:
  assumes "undoable b" "\<not> IsPrivate b" "sb_Previous b \<noteq> ZeroHash"
  shows "undoable (StateBlock_Clone b)" "\<not> IsSendBlock (StateBlock_Clone b)" "\<not> IsPrivate (StateBlock_Clone b)"
    "\<not> IsOpen (StateBlock_Clone b)" "Parent (StateBlock_Clone b) = sb_Previous b"
  using assms by (auto simp: undoable_def IsSendBlock_def IsPrivate_def IsOpen_def Parent_def)

lemma rollback_processed:
  assumes "good E l" "transfer E l b" "undoable b" "\<not> IsPrivate b" "settled E (lview l)" "sb_Previous b \<noteq> ZeroHash"
    and "Process E R now e b l = Some (pass, l1)" "\<not> HasBlockCache l1 (GetHash (cf_H E) b)" "owners_ok (l_accountCache l1)"
    and "0 < qcap" "\<And>x. ord [x] = [x]" "GetCache e1 (l_cache l1) \<noteq> None"
    and "\<And>src. sb_Type b = Receive \<Longrightarrow> blk (lview l) (sb_Link b) = Some src \<Longrightarrow> \<not> IsPrivate src"
    and "tok (lview l) (sb_Address b) (sb_Token b) = Some tm" "sb_Previous b = tm_Header tm"
    "acct (lview l) (sb_Address b) = Some am" "AccountMeta_Token am (sb_Token b) = Some tm"
    "blk (lview l) (sb_Previous b) = Some pre" "sb_Token pre = sb_Token b"
  shows "\<exists>l2 src. Rollback (Suc (Suc n)) qcap ord E R T now1 e1 (GetHash (cf_H E) b) l1 = Some (Inr (), l2) \<and>
    lview l2 = spec_undo E now1 (StateBlock_Clone b) (block_read l1 None (sb_Previous b) pre) src
      (AccountMeta_Clone (next_account E now b am)) (tm_OpenBlock tm) (lview l1) \<and>
    (sb_Type b = Receive \<longrightarrow> blk (lview l) (sb_Link b) = Some src)"
proof -
  let ?h = "GetHash (cf_H E) b" and ?c = "StateBlock_Clone b" and ?p = "block_read l1 None (sb_Previous b) pre"
  let ?tm = "TokenMeta_Clone (next_token_meta E now b tm)" and ?ac = "AccountMeta_Clone (next_account E now b am)"
  note pr = undoable_processed [OF assms(1-3,7)] and und = undoable_clone [OF assms(3,4,6)]
  note w1 = ledger_invD(1,2) [OF pr(2)] and st = spec_tables [of E now b "lview l", folded pr(3)]
  have w0: "well_typed E (lview l)" using assms(1) ledger_invD(2) by (simp add: good_def)
  have tm1: "tok (lview l1) (sb_Address b) (sb_Token b) = Some ?tm"
    using spec_tok [OF w0, of now b] assms(14) by (simp add: pr(3) token_after_def)
  have ac1: "acct (lview l1) (sb_Address b) = Some ?ac" using assms(16) by (simp add: st account_after_def)
  then have at: "AccountMeta_Token ?ac (sb_Token b) \<noteq> None" using tm1 by (simp add: tok_def)
  have b1: "blk (lview l1) ?h = Some ?c" by (simp add: st)
  have p1: "blk (lview l1) (sb_Previous b) = Some pre" using assms(18) pr(4) by (auto simp: st)
  have ph: "GetHash (cf_H E) pre = sb_Previous b" using well_typed_blk(2) [OF w0 assms(18)] .
  have fr: "hash_at (lview l1) (KFrontier ?h) = Some (tm_OpenBlock tm)" using assms(14) by (simp add: st token_after_def)
  have rep: "benefit_at (lview l1) (sb_Representative b) \<noteq> None" if "sb_Type b \<noteq> Receive \<or> sb_Token b = cf_ChainToken E"
    using that change_checked(1) [OF pr(1)] assms(3) spec_benefit [of "lview l" "sb_Representative b" b E now]
    by (auto simp: pr(3) undoable_def)
  obtain src where src: "sb_Type b = Receive \<longrightarrow> blk (lview l1) (sb_Link b) = Some src \<and> \<not> IsPrivate src"
    "sb_Type b = Receive \<longrightarrow> blk (lview l) (sb_Link b) = Some src"
  proof (cases "sb_Type b = Receive")
    case True
    then obtain src where s: "blk (lview l) (sb_Link b) = Some src" using receive_source [OF assms(1,2) pr(1) _ assms(5)] by blast
    with pr(4) have "blk (lview l1) (sb_Link b) = Some src" by (auto simp: st)
    with s that [of src] assms(13) [OF True s] show thesis by simp
  qed (use that in simp)
  have bt: "tm_BelongTo ?tm = sb_Address b" using settledD(1) [OF assms(5,14)] by simp
  obtain t1 where t1: "rollback_block E R T (Suc n) now1 l1 [] ?tm ?c ?p (start_tx l1) = (Inr (), t1)"
    "txview l1 t1 = undo_pending E ?c ?p src (undo_rep E ?c ?p (undo_chain E now1 ?c ?p ?ac (tm_OpenBlock tm) (lview l1)))"
    using rollback_block_view [OF w1 und(1), of ?tm ?ac ?p "tm_OpenBlock tm" src R T "Suc n" now1]
      bt ac1 at assms(6,19) fr ph rep src(1) by auto
  obtain t2 where t2: "DeleteStateBlock l1 ?h t1 = (Inr (), t2)" "txview l1 t2 = undo_block E ?c (txview l1 t1)"
    using DeleteStateBlock_run [OF w1 b1, of t1] und(5) assms(6) by auto
  have "\<exists>l2. Rollback (Suc (Suc n)) qcap ord E R T now1 e1 ?h l1 = Some (Inr (), l2) \<and> lview l2 = txview l1 t2"
    by (rule Rollback_header [OF pr(2) assms(8) _ _ b1 und(3,2) assms(9) _ t1(1) t2(1) assms(10) _ assms(12)])
      (use tm1 und(4) p1 assms(11) in auto)
  then show ?thesis using t1(2) t2(2) src(2) unfolding spec_undo_def by metis
qed

text \<open>The rollback of a block that was just processed, in the tables: everything but the time stamp of
  the token and the voting weights is as before.\<close>

lemma undo_tables:
  assumes "good E l" "transfer E l b" "undoable b" "\<not> IsPrivate b" "settled E (lview l)" "sb_Previous b \<noteq> ZeroHash"
    and "Process E R now e b l = Some (pass, l1)" "hash_at (lview l) (KLink ZeroHash) = None"
    and "tok (lview l) (sb_Address b) (sb_Token b) = Some tm" "sb_Previous b = tm_Header tm"
    "acct (lview l) (sb_Address b) = Some am" "AccountMeta_Token am (sb_Token b) = Some tm"
    "blk (lview l) (sb_Previous b) = Some pre" "sb_Token pre = sb_Token b" "sb_Balance pre = tm_Balance tm"
    "sb_Representative pre = tm_Representative tm" "hash_at (lview l) (KFrontier (sb_Previous b)) = Some (tm_OpenBlock tm)"
    "hash_at (lview l) (KChild (sb_Previous b)) = None"
    and "sb_Type b = Receive \<longrightarrow> blk (lview l) (sb_Link b) = Some src"
    and m2: "m2 = spec_undo E now1 (StateBlock_Clone b) (block_read l1 None (sb_Previous b) pre) src
      (AccountMeta_Clone (next_account E now b am)) (tm_OpenBlock tm) (lview l1)"
  shows "blk m2 x = blk (lview l) x" "pend m2 a x = pend (lview l) a x"
    "hash_at m2 (KChild x) = hash_at (lview l) (KChild x)" "hash_at m2 (KLink x) = hash_at (lview l) (KLink x)"
    "hash_at m2 (KFrontier x) = hash_at (lview l) (KFrontier x)"
    "acct m2 a = (if a = sb_Address b then Some (touch now1 (sb_Token b) am) else acct (lview l) a)"
proof -
  let ?h = "GetHash (cf_H E) b" and ?p = "block_read l1 None (sb_Previous b) pre"
  note pr = undoable_processed [OF assms(1-3,7)] and und = undoable_clone [OF assms(3,4,6)]
  note st = spec_tables [of E now b "lview l", folded pr(3)] and sl = spec_link [of E now b "lview l", folded pr(3)]
    and sp = spec_pend [of E now b "lview l", folded pr(3)]
  have w0: "well_typed E (lview l)" and i: "ledger_inv E l" and am: "amounts_ok (lview l)"
    using assms(1) ledger_invD(2) by (auto simp: good_def)
  have ph: "GetHash (cf_H E) pre = sb_Previous b" using well_typed_blk(2) [OF w0 assms(13)] .
  have nz: "sb_Previous b \<noteq> ?h" using assms(13) pr(4) by auto
  have bal: "\<bar>sb_Balance b\<bar> = sb_Balance b" using transferD(4) [OF assms(2)] by simp
  have rcv: "IsReceiveBlock b \<longleftrightarrow> sb_Type b = Receive" "sb_Type b \<noteq> Send" using assms(3) by (auto simp: undoable_def IsReceiveBlock_def)
  have hp: "has_parent E b" using transferD(2) [OF assms(2)] assms(6) by (simp add: has_parent_def IsOpen_def)
  show "blk m2 x = blk (lview l) x" using pr(4) by (simp add: m2 spec_undo_tables st)
  show "hash_at m2 (KChild x) = hash_at (lview l) (KChild x)" using assms(18) hp by (simp add: m2 spec_undo_tables st und(5))
  show "hash_at m2 (KFrontier x) = hash_at (lview l) (KFrontier x)"
    using assms(9,10,17) settledD(3) [OF assms(5) pr(4)] ph by (simp add: m2 spec_undo_tables st)
  have lk: "hash_at (lview l) (KLink (sb_Link b)) = None"
    using receive_source [OF assms(1,2) pr(1) _ assms(5)] change_checked(2) [OF pr(1)] assms(3,8)
    by (auto simp: undoable_def)
  then show "hash_at m2 (KLink x) = hash_at (lview l) (KLink x)" by (simp add: m2 spec_undo_tables sl)
  show "pend m2 a x = pend (lview l) a x"
  proof (cases "sb_Type b = Receive")
    case True
    then obtain p where p: "pend (lview l) (sb_Address b) (sb_Link b) = Some p"
      "p = \<lparr>pi_Source = sb_Address src, pi_Amount = sb_Balance b - tm_Balance tm, pi_Type = sb_Token b\<rparr>"
      using receive_source [OF assms(1,2) pr(1) _ assms(5)] assms(9,19) by (metis option.inject)
    have "Balance_Sub (sb_Balance b) (tm_Balance tm) = sb_Balance b - tm_Balance tm"
      using Balance_Sub_exact [OF transferD(4) [OF assms(2)] amounts_okD(1) [OF am assms(9)]] amounts_okD(2) [OF am p(1)] p(2) by simp
    then show ?thesis using True p assms(15) bal by (simp add: m2 spec_undo_tables sp rcv)
  qed (simp add: m2 spec_undo_tables sp rcv)
  have "AccountMeta_Clone (prev_account E now1 ?p (AccountMeta_Clone (next_account E now b am))) = touch now1 (sb_Token b) am"
  proof (rule prev_next_account [OF assms(12)])
    assume c: "sb_Token b = cf_ChainToken E"
    have "set_coins E ?p am = set_coins E pre am"
      by (simp add: set_coins_def StateBlock_GetOracle_def StateBlock_GetNetwork_def StateBlock_GetVote_def StateBlock_GetStorage_def)
    also have "\<dots> = am" using settledD(2) [OF assms(5,11)] assms(10,12,13) c by simp
    finally show "set_coins E ?p am = am" .
  qed (use assms ph well_typed_acct(3) [OF w0 assms(11)] in simp_all)
  then show "acct m2 a = (if a = sb_Address b then Some (touch now1 (sb_Token b) am) else acct (lview l) a)"
    by (simp add: m2 spec_undo_tables st)
qed

lemma benefit_or_zero_upd: "benefit_or_zero (m(KRepresentation x \<mapsto> VBenefit v)) y = (if y = x then v else benefit_or_zero m y)"
  by (simp add: benefit_or_zero_def)

lemma undo_rep_weight:
  "bf_Balance (benefit_or_zero (undo_rep E cur pre m) r) =
    (let w = (\<lambda>x. bf_Balance (benefit_or_zero m x));
         w1 = (\<lambda>x. if x = sb_Representative pre then Balance_Add (w x) (sb_Balance cur) else w x)
     in if sb_Type cur = Receive
        then if sb_Token cur = cf_ChainToken E \<and> r = sb_Representative cur
             then Balance_Sub (w r) (Balance_Sub (sb_Balance cur) (sb_Balance pre)) else w r
        else if r = sb_Representative cur then Balance_Sub (w1 r) (sb_Balance cur) else w1 r)"
proof -
  have abs: "\<bar>Balance_Sub x y\<bar> = Balance_Sub x y" "\<bar>Balance_Add x y\<bar> = Balance_Add x y" for x y
    using Balance_Sub_fits [of x y] Balance_Add_fits [of x y] by simp_all
  show ?thesis
    by (simp add: undo_rep_def Let_def benefit_or_zero_upd Benefit_Clone_def Benefit_minus_def Benefit_plus_def block_benefit_def
        block_diff_def abs)
qed

text \<open>A receive is rolled back at the representative the block names only: when it had changed the
  representative, the account's balance stays with the new one.\<close>

lemma Sub_gain: "fits64 w \<Longrightarrow> fits64 x \<Longrightarrow> 0 \<le> y \<Longrightarrow> y \<le> x \<Longrightarrow> x - y \<le> w \<Longrightarrow> Balance_Sub w (Balance_Sub x y) = w - (x - y)"
  by (simp add: Balance_Sub_exact)

lemma Add_Sub_swap:
  assumes "0 \<le> w" "0 \<le> x" "w + x < 2 ^ 64" "q \<Longrightarrow> x \<le> w"
  shows "(let v = (if p then Balance_Add w x else w) in if q then Balance_Sub v x else v) = w + (if p then x else 0) - (if q then x else 0)"
  using assms by (simp add: Let_def Balance_Add_exact Balance_Sub_exact)

lemma undo_weight:
  assumes "good E l" "transfer E l b" "undoable b" "Process E R now e b l = Some (pass, l1)" "sb_Previous b \<noteq> ZeroHash"
    and "weights_ok E (lview l)" "total_supply (lview l) (cf_ChainToken E) < 2 ^ 63" "r \<noteq> ZeroAddress"
    and "tok (lview l) (sb_Address b) (sb_Token b) = Some tm" "tm_Representative tm \<noteq> ZeroAddress"
    and "sb_Balance pre = tm_Balance tm" "sb_Representative pre = tm_Representative tm"
    and m2: "m2 = spec_undo E now1 (StateBlock_Clone b) (block_read l1 None (sb_Previous b) pre) src ac op (lview l1)"
  shows "bf_Balance (benefit_or_zero m2 r) = bf_Balance (benefit_or_zero (lview l) r) +
    (if sb_Type b = Receive \<and> sb_Token b = cf_ChainToken E
     then (if r = sb_Representative b then tm_Balance tm else 0) - (if r = tm_Representative tm then tm_Balance tm else 0)
     else 0)"
proof -
  let ?m = "lview l" and ?c = "cf_ChainToken E"
  have g: "ledger_inv E l" "amounts_ok ?m" using assms(1) by (simp_all add: good_def)
  note pr = undoable_processed [OF assms(1-4)] and t = transferD [OF assms(2)]
  have step: "transfer_step E R l l1" by (rule ts_process [OF assms(4,2)])
  have g1: "amounts_ok (lview l1)" using transfer_step_good [OF step assms(1)] by (simp add: good_def)
  have bz: "benefit_or_zero m2 x = benefit_or_zero (undo_rep E (StateBlock_Clone b) (block_read l1 None (sb_Previous b) pre) (lview l1)) x" for x
    by (simp add: benefit_or_zero_def m2 spec_undo_tables(7))
  have bal: "\<bar>sb_Balance b\<bar> = sb_Balance b" "fits64 (tm_Balance tm)" using t(4) amounts_okD(1) [OF g(2) assms(9)] by simp_all
  have sup: "total_supply (lview l1) ?c = total_supply ?m ?c"
    using transfer_supply [OF g pr(1) assms(2)] by (simp add: pr(3))
  have w: "bf_Balance (benefit_or_zero ?m x) = delegation E ?m x" "bf_Balance (benefit_or_zero (lview l1) x) = delegation E (lview l1) x"
    if "x \<noteq> ZeroAddress" for x
    using that assms(6) transfer_step_weights [OF step assms(1,6)] assms(7) by (simp_all add: weights_ok_def)
  have b: "0 \<le> delegation E ?m x" "delegation E ?m x < 2 ^ 63" "0 \<le> delegation E (lview l1) x" "delegation E (lview l1) x < 2 ^ 63"
    "delegated E ?m x (sb_Address b) \<le> delegation E ?m x" "delegated E (lview l1) x (sb_Address b) \<le> delegation E (lview l1) x" for x
    using delegation_bounds [OF g(2), of E x] delegation_bounds [OF g1, of E x] assms(7) sup by auto
  have d: "delegation E (lview l1) x = delegation E ?m x + (if sb_Token b = ?c
     then (if sb_Representative b = x then sb_Balance b else 0) - delegated E ?m x (sb_Address b) else 0)" for x
    unfolding pr(3) by (rule spec_delegation [OF ledger_invD(2) [OF g(1)]]) (use t(4) in simp)
  have wt: "bf_Balance (benefit_or_zero m2 r) =
    (if sb_Type b = Receive
     then if sb_Token b = ?c \<and> r = sb_Representative b
          then Balance_Sub (delegation E (lview l1) r) (Balance_Sub (sb_Balance b) (tm_Balance tm)) else delegation E (lview l1) r
     else let w = (if r = tm_Representative tm then Balance_Add (delegation E (lview l1) r) (sb_Balance b) else delegation E (lview l1) r)
          in if r = sb_Representative b then Balance_Sub w (sb_Balance b) else w)"
    unfolding bz undo_rep_weight Let_def w(2) [OF assms(8), symmetric] by (simp add: bal(1) assms(11,12))
  show ?thesis
  proof (cases "sb_Token b = ?c")
    case False
    then have "sb_Type b = Receive" using change_checked(1) [OF pr(1)] assms(3) by (auto simp: undoable_def)
    with False wt d [of r] w(1) [OF assms(8)] show ?thesis by simp
  next
    case True
    have dm: "delegated E ?m r (sb_Address b) = (if tm_Representative tm = r then tm_Balance tm else 0)"
      using assms(9) True by (simp add: delegated_def)
    have d1: "delegated E (lview l1) r (sb_Address b) = (if sb_Representative b = r then sb_Balance b else 0)"
      using spec_delegated [OF ledger_invD(2) [OF g(1)], of b now r "sb_Address b"] t(4) True by (simp add: pr(3))
    show ?thesis
    proof (cases "sb_Type b = Receive")
      case rcv: True
      then obtain p where "pend ?m (sb_Address b) (sb_Link b) = Some p" "pi_Amount p = sb_Balance b - tm_Balance tm"
        using transfer_receive [OF g pr(1) assms(2)] assms(9) by (metis option.inject)
      then have le: "tm_Balance tm \<le> sb_Balance b" using amounts_okD(2) [OF g(2)] by fastforce
      have "Balance_Sub (delegation E (lview l1) r) (Balance_Sub (sb_Balance b) (tm_Balance tm)) =
          delegation E (lview l1) r - (sb_Balance b - tm_Balance tm)" if "sb_Representative b = r"
        by (rule Sub_gain) (use b(3-6) [of r] d1 that le bal(2) t(4) in auto)
      then show ?thesis using wt rcv True d [of r] dm w(1) [OF assms(8)] by auto
    next
      case ch: False
      then have eq: "sb_Balance b = tm_Balance tm"
        using transfer_same [OF g(1) pr(1) assms(2)] assms(3,9) by (metis undoable_def option.inject)
      have "sb_Balance b \<le> delegation E (lview l1) r" if "r = sb_Representative b" using b(6) [of r] d1 that by simp
      moreover have "delegation E (lview l1) r + sb_Balance b < 2 ^ 64" using b(4) [of r] b(2) [of "tm_Representative tm"] b(5) [of "tm_Representative tm"] assms(9) True eq
        by (simp add: delegated_def)
      ultimately show ?thesis using wt ch True d [of r] dm w(1) [OF assms(8)] eq t(4) b(3) [of r]
        by (simp add: Add_Sub_swap)
    qed
  qed
qed

lemma rollback_newest:
  assumes "good E l" "settled E (lview l)" "weights_ok E (lview l)" "total_supply (lview l) (cf_ChainToken E) < 2 ^ 63"
    and "hash_at (lview l) (KLink ZeroHash) = None"
    and "transfer E l b" "undoable b" "\<not> IsPrivate b" "sb_Previous b \<noteq> ZeroHash" "Process E R now e b l = Some (pass, l1)"
    and "tok (lview l) (sb_Address b) (sb_Token b) = Some tm" "tm_Representative tm \<noteq> ZeroAddress"
    and "\<And>src. sb_Type b = Receive \<Longrightarrow> blk (lview l) (sb_Link b) = Some src \<Longrightarrow> \<not> IsPrivate src"
    and "\<not> HasBlockCache l1 (GetHash (cf_H E) b)" "owners_ok (l_accountCache l1)"
    and "0 < qcap" "\<And>x. ord [x] = [x]" "GetCache e1 (l_cache l1) \<noteq> None"
  obtains l2 where "Rollback (Suc (Suc n)) qcap ord E R T now1 e1 (GetHash (cf_H E) b) l1 = Some (Inr (), l2)"
    "\<And>x. blk (lview l2) x = blk (lview l) x" "\<And>a x. pend (lview l2) a x = pend (lview l) a x"
    "\<And>x. hash_at (lview l2) (KChild x) = hash_at (lview l) (KChild x)"
    "\<And>x. hash_at (lview l2) (KLink x) = hash_at (lview l) (KLink x)"
    "\<And>x. hash_at (lview l2) (KFrontier x) = hash_at (lview l) (KFrontier x)"
    "\<And>a. acct (lview l2) a =
       (if a = sb_Address b then map_option (touch now1 (sb_Token b)) (acct (lview l) a) else acct (lview l) a)"
    "\<And>r. r \<noteq> ZeroAddress \<Longrightarrow> bf_Balance (benefit_or_zero (lview l2) r) = bf_Balance (benefit_or_zero (lview l) r) +
       (if sb_Type b = Receive \<and> sb_Token b = cf_ChainToken E
        then (if r = sb_Representative b then tm_Balance tm else 0) - (if r = tm_Representative tm then tm_Balance tm else 0)
        else 0)"
proof -
  note pr = undoable_processed [OF assms(1,6,7,10)]
  obtain tm' am pre where u: "tok (lview l) (sb_Address b) (sb_Token b) = Some tm'" "sb_Previous b = tm_Header tm'"
    "acct (lview l) (sb_Address b) = Some am" "AccountMeta_Token am (sb_Token b) = Some tm'"
    "blk (lview l) (sb_Previous b) = Some pre" "sb_Token pre = sb_Token b" "sb_Balance pre = tm_Balance tm'"
    "sb_Representative pre = tm_Representative tm'" "hash_at (lview l) (KFrontier (sb_Previous b)) = Some (tm_OpenBlock tm')"
    "hash_at (lview l) (KChild (sb_Previous b)) = None" by (rule undoable_previous [OF assms(1,6,7) pr(1) assms(9)])
  have [simp]: "tm' = tm" using u(1) assms(11) by simp
  obtain l2 src where l2: "Rollback (Suc (Suc n)) qcap ord E R T now1 e1 (GetHash (cf_H E) b) l1 = Some (Inr (), l2)"
    "lview l2 = spec_undo E now1 (StateBlock_Clone b) (block_read l1 None (sb_Previous b) pre) src
      (AccountMeta_Clone (next_account E now b am)) (tm_OpenBlock tm') (lview l1)"
    "sb_Type b = Receive \<longrightarrow> blk (lview l) (sb_Link b) = Some src"
    using rollback_processed [OF assms(1,6,7,8,2,9,10,14-18,13) u(1-6)] by metis
  note t = undo_tables [OF assms(1,6,7,8,2,9,10,5) u l2(3) l2(2)]
  note w = undo_weight [OF assms(1,6,7,10,9,3,4) _ u(1) _ u(7,8) l2(2)]
  show thesis using w assms(12) by (intro that [OF l2(1)]) (simp_all add: t u(3))
qed

end
