(* ===== verification/Ledger_Rollback_Thms.thy ===== *)
theory Ledger_Rollback_Thms
  imports Ledger_Undo Ledger_Theorems
begin

text \<open>The theorems on rollbacks: what rolling back the newest block restores, and three places where the
  rollback and the rest of the ledger do not fit together.\<close>

section \<open>Open blocks\<close>

lemma rollBackTokenDel_run:
  assumes "mc_inv (l_cache l)" "well_typed E (lview l)" "txview l t = lview l" "acct (lview l) (tm_BelongTo tm) = Some am"
  shows "\<exists>t'. rollBackTokenDel l tm t = (Inr (), t') \<and> (\<exists>v. txview l t' = (lview l)(KAccount (tm_BelongTo tm) := v)) \<and>
    well_typed E (txview l t')"
proof -
  let ?ac = "am\<lparr>am_Tokens := del_token (tm_Type tm) (am_Tokens am)\<rparr>"
  have a: "am_Address am = tm_BelongTo tm" using well_typed_acct(2) [OF assms(2,4)] .
  obtain t1 where d: "DeleteTokenMetaConfirmed l (tm_BelongTo tm) (tm_Type tm) t = (Inr (), t1)"
    and v: "txview l t1 = (lview l)(KAccount (tm_BelongTo tm) \<mapsto> VAccount (AccountMeta_Clone ?ac))"
    using assms(3,4) a by (simp add: DeleteTokenMetaConfirmed_def ledger_reads [OF assms(1,2)] UpdateAccountMeta_def)
  have w: "well_typed E (txview l t1)" unfolding v using assms(2) a by (intro well_typed_upd) simp_all
  have r: "GetAccountMetaConfirmed l (Some (t_cache t1)) (tm_BelongTo tm) = Inr (AccountMeta_Clone ?ac)"
    unfolding tx_reads(4) [OF assms(1) w] v by (simp add: acct_def)
  have "rollBackTokenDel l tm t =
      (if am_Tokens (AccountMeta_Clone ?ac) = [] then DeleteAccountMeta (tm_BelongTo tm) t1 else (Inr (), t1))"
    unfolding rollBackTokenDel_def using d r by (simp add: bindM_def)
  then show ?thesis using v w well_typed_del [OF assms(2)] by (auto simp: DeleteAccountMeta_def)
qed

text \<open>Rolling back an open block writes to its own account, frontier, representative and pending only; the
  block and child tables change when the block itself is deleted.\<close>

lemma rollback_open_view:
  assumes "mc_inv (l_cache l)" "well_typed E (lview l)" "sb_Type b = Open"
    and "acct (lview l) (tm_BelongTo tm) = Some am" "hash_at (lview l) (KFrontier (GetHash (cf_H E) b)) = Some op"
    and "sb_Token b = cf_ChainToken E \<Longrightarrow> benefit_at (lview l) (sb_Representative b) \<noteq> None"
    and "blk (lview l) (sb_Link b) = Some src" "\<not> IsPrivate src"
  shows "\<exists>t. rollback_block E R T n now l [] tm b pre (start_tx l) = (Inr (), t) \<and>
    (\<forall>x. txview l t (KBlock x) = lview l (KBlock x) \<and> txview l t (KChild x) = lview l (KChild x))"
proof -
  let ?h = "GetHash (cf_H E) b"
  obtain t1 v where t1: "rollBackTokenDel l tm (start_tx l) = (Inr (), t1)" "txview l t1 = (lview l)(KAccount (tm_BelongTo tm) := v)"
    "well_typed E (txview l t1)" using rollBackTokenDel_run [OF assms(1,2) txview_start assms(4)] by blast
  have b1: "benefit_at (txview l t1) r = benefit_at (lview l) r" for r by (simp add: t1(2) benefit_at_def)
  obtain t2 where t2: "rollBackRep E l (sb_Representative b) b None False (sb_Token b) t1 = (Inr (), t2)"
    "\<forall>k. (\<forall>r. k \<noteq> KRepresentation r) \<longrightarrow> txview l t2 k = txview l t1 k" "well_typed E (txview l t2)"
  proof (cases "sb_Token b = cf_ChainToken E")
    case True
    obtain t2 where s: "SubRepresentation l (sb_Representative b) (block_benefit b) t1 = (Inr (), t2)"
      "txview l t2 = (txview l t1)(KRepresentation (sb_Representative b) \<mapsto>
        VBenefit (Benefit_Clone (Benefit_minus (benefit_or_zero (txview l t1) (sb_Representative b)) (block_benefit b))))"
      using SubRepresentation_ok [OF assms(1) t1(3)] assms(6) [OF True] b1 by metis
    show thesis
      by (rule that [of t2]) (use s True t1(3) in \<open>auto simp: rollBackRep_def intro!: well_typed_upd\<close>)
  qed (use that [of t1] t1(3) in \<open>simp add: rollBackRep_def\<close>)
  have "hash_at (txview l t2) (KFrontier ?h) = Some op" using assms(5) t2(2) t1(2) by (simp add: hash_at_def)
  then obtain t3 where t3: "rollBackFrontier l ZeroHash ?h t2 = (Inr (), t3)" "txview l t3 = (txview l t2)(KFrontier ?h := None)"
    by (simp add: rollBackFrontier_def tx_reads [OF assms(1) t2(3)] DeleteFrontier_def)
  obtain t4 p where "rollBackPendingAdd E R l b (tm_Balance tm) (sb_Token b) t3 = (Inr (), t4)"
    "txview l t4 = (txview l t3)(KPending (sb_Address b) (sb_Link b) \<mapsto> p)"
    using rollBackPendingAdd_run [OF assms(1,2,7,8)] assms(3) by fastforce
  with t1 t2 t3 assms(3) show ?thesis by (auto simp: rollback_block_def Let_def bindM_def)
qed

section \<open>Examples\<close>

text \<open>Account 100 names representative 8 instead of 7.\<close>

definition ex_change :: state_block where
  "ex_change = (ex_block Change 100 150 243 0 2)\<lparr>sb_Representative := 8\<rparr>"

lemma ex_change_sels [simp]:
  "sb_Type ex_change = Change" "sb_Address ex_change = 100" "sb_Balance ex_change = 150" "sb_Link ex_change = 0"
  "sb_Token ex_change = 1" "sb_Previous ex_change = 243" "sb_PrivateFrom ex_change = []" "sb_Representative ex_change = 8"
  by (simp_all add: ex_change_def ex_block_def)

lemma ex_change_hash [simp]: "GetHash (cf_H ex_config) ex_change = 244"
  by code_simp

lemma ex_change_checked: "BlockCheck ex_config ex_registry ex_ledger ex_change = pass"
  by code_simp

lemma ex_links [simp]: "hash_at ex_store (KLink x) = None"
  by (simp add: hash_at_def ex_store_def)

lemma ex_account_token: "AccountMeta_Token ex_account tt = (if tt = 1 then Some ex_token else None)"
  by (simp add: ex_account_def AccountMeta_Token_def ex_token_def)

lemma ex_settled: "settled ex_config ex_store"
proof -
  have "set_coins ex_config ex_send ex_account = ex_account" by (simp add: set_coins_def ex_send_def ex_block_def ex_account_def
      StateBlock_GetOracle_def StateBlock_GetNetwork_def StateBlock_GetVote_def StateBlock_GetStorage_def)
  moreover have "tm_BelongTo ex_token = 100" "tm_Header ex_token = 243" "pi_Source ex_pending = 100"
    by (simp_all add: ex_token_def ex_pending_def)
  ultimately show ?thesis
    unfolding settled_def by (auto simp: ex_tok ex_tables ex_account_token split: if_splits)
qed

lemma BatchUpdate_unconfirmed:
  "BatchUpdate e f l = Some (q, l') \<Longrightarrow> l_blockCache l' = l_blockCache l \<and> l_accountCache l' = l_accountCache l"
  by (auto simp: BatchUpdate_def split: prod.splits sum.splits)

lemma Process_unconfirmed:
  assumes "Process E R now e b l = Some (r, l')"
  shows "l_blockCache l' = l_blockCache l \<and> l_accountCache l' = l_accountCache l"
proof (cases "BlockCheck E R l b = pass")
  case False
  then show ?thesis using assms by (auto simp: Process_def split: prod.splits if_splits)
next
  case True
  then obtain q l1 where q: "BlockProcess E R now e b l = Some (q, l1)" using assms by (auto simp: Process_def)
  then obtain q2 l2 where q2: "BatchUpdate e (processStateBlock E R now l b) l = Some (q2, l2)" by (auto simp: BlockProcess_def)
  have "l_blockCache l1 = l_blockCache l2 \<and> l_accountCache l1 = l_accountCache l2"
    using q q2 by (cases q2) (auto simp: BlockProcess_def)
  then show ?thesis using True assms q BatchUpdate_unconfirmed [OF q2] by (cases q) (auto simp: Process_def)
qed

lemma ex_changed:
  obtains l where "Process ex_config ex_registry 0 False ex_change ex_ledger = Some (pass, l)"
    "l_blockCache l = []" "l_accountCache l = Map.empty" "transfer ex_config ex_ledger ex_change"
proof -
  have "l_verified ex_ledger = (\<lambda>_. False)" by (simp add: ex_ledger_def)
  then have t: "transfer ex_config ex_ledger ex_change"
    by (simp add: transfer_def ordinary_def IsGenesisBlock_def own_chain_def ex_view ex_tok)
  have p: "\<not> CheckPrivateRecvRsp ex_change" by (simp add: CheckPrivateRecvRsp_def IsPrivate_def)
  have "GetCache False (l_cache ex_ledger) \<noteq> None" by (simp add: GetCache_def needsFlush_def)
  then obtain l where l: "Process ex_config ex_registry 0 False ex_change ex_ledger = Some (pass, l)"
    using transfer_processed [OF ex_inv _ t p ex_change_checked] ex_good unfolding good_def by blast
  with Process_unconfirmed [OF l] t that show thesis by (simp add: ex_ledger_def)
qed

text \<open>Account 100 has another 5 units to receive, from block 242, and does so with representative 8.\<close>

definition ex2_store :: "key \<rightharpoonup> val" where
  "ex2_store = ex_store(KPending 100 242 \<mapsto> VPending \<lparr>pi_Source = 100, pi_Amount = 5, pi_Type = 1\<rparr>)"

definition ex2_ledger :: ledger where
  "ex2_ledger = ex_ledger\<lparr>l_store := ex2_store\<rparr>"

definition ex_receive :: state_block where
  "ex_receive = (ex_block Receive 100 155 243 242 3)\<lparr>sb_Representative := 8\<rparr>"

lemma ex_receive_sels [simp]:
  "sb_Type ex_receive = Receive" "sb_Address ex_receive = 100" "sb_Balance ex_receive = 155" "sb_Link ex_receive = 242"
  "sb_Token ex_receive = 1" "sb_Previous ex_receive = 243" "sb_PrivateFrom ex_receive = []" "sb_Representative ex_receive = 8"
  by (simp_all add: ex_receive_def ex_block_def)

lemma ex_receive_hash [simp]: "GetHash (cf_H ex_config) ex_receive = 245"
  by code_simp

lemma ex_receive_checked: "BlockCheck ex_config ex_registry ex2_ledger ex_receive = pass"
  by code_simp

lemma ex2_view: "lview ex2_ledger = ex2_store"
  by (simp add: lview_def mc_view_def ex2_ledger_def ex_ledger_def NewMemoryCache_overlay)

lemma ex2_tables:
  "blk ex2_store h = blk ex_store h" "acct ex2_store a = acct ex_store a" "hash_at ex2_store (KChild p) = hash_at ex_store (KChild p)"
  "hash_at ex2_store (KFrontier p) = hash_at ex_store (KFrontier p)" "hash_at ex2_store (KLink p) = None"
  "pend ex2_store a h = (if a = 100 \<and> h = 242 then Some \<lparr>pi_Source = 100, pi_Amount = 5, pi_Type = 1\<rparr> else pend ex_store a h)"
  "benefit_at ex2_store a = benefit_at ex_store a" "tok ex2_store a tt = tok ex_store a tt"
  by (simp_all add: ex2_store_def table_defs tok_def) (simp add: ex_store_def)

lemma ex2_good: "good ex_config ex2_ledger"
proof -
  have "well_typed ex_config ex2_store" unfolding ex2_store_def using ex_typed by (intro well_typed_upd) simp_all
  moreover have "mc_inv (l_cache ex2_ledger)" by (simp add: ex2_ledger_def ex_ledger_def NewMemoryCache_inv)
  ultimately show ?thesis using ex_good
    by (simp add: good_def ledger_inv_def ex2_view ex_view chain_ok_def header_ok_def rep_ok_def amounts_ok_def free_headers_def ex2_tables
        ex_tables)
qed

lemma ex2_settled: "settled ex_config ex2_store"
  using ex_settled by (auto simp: settled_def ex2_tables ex_tables ex_genesis_def ex_block_def)

lemma ex2_weights: "weights_ok ex_config ex2_store"
  using ex_weights by (simp add: weights_ok_def coins_ok_def delegation_def delegated_def benefit_or_zero_def ex2_tables)

lemma ex2_supply: "total_supply ex2_store 1 = 205"
proof -
  have b: "tok_balance ex2_store a 1 = (if a = 100 then 150 else 0)" for a
    by (simp add: tok_balance_def ex2_tables ex_tok ex_token_def)
  have p: "pend_amount ex2_store 1 ah = (if ah = (101, 243) then 50 else 0) + (if ah = (100, 242) then 5 else 0)" for ah
    by (cases ah) (simp add: pend_amount_def ex2_tables ex_tables ex_pending_def)
  show ?thesis unfolding total_supply_def b p by (simp add: sum.distrib)
qed

text \<open>Account 101 has received the 50 units, and account 100 has gone on with a change block.\<close>

definition ex_next :: state_block where "ex_next = ex_block Change 100 150 243 0 3"

definition ex3_account :: "address \<Rightarrow> hash \<Rightarrow> hash \<Rightarrow> int \<Rightarrow> account_meta" where
  "ex3_account a hdr op bal =
     \<lparr>am_Address = a, am_CoinBalance = Some bal, am_CoinVote = Some 0, am_CoinNetwork = Some 0, am_CoinStorage = Some 0,
      am_CoinOracle = Some 0, am_Tokens = [\<lparr>tm_Type = 1, tm_Header = hdr, tm_Representative = 7, tm_OpenBlock = op,
        tm_Balance = bal, tm_BelongTo = a, tm_Modified = 0, tm_BlockCount = 1\<rparr>]\<rparr>"

definition ex3_store :: "key \<rightharpoonup> val" where
  "ex3_store =
     [KBlock 242 \<mapsto> VBlock ex_genesis, KBlock 243 \<mapsto> VBlock ex_send, KBlock 244 \<mapsto> VBlock ex_open, KBlock 245 \<mapsto> VBlock ex_next,
      KChild 242 \<mapsto> VHash 243, KChild 243 \<mapsto> VHash 245, KLink 243 \<mapsto> VHash 244,
      KAccount 100 \<mapsto> VAccount (ex3_account 100 245 242 150), KAccount 101 \<mapsto> VAccount (ex3_account 101 244 244 50),
      KFrontier 245 \<mapsto> VHash 242, KFrontier 244 \<mapsto> VHash 244,
      KRepresentation 7 \<mapsto> VBenefit \<lparr>bf_Balance = 200, bf_Vote = 0, bf_Network = 0, bf_Storage = 0, bf_Oracle = 0, bf_Total = 200\<rparr>]"

definition ex3_ledger :: ledger where
  "ex3_ledger = ex_ledger\<lparr>l_store := ex3_store\<rparr>"

lemma ex_next_hash [simp]: "GetHash (cf_H ex_config) ex_next = 245"
  by code_simp

lemma ex_next_sels [simp]: "sb_Previous ex_next = 243" "sb_Address ex_next = 100" "sb_Token ex_next = 1" "sb_Balance ex_next = 150"
  "sb_Representative ex_next = 7" "sb_Type ex_next = Change" "sb_PrivateFrom ex_next = []"
  by (simp_all add: ex_next_def ex_block_def)

lemma ex3_view: "lview ex3_ledger = ex3_store"
  by (simp add: lview_def mc_view_def ex3_ledger_def ex_ledger_def NewMemoryCache_overlay)

lemma ex3_tables:
  "blk ex3_store h = (if h = 242 then Some ex_genesis else if h = 243 then Some ex_send else if h = 244 then Some ex_open
     else if h = 245 then Some ex_next else None)"
  "acct ex3_store a = (if a = 100 then Some (ex3_account 100 245 242 150) else if a = 101 then Some (ex3_account 101 244 244 50) else None)"
  "hash_at ex3_store (KChild p) = (if p = 242 then Some 243 else if p = 243 then Some 245 else None)"
  "hash_at ex3_store (KFrontier p) = (if p = 245 then Some 242 else if p = 244 then Some 244 else None)"
  "benefit_at ex3_store 7 \<noteq> None"
  by (simp_all add: ex3_store_def table_defs)

lemma ex3_inv: "ledger_inv ex_config ex3_ledger"
proof -
  have "StateBlock_Clone b = b" if "b \<in> {ex_genesis, ex_send, ex_open, ex_next}" for b
    using that by (auto simp: StateBlock_Clone_def StateBlock_Unmarshal_def ex_genesis_def ex_send_def ex_open_def ex_next_def ex_block_def
        simp del: BlockType_String.simps)
  moreover have "AccountMeta_Clone (ex3_account a h p c) = ex3_account a h p c" "am_Address (ex3_account a h p c) = a" if "0 \<le> c" for a h p c
    using that by (simp_all add: AccountMeta_Clone_def ex3_account_def TokenMeta_Clone_def)
  ultimately have "well_typed ex_config ex3_store"
    unfolding ex3_store_def by (intro well_typed_upd) (simp_all add: well_typed_def Benefit_Clone_def)
  moreover have "IsGenesisBlock ex_config ex_genesis" "IsOpen ex_open" by (simp_all add: IsGenesisBlock_def IsOpen_def)
  then have "chain_ok ex_config ex3_store"
    unfolding chain_ok_def
    by (auto simp: ex3_tables has_parent_def ex3_account_def header_ok_def ex_send_def ex_block_def split: if_splits)
  moreover have "rep_ok ex_config ex3_store"
    using ex3_tables(5) by (auto simp: rep_ok_def tok_def ex3_tables(1-4) ex3_account_def AccountMeta_Token_def split: if_splits)
  moreover have "mc_inv (l_cache ex3_ledger)" by (simp add: ex3_ledger_def ex_ledger_def NewMemoryCache_inv)
  ultimately show ?thesis by (simp add: ledger_inv_def ex3_view)
qed

section \<open>Theorems\<close>

text \<open>C13: Rolling back the newest block of a chain undoes its processing. The block is a receive, change or
  online block that was just processed as a transfer and is not private, nor is the block it receives; a
  receive has kept the representative of the account, which is not the zero address; no unconfirmed copy
  of the block is left and a cache is free for the batch; the ledger is settled, weights are sums of
  delegated balances and the chain token's supply is below \<open>2^63\<close>. Then the rollback succeeds,
  and blocks, pendings, child, link and frontier entries, accounts up to the time stamp of the token, and
  the voting balances credited to representatives other than the zero address are those before the block.\<close>

theorem rollback_undoes:
  assumes "good E l" "settled E (lview l)" "weights_ok E (lview l)" "total_supply (lview l) (cf_ChainToken E) < 2 ^ 63"
    and "hash_at (lview l) (KLink ZeroHash) = None"
    and "transfer E l b" "undoable b" "\<not> IsPrivate b" "sb_Previous b \<noteq> ZeroHash" "Process E R now e b l = Some (pass, l1)"
    and "tok (lview l) (sb_Address b) (sb_Token b) = Some tm" "tm_Representative tm \<noteq> ZeroAddress"
    and "\<And>src. sb_Type b = Receive \<Longrightarrow> blk (lview l) (sb_Link b) = Some src \<Longrightarrow> \<not> IsPrivate src"
    and "sb_Type b = Receive \<Longrightarrow> sb_Representative b = tm_Representative tm"
    and "\<not> HasBlockCache l1 (GetHash (cf_H E) b)" "owners_ok (l_accountCache l1)"
    and "0 < qcap" "\<And>x. ord [x] = [x]" "GetCache e1 (l_cache l1) \<noteq> None"
  shows "\<exists>l2. Rollback (Suc (Suc n)) qcap ord E R T now1 e1 (GetHash (cf_H E) b) l1 = Some (Inr (), l2) \<and>
    (\<forall>x. blk (lview l2) x = blk (lview l) x) \<and> (\<forall>a x. pend (lview l2) a x = pend (lview l) a x) \<and>
    (\<forall>x. hash_at (lview l2) (KChild x) = hash_at (lview l) (KChild x)) \<and>
    (\<forall>x. hash_at (lview l2) (KLink x) = hash_at (lview l) (KLink x)) \<and>
    (\<forall>x. hash_at (lview l2) (KFrontier x) = hash_at (lview l) (KFrontier x)) \<and>
    (\<forall>a. acct (lview l2) a =
       (if a = sb_Address b then map_option (touch now1 (sb_Token b)) (acct (lview l) a) else acct (lview l) a)) \<and>
    (\<forall>r. r \<noteq> ZeroAddress \<longrightarrow> bf_Balance (benefit_or_zero (lview l2) r) = bf_Balance (benefit_or_zero (lview l) r))"
  by (rule rollback_newest [OF assms(1-13,15-19), where n = n and T = T and ?now1.0 = now1])
    (use assms(14) in \<open>auto split: if_splits\<close>)

theorem rollback_undoes_witness:
  "\<exists>l1 l2. Process ex_config ex_registry 0 False ex_change ex_ledger = Some (pass, l1) \<and>
     Rollback 2 510 id ex_config ex_registry \<lparr>tr_entries = \<lambda>_ _. [], tr_nodes = \<lambda>_ _. [], tr_convertible = \<lambda>_. True\<rparr> 9 False 244 l1
       = Some (Inr (), l2) \<and>
     blk (lview l1) 244 \<noteq> None \<and> blk (lview l2) 244 = None \<and>
     acct (lview l2) 100 = Some (touch 9 1 ex_account) \<and> bf_Balance (benefit_or_zero (lview l2) 7) = 150"
proof -
  let ?T = "\<lparr>tr_entries = \<lambda>_ _. [], tr_nodes = \<lambda>_ _. [], tr_convertible = \<lambda>_. True\<rparr>"
  obtain l1 where l1: "Process ex_config ex_registry 0 False ex_change ex_ledger = Some (pass, l1)"
    "l_blockCache l1 = []" "l_accountCache l1 = Map.empty" "transfer ex_config ex_ledger ex_change" by (rule ex_changed)
  have und: "undoable ex_change" "\<not> IsPrivate ex_change" by (simp_all add: undoable_def IsPrivate_def)
  have n2: "Suc (Suc 0) = 2" by simp
  have "GetCache False (l_cache l1) \<noteq> None" by (simp add: GetCache_def needsFlush_def)
  then obtain l2 where l2: "Rollback 2 510 id ex_config ex_registry ?T 9 False 244 l1 = Some (Inr (), l2)"
    "blk (lview l2) 244 = blk ex_store 244" "acct (lview l2) 100 = map_option (touch 9 1) (acct ex_store 100)"
    "bf_Balance (benefit_or_zero (lview l2) 7) = bf_Balance (benefit_or_zero ex_store 7)"
    using rollback_undoes [OF ex_good _ _ _ _ l1(4) und _ l1(1), of ex_token 510 id False 0 ?T 9] l1(2,3) ex_settled ex_weights ex_supply
    unfolding n2 by (auto simp: ex_view ex_tok ex_token_def HasBlockCache_def owners_ok_def)
  have "blk (lview l1) 244 \<noteq> None"
    using undoable_processed(3) [OF ex_good l1(4) und(1) l1(1)] by (simp add: spec_tables)
  with l1(1) l2 show ?thesis by (auto simp: ex_tables benefit_or_zero_def ex_benefit_def)
qed

text \<open>C14: The rollback of a receive that changed the representative moves voting power. The credited balance
  of the account, as it was before the receive, stays with the new representative and is missing at
  the old one, although the account names the old one again.\<close>

theorem rollback_misplaces_weight:
  assumes "good E l" "settled E (lview l)" "weights_ok E (lview l)" "total_supply (lview l) (cf_ChainToken E) < 2 ^ 63"
    and "hash_at (lview l) (KLink ZeroHash) = None"
    and "transfer E l b" "sb_Type b = Receive" "sb_Token b = cf_ChainToken E" "\<not> IsPrivate b" "sb_Previous b \<noteq> ZeroHash"
    and "Process E R now e b l = Some (pass, l1)"
    and "tok (lview l) (sb_Address b) (sb_Token b) = Some tm" "tm_Representative tm \<noteq> ZeroAddress"
    and "\<And>src. blk (lview l) (sb_Link b) = Some src \<Longrightarrow> \<not> IsPrivate src"
    and "sb_Representative b \<noteq> tm_Representative tm" "sb_Representative b \<noteq> ZeroAddress"
    and "\<not> HasBlockCache l1 (GetHash (cf_H E) b)" "owners_ok (l_accountCache l1)"
    and "0 < qcap" "\<And>x. ord [x] = [x]" "GetCache e1 (l_cache l1) \<noteq> None"
  shows "\<exists>l2 tm2. Rollback (Suc (Suc n)) qcap ord E R T now1 e1 (GetHash (cf_H E) b) l1 = Some (Inr (), l2) \<and>
    tok (lview l2) (sb_Address b) (sb_Token b) = Some tm2 \<and>
    tm_Representative tm2 = tm_Representative tm \<and> tm_Balance tm2 = tm_Balance tm \<and>
    bf_Balance (benefit_or_zero (lview l2) (tm_Representative tm)) =
      bf_Balance (benefit_or_zero (lview l) (tm_Representative tm)) - tm_Balance tm \<and>
    bf_Balance (benefit_or_zero (lview l2) (sb_Representative b)) =
      bf_Balance (benefit_or_zero (lview l) (sb_Representative b)) + tm_Balance tm"
proof -
  have und: "undoable b" using assms(7) by (simp add: undoable_def)
  have src: "\<And>src. sb_Type b = Receive \<Longrightarrow> blk (lview l) (sb_Link b) = Some src \<Longrightarrow> \<not> IsPrivate src" using assms(14) by blast
  obtain l2 where l2: "Rollback (Suc (Suc n)) qcap ord E R T now1 e1 (GetHash (cf_H E) b) l1 = Some (Inr (), l2)"
    "\<And>a. acct (lview l2) a =
       (if a = sb_Address b then map_option (touch now1 (sb_Token b)) (acct (lview l) a) else acct (lview l) a)"
    "\<And>r. r \<noteq> ZeroAddress \<Longrightarrow> bf_Balance (benefit_or_zero (lview l2) r) = bf_Balance (benefit_or_zero (lview l) r) +
       (if sb_Type b = Receive \<and> sb_Token b = cf_ChainToken E
        then (if r = sb_Representative b then tm_Balance tm else 0) - (if r = tm_Representative tm then tm_Balance tm else 0)
        else 0)"
    by (rule rollback_newest [OF assms(1-6) und assms(9-13) src assms(17-21), where n = n and T = T and ?now1.0 = now1])
      ((assumption | rule that)+)
  have t: "tok (lview l2) (sb_Address b) (sb_Token b) = Some (tm\<lparr>tm_Modified := now1\<rparr>)"
    using assms(12) find_upd_token [of "\<lambda>t. t\<lparr>tm_Modified := now1\<rparr>" "sb_Token b"]
    by (cases "acct (lview l) (sb_Address b)") (auto simp: l2(2) tok_def touch_def AccountMeta_Token_def)
  show ?thesis
    using l2(1) t l2(3) [of "tm_Representative tm"] l2(3) [of "sb_Representative b"] assms(7,8,13,15,16) by auto
qed

theorem rollback_misplaces_weight_witness:
  "\<exists>l1 l2. Process ex_config ex_registry 0 False ex_receive ex2_ledger = Some (pass, l1) \<and>
     Rollback 2 510 id ex_config ex_registry \<lparr>tr_entries = \<lambda>_ _. [], tr_nodes = \<lambda>_ _. [], tr_convertible = \<lambda>_. True\<rparr> 9 False 245 l1
       = Some (Inr (), l2) \<and>
     bf_Balance (benefit_or_zero (lview ex2_ledger) 7) = 150 \<and> bf_Balance (benefit_or_zero (lview l2) 7) = 0 \<and>
     bf_Balance (benefit_or_zero (lview l2) 8) = 150"
proof -
  let ?T = "\<lparr>tr_entries = \<lambda>_ _. [], tr_nodes = \<lambda>_ _. [], tr_convertible = \<lambda>_. True\<rparr>"
  have v: "l_verified ex2_ledger = (\<lambda>_. False)" by (simp add: ex2_ledger_def ex_ledger_def)
  have t: "transfer ex_config ex2_ledger ex_receive"
    by (simp add: transfer_def ordinary_def IsGenesisBlock_def own_chain_def ex2_view ex2_tables ex_tok v)
  have p: "\<not> CheckPrivateRecvRsp ex_receive" "\<not> IsPrivate ex_receive" by (simp_all add: CheckPrivateRecvRsp_def IsPrivate_def)
  have c: "GetCache False mc \<noteq> None" for mc :: "(key, val) memory_cache" by (simp add: GetCache_def needsFlush_def)
  obtain l1 where l1: "Process ex_config ex_registry 0 False ex_receive ex2_ledger = Some (pass, l1)"
    using transfer_processed [OF _ _ t p(1) ex_receive_checked c] ex2_good unfolding good_def by blast
  have u: "l_blockCache l1 = []" "l_accountCache l1 = Map.empty"
    using Process_unconfirmed [OF l1] by (simp_all add: ex2_ledger_def ex_ledger_def)
  have n2: "Suc (Suc 0) = 2" by simp
  have tm: "tok (lview ex2_ledger) 100 1 = Some ex_token" "tm_Representative ex_token = 7" "tm_Balance ex_token = 150"
    by (simp_all add: ex2_view ex2_tables ex_tok ex_token_def)
  have g: "\<not> IsPrivate ex_genesis" by (simp add: IsPrivate_def ex_genesis_def ex_block_def)
  obtain l2 where "Rollback 2 510 id ex_config ex_registry ?T 9 False 245 l1 = Some (Inr (), l2)"
    "bf_Balance (benefit_or_zero (lview l2) 7) = bf_Balance (benefit_or_zero (lview ex2_ledger) 7) - 150"
    "bf_Balance (benefit_or_zero (lview l2) 8) = bf_Balance (benefit_or_zero (lview ex2_ledger) 8) + 150"
    using rollback_misplaces_weight [OF ex2_good _ _ _ _ t _ _ p(2) _ l1, of ex_token 510 id False 0 ?T 9] u tm g
      ex2_settled ex2_weights ex2_supply c
    unfolding n2 by (auto simp: ex2_view ex2_tables ex_tables HasBlockCache_def owners_ok_def)
  with l1 show ?thesis
    by (auto simp: ex2_view ex2_tables ex_tables benefit_or_zero_def ex_benefit_def Benefit_Clone_def ZeroBenefit_def)
qed

text \<open>C15: An unreceived send blocks every rollback of its chain. \<open>GetBlockLink\<close> reports a missing entry with
  an error of its own, not with the \<open>ErrLinkNotFound\<close> the rollback passes over, so rolling back any
  block of a chain whose newest block is a send nobody has received fails and changes nothing.\<close>

theorem rollback_blocked_by_send:
  assumes "ledger_inv E l" "\<not> HasBlockCache l h" "blk (lview l) h = Some b"
    and "tok (lview l) (sb_Address b) (sb_Token b) = Some tm" "blk (lview l) (tm_Header tm) = Some hb"
    and "IsSendBlock hb" "hash_at (lview l) (KLink (tm_Header tm)) = None" "0 < qcap"
  shows "Rollback (Suc (Suc n)) qcap ord E R T now e h l = Some (Inl (ErrMsg ''can not get link hash''), l)"
proof -
  note i = ledger_invD [OF assms(1)]
  let ?b = "block_read l None h b" and ?hb = "block_read l None (tm_Header tm) hb"
  have has: "HasStateBlockConfirmed l h = Inr True"
    using well_typed_blk(1) [OF i(2) assms(3)] by (simp add: view_simps i(1))
  have hd: "header_of l ?b = Inr (tm, ?hb)"
    using GetTokenMetaConfirmed_Inr [OF i(1,2), of "sb_Address b" "sb_Token b" tm] assms(4,5)
    by (simp add: header_of_def ledger_reads [OF i(1,2)])
  have g: "GetHash (cf_H E) hb = tm_Header tm" using well_typed_blk(2) [OF i(2) assms(5)] .
  have "queue_link n qcap E l r ?hb q = Inl (ErrMsg ''can not get link hash'')" for r q
    using assms(6,7) by (simp add: queue_link_def g ledger_reads [OF i(1,2)] IsSendBlock_def)
  then have "collect (Suc (Suc n)) qcap E l [] (queue_put qcap h []) = Inl (ErrMsg ''can not get link hash'')"
    using assms(3,8) by (simp add: queue_put_def ledger_reads [OF i(1,2)] put_oldest_def hd)
  with assms(2) has show ?thesis by (simp add: Rollback_def del: collect.simps)
qed

theorem rollback_blocked_by_send_witness:
  "Rollback 2 510 id ex_config ex_registry \<lparr>tr_entries = \<lambda>_ _. [], tr_nodes = \<lambda>_ _. [], tr_convertible = \<lambda>_. True\<rparr> 9 False 242 ex_ledger
     = Some (Inl (ErrMsg ''can not get link hash''), ex_ledger)"
proof -
  have "\<not> HasBlockCache ex_ledger 242" by (simp add: HasBlockCache_def ex_ledger_def)
  moreover have "sb_Address ex_genesis = 100" "sb_Token ex_genesis = 1" "tm_Header ex_token = 243" "IsSendBlock ex_send"
    by (simp_all add: ex_genesis_def ex_block_def ex_token_def IsSendBlock_def)
  ultimately show ?thesis
    using rollback_blocked_by_send [OF ex_inv, of 242 ex_genesis ex_token ex_send 510 0] by (simp add: ex_view ex_tables ex_tok numeral_2_eq_2)
qed

text \<open>C16: Rolling back an open block makes its source lose its successor. The child entry that is deleted is
  that of \<open>Parent\<close>, for an open block the send it received; if the sender's chain has gone on, its
  next block stays confirmed without being the child of its previous block.\<close>

theorem rollback_open_loses_child:
  assumes "ledger_inv E l" "\<not> HasBlockCache l h" "blk (lview l) h = Some b" "sb_Type b = Open" "IsOpen b" "\<not> IsPrivate b"
    and "tok (lview l) (sb_Address b) (sb_Token b) = Some tm" "tm_Header tm = h" "tm_BelongTo tm = sb_Address b"
    and "sb_Token b = cf_ChainToken E \<Longrightarrow> sb_Representative b \<noteq> ZeroAddress"
    and "blk (lview l) (sb_Link b) = Some src" "\<not> IsPrivate src" "sb_Link b \<noteq> ZeroHash"
    and "blk (lview l) x = Some next" "has_parent E next" "sb_Previous next = sb_Link b" "x \<noteq> h"
    and "owners_ok (l_accountCache l)" "0 < qcap" "\<And>x. ord [x] = [x]" "GetCache e (l_cache l) \<noteq> None"
  shows "hash_at (lview l) (KChild (sb_Link b)) = Some x \<and>
    (\<exists>l'. Rollback (Suc (Suc n)) qcap ord E R T now e h l = Some (Inr (), l') \<and>
      blk (lview l') h = None \<and> blk (lview l') x = Some next \<and> hash_at (lview l') (KChild (sb_Link b)) = None)"
proof -
  note i = ledger_invD [OF assms(1)]
  obtain am where am: "acct (lview l) (sb_Address b) = Some am" "tm \<in> set (am_Tokens am)" "tm_Type tm = sb_Token b"
    by (rule tok_Some [OF assms(7)])
  have hb: "tm_Representative tm = sb_Representative b" "hash_at (lview l) (KFrontier h) = Some (tm_OpenBlock tm)"
    using chain_account(2) [OF i(3) am(1,2)] assms(3,8) by (auto simp: header_ok_def)
  have g: "GetHash (cf_H E) b = h" using well_typed_blk(2) [OF i(2) assms(3)] .
  have "benefit_at (lview l) (sb_Representative b) \<noteq> None" if "sb_Token b = cf_ChainToken E"
    using i(4) assms(7,10) hb(1) that unfolding rep_ok_def by metis
  then obtain t1 where t1: "rollback_block E R T (Suc n) now l [] tm b zero_block (start_tx l) = (Inr (), t1)"
    "\<forall>x. txview l t1 (KBlock x) = lview l (KBlock x) \<and> txview l t1 (KChild x) = lview l (KChild x)"
    using rollback_open_view [OF i(1,2) assms(4) _ _ _ assms(11,12), where R = R and T = T and n = "Suc n" and now = now
        and pre = zero_block and tm = tm and am = am and op = "tm_OpenBlock tm"] am(1) assms(9) hb(2) g by auto
  have par: "Parent b = sb_Link b" using assms(5) by (simp add: Parent_def)
  obtain t2 where t2: "DeleteStateBlock l h t1 = (Inr (), t2)" "txview l t2 = undo_block E b (txview l t1)"
    using DeleteStateBlock_run [OF i(1,2) assms(3)] assms(13) par by metis
  obtain l' where "Rollback (Suc (Suc n)) qcap ord E R T now e h l = Some (Inr (), l')" "lview l' = txview l t2"
    using Rollback_header [OF assms(1,2,7,8,3,6) _ assms(18) _ t1(1) t2(1) assms(19) _ assms(21)] assms(4,5,20)
    by (auto simp: IsSendBlock_def)
  moreover have "hash_at (lview l) (KChild (sb_Link b)) = Some x" using chain_parent [OF i(3) assms(14,15)] assms(16) by simp
  ultimately show ?thesis
    using t1(2) t2(2) assms(14,17) g par by (auto simp: undo_block_def blk_def hash_at_def)
qed

theorem rollback_open_loses_child_witness:
  "hash_at (lview ex3_ledger) (KChild 243) = Some 245 \<and>
   (\<exists>l'. Rollback 2 510 id ex_config ex_registry \<lparr>tr_entries = \<lambda>_ _. [], tr_nodes = \<lambda>_ _. [], tr_convertible = \<lambda>_. True\<rparr> 9 False 244 ex3_ledger
       = Some (Inr (), l') \<and>
     blk (lview l') 245 = Some ex_next \<and> hash_at (lview l') (KChild 243) = None)"
proof -
  let ?T = "\<lparr>tr_entries = \<lambda>_ _. [], tr_nodes = \<lambda>_ _. [], tr_convertible = \<lambda>_. True\<rparr>"
  let ?tm = "\<lparr>tm_Type = 1, tm_Header = 244, tm_Representative = 7, tm_OpenBlock = 244, tm_Balance = 50, tm_BelongTo = 101,
    tm_Modified = 0, tm_BlockCount = 1\<rparr>"
  have n2: "Suc (Suc 0) = 2" by simp
  have t: "tok (lview ex3_ledger) 101 1 = Some ?tm" by (simp add: ex3_view tok_def ex3_tables ex3_account_def AccountMeta_Token_def)
  have u: "\<not> HasBlockCache ex3_ledger 244" "owners_ok (l_accountCache ex3_ledger)" "GetCache False (l_cache ex3_ledger) \<noteq> None"
    by (simp_all add: HasBlockCache_def owners_ok_def ex3_ledger_def ex_ledger_def GetCache_def needsFlush_def)
  have b: "IsOpen ex_open" "\<not> IsPrivate ex_open" "\<not> IsPrivate ex_send" "has_parent ex_config ex_next"
    by (simp_all add: IsOpen_def IsPrivate_def has_parent_def IsGenesisBlock_def ex_send_def ex_block_def)
  show ?thesis
    using rollback_open_loses_child [OF ex3_inv u(1) _ _ b(1,2), of ?tm ex_send 245 ex_next 510 id False 0 ex_registry ?T 9] t u b
    unfolding n2 by (auto simp: ex3_view ex3_tables)
qed

end
