(* ===== verification/Dpos_Election.thy ===== *)
theory Dpos_Election
  imports Ledger_Rollback_Thms
begin

text \<open>The elections of the representatives (\<open>consensus/dpos\<close>): votes (\<open>votes.go\<close>), elections (\<open>election.go\<close>), the roots
  of active elections (\<open>active_transactions.go\<close>) and the handlers of the processor that start elections, add forks
  to them and count votes (\<open>processor.go\<close>, \<open>dpos_impl.go\<close>). Elections are shared objects: \<open>dp_els\<close> is the heap, and
  the roots and the table of hashes hold indices into it. A handler runs alone; what it puts on a channel, publishes
  or counts for the statistics is appended to \<open>dp_out\<close>, the channels having room. The orders in which maps are
  ranged over, the ages and limits of the rollback and what is read of the proof-of-work chain come with the
  environment. \<open>None\<close> is a ledger operation that does not return.\<close>

section \<open>State\<close>

record voteInfo =
  vi_account :: address
  vi_hash :: hash

datatype tallyResult = TallyVote | TallyChanged | TallyConfirm

record Election =
  el_id :: hash
  el_repVotes :: "(address \<times> voteInfo) list"
  el_winner :: state_block
  el_loser :: "state_block list"
  el_lastTime :: int
  el_voteHash :: hash
  el_blocks :: "(hash \<times> state_block) list"
  el_frontier :: "hash list"
  el_valid :: bool

datatype frontierStatus = frontierInvalid | frontierWaitingForVote | frontierConfirmed | frontierChainConfirmed | frontierChainFinished

datatype MsgType = MsgPublishReq | MsgConfirmReq | MsgConfirmAck | MsgSync | MsgGenerateBlock

datatype SynchronizedKind = Synchronized | UnSynchronized | InvalidSynchronized

record BlockSource =
  bs_Block :: state_block
  bs_From :: SynchronizedKind
  bs_Type :: MsgType

datatype dpos_event =
    HeartAndVoteInc hash address
  | ConfirmedBlockInc hash
  | SubAck nat hash
  | BatchVote hash
  | LocalAck nat voteInfo
  | FrontierFor nat state_block
  | ConfirmReq "state_block list"
  | AckedBlockNotify nat hash
  | DispatchAckedBlock state_block hash "nat option"
  | ConfirmedBlock state_block
  | SyncAcked nat hash
  | CheckFinish
  | DoRollbackUnchecked hash
  | EnqueueUnchecked ProcessResult BlockSource

record DPoS =
  dp_ledger :: ledger
  dp_els :: "Election list"
  dp_roots :: "(hash \<times> nat) list"
  dp_hash2el :: "hash \<rightharpoonup> nat"
  dp_frontiersStatus :: "(hash \<times> frontierStatus) list"
  dp_totalVote :: "address \<rightharpoonup> int"
  dp_voteThreshold :: int
  dp_minVoteWeight :: int
  dp_localRepAccount :: "address list"
  dp_confirmedChain :: "nat \<Rightarrow> hash \<rightharpoonup> bool"
  dp_curPovHeight :: u64
  dp_out :: "dpos_event list"

record RepAckStatistics =
  ra_HeartCount :: u64
  ra_LastHeartHeight :: u64
  ra_VoteCount :: u64

record RepOnlinePeriod =
  op_Statistic :: "address \<rightharpoonup> RepAckStatistics"
  op_BlockCount :: u64

record dpos_env =
  de_E :: config
  de_R :: registry
  de_T :: trie_reader
  de_now :: int
  de_elapsed :: bool
  de_fuel :: nat
  de_qcap :: nat
  de_ord :: "state_block list \<Rightarrow> state_block list"
  de_votes :: "(address \<times> voteInfo) list \<Rightarrow> (address \<times> voteInfo) list"
  de_totals :: "(hash \<times> state_block \<times> int) list \<Rightarrow> (hash \<times> state_block \<times> int) list"
  de_blocks :: "(hash \<times> state_block) list \<Rightarrow> (hash \<times> state_block) list"
  de_roots :: "(hash \<times> nat) list \<Rightarrow> (hash \<times> nat) list"
  de_processorNum :: nat
  de_online :: "u64 \<Rightarrow> RepOnlinePeriod option"
  de_packed :: "hash \<Rightarrow> bool"
  de_syncBlock :: "hash \<Rightarrow> bool"

abbreviation block_hash :: "dpos_env \<Rightarrow> state_block \<Rightarrow> hash" where
  "block_hash V b \<equiv> GetHash (cf_H (de_E V)) b"

definition emit :: "dpos_event list \<Rightarrow> DPoS \<Rightarrow> DPoS" where
  "emit es D = D\<lparr>dp_out := dp_out D @ es\<rparr>"

definition set_el :: "nat \<Rightarrow> (Election \<Rightarrow> Election) \<Rightarrow> DPoS \<Rightarrow> DPoS" where
  "set_el i f D = D\<lparr>dp_els := (dp_els D)[i := f (dp_els D ! i)]\<rparr>"

text \<open>The limits, from the balance of the genesis block.\<close>

definition DposVoteDivisor :: int where "DposVoteDivisor = 200"

definition dpos_Init :: "int \<Rightarrow> DPoS \<Rightarrow> DPoS" where
  "dpos_Init supply D = D\<lparr>dp_minVoteWeight := fst (Balance_Div supply DposVoteDivisor), dp_voteThreshold := fst (Balance_Div supply 2)\<rparr>"

section \<open>Votes and elections\<close>

definition voteStatus :: "voteInfo \<Rightarrow> Election \<Rightarrow> tallyResult \<times> Election" where
  "voteStatus vi el =
     (case map_of (el_repVotes el) (vi_account vi) of
        None \<Rightarrow> (TallyVote, el\<lparr>el_repVotes := AList.update (vi_account vi) vi (el_repVotes el)\<rparr>)
      | Some v \<Rightarrow>
          if vi_hash v \<noteq> vi_hash vi
          then (TallyChanged, el\<lparr>el_repVotes := AList.update (vi_account vi) vi (AList.delete (vi_account vi) (el_repVotes el))\<rparr>)
          else (TallyConfirm, el))"

definition getVoteKey :: "config \<Rightarrow> state_block \<Rightarrow> hash" where
  "getVoteKey E b = (if IsOpen b then cf_H E (be_bytes 32 (sb_Address b) @ be_bytes 32 (sb_Token b)) else sb_Previous b)"

definition newElection :: "dpos_env \<Rightarrow> state_block \<Rightarrow> DPoS \<Rightarrow> nat \<times> DPoS" where
  "newElection V b D =
     (let i = length (dp_els D);
          el = \<lparr>el_id = getVoteKey (de_E V) b, el_repVotes = [], el_winner = b, el_loser = [], el_lastTime = de_now V,
                el_voteHash = ZeroHash, el_blocks = [(block_hash V b, b)], el_frontier = [], el_valid = True\<rparr>
      in (i, D\<lparr>dp_els := dp_els D @ [el], dp_hash2el := (dp_hash2el D)(block_hash V b \<mapsto> i)\<rparr>))"

definition addToRoots :: "dpos_env \<Rightarrow> state_block \<Rightarrow> DPoS \<Rightarrow> bool \<times> DPoS" where
  "addToRoots V b D =
     (case map_of (dp_roots D) (getVoteKey (de_E V) b) of
        None \<Rightarrow> (case newElection V b D of (i, D') \<Rightarrow> (True, D'\<lparr>dp_roots := AList.update (getVoteKey (de_E V) b) i (dp_roots D')\<rparr>))
      | Some _ \<Rightarrow> (False, D))"

definition getVoteInfo :: "dpos_env \<Rightarrow> state_block \<Rightarrow> DPoS \<Rightarrow> nat option" where
  "getVoteInfo V b D = map_of (dp_roots D) (getVoteKey (de_E V) b)"

definition isVoting :: "dpos_env \<Rightarrow> state_block \<Rightarrow> DPoS \<Rightarrow> bool" where
  "isVoting V b D \<longleftrightarrow> getVoteInfo V b D \<noteq> None"

definition setVoteHash :: "dpos_env \<Rightarrow> state_block \<Rightarrow> DPoS \<Rightarrow> DPoS" where
  "setVoteHash V b D =
     (case getVoteInfo V b D of None \<Rightarrow> D | Some i \<Rightarrow> set_el i (\<lambda>el. el\<lparr>el_voteHash := block_hash V b\<rparr>) D)"

text \<open>The weight of a representative: from the ledger, or while synchronising from the frontiers that were received.\<close>

definition vote_weight :: "DPoS \<Rightarrow> bool \<Rightarrow> address \<Rightarrow> int" where
  "vote_weight D isSync a =
     (case if isSync then dp_totalVote D a else None of Some w \<Rightarrow> w | None \<Rightarrow> Ledger_Weight (dp_ledger D) a)"

definition tally_step :: "(hash \<times> state_block) list \<Rightarrow> (address \<Rightarrow> int) \<Rightarrow> (hash \<times> state_block \<times> int) list \<Rightarrow> address \<times> voteInfo \<Rightarrow>
    (hash \<times> state_block \<times> int) list" where
  "tally_step blocks w totals v =
     (let h = vi_hash (snd v) in
      case map_of totals h of
        Some (b, balance) \<Rightarrow> AList.update h (b, Balance_Add balance (w (fst v))) totals
      | None \<Rightarrow> (case map_of blocks h of None \<Rightarrow> totals | Some b \<Rightarrow> AList.update h (b, Balance_Add ZeroBalance (w (fst v))) totals))"

definition tally :: "dpos_env \<Rightarrow> DPoS \<Rightarrow> bool \<Rightarrow> Election \<Rightarrow> (hash \<times> state_block \<times> int) list" where
  "tally V D isSync el = foldl (tally_step (el_blocks el) (vote_weight D isSync)) [] (de_votes V (el_repVotes el))"

definition new_StateBlock :: state_block where
  "new_StateBlock = \<lparr>sb_Type = State, sb_Token = 0, sb_Address = 0, sb_Balance = 0, sb_Vote = None, sb_Network = None, sb_Storage = None,
     sb_Oracle = None, sb_Previous = 0, sb_Link = 0, sb_Sender = [], sb_Receiver = [], sb_Message = 0, sb_Data = [], sb_PoVHeight = 0,
     sb_Timestamp = 0, sb_Extra = 0, sb_Representative = 0, sb_PrivateFrom = [], sb_PrivateFor = [], sb_PrivateGroupID = [], sb_Work = 0,
     sb_Signature = 0, sb_Flag = 0, sb_PrivateRecvRsp = False, sb_PrivatePayload = []\<rparr>"

definition most_voted :: "(hash \<times> state_block \<times> int) list \<Rightarrow> state_block \<times> int" where
  "most_voted t = foldl (\<lambda>(chosen, balance) (h, b, w).
     if Balance_Compare balance w = BalanceCompSmaller then (b, w) else (chosen, balance)) (new_StateBlock, ZeroBalance) t"

definition cleanBlockInfo :: "nat \<Rightarrow> DPoS \<Rightarrow> DPoS" where
  "cleanBlockInfo i D = D\<lparr>dp_hash2el := (\<lambda>h. if h \<in> fst ` set (el_blocks (dp_els D ! i)) then None else dp_hash2el D h)\<rparr>"

definition updateVoteStatistic :: "dpos_env \<Rightarrow> nat \<Rightarrow> hash \<Rightarrow> DPoS \<Rightarrow> DPoS" where
  "updateVoteStatistic V i confirmedHash D =
     emit (map (\<lambda>(a, v). HeartAndVoteInc confirmedHash (vi_account v))
       (filter (\<lambda>(a, v). vi_hash v = confirmedHash) (de_votes V (el_repVotes (dp_els D ! i))))) D"

section \<open>The ledger\<close>

fun rollBack :: "dpos_env \<Rightarrow> state_block list \<Rightarrow> DPoS \<Rightarrow> DPoS option" where
  "rollBack V [] D = Some D"
| "rollBack V (b # bs) D =
     (if HasStateBlock (dp_ledger D) (block_hash V b) = Inr True
      then case Rollback (de_fuel V) (de_qcap V) (de_ord V) (de_E V) (de_R V) (de_T V) (de_now V) (de_elapsed V) (block_hash V b) (dp_ledger D) of
             None \<Rightarrow> None
           | Some (_, l) \<Rightarrow> rollBack V bs (D\<lparr>dp_ledger := l\<rparr>)
      else rollBack V bs D)"

definition addWinner2Ledger :: "dpos_env \<Rightarrow> state_block \<Rightarrow> DPoS \<Rightarrow> DPoS option" where
  "addWinner2Ledger V b D =
     (if HasStateBlockConfirmed (dp_ledger D) (block_hash V b) = Inr False
      then map_option (\<lambda>(r, l). case r of
               Inl _ \<Rightarrow> D\<lparr>dp_ledger := l\<rparr>
             | Inr _ \<Rightarrow> emit [ConfirmedBlockInc (block_hash V b)] (D\<lparr>dp_ledger := l\<rparr>))
             (BlockProcess (de_E V) (de_R V) (de_now V) (de_elapsed V) b (dp_ledger D))
      else Some D)"

definition chainFinished :: "hash \<Rightarrow> DPoS \<Rightarrow> DPoS" where
  "chainFinished h D =
     (if map_of (dp_frontiersStatus D) h \<noteq> None
      then emit [CheckFinish] (D\<lparr>dp_frontiersStatus := AList.update h frontierChainFinished (dp_frontiersStatus D)\<rparr>)
      else D)"

definition addSyncBlock2Ledger :: "dpos_env \<Rightarrow> state_block \<Rightarrow> DPoS \<Rightarrow> DPoS option" where
  "addSyncBlock2Ledger V b D = map_option (chainFinished (block_hash V b)) (addWinner2Ledger V b D)"

section \<open>Counting\<close>

text \<open>The blocks that lose: the first block of the election, and every other block with votes.\<close>

definition losers :: "dpos_env \<Rightarrow> Election \<Rightarrow> hash \<Rightarrow> (hash \<times> state_block \<times> int) list \<Rightarrow> state_block list" where
  "losers V el confirmedHash t =
     el_loser el @ (if block_hash V (el_winner el) \<noteq> confirmedHash then [el_winner el] else [])
     @ filter (\<lambda>b. block_hash V b \<noteq> confirmedHash) (map (\<lambda>(h, b, w). b) t)"

text \<open>The block with the most votes, if these are more than the threshold.\<close>

definition quorum_block :: "dpos_env \<Rightarrow> DPoS \<Rightarrow> Election \<Rightarrow> state_block option" where
  "quorum_block V D el =
     (let t = de_totals V (tally V D False el)
      in if t = [] then None
         else case most_voted t of (chosen, balance) \<Rightarrow>
           if Balance_Compare balance (dp_voteThreshold D) = BalanceCompBigger then Some chosen else None)"

definition haveQuorum :: "dpos_env \<Rightarrow> nat \<Rightarrow> DPoS \<Rightarrow> DPoS option" where
  "haveQuorum V i D =
     (let el = dp_els D ! i
      in case quorum_block V D el of
           None \<Rightarrow> Some D
         | Some chosen \<Rightarrow>
             if \<not> el_valid el then Some D
             else let confirmedHash = block_hash V chosen;
                      loser = losers V el confirmedHash (de_totals V (tally V D False el));
                      D1 = set_el i (\<lambda>el. el\<lparr>el_valid := False, el_loser := loser\<rparr>) (D\<lparr>dp_roots := AList.delete (el_id el) (dp_roots D)\<rparr>)
                  in Option.bind (rollBack V loser D1) (\<lambda>D2.
                     map_option (\<lambda>D3. cleanBlockInfo i (emit [DispatchAckedBlock chosen confirmedHash None, ConfirmedBlock chosen]
                         (updateVoteStatistic V i confirmedHash D3)))
                       (addWinner2Ledger V chosen D2)))"

definition voteAction :: "dpos_env \<Rightarrow> voteInfo \<Rightarrow> nat \<Rightarrow> DPoS \<Rightarrow> DPoS option" where
  "voteAction V vi i D =
     (if \<not> el_valid (dp_els D ! i) then Some D
      else case voteStatus vi (dp_els D ! i) of (result, el) \<Rightarrow>
        let D' = set_el i (\<lambda>_. el) D
        in if result = TallyConfirm then Some D' else haveQuorum V i D')"

definition Election_voteFrontier :: "dpos_env \<Rightarrow> voteInfo \<Rightarrow> nat \<Rightarrow> DPoS \<Rightarrow> (bool \<times> DPoS) option" where
  "Election_voteFrontier V vi i D =
     (if \<not> el_valid (dp_els D ! i) then Some (False, D)
      else case voteStatus vi (dp_els D ! i) of (result, el) \<Rightarrow>
        let D' = set_el i (\<lambda>_. el) D;
            t = de_totals V (tally V D' True el)
        in if result = TallyConfirm \<or> t = [] then Some (False, D')
           else if Balance_Compare (snd (most_voted t)) (dp_voteThreshold D) = BalanceCompBigger
           then if \<not> el_valid el then Some (True, D')
                else map_option (\<lambda>D2. (True, D2\<lparr>dp_roots := AList.delete (el_id el) (dp_roots D2)\<rparr>))
                       (rollBack V (map snd (filter (\<lambda>(h, b). h \<noteq> vi_hash vi) (de_blocks V (el_blocks el))))
                         (cleanBlockInfo i (set_el i (\<lambda>el. el\<lparr>el_valid := False\<rparr>) D')))
           else Some (False, D'))"

definition ActiveTrx_vote :: "dpos_env \<Rightarrow> voteInfo \<Rightarrow> DPoS \<Rightarrow> DPoS option" where
  "ActiveTrx_vote V vi D = (case dp_hash2el D (vi_hash vi) of None \<Rightarrow> Some D | Some i \<Rightarrow> voteAction V vi i D)"

definition ActiveTrx_voteFrontier :: "dpos_env \<Rightarrow> voteInfo \<Rightarrow> DPoS \<Rightarrow> (bool \<times> DPoS) option" where
  "ActiveTrx_voteFrontier V vi D = (case dp_hash2el D (vi_hash vi) of None \<Rightarrow> Some (False, D) | Some i \<Rightarrow> Election_voteFrontier V vi i D)"

text \<open>Elections that have waited too long are given up.\<close>

definition waitingVoteMaxTime :: int where "waitingVoteMaxTime = 180"

definition check_votes_of :: "dpos_env \<Rightarrow> nat \<Rightarrow> DPoS \<Rightarrow> DPoS" where
  "check_votes_of V i D =
     (let el = dp_els D ! i
      in if de_now V - el_lastTime el < waitingVoteMaxTime \<or> \<not> el_valid el then D
         else emit [DoRollbackUnchecked (block_hash V (el_winner el))] (cleanBlockInfo i
           (set_el i (\<lambda>el. el\<lparr>el_valid := False\<rparr>) (D\<lparr>dp_roots := AList.delete (el_id el) (dp_roots D)\<rparr>))))"

definition checkVotes :: "dpos_env \<Rightarrow> DPoS \<Rightarrow> DPoS" where
  "checkVotes V D = foldl (\<lambda>D (k, i). check_votes_of V i D) D (de_roots V (dp_roots D))"

text \<open>At the end of a synchronisation the frontiers leave their elections.\<close>

definition clean_frontier :: "dpos_env \<Rightarrow> hash \<Rightarrow> DPoS \<Rightarrow> DPoS" where
  "clean_frontier V fHash D =
     (let D1 = D\<lparr>dp_hash2el := (dp_hash2el D)(fHash := None)\<rparr>
      in case find (\<lambda>(k, i). map_of (el_blocks (dp_els D1 ! i)) fHash \<noteq> None) (de_roots V (dp_roots D1)) of
           None \<Rightarrow> D1
         | Some (k, i) \<Rightarrow>
             let D2 = set_el i (\<lambda>el. el\<lparr>el_blocks := AList.delete fHash (el_blocks el)\<rparr>) D1
             in if el_blocks (dp_els D2 ! i) = [] then D2\<lparr>dp_roots := AList.delete (el_id (dp_els D2 ! i)) (dp_roots D2)\<rparr> else D2)"

definition cleanFrontierVotes :: "dpos_env \<Rightarrow> DPoS \<Rightarrow> DPoS" where
  "cleanFrontierVotes V D = foldl (\<lambda>D h. clean_frontier V h D) D (map fst (dp_frontiersStatus D))"

section \<open>Handlers\<close>

text \<open>Whether a representative was online in the last period; the cache of the periods is asked for it. The counters
  are 64-bit numbers.\<close>

definition DPosOnlinePeriod :: u64 where "DPosOnlinePeriod = 120"
definition DPosOnlineRate :: u64 where "DPosOnlineRate = 60"
definition DPosHeartCountPerPeriod :: u64 where "DPosHeartCountPerPeriod = DPosOnlinePeriod div 2"

definition isOnline :: "dpos_env \<Rightarrow> DPoS \<Rightarrow> address \<Rightarrow> bool" where
  "isOnline V D a =
     (case de_online V (dp_curPovHeight D div DPosOnlinePeriod - 1) of
        None \<Rightarrow> False
      | Some repPeriod \<Rightarrow>
          (case op_Statistic repPeriod a of
             None \<Rightarrow> False
           | Some v \<Rightarrow>
               if op_BlockCount repPeriod = 0 then ra_HeartCount v * 100 > DPosHeartCountPerPeriod * DPosOnlineRate
               else ra_VoteCount v * 100 > op_BlockCount repPeriod * DPosOnlineRate))"

text \<open>The local representatives vote. An online block of an account that is not online ends the loop.\<close>

fun local_votes :: "dpos_env \<Rightarrow> state_block \<Rightarrow> address list \<Rightarrow> DPoS \<Rightarrow> DPoS option" where
  "local_votes V b [] D = Some D"
| "local_votes V b (a # as) D =
     (if Balance_Compare (Ledger_Weight (dp_ledger D) a) (dp_minVoteWeight D) = BalanceCompSmaller then local_votes V b as D
      else if sb_Type b = Online \<and> HasStateBlockConfirmed (dp_ledger D) (block_hash V b) \<noteq> Inr True \<and> \<not> isOnline V D (sb_Address b)
      then Some D
      else Option.bind (ActiveTrx_vote V \<lparr>vi_account = a, vi_hash = block_hash V b\<rparr> D) (\<lambda>D'.
             local_votes V b as (emit [BatchVote (block_hash V b)] (setVoteHash V b D'))))"

definition localRepVote :: "dpos_env \<Rightarrow> state_block \<Rightarrow> DPoS \<Rightarrow> DPoS option" where
  "localRepVote V b D = local_votes V b (dp_localRepAccount D) D"

fun local_frontier_votes :: "dpos_env \<Rightarrow> nat \<Rightarrow> state_block \<Rightarrow> address list \<Rightarrow> DPoS \<Rightarrow> DPoS" where
  "local_frontier_votes V p b [] D = D"
| "local_frontier_votes V p b (a # as) D =
     (if Balance_Compare (Ledger_Weight (dp_ledger D) a) (dp_minVoteWeight D) = BalanceCompSmaller then local_frontier_votes V p b as D
      else if sb_Type b = Online \<and> \<not> isOnline V D (sb_Address b) then D
      else local_frontier_votes V p b as (setVoteHash V b (emit [LocalAck p \<lparr>vi_account = a, vi_hash = block_hash V b\<rparr>] D)))"

definition localRepVoteFrontier :: "dpos_env \<Rightarrow> nat \<Rightarrow> state_block \<Rightarrow> DPoS \<Rightarrow> DPoS" where
  "localRepVoteFrontier V p b D = local_frontier_votes V p b (dp_localRepAccount D) D"

text \<open>A fork joins the election of its root.\<close>

definition join_election :: "dpos_env \<Rightarrow> nat \<Rightarrow> state_block \<Rightarrow> DPoS \<Rightarrow> DPoS" where
  "join_election V i b D =
     set_el i (\<lambda>el. el\<lparr>el_blocks := AList.update (block_hash V b) b (el_blocks el)\<rparr>)
       (D\<lparr>dp_hash2el := (dp_hash2el D)(block_hash V b \<mapsto> i)\<rparr>)"

definition add_frontier :: "dpos_env \<Rightarrow> nat \<Rightarrow> state_block \<Rightarrow> DPoS \<Rightarrow> DPoS" where
  "add_frontier V i b D = set_el i (\<lambda>el. el\<lparr>el_frontier := List.insert (block_hash V b) (el_frontier el)\<rparr>) D"

definition processFrontier :: "dpos_env \<Rightarrow> nat \<Rightarrow> state_block \<Rightarrow> DPoS \<Rightarrow> DPoS" where
  "processFrontier V p b D =
     (case addToRoots V b (emit [SubAck p (block_hash V b)] D) of (added, D1) \<Rightarrow>
        let D2 = (case getVoteInfo V b D1 of
                    None \<Rightarrow> D1
                  | Some i \<Rightarrow> add_frontier V i b (if added then D1 else join_election V i b D1))
        in if fst (BlockCheck (de_E V) (de_R V) (dp_ledger D2) b) = Progress then localRepVoteFrontier V p b D2 else D2)"

definition isReceivedFrontier :: "hash \<Rightarrow> DPoS \<Rightarrow> bool" where
  "isReceivedFrontier h D \<longleftrightarrow> map_of (dp_frontiersStatus D) h \<noteq> None"

definition isConfirmedFrontier :: "dpos_env \<Rightarrow> hash \<Rightarrow> DPoS \<Rightarrow> bool" where
  "isConfirmedFrontier V h D \<longleftrightarrow> map_of (dp_frontiersStatus D) h = Some frontierConfirmed \<and> de_syncBlock V h"

definition processAckedSync :: "dpos_env \<Rightarrow> nat \<Rightarrow> hash \<Rightarrow> DPoS \<Rightarrow> DPoS" where
  "processAckedSync V p h D =
     emit [SyncAcked p h]
       (if isConfirmedFrontier V h D
        then D\<lparr>dp_frontiersStatus := AList.update h frontierChainConfirmed (dp_frontiersStatus D),
               dp_confirmedChain := (if dp_confirmedChain D p h = None then (dp_confirmedChain D)(p := (dp_confirmedChain D p)(h \<mapsto> False))
                 else dp_confirmedChain D)\<rparr>
        else D)"

definition processAck :: "dpos_env \<Rightarrow> nat \<Rightarrow> voteInfo \<Rightarrow> DPoS \<Rightarrow> DPoS option" where
  "processAck V p vi D =
     (case dp_hash2el D (vi_hash vi) of
        None \<Rightarrow> Some D
      | Some i \<Rightarrow>
          if vi_hash vi \<in> set (el_frontier (dp_els D ! i))
          then map_option (\<lambda>(confirmed, D').
                 if confirmed
                 then processAckedSync V p (vi_hash vi) (D'\<lparr>dp_frontiersStatus := AList.update (vi_hash vi) frontierConfirmed (dp_frontiersStatus D')\<rparr>)
                 else D') (ActiveTrx_voteFrontier V vi D)
          else if HasStateBlockConfirmed (dp_ledger D) (vi_hash vi) \<noteq> Inr True then ActiveTrx_vote V vi D
          else Some (emit [HeartAndVoteInc (vi_hash vi) (vi_account vi)] D))"

text \<open>A synchronised block is confirmed without an election; one that runs is ended.\<close>

definition confirmBlock :: "dpos_env \<Rightarrow> nat \<Rightarrow> state_block \<Rightarrow> DPoS \<Rightarrow> DPoS option" where
  "confirmBlock V p b D =
     (let h = block_hash V b;
          confirm = (\<lambda>D. map_option (emit [AckedBlockNotify p h, DispatchAckedBlock b h (Some p), ConfirmedBlock b]) (addSyncBlock2Ledger V b D))
      in case getVoteInfo V b D of
           None \<Rightarrow> confirm D
         | Some i \<Rightarrow>
             let el = dp_els D ! i
             in if \<not> el_valid el then Some D
                else Option.bind (rollBack V (map snd (filter (\<lambda>(k, b). k \<noteq> h) (de_blocks V (el_blocks el))))
                       (cleanBlockInfo i (set_el i (\<lambda>el. el\<lparr>el_valid := False\<rparr>) (D\<lparr>dp_roots := AList.delete (el_id el) (dp_roots D)\<rparr>)))) confirm)"

definition findAnotherForkedBlock :: "dpos_env \<Rightarrow> state_block \<Rightarrow> DPoS \<Rightarrow> state_block" where
  "findAnotherForkedBlock V b D =
     (let l = dp_ledger D;
          forked = (if IsOpen b then (case GetTokenMeta (de_E V) l (sb_Address b) (sb_Token b) of Inl e \<Rightarrow> Inl e | Inr tm \<Rightarrow> Inr (tm_OpenBlock tm))
                    else GetBlockChild l None (Parent b))
      in case forked of
           Inl _ \<Rightarrow> b
         | Inr h \<Rightarrow> (case GetStateBlock l None h of Inl _ \<Rightarrow> b | Inr f \<Rightarrow> f))"

definition do_Rollback :: "dpos_env \<Rightarrow> hash \<Rightarrow> DPoS \<Rightarrow> DPoS option" where
  "do_Rollback V h D = map_option (\<lambda>(_, l). D\<lparr>dp_ledger := l\<rparr>)
     (Rollback (de_fuel V) (de_qcap V) (de_ord V) (de_E V) (de_R V) (de_T V) (de_now V) (de_elapsed V) h (dp_ledger D))"

definition Processor_processFork :: "dpos_env \<Rightarrow> nat \<Rightarrow> BlockSource \<Rightarrow> DPoS \<Rightarrow> DPoS option" where
  "Processor_processFork V p bs D =
     (let newBlock = bs_Block bs; newHash = block_hash V newBlock;
          confirmedBlock = findAnotherForkedBlock V newBlock D; confirmedHash = block_hash V confirmedBlock
      in if bs_Type bs = MsgGenerateBlock then do_Rollback V newHash D
         else if de_packed V confirmedHash then Some D
         else case addToRoots V confirmedBlock D of (added, D1) \<Rightarrow>
           let D2 = emit ((if added then [ConfirmReq [confirmedBlock], SubAck p confirmedHash] else []) @ [SubAck p newHash]) D1;
               D3 = (case getVoteInfo V confirmedBlock D2 of None \<Rightarrow> D2 | Some i \<Rightarrow> join_election V i newBlock D2)
           in if added then localRepVote V confirmedBlock D3 else Some D3)"

definition gap_results :: "ProcessResult list" where
  "gap_results = [GapPrevious, GapSource, GapTokenInfo, GapPovHeight, GapPublish, GapDoDSettleState]"

definition processResult :: "dpos_env \<Rightarrow> nat \<Rightarrow> ProcessResult \<Rightarrow> BlockSource \<Rightarrow> DPoS \<Rightarrow> DPoS option" where
  "processResult V p result bs D =
     (if result = Progress
      then (case bs_From bs of
              Synchronized \<Rightarrow> confirmBlock V p (bs_Block bs) D
            | UnSynchronized \<Rightarrow>
                (case addToRoots V (bs_Block bs) D of (added, D1) \<Rightarrow>
                   map_option (emit [SubAck p (block_hash V (bs_Block bs))])
                     (if added \<and> bs_Type bs \<noteq> MsgConfirmReq then localRepVote V (bs_Block bs) D1 else Some D1))
            | InvalidSynchronized \<Rightarrow> Some D)
      else if result = Fork then Processor_processFork V p bs D
      else if result \<in> set gap_results \<and> bs_Type bs \<noteq> MsgConfirmReq then Some (emit [EnqueueUnchecked result bs] D)
      else Some D)"

definition processMsgDo :: "dpos_env \<Rightarrow> nat \<Rightarrow> BlockSource \<Rightarrow> DPoS \<Rightarrow> DPoS option" where
  "processMsgDo V p bs0 D =
     (if CheckPrivateRecvRsp (bs_Block bs0) then Some D
      else let bs = (if bs_From bs0 = Synchronized then bs0\<lparr>bs_Block := SetFromSync (bs_Block bs0)\<rparr> else bs0);
               b = bs_Block bs;
               result = fst (BlockCheck (de_E V) (de_R V) (dp_ledger D) b)
           in if result = Other then Some D
              else Option.bind (processResult V p result bs D) (\<lambda>D1.
                     case bs_Type bs of
                       MsgConfirmReq \<Rightarrow>
                         if result = Progress
                         then (case getVoteInfo V b D1 of
                                 None \<Rightarrow> Some D1
                               | Some i \<Rightarrow>
                                   if el_voteHash (dp_els D1 ! i) = ZeroHash \<or> block_hash V b = el_voteHash (dp_els D1 ! i)
                                   then localRepVote V b D1 else Some D1)
                         else if result = Old then localRepVote V b D1
                         else Some D1
                     | MsgGenerateBlock \<Rightarrow>
                         if result = Progress
                         then (case getVoteInfo V b D1 of
                                 None \<Rightarrow> Some D1
                               | Some i \<Rightarrow> if block_hash V (el_winner (dp_els D1 ! i)) \<noteq> block_hash V b then do_Rollback V (block_hash V b) D1 else Some D1)
                         else Some D1
                     | _ \<Rightarrow> Some D1))"

text \<open>Frontiers that peers report while the node synchronises: their weights are summed up, and those that are not
  confirmed are put to the vote, in requests of at most 128 blocks.\<close>

definition getProcessorIndex :: "dpos_env \<Rightarrow> address \<Rightarrow> nat" where
  "getProcessorIndex V a = unat (last (be_bytes 32 a)) mod de_processorNum V"

definition add_vote :: "config \<Rightarrow> state_block \<Rightarrow> (address \<rightharpoonup> int) \<Rightarrow> (address \<rightharpoonup> int)" where
  "add_vote E b totalVote =
     (if sb_Token b = cf_ChainToken E
      then let start = (case totalVote (sb_Representative b) of Some v \<Rightarrow> Balance_Add v (sb_Balance b) | None \<Rightarrow> sb_Balance b)
           in totalVote(sb_Representative b \<mapsto> Balance_Add (Balance_Add (Balance_Add (Balance_Add start (StateBlock_GetVote b))
                (StateBlock_GetOracle b)) (StateBlock_GetNetwork b)) (StateBlock_GetStorage b))
      else totalVote)"

definition wait_for_vote :: "dpos_env \<Rightarrow> state_block \<Rightarrow> DPoS \<times> state_block list \<Rightarrow> DPoS \<times> state_block list" where
  "wait_for_vote V b s =
     (case s of (D, unconfirmed) \<Rightarrow>
        let h = block_hash V b
        in if isReceivedFrontier h D \<or> HasStateBlockConfirmed (dp_ledger D) h = Inr True then (D, unconfirmed)
           else (emit [FrontierFor (getProcessorIndex V (sb_Address b)) b]
                   (D\<lparr>dp_frontiersStatus := AList.update h frontierWaitingForVote (dp_frontiersStatus D)\<rparr>), unconfirmed @ [b]))"

definition blockNumPerReq :: nat where "blockNumPerReq = 128"

function requests :: "state_block list \<Rightarrow> dpos_event list" where
  "requests bs = (if bs = [] then [] else ConfirmReq (take blockNumPerReq bs) # requests (drop blockNumPerReq bs))"
  by pat_completeness auto
termination by (relation "measure length") (auto simp: blockNumPerReq_def)

declare requests.simps [simp del]

definition onGetFrontier :: "dpos_env \<Rightarrow> state_block list \<Rightarrow> DPoS \<Rightarrow> DPoS" where
  "onGetFrontier V bs D =
     (case fold (wait_for_vote V) bs (D\<lparr>dp_totalVote := fold (add_vote (de_E V)) bs (dp_totalVote D)\<rparr>, []) of
        (D', unconfirmed) \<Rightarrow> emit (requests unconfirmed) D')"

end
