(* ===== verification/Dpos_Thms.thy ===== *)
theory Dpos_Thms
  imports Dpos_Election "HOL-Library.Multiset"
begin

text \<open>What the elections guarantee. With the weights of the ledger no two blocks of an election can have more than half
  of the supply, so the block that is confirmed does not depend on the order in which votes are counted, and what
  consensus writes to the ledger is a confirmed block. While a node synchronises the weights come from the frontiers
  a peer reports, and then a single peer can confirm what it likes.\<close>

section \<open>Votes for a block\<close>

definition votes_for :: "(address \<Rightarrow> int) \<Rightarrow> (address \<times> voteInfo) list \<Rightarrow> hash \<Rightarrow> int" where
  "votes_for w vs h = (\<Sum>v\<leftarrow>vs. if vi_hash (snd v) = h then w (fst v) else 0)"

lemma votes_for_nonneg: "(\<And>a. 0 \<le> w a) \<Longrightarrow> 0 \<le> votes_for w vs h"
  by (induction vs) (simp_all add: votes_for_def)

lemma votes_for_two: "(\<And>a. 0 \<le> w a) \<Longrightarrow> h \<noteq> h' \<Longrightarrow> votes_for w vs h + votes_for w vs h' \<le> (\<Sum>v\<leftarrow>vs. w (fst v))"
  by (induction vs) (auto simp: votes_for_def add_mono intro: add_increasing)

lemma votes_for_le: "(\<And>a. 0 \<le> w a) \<Longrightarrow> votes_for w vs h \<le> (\<Sum>v\<leftarrow>vs. w (fst v))"
  by (induction vs) (auto simp: votes_for_def add_mono intro: add_increasing)

lemma votes_for_mset: "mset vs = mset us \<Longrightarrow> votes_for w vs h = votes_for w us h"
  unfolding votes_for_def sum_mset_sum_list [symmetric] by simp

lemma votes_for_none: "h \<notin> (\<lambda>v. vi_hash (snd v)) ` set vs \<Longrightarrow> votes_for w vs h = 0"
  by (induction vs) (auto simp: votes_for_def)

text \<open>What the elections need of the weights: they are not negative, and those of distinct representatives stay within
  the supply. Then two blocks cannot both have more than half of it.\<close>

locale weight_table =
  fixes ok :: "'s \<Rightarrow> bool" and weight :: "'s \<Rightarrow> address \<Rightarrow> int" and supply_of :: "'s \<Rightarrow> int"
  assumes weight_nonneg: "ok s \<Longrightarrow> 0 \<le> weight s a"
    and weight_sum: "ok s \<Longrightarrow> distinct rs \<Longrightarrow> (\<Sum>r\<leftarrow>rs. weight s r) \<le> supply_of s"
begin

lemma supply_nonneg: "ok s \<Longrightarrow> 0 \<le> supply_of s"
  using weight_sum [of s "[]"] by simp

lemma votes_sum: "ok s \<Longrightarrow> distinct (map fst vs) \<Longrightarrow> (\<Sum>v\<leftarrow>vs. weight s (fst v)) \<le> supply_of s"
  using weight_sum [of s "map fst vs"] by (simp add: comp_def)

lemma majority_unique:
  assumes "ok s" "distinct (map fst vs)" "supply_of s div 2 < votes_for (weight s) vs h" "h' \<noteq> h"
  shows "votes_for (weight s) vs h' \<le> supply_of s div 2"
proof -
  have "votes_for (weight s) vs h + votes_for (weight s) vs h' \<le> (\<Sum>v\<leftarrow>vs. weight s (fst v))"
    by (rule votes_for_two) (use weight_nonneg assms(1,4) in auto)
  then show ?thesis using votes_sum [OF assms(1,2)] assms(3) by linarith
qed

end

section \<open>The weights of distinct representatives\<close>

text \<open>Nothing is pledged: the weight of a representative is the balance delegated to it.\<close>

definition plain_weights :: "ledger \<Rightarrow> bool" where
  "plain_weights l \<longleftrightarrow> (\<forall>r bf. GetRepresentation l None r = Inr bf \<longrightarrow> r \<noteq> ZeroAddress \<and> bf_Total bf = bf_Balance bf)"

lemma delegations_bound:
  assumes "amounts_ok m" "finite S"
  shows "(\<Sum>r\<in>S. delegation E m r) \<le> total_supply m (cf_ChainToken E)"
proof -
  have "(\<Sum>r\<in>S. delegated E m r a) \<le> tok_balance m a (cf_ChainToken E)" for a
    using amounts_okD(1) [OF assms(1), of a "cf_ChainToken E"] assms(2)
    by (auto simp: delegated_def tok_balance_def split: option.splits)
  then have "(\<Sum>a\<in>UNIV. \<Sum>r\<in>S. delegated E m r a) \<le> (\<Sum>a\<in>UNIV. tok_balance m a (cf_ChainToken E))" by (rule sum_mono)
  moreover have "(\<Sum>r\<in>S. delegation E m r) = (\<Sum>a\<in>UNIV. \<Sum>r\<in>S. delegated E m r a)" unfolding delegation_def by (rule sum.swap)
  moreover have "0 \<le> pend_amount m (cf_ChainToken E) ah" for ah
    using amounts_okD(2) [OF assms(1), of "fst ah" "snd ah"] by (fastforce simp: pend_amount_def split: option.split)
  then have "0 \<le> (\<Sum>ah\<in>UNIV. pend_amount m (cf_ChainToken E) ah)" by (rule sum_nonneg)
  ultimately show ?thesis by (simp add: total_supply_def)
qed

lemma weight_bounds:
  assumes "good E l" "weights_ok E (lview l)" "plain_weights l"
  shows "0 \<le> Ledger_Weight l r" "Ledger_Weight l r \<le> delegation E (lview l) r"
proof -
  have g: "ledger_inv E l" "amounts_ok (lview l)" using assms(1) by (simp_all add: good_def)
  note rd = ledger_reads(4) [OF ledger_invD(1,2) [OF g(1)], of r] and d = delegation_bounds(1) [OF g(2), of E r]
  have "Ledger_Weight l r = (case benefit_at (lview l) r of None \<Rightarrow> 0 | Some b \<Rightarrow> bf_Total b)"
    by (simp add: Ledger_Weight_def rd of_option_def split: option.split)
  moreover have "bf_Total b = delegation E (lview l) r" if "benefit_at (lview l) r = Some b" for b
  proof -
    have "GetRepresentation l None r = Inr b" using that rd by simp
    then have "r \<noteq> ZeroAddress" "bf_Total b = bf_Balance b" using assms(3) unfolding plain_weights_def by blast+
    moreover from this(1) have "bf_Balance (benefit_or_zero (lview l) r) = delegation E (lview l) r" using assms(2) unfolding weights_ok_def by blast
    ultimately show ?thesis using that by (simp add: benefit_or_zero_def)
  qed
  ultimately show "0 \<le> Ledger_Weight l r" "Ledger_Weight l r \<le> delegation E (lview l) r"
    using d by (auto split: option.split)
qed

lemma weights_bound:
  assumes "good E l" "weights_ok E (lview l)" "plain_weights l" "distinct rs"
  shows "(\<Sum>r\<leftarrow>rs. Ledger_Weight l r) \<le> total_supply (lview l) (cf_ChainToken E)"
proof -
  have "(\<Sum>r\<leftarrow>rs. Ledger_Weight l r) = (\<Sum>r\<in>set rs. Ledger_Weight l r)" using assms(4) by (rule sum_list_distinct_conv_sum_set)
  also have "\<dots> \<le> (\<Sum>r\<in>set rs. delegation E (lview l) r)" by (rule sum_mono) (rule weight_bounds [OF assms(1-3)])
  also have "\<dots> \<le> total_supply (lview l) (cf_ChainToken E)" using assms(1) by (intro delegations_bound) (simp_all add: good_def)
  finally show ?thesis .
qed

interpretation lw: weight_table "\<lambda>l. good E l \<and> weights_ok E (lview l) \<and> plain_weights l" Ledger_Weight
    "\<lambda>l. total_supply (lview l) (cf_ChainToken E)" for E
  by unfold_locales (auto intro: weight_bounds weights_bound)

section \<open>Counting votes\<close>

lemma tally_totals:
  assumes "\<And>a. 0 \<le> w a" "(\<Sum>v\<leftarrow>vs. w (fst v)) < 2 ^ 64"
  shows "map_of (foldl (tally_step blocks w) [] vs) h =
    (if h \<in> (\<lambda>v. vi_hash (snd v)) ` set vs then map_option (\<lambda>b. (b, votes_for w vs h)) (map_of blocks h) else None)"
  using assms(2)
proof (induction vs arbitrary: h rule: rev_induct)
  case (snoc v vs)
  let ?h = "vi_hash (snd v)" and ?T = "foldl (tally_step blocks w) [] vs"
  have lt: "(\<Sum>v\<leftarrow>vs. w (fst v)) + w (fst v) < 2 ^ 64" using snoc.prems by simp
  have w0: "0 \<le> w (fst v)" "0 \<le> (\<Sum>v\<leftarrow>vs. w (fst v))" using assms(1) by (auto intro!: sum_list_nonneg)
  have vf: "0 \<le> votes_for w vs ?h" "votes_for w vs ?h \<le> (\<Sum>v\<leftarrow>vs. w (fst v))"
    using votes_for_nonneg votes_for_le assms(1) by blast+
  have add: "Balance_Add (votes_for w vs ?h) (w (fst v)) = votes_for w vs ?h + w (fst v)" "Balance_Add 0 (w (fst v)) = w (fst v)"
    using lt w0 vf by (simp_all add: Balance_Add_exact)
  have ih: "map_of ?T h = (if h \<in> (\<lambda>v. vi_hash (snd v)) ` set vs then map_option (\<lambda>b. (b, votes_for w vs h)) (map_of blocks h) else None)" for h
    by (rule snoc.IH) (use lt w0 in linarith)
  have vf': "votes_for w (vs @ [v]) h = votes_for w vs h + (if ?h = h then w (fst v) else 0)" for h by (simp add: votes_for_def)
  define T where "T = ?T"
  have "map_of (tally_step blocks w T v) h =
    (if h \<in> (\<lambda>v. vi_hash (snd v)) ` set (vs @ [v]) then map_option (\<lambda>b. (b, votes_for w (vs @ [v]) h)) (map_of blocks h) else None)"
    using ih unfolding T_def [symmetric]
    by (cases "map_of blocks ?h"; cases "?h \<in> (\<lambda>v. vi_hash (snd v)) ` set vs")
      (auto simp: tally_step_def Let_def vf' add votes_for_none update_conv' image_Un)
  then show ?case by (simp add: T_def)
qed simp

lemma most_voted_max:
  assumes "most_voted t = (b, x)"
  shows "0 \<le> x" "x > 0 \<Longrightarrow> \<exists>h. (h, b, x) \<in> set t" "\<And>h c y. (h, c, y) \<in> set t \<Longrightarrow> y \<le> x"
proof -
  have "0 \<le> x \<and> (x > 0 \<longrightarrow> (\<exists>h. (h, b, x) \<in> set t)) \<and> (\<forall>h c y. (h, c, y) \<in> set t \<longrightarrow> y \<le> x)"
    using assms
  proof (induction t arbitrary: b x rule: rev_induct)
    case Nil
    then show ?case by (simp add: most_voted_def)
  next
    case (snoc e t)
    obtain h c y where e: "e = (h, c, y)" by (cases e) auto
    obtain b0 x0 where m: "most_voted t = (b0, x0)" by fastforce
    then have "most_voted (t @ [e]) = (if x0 < y then (c, y) else (b0, x0))"
      by (simp add: most_voted_def e Balance_Compare_def)
    then show ?case using snoc.IH [OF m] snoc.prems by (cases "x0 < y") (fastforce simp: e)+
  qed
  then show "0 \<le> x" "x > 0 \<Longrightarrow> \<exists>h. (h, b, x) \<in> set t" "\<And>h c y. (h, c, y) \<in> set t \<Longrightarrow> y \<le> x" by blast+
qed

section \<open>One winner\<close>

lemma vote_weight_ledger [simp]: "vote_weight D False = Ledger_Weight (dp_ledger D)"
  by (simp add: vote_weight_def fun_eq_iff)

definition counts_all :: "dpos_env \<Rightarrow> bool" where
  "counts_all V \<longleftrightarrow> (\<forall>xs. mset (de_votes V xs) = mset xs) \<and> (\<forall>xs. mset (de_totals V xs) = mset xs) \<and> (\<forall>xs. mset (de_blocks V xs) = mset xs)"

lemma tally_entry:
  assumes "counts_all V" "\<And>a. 0 \<le> vote_weight D isSync a" "(\<Sum>v\<leftarrow>el_repVotes el. vote_weight D isSync (fst v)) < 2 ^ 64"
  shows "map_of (tally V D isSync el) h = (if h \<in> (\<lambda>v. vi_hash (snd v)) ` set (el_repVotes el)
    then map_option (\<lambda>b. (b, votes_for (vote_weight D isSync) (el_repVotes el) h)) (map_of (el_blocks el) h) else None)"
proof -
  let ?vs = "de_votes V (el_repVotes el)"
  have m: "mset ?vs = mset (el_repVotes el)" using assms(1) by (simp add: counts_all_def)
  have "(\<Sum>v\<leftarrow>?vs. vote_weight D isSync (fst v)) = (\<Sum>v\<leftarrow>el_repVotes el. vote_weight D isSync (fst v))"
    unfolding sum_mset_sum_list [symmetric] using m by simp
  then show ?thesis using tally_totals [of "vote_weight D isSync" ?vs "el_blocks el" h] assms(2,3) votes_for_mset [OF m] mset_eq_setD [OF m]
    by (simp add: tally_def)
qed

lemma distinct_tally: "distinct (map fst (foldl (tally_step blocks w) T vs))" if "distinct (map fst T)"
  using that by (induction vs arbitrary: T) (auto simp: tally_step_def Let_def distinct_update split: option.split prod.split)

text \<open>The totals as a list: each hash once, with its block and its votes.\<close>

lemma tally_member:
  assumes "counts_all V" "\<And>a. 0 \<le> vote_weight D isSync a" "(\<Sum>v\<leftarrow>el_repVotes el. vote_weight D isSync (fst v)) < 2 ^ 64"
  shows "(h, b, x) \<in> set (de_totals V (tally V D isSync el)) \<longleftrightarrow>
    h \<in> (\<lambda>v. vi_hash (snd v)) ` set (el_repVotes el) \<and> map_of (el_blocks el) h = Some b \<and> x = votes_for (vote_weight D isSync) (el_repVotes el) h"
proof -
  have "distinct (map fst (tally V D isSync el))" unfolding tally_def by (rule distinct_tally) simp
  moreover have "set (de_totals V (tally V D isSync el)) = set (tally V D isSync el)"
    using assms(1) mset_eq_setD unfolding counts_all_def by blast
  ultimately have "(h, b, x) \<in> set (de_totals V (tally V D isSync el)) \<longleftrightarrow> map_of (tally V D isSync el) h = Some (b, x)" by simp
  then show ?thesis unfolding tally_entry [OF assms] by auto
qed

lemma quorum_sound:
  assumes "counts_all V" "\<And>a. 0 \<le> vote_weight D False a" "(\<Sum>v\<leftarrow>el_repVotes el. vote_weight D False (fst v)) < 2 ^ 64"
    and "0 \<le> dp_voteThreshold D"
  shows "quorum_block V D el = Some b \<Longrightarrow> \<exists>h. map_of (el_blocks el) h = Some b \<and> dp_voteThreshold D < votes_for (vote_weight D False) (el_repVotes el) h"
    and "quorum_block V D el = None \<Longrightarrow> map_of (el_blocks el) h = Some b \<Longrightarrow> votes_for (vote_weight D False) (el_repVotes el) h \<le> dp_voteThreshold D"
proof -
  obtain c x where m: "most_voted (de_totals V (tally V D False el)) = (c, x)" by fastforce
  note mx = most_voted_max [OF m] and mem = tally_member [OF assms(1-3)]
  show "\<exists>h. map_of (el_blocks el) h = Some b \<and> dp_voteThreshold D < votes_for (vote_weight D False) (el_repVotes el) h"
    if "quorum_block V D el = Some b"
  proof -
    have "c = b" "dp_voteThreshold D < x" using that by (simp_all add: quorum_block_def Let_def m Balance_Compare_def split: if_splits)
    then show ?thesis using mx(2) mem assms(4) by force
  qed
  show "votes_for (vote_weight D False) (el_repVotes el) h \<le> dp_voteThreshold D"
    if "quorum_block V D el = None" "map_of (el_blocks el) h = Some b"
  proof (cases "h \<in> (\<lambda>v. vi_hash (snd v)) ` set (el_repVotes el)")
    case True
    have "x \<le> dp_voteThreshold D"
    proof (cases "de_totals V (tally V D False el) = []")
      case True
      then show ?thesis using m assms(4) by (simp add: most_voted_def)
    qed (use that(1) in \<open>simp add: quorum_block_def Let_def m Balance_Compare_def split: if_splits\<close>)
    moreover have "(h, b, votes_for (vote_weight D False) (el_repVotes el) h) \<in> set (de_totals V (tally V D False el))"
      unfolding mem using True that(2) by simp
    ultimately show ?thesis using mx(3) by fastforce
  next
    case False
    then show ?thesis using assms(4) by (simp add: votes_for_none)
  qed
qed

lemma Balance_Div_half: "0 \<le> s \<Longrightarrow> s < 2 ^ 63 \<Longrightarrow> fst (Balance_Div s 2) = s div 2"
proof -
  assume s: "0 \<le> s" "s < 2 ^ 63"
  have i: "sint (of_int x :: u64) = x" if "0 \<le> x" "x < 2 ^ 63" for x
    using that by (simp add: signed_of_int signed_take_bit_int_eq_self)
  have "s sdiv 2 = s div 2" using s(1) by (simp add: signed_divide_int_def sgn_if)
  moreover have "s div 2 < 2 ^ 63" using s by linarith
  ultimately show ?thesis using s i by (simp add: Balance_Div_def big_Int64_def)
qed

text \<open>C10: an election has at most one winner. Take a ledger reached by transfers from one whose weights are sums of
  delegated balances, with a chain token supply below \<open>2^63\<close>, no weight besides balances (nothing pledged for votes,
  network, storage or oracles), and the threshold set to half the supply. Then the block an election confirms does not
  depend on the order in which votes and totals are ranged over; it has more than half of the supply behind it and no
  other block has.\<close>

theorem election_unique_winner:
  assumes "good E l0" "weights_ok E (lview l0)" "total_supply (lview l0) (cf_ChainToken E) < 2 ^ 63"
    and "(transfer_step E R)\<^sup>*\<^sup>* l0 (dp_ledger D0)" "plain_weights (dp_ledger D0)"
    and "D = dpos_Init (total_supply (lview l0) (cf_ChainToken E)) D0" "distinct (map fst (el_repVotes el))" "counts_all V" "counts_all V'"
  shows "quorum_block V D el = quorum_block V' D el \<and>
    (\<forall>b. quorum_block V D el = Some b \<longrightarrow> (\<exists>h. map_of (el_blocks el) h = Some b \<and>
       dp_voteThreshold D < votes_for (Ledger_Weight (dp_ledger D)) (el_repVotes el) h \<and>
       (\<forall>h'. h' \<noteq> h \<longrightarrow> votes_for (Ledger_Weight (dp_ledger D)) (el_repVotes el) h' \<le> dp_voteThreshold D)))"
proof -
  let ?s = "total_supply (lview l0) (cf_ChainToken E)" and ?w = "Ledger_Weight (dp_ledger D)"
  have l: "dp_ledger D = dp_ledger D0" "dp_voteThreshold D = fst (Balance_Div ?s 2)" by (simp_all add: assms(6) dpos_Init_def)
  have g: "good E (dp_ledger D) \<and> weights_ok E (lview (dp_ledger D)) \<and> plain_weights (dp_ledger D)"
    using transfer_run_good [OF assms(4,1)] transfer_run_weights [OF assms(4,1,2)] assms(3,5) by (simp add: l)
  have s: "total_supply (lview (dp_ledger D)) (cf_ChainToken E) = ?s"
    using transfer_run_keeps [OF assms(4)] assms(1) by (simp add: l good_def)
  have thr: "dp_voteThreshold D = ?s div 2" "0 \<le> dp_voteThreshold D"
    using Balance_Div_half [of ?s] lw.supply_nonneg [OF g, unfolded s] assms(3) by (simp_all add: l(2))
  have nn: "0 \<le> vote_weight D False a" for a using lw.weight_nonneg [OF g] by simp
  have lt: "(\<Sum>v\<leftarrow>el_repVotes el. vote_weight D False (fst v)) < 2 ^ 64" using lw.votes_sum [OF g assms(7)] assms(3) by (simp add: s)
  note q = quorum_sound [OF _ nn lt thr(2), simplified] and one = lw.majority_unique [OF g assms(7), unfolded s, folded thr(1)]
  have "quorum_block V D el = quorum_block V' D el"
    using q [OF assms(8)] q [OF assms(9)] one by (cases "quorum_block V D el"; cases "quorum_block V' D el") (metis linorder_not_le option.inject)+
  then show ?thesis using q(1) [OF assms(8)] one by blast
qed

section \<open>What is written to the ledger\<close>

definition election_ok :: "Election \<Rightarrow> bool" where
  "election_ok el \<longleftrightarrow> distinct (map fst (el_repVotes el))"

lemma voteStatus_keeps:
  "election_ok el \<Longrightarrow> election_ok (snd (voteStatus vi el))" "el_blocks (snd (voteStatus vi el)) = el_blocks el"
  "el_winner (snd (voteStatus vi el)) = el_winner el" "el_loser (snd (voteStatus vi el)) = el_loser el" "el_valid (snd (voteStatus vi el)) = el_valid el"
  by (auto simp: voteStatus_def election_ok_def distinct_update distinct_delete split: option.split)

lemma rollBack_none: "(\<forall>b \<in> set bs. HasStateBlock (dp_ledger D) (block_hash V b) \<noteq> Inr True) \<Longrightarrow> rollBack V bs D = Some D"
  by (induction bs) auto

lemma set_el_ledger [simp]: "dp_ledger (set_el i f D) = dp_ledger D" "dp_voteThreshold (set_el i f D) = dp_voteThreshold D"
  by (simp_all add: set_el_def)

lemma effects_ledger [simp]:
  "dp_ledger (emit es D) = dp_ledger D" "dp_ledger (cleanBlockInfo i D) = dp_ledger D" "dp_ledger (updateVoteStatistic V i h D) = dp_ledger D"
  by (simp_all add: emit_def cleanBlockInfo_def updateVoteStatistic_def)

text \<open>The blocks of an election, none of which is stored yet.\<close>

definition all_new :: "dpos_env \<Rightarrow> ledger \<Rightarrow> Election \<Rightarrow> bool" where
  "all_new V l el \<longleftrightarrow> (\<forall>b \<in> insert (el_winner el) (set (el_loser el) \<union> snd ` set (el_blocks el)). HasStateBlock l (block_hash V b) \<noteq> Inr True)"

definition weights_fit :: "ledger \<Rightarrow> bool" where
  "weights_fit l \<longleftrightarrow> (\<forall>a. 0 \<le> Ledger_Weight l a) \<and> (\<Sum>a\<in>UNIV. Ledger_Weight l a) < 2 ^ 64"

lemma weights_fit_votes:
  assumes "weights_fit l" "election_ok el"
  shows "(\<Sum>v\<leftarrow>el_repVotes el. Ledger_Weight l (fst v)) < 2 ^ 64"
proof -
  have "(\<Sum>v\<leftarrow>el_repVotes el. Ledger_Weight l (fst v)) = (\<Sum>a\<in>fst ` set (el_repVotes el). Ledger_Weight l a)"
    using sum_list_distinct_conv_sum_set [of "map fst (el_repVotes el)" "Ledger_Weight l"] assms(2) by (simp add: election_ok_def comp_def)
  also have "\<dots> \<le> (\<Sum>a\<in>UNIV. Ledger_Weight l a)" using assms(1) by (intro sum_mono2) (auto simp: weights_fit_def)
  finally show ?thesis using assms(1) by (simp add: weights_fit_def)
qed

lemma haveQuorum_writes:
  assumes "i < length (dp_els D)" "dp_els D ! i = el" "el_valid el" "election_ok el" "weights_fit (dp_ledger D)" "counts_all V"
    and "0 \<le> dp_voteThreshold D" "all_new V (dp_ledger D) el"
  shows "map_option dp_ledger (haveQuorum V i D) = (case quorum_block V D el of
      None \<Rightarrow> Some (dp_ledger D)
    | Some b \<Rightarrow> if HasStateBlockConfirmed (dp_ledger D) (block_hash V b) = Inr False
        then map_option snd (BlockProcess (de_E V) (de_R V) (de_now V) (de_elapsed V) b (dp_ledger D)) else Some (dp_ledger D))"
proof (cases "quorum_block V D el")
  case None
  then show ?thesis using assms(2) by (simp add: haveQuorum_def)
next
  case (Some b)
  have w: "\<And>a. 0 \<le> vote_weight D False a" "(\<Sum>v\<leftarrow>el_repVotes el. vote_weight D False (fst v)) < 2 ^ 64"
    using assms(5) weights_fit_votes [OF assms(5,4)] by (simp_all add: weights_fit_def)
  let ?l = "losers V el (block_hash V b) (de_totals V (tally V D False el))"
  have "c \<in> snd ` set (el_blocks el)" if "(k, c, x) \<in> set (de_totals V (tally V D False el))" for k c x
    using that map_of_SomeD unfolding tally_member [OF assms(6) w] by force
  then have "set ?l \<subseteq> insert (el_winner el) (set (el_loser el) \<union> snd ` set (el_blocks el))" by (auto simp: losers_def)
  then have new: "\<forall>c \<in> set ?l. HasStateBlock (dp_ledger D) (block_hash V c) \<noteq> Inr True" using assms(8) unfolding all_new_def by blast
  let ?D = "set_el i (\<lambda>el. el\<lparr>el_valid := False, el_loser := ?l\<rparr>) (D\<lparr>dp_roots := AList.delete (el_id el) (dp_roots D)\<rparr>)"
  have "rollBack V ?l ?D = Some ?D" by (rule rollBack_none) (use new in simp)
  then have "map_option dp_ledger (haveQuorum V i D) = map_option dp_ledger (addWinner2Ledger V b ?D)"
    using Some assms(2,3) by (simp add: haveQuorum_def Let_def option.map_comp comp_def)
  also have "\<dots> = (if HasStateBlockConfirmed (dp_ledger D) (block_hash V b) = Inr False
      then map_option snd (BlockProcess (de_E V) (de_R V) (de_now V) (de_elapsed V) b (dp_ledger D)) else Some (dp_ledger D))"
    by (auto simp: addWinner2Ledger_def option.map_comp comp_def case_prod_unfold split: sum.split intro!: option.map_cong)
  finally show ?thesis using Some by simp
qed

text \<open>What the election of a vote confirms: a block with more than the threshold of votes, the new vote included. A vote
  for a confirmed block, in a closed election or repeating the last vote of its representative is not counted.\<close>

definition vote_counts :: "DPoS \<Rightarrow> voteInfo \<Rightarrow> Election \<Rightarrow> bool" where
  "vote_counts D vi el \<longleftrightarrow> HasStateBlockConfirmed (dp_ledger D) (vi_hash vi) \<noteq> Inr True \<and> el_valid el \<and> fst (voteStatus vi el) \<noteq> TallyConfirm"

definition has_majority :: "DPoS \<Rightarrow> voteInfo \<Rightarrow> Election \<Rightarrow> state_block \<Rightarrow> bool" where
  "has_majority D vi el b \<longleftrightarrow> (\<exists>h. map_of (el_blocks el) h = Some b \<and>
     dp_voteThreshold D < votes_for (Ledger_Weight (dp_ledger D)) (el_repVotes (snd (voteStatus vi el))) h)"

text \<open>C11: consensus confirms exactly the blocks with a quorum. A vote arrives for a block of an election on new blocks
  with no reported frontier; the weights and their sum fit 64 bits, and the contracts called for the blocks of the
  election leave them as they are. If the vote counts and a block of the election has more than the threshold of votes,
  this vote included, then such a block is processed by the ledger, unless it is confirmed already, and the ledger
  afterwards is the one the processing returns; otherwise the ledger stays as it is. The invariant of the ledger is
  kept.\<close>

theorem quorum_confirms:
  assumes "ledger_inv (de_E V) (dp_ledger D)" "weights_fit (dp_ledger D)" "counts_all V" "0 \<le> dp_voteThreshold D"
    and "dp_hash2el D (vi_hash vi) = Some i" "i < length (dp_els D)" "election_ok (dp_els D ! i)" "el_frontier (dp_els D ! i) = []"
    and "all_new V (dp_ledger D) (dp_els D ! i)" "\<forall>b \<in> snd ` set (el_blocks (dp_els D ! i)). keeps_block (de_R V) (dp_ledger D) b"
  shows "(if vote_counts D vi (dp_els D ! i) \<and> (\<exists>b. has_majority D vi (dp_els D ! i) b)
     then \<exists>b. has_majority D vi (dp_els D ! i) b \<and> map_option dp_ledger (processAck V p vi D) =
       (if HasStateBlockConfirmed (dp_ledger D) (block_hash V b) = Inr False
        then map_option snd (BlockProcess (de_E V) (de_R V) (de_now V) (de_elapsed V) b (dp_ledger D)) else Some (dp_ledger D))
     else map_option dp_ledger (processAck V p vi D) = Some (dp_ledger D)) \<and>
    (\<forall>D'. processAck V p vi D = Some D' \<longrightarrow> ledger_inv (de_E V) (dp_ledger D'))"
proof (cases "vote_counts D vi (dp_els D ! i)")
  case False
  then have "map_option dp_ledger (processAck V p vi D) = Some (dp_ledger D)" using assms(5,8)
    by (auto simp: vote_counts_def processAck_def ActiveTrx_vote_def voteAction_def case_prod_unfold Let_def)
  then show ?thesis using False assms(1) by auto
next
  case True
  let ?el = "dp_els D ! i" and ?el' = "snd (voteStatus vi (dp_els D ! i))" and ?l = "dp_ledger D"
  let ?D = "set_el i (\<lambda>_. ?el') D"
  note k = voteStatus_keeps
  have count: "processAck V p vi D = haveQuorum V i ?D" and valid: "el_valid ?el'"
    using assms(5,8) True by (simp_all add: vote_counts_def processAck_def ActiveTrx_vote_def voteAction_def case_prod_unfold Let_def k)
  have el: "dp_els ?D ! i = ?el'" "i < length (dp_els ?D)" using assms(6) by (simp_all add: set_el_def)
  have "weights_fit (dp_ledger ?D)" "0 \<le> dp_voteThreshold ?D" "all_new V (dp_ledger ?D) ?el'"
    using assms(2,4,9) by (simp_all add: all_new_def k)
  from haveQuorum_writes [of i ?D ?el' V, OF el(2,1) valid k(1) [OF assms(7)] this(1) assms(3) this(2,3)]
  have w: "map_option dp_ledger (processAck V p vi D) = (case quorum_block V ?D ?el' of None \<Rightarrow> Some ?l
    | Some b \<Rightarrow> if HasStateBlockConfirmed ?l (block_hash V b) = Inr False
        then map_option snd (BlockProcess (de_E V) (de_R V) (de_now V) (de_elapsed V) b ?l) else Some ?l)"
    unfolding count set_el_ledger .
  have "\<And>a. 0 \<le> vote_weight ?D False a" "(\<Sum>v\<leftarrow>el_repVotes ?el'. vote_weight ?D False (fst v)) < 2 ^ 64"
    using assms(2) weights_fit_votes [OF assms(2) k(1) [OF assms(7)]] by (simp_all add: weights_fit_def)
  note q = quorum_sound [OF assms(3) this]
  show ?thesis
  proof (cases "quorum_block V ?D ?el'")
    case None
    then have "\<not> (\<exists>b. has_majority D vi ?el b)" using q(2) assms(4) by (auto simp: has_majority_def k not_less [symmetric])
    then show ?thesis using w None assms(1) by auto
  next
    case (Some b)
    then have m: "has_majority D vi ?el b" using q(1) assms(4) by (simp add: has_majority_def k)
    then have "keeps_block (de_R V) ?l b" using assms(10) map_of_SomeD by (force simp: has_majority_def)
    then have "ledger_inv (de_E V) (dp_ledger D')" if "processAck V p vi D = Some D'" for D'
      using w Some that assms(1) ledger_step_inv [OF step_confirm [of ?l "de_E V" b "de_R V" "de_now V" "de_elapsed V"] assms(1)]
      by (cases "BlockProcess (de_E V) (de_R V) (de_now V) (de_elapsed V) b ?l") (auto split: if_splits)
    then show ?thesis using True m w Some by auto
  qed
qed

section \<open>Frontiers\<close>

lemma frontier_votes_frame:
  assumes "getVoteInfo V b D = Some i" "i < length (dp_els D)"
  shows "\<exists>vh es. local_frontier_votes V p b as D = D\<lparr>dp_els := (dp_els D)[i := (dp_els D ! i)\<lparr>el_voteHash := vh\<rparr>], dp_out := es\<rparr>"
  using assms
proof (induction as arbitrary: D)
  case Nil
  show ?case by (rule exI [of _ "el_voteHash (dp_els D ! i)"], rule exI [of _ "dp_out D"]) simp
next
  case (Cons a as)
  have self: "\<exists>vh es. D = D\<lparr>dp_els := (dp_els D)[i := (dp_els D ! i)\<lparr>el_voteHash := vh\<rparr>], dp_out := es\<rparr>"
    by (rule exI [of _ "el_voteHash (dp_els D ! i)"], rule exI [of _ "dp_out D"]) simp
  let ?D = "setVoteHash V b (emit [LocalAck p \<lparr>vi_account = a, vi_hash = block_hash V b\<rparr>] D)"
  have g: "getVoteInfo V b ?D = Some i" "dp_els ?D = (dp_els D)[i := (dp_els D ! i)\<lparr>el_voteHash := block_hash V b\<rparr>]"
    using Cons.prems(1) by (simp_all add: setVoteHash_def getVoteInfo_def emit_def set_el_def)
  obtain vh es where "local_frontier_votes V p b as ?D = ?D\<lparr>dp_els := (dp_els ?D)[i := (dp_els ?D ! i)\<lparr>el_voteHash := vh\<rparr>], dp_out := es\<rparr>"
    using Cons.IH [of ?D] g Cons.prems(2) by auto
  also have "\<dots> = D\<lparr>dp_els := (dp_els D)[i := (dp_els D ! i)\<lparr>el_voteHash := vh\<rparr>], dp_out := es\<rparr>"
    using Cons.prems unfolding g(2) by (simp add: setVoteHash_def getVoteInfo_def emit_def set_el_def)
  finally show ?case using self Cons.IH [OF Cons.prems] by (auto simp del: list_update_id)
qed

lemma single_perm: "mset xs = mset [x] \<Longrightarrow> xs = [x]"
  by simp

text \<open>C12: while a node synchronises, whoever reports the frontiers decides the weights. Take a block of the chain token
  without pledged amounts, whose balance is above the vote threshold and below \<open>2^64\<close>, which is neither confirmed nor
  reported nor in a running election, and whose representative has no total yet. It need not be signed and its account
  need not own anything. Reported as a frontier, its balance is counted for the representative it names, and one vote
  of that representative confirms it, although in the ledger nobody may have delegated anything to it.\<close>

theorem frontier_forged:
  assumes "counts_all V" "sb_Token b = cf_ChainToken (de_E V)" "sb_Vote b = None" "sb_Network b = None" "sb_Oracle b = None" "sb_Storage b = None"
    and "0 \<le> dp_voteThreshold D" "dp_voteThreshold D < sb_Balance b" "sb_Balance b < 2 ^ 64" "dp_totalVote D (sb_Representative b) = None"
    and "map_of (dp_frontiersStatus D) (block_hash V b) = None" "HasStateBlockConfirmed (dp_ledger D) (block_hash V b) \<noteq> Inr True" "getVoteInfo V b D = None"
  shows "\<exists>D'. processAck V p \<lparr>vi_account = sb_Representative b, vi_hash = block_hash V b\<rparr> (processFrontier V p b (onGetFrontier V [b] D)) = Some D' \<and>
    map_of (dp_frontiersStatus D') (block_hash V b) = Some (if de_syncBlock V (block_hash V b) then frontierChainConfirmed else frontierConfirmed) \<and>
    dp_ledger D' = dp_ledger D"
proof -
  let ?h = "block_hash V b" and ?a = "sb_Representative b" and ?w = "sb_Balance b" and ?i = "length (dp_els D)"
  let ?vi = "\<lparr>vi_account = sb_Representative b, vi_hash = block_hash V b\<rparr>"
  define D1 where "D1 = onGetFrontier V [b] D"
  have add: "Balance_Add ?w 0 = ?w" "Balance_Add 0 ?w = ?w" using assms(7-9) by (simp_all add: Balance_Add_exact)
  have D1: "dp_totalVote D1 ?a = Some ?w" "dp_els D1 = dp_els D" "dp_roots D1 = dp_roots D" "dp_ledger D1 = dp_ledger D" "dp_hash2el D1 = dp_hash2el D"
    "dp_voteThreshold D1 = dp_voteThreshold D"
    using assms(2-6,10-12) by (simp_all add: D1_def onGetFrontier_def wait_for_vote_def Let_def isReceivedFrontier_def emit_def add_vote_def
        StateBlock_GetVote_def StateBlock_GetOracle_def StateBlock_GetNetwork_def StateBlock_GetStorage_def add)
  define el where "el = \<lparr>el_id = getVoteKey (de_E V) b, el_repVotes = [], el_winner = b, el_loser = [], el_lastTime = de_now V,
    el_voteHash = ZeroHash, el_blocks = [(?h, b)], el_frontier = [?h], el_valid = True\<rparr>"
  define D2 where "D2 = D1\<lparr>dp_out := dp_out D1 @ [SubAck p ?h], dp_hash2el := (dp_hash2el D)(?h \<mapsto> ?i),
    dp_roots := AList.update (getVoteKey (de_E V) b) ?i (dp_roots D), dp_els := dp_els D @ [el]\<rparr>"
  have v2: "getVoteInfo V b D2 = Some ?i" "?i < length (dp_els D2)" by (simp_all add: D2_def getVoteInfo_def update_conv')
  have p: "processFrontier V p b D1 = (if fst (BlockCheck (de_E V) (de_R V) (dp_ledger D2) b) = Progress then localRepVoteFrontier V p b D2 else D2)"
    using assms(13) by (simp add: processFrontier_def addToRoots_def newElection_def getVoteInfo_def emit_def D1 update_conv' Let_def add_frontier_def set_el_def
        D2_def el_def List.insert_def list_update_append)
  have "\<exists>vh es. processFrontier V p b D1 = D2\<lparr>dp_els := (dp_els D2)[?i := (dp_els D2 ! ?i)\<lparr>el_voteHash := vh\<rparr>], dp_out := es\<rparr>"
    using frontier_votes_frame [OF v2, of p "dp_localRepAccount D2"] exI [of _ "el_voteHash (dp_els D2 ! ?i)"]
    unfolding p localRepVoteFrontier_def by (auto simp: list_update_id intro!: exI [of _ "el_voteHash (dp_els D2 ! ?i)"] exI [of _ "dp_out D2"])
  then obtain vh es where D3: "processFrontier V p b D1 = D2\<lparr>dp_els := dp_els D @ [el\<lparr>el_voteHash := vh\<rparr>], dp_out := es\<rparr>"
    by (auto simp: D2_def)
  have perm: "de_votes V [(?a, ?vi)] = [(?a, ?vi)]" "de_totals V [(?h, b, ?w)] = [(?h, b, ?w)]" "de_blocks V [(?h, b)] = [(?h, b)]"
    using assms(1) by (auto simp: counts_all_def intro: single_perm)
  show ?thesis unfolding D1_def [symmetric] D3 using assms(7,8)
    by (simp add: processAck_def ActiveTrx_voteFrontier_def Election_voteFrontier_def D2_def el_def voteStatus_def set_el_def tally_def tally_step_def
        vote_weight_def D1 add perm most_voted_def Balance_Compare_def processAckedSync_def isConfirmedFrontier_def emit_def cleanBlockInfo_def update_conv' Let_def)
qed

section \<open>Examples\<close>

text \<open>The ledger of the other examples with an election on the open block of account 101. Representative 7 has weight
  150 of a supply of 200.\<close>

definition ex_denv :: "((address \<times> voteInfo) list \<Rightarrow> (address \<times> voteInfo) list) \<Rightarrow> dpos_env" where
  "ex_denv f = \<lparr>de_E = ex_config, de_R = ex_registry, de_T = \<lparr>tr_entries = \<lambda>_ _. [], tr_nodes = \<lambda>_ _. [], tr_convertible = \<lambda>_. True\<rparr>,
     de_now = 0, de_elapsed = False, de_fuel = 9, de_qcap = 510, de_ord = id, de_votes = f, de_totals = id, de_blocks = id, de_roots = id,
     de_processorNum = 4, de_online = (\<lambda>_. None), de_packed = (\<lambda>_. False), de_syncBlock = (\<lambda>_. False)\<rparr>"

definition ex_election :: "(address \<times> voteInfo) list \<Rightarrow> Election" where
  "ex_election vs = \<lparr>el_id = 64, el_repVotes = vs, el_winner = ex_open, el_loser = [], el_lastTime = 0, el_voteHash = 0,
     el_blocks = [(244, ex_open)], el_frontier = [], el_valid = True\<rparr>"

definition ex_dpos :: DPoS where
  "ex_dpos = dpos_Init 200 \<lparr>dp_ledger = ex_ledger, dp_els = [ex_election []], dp_roots = [(64, 0)], dp_hash2el = [244 \<mapsto> 0],
     dp_frontiersStatus = [], dp_totalVote = Map.empty, dp_voteThreshold = 0, dp_minVoteWeight = 0, dp_localRepAccount = [],
     dp_confirmedChain = (\<lambda>_. Map.empty), dp_curPovHeight = 0, dp_out = []\<rparr>"

lemma ex_dpos_sels [simp]: "dp_ledger ex_dpos = ex_ledger" "dp_voteThreshold ex_dpos = 100" "dp_els ex_dpos = [ex_election []]"
  "dp_hash2el ex_dpos = [244 \<mapsto> 0]" "dp_totalVote ex_dpos = Map.empty" "dp_frontiersStatus ex_dpos = []" "dp_roots ex_dpos = [(64, 0)]"
  by (simp_all add: ex_dpos_def dpos_Init_def Balance_Div_half)

lemma ex_counts: "counts_all (ex_denv id)" "counts_all (ex_denv rev)"
  by (simp_all add: counts_all_def ex_denv_def)

lemma ex_reps: "GetRepresentation ex_ledger None a = (if a = 7 then Inr ex_benefit else Inl ErrRepresentationNotFound)"
  using ledger_reads(4) [OF ledger_invD(1,2) [OF ex_inv], of a] by (simp add: ex_view ex_tables)

lemma ex_plain: "plain_weights ex_ledger"
  by (simp add: plain_weights_def ex_reps ex_benefit_def)

lemma ex_Weight: "Ledger_Weight ex_ledger a = (if a = 7 then 150 else 0)"
  by (simp add: Ledger_Weight_def ex_reps ex_benefit_def)

lemma ex_has: "HasStateBlockConfirmed ex_ledger h = Inr (h = 242 \<or> h = 243)"
  using has_cached_view [OF ledger_invD(1) [OF ex_inv], of "KBlock h"] by (simp add: HasStateBlockConfirmed_def ex_view ex_store_def)

theorem election_unique_winner_witness:
  "quorum_block (ex_denv id) ex_dpos (ex_election [(7, \<lparr>vi_account = 7, vi_hash = 244\<rparr>), (8, \<lparr>vi_account = 8, vi_hash = 245\<rparr>)]) =
   quorum_block (ex_denv rev) ex_dpos (ex_election [(7, \<lparr>vi_account = 7, vi_hash = 244\<rparr>), (8, \<lparr>vi_account = 8, vi_hash = 245\<rparr>)])"
proof -
  have s: "cf_ChainToken ex_config = 1" by (simp add: ex_config_def)
  have i: "ex_dpos = dpos_Init 200 ex_dpos" by (simp add: ex_dpos_def dpos_Init_def)
  show ?thesis
    using election_unique_winner [OF ex_good _ _ _ _ _ _ ex_counts, where R = ex_registry and ?D0.0 = ex_dpos and D = ex_dpos and
        el = "ex_election [(7, \<lparr>vi_account = 7, vi_hash = 244\<rparr>), (8, \<lparr>vi_account = 8, vi_hash = 245\<rparr>)]"] ex_weights ex_plain
    by (simp add: ex_view ex_supply i [symmetric] s) (simp add: ex_election_def)
qed

theorem quorum_confirms_witness:
  "has_majority ex_dpos \<lparr>vi_account = 7, vi_hash = 244\<rparr> (ex_election []) ex_open \<and>
   (\<exists>D' r. processAck (ex_denv id) 0 \<lparr>vi_account = 7, vi_hash = 244\<rparr> ex_dpos = Some D' \<and>
      BlockProcess ex_config ex_registry 0 False ex_open ex_ledger = Some (r, dp_ledger D'))"
proof -
  let ?vi = "\<lparr>vi_account = 7, vi_hash = 244\<rparr>"
  have k: "keeps_block ex_registry ex_ledger ex_open" by (rule keeps_block_other) (simp add: ex_open_def ex_block_def)
  have f: "weights_fit ex_ledger" by (simp add: weights_fit_def ex_Weight)
  have n: "HasStateBlock ex_ledger 244 \<noteq> Inr True" by (simp add: HasStateBlock_def HasBlockCache_def ex_has) (simp add: ex_ledger_def)
  have m: "has_majority ex_dpos ?vi (ex_election []) b \<longleftrightarrow> b = ex_open" for b
    by (auto simp: has_majority_def ex_election_def voteStatus_def votes_for_def ex_Weight)
  have v: "vote_counts ex_dpos ?vi (ex_election [])" by (simp add: vote_counts_def ex_has ex_election_def voteStatus_def)
  have V: "de_E (ex_denv id) = ex_config" "de_R (ex_denv id) = ex_registry" "de_now (ex_denv id) = 0" "\<not> de_elapsed (ex_denv id)"
    "block_hash (ex_denv id) ex_open = 244" by (simp_all add: ex_denv_def)
  have el: "election_ok (ex_election [])" "el_frontier (ex_election []) = []" "all_new (ex_denv id) ex_ledger (ex_election [])"
    "\<forall>b \<in> snd ` set (el_blocks (ex_election [])). keeps_block ex_registry ex_ledger b"
    using n k V(5) by (simp_all add: ex_election_def election_ok_def all_new_def)
  have "map_option dp_ledger (processAck (ex_denv id) 0 ?vi ex_dpos) = map_option snd (BlockProcess ex_config ex_registry 0 False ex_open ex_ledger)"
    using quorum_confirms [of "ex_denv id" ex_dpos ?vi 0 0] ex_inv ex_counts(1) f el m v by (simp add: V ex_has)
  moreover obtain l where "Process ex_config ex_registry 0 False ex_open ex_ledger = Some (pass, l)" by (rule ex_opened)
  then have "BlockProcess ex_config ex_registry 0 False ex_open ex_ledger \<noteq> None" using ex_open_checked by (auto simp: Process_def)
  ultimately show ?thesis using m by auto
qed

definition ex_forged :: state_block where
  "ex_forged = new_StateBlock\<lparr>sb_Token := 1, sb_Address := 55, sb_Balance := 180, sb_Data := replicate 20 0, sb_Representative := 66\<rparr>"

theorem frontier_forged_witness:
  "Ledger_Weight ex_ledger 66 = 0 \<and>
   (\<exists>D'. processAck (ex_denv id) 0 \<lparr>vi_account = 66, vi_hash = GetHash (cf_H ex_config) ex_forged\<rparr>
      (processFrontier (ex_denv id) 0 ex_forged (onGetFrontier (ex_denv id) [ex_forged] (ex_dpos\<lparr>dp_roots := []\<rparr>))) = Some D' \<and>
      map_of (dp_frontiersStatus D') (GetHash (cf_H ex_config) ex_forged) = Some frontierConfirmed)"
proof -
  have "GetHash (cf_H ex_config) ex_forged \<noteq> 242" "GetHash (cf_H ex_config) ex_forged \<noteq> 243" by code_simp+
  then show ?thesis using frontier_forged [of "ex_denv id" ex_forged "ex_dpos\<lparr>dp_roots := []\<rparr>" 0] ex_counts
    by (auto simp: ex_forged_def new_StateBlock_def ex_denv_def ex_config_def ex_has getVoteInfo_def ex_Weight)
qed

end
