(* ===== verification/Trie.thy ===== *)
theory Trie
  imports Prelude "HOL-Library.AList" "HOL-Library.Sublist"
begin

text \<open>The Merkle-Patricia trie (\<open>trie/trie.go\<close>, \<open>node.go\<close>, \<open>trie_iterator.go\<close>): nodes, insertion, lookup,
  hashing, storage and iteration.

  A nil pointer is the constructor \<open>NilNode\<close>, a node that has only got its hash from the store is
  \<open>UnknownNode\<close>. The Go map of children is an association list; its order is the order in which the
  code happens to range over the map, and the results that depend on it are stated as sets. Node
  hashes are computed, not memoised: no node is changed after its hash has been taken. Values of more
  than 32 bytes are kept outside the nodes, by their hash, in \<open>unSavedRefValueMap\<close> until the trie is
  saved. The node pool is left out.\<close>

section \<open>Nodes\<close>

datatype trie_node = NilNode | UnknownNode hash | FullNode "(byte \<times> trie_node) list" trie_node
  | ShortNode bytes trie_node | ValueNode bytes | HashNode bytes

type_synonym refs = "(hash \<times> bytes) list"

definition IsLeafNode :: "trie_node \<Rightarrow> bool" where
  "IsLeafNode n \<longleftrightarrow> (case n of ValueNode _ \<Rightarrow> True | HashNode _ \<Rightarrow> True | _ \<Rightarrow> False)"

definition IsFullNode :: "trie_node \<Rightarrow> bool" where
  "IsFullNode n \<longleftrightarrow> (case n of FullNode _ _ \<Rightarrow> True | _ \<Rightarrow> False)"

lemma node_kinds [simp]:
  "IsLeafNode (ValueNode v)" "IsLeafNode (HashNode v)" "\<not> IsLeafNode NilNode" "\<not> IsLeafNode (FullNode cs ch)"
  "\<not> IsLeafNode (ShortNode k n)" "\<not> IsLeafNode (UnknownNode h)"
  "IsFullNode (FullNode cs ch)" "\<not> IsFullNode NilNode" "\<not> IsFullNode (ShortNode k n)" "\<not> IsFullNode (UnknownNode h)"
  "\<not> IsFullNode (ValueNode v)" "\<not> IsFullNode (HashNode v)"
  by (simp_all add: IsLeafNode_def IsFullNode_def)

text \<open>Indexing the map of children gives nil for a missing key.\<close>

definition child_at :: "(byte \<times> trie_node) list \<Rightarrow> byte \<Rightarrow> trie_node" where
  "child_at cs c = (case map_of cs c of None \<Rightarrow> NilNode | Some n \<Rightarrow> n)"

lemma child_at_update [simp]: "child_at (AList.update c n cs) d = (if d = c then n else child_at cs d)"
  by (simp add: child_at_def update_conv')

lemma child_at_simps [simp]: "child_at [] c = NilNode" "child_at ((c, n) # cs) d = (if d = c then n else child_at cs d)"
  by (simp_all add: child_at_def)

lemma child_at_in: "child_at cs c = NilNode \<or> (c, child_at cs c) \<in> set cs"
  by (auto simp: child_at_def split: option.split dest: map_of_SomeD)

section \<open>Insertion\<close>

text \<open>Bytes of a hash back to the hash.\<close>

definition BytesToHash :: "bytes \<Rightarrow> hash option" where
  "BytesToHash bs = (if length bs = 32 then Some (word_of_nat (foldl (\<lambda>a b. a * 256 + unat b) 0 bs)) else None)"

definition deleteUnSavedRefValueMap :: "trie_node \<Rightarrow> refs \<Rightarrow> refs" where
  "deleteUnSavedRefValueMap n r =
     (case n of
        HashNode v \<Rightarrow> (case BytesToHash v of None \<Rightarrow> r | Some h \<Rightarrow> AList.delete h r)
      | _ \<Rightarrow> r)"

text \<open>The length of the common prefix, the \<open>index\<close> of the loop in \<open>setValue\<close>.\<close>

fun lcp :: "bytes \<Rightarrow> bytes \<Rightarrow> nat" where
  "lcp (x # xs) (y # ys) = (if x = y then Suc (lcp xs ys) else 0)"
| "lcp _ _ = 0"

definition new_short :: "bytes \<Rightarrow> trie_node \<Rightarrow> trie_node" where
  "new_short key leaf = (if key \<noteq> [] then ShortNode key leaf else leaf)"

text \<open>The full node a short node is split into: its full child when the key goes on below, or a new one
  with the rest of the short node.\<close>

definition split_short :: "bytes \<Rightarrow> trie_node \<Rightarrow> nat \<Rightarrow> (byte \<times> trie_node) list \<times> trie_node" where
  "split_short nk n i =
     (case n of
        FullNode cs ch \<Rightarrow>
          if i \<ge> length nk then (cs, ch) else ([(nk ! i, new_short (drop (Suc i) nk) n)], NilNode)
      | _ \<Rightarrow> if i < length nk then ([(nk ! i, new_short (drop (Suc i) nk) n)], NilNode) else ([], n))"

text \<open>A short node without child cannot be met: dereferencing its child would panic.\<close>

function setValue :: "trie_node \<Rightarrow> bytes \<Rightarrow> trie_node \<Rightarrow> refs \<Rightarrow> trie_node \<times> refs" where
  "setValue NilNode key leaf r = (new_short key leaf, r)"
| "setValue (FullNode cs ch) [] leaf r = (FullNode cs leaf, deleteUnSavedRefValueMap ch r)"
| "setValue (FullNode cs ch) (c # key) leaf r =
     (case setValue (child_at cs c) key leaf r of (n, r') \<Rightarrow> (FullNode (AList.update c n cs) ch, r'))"
| "setValue (ShortNode nk n) key leaf r =
     (let i = lcp key nk
      in if i \<ge> length nk \<and> length key = i \<and> IsLeafNode n
         then (ShortNode nk leaf, deleteUnSavedRefValueMap n r)
         else (case split_short nk n i of (cs, ch) \<Rightarrow>
           (case (if i < length key
                  then case setValue (child_at cs (key ! i)) (drop (Suc i) key) leaf r of
                         (x, r') \<Rightarrow> (FullNode (AList.update (key ! i) x cs) ch, r')
                  else (FullNode cs leaf, r)) of
              (f, r') \<Rightarrow> (new_short (take i key) f, r'))))"
| "setValue (UnknownNode h) key leaf r =
     (case key of c # rest \<Rightarrow> (FullNode [(c, new_short rest leaf)] (UnknownNode h), r) | [] \<Rightarrow> (leaf, r))"
| "setValue (ValueNode v) key leaf r =
     (case key of c # rest \<Rightarrow> (FullNode [(c, new_short rest leaf)] (ValueNode v), r) | [] \<Rightarrow> (leaf, r))"
| "setValue (HashNode v) key leaf r =
     (case key of c # rest \<Rightarrow> (FullNode [(c, new_short rest leaf)] (HashNode v), r)
      | [] \<Rightarrow> (leaf, deleteUnSavedRefValueMap (HashNode v) r))"
  by pat_completeness auto
termination by (relation "measure (\<lambda>(n, key, l, r). length key)") auto

definition SetValue :: "(bytes \<Rightarrow> hash) \<Rightarrow> bytes \<Rightarrow> bytes \<Rightarrow> trie_node \<times> refs \<Rightarrow> trie_node \<times> refs" where
  "SetValue H key value t =
     (if length value > 32
      then case setValue (fst t) key (HashNode (be_bytes 32 (H value))) (snd t) of
             (n, r) \<Rightarrow> (n, AList.update (H value) value r)
      else setValue (fst t) key (ValueNode value) (snd t))"

section \<open>Lookup\<close>

lemma child_at_size: "size (child_at cs c) < Suc (size_list (size_prod (\<lambda>_. 0) size) cs + n)"
  by (induction cs) (auto simp: child_at_def)

function getLeafNode :: "trie_node \<Rightarrow> bytes \<Rightarrow> trie_node" where
  "getLeafNode NilNode key = NilNode"
| "getLeafNode (UnknownNode h) key = NilNode"
| "getLeafNode (ValueNode v) key = (if key = [] then ValueNode v else NilNode)"
| "getLeafNode (HashNode v) key = (if key = [] then HashNode v else NilNode)"
| "getLeafNode (FullNode cs ch) [] = ch"
| "getLeafNode (FullNode cs ch) (c # key) = getLeafNode (child_at cs c) key"
| "getLeafNode (ShortNode nk n) key =
     (if key = [] then NilNode else if \<not> prefix nk key then NilNode else getLeafNode n (drop (length nk) key))"
  by pat_completeness auto
termination
  by (relation "measure (\<lambda>(n, key). size n)") (auto intro: child_at_size)

text \<open>The store maps keys to bytes; \<open>encodeKey\<close> puts the table prefix before the hash. A value kept by
  its hash is looked up among the unsaved ones first; any error gives nil.\<close>

definition encodeKey :: "bytes \<Rightarrow> bytes" where
  "encodeKey key = 101 # key"

definition getRefValue :: "(bytes \<rightharpoonup> bytes) \<Rightarrow> refs \<Rightarrow> bytes \<Rightarrow> bytes option" where
  "getRefValue db r key =
     (case BytesToHash key of
        None \<Rightarrow> None
      | Some h \<Rightarrow> (case map_of r h of Some v \<Rightarrow> Some v | None \<Rightarrow> db (encodeKey key)))"

definition LeafNodeValue :: "(bytes \<rightharpoonup> bytes) \<Rightarrow> refs \<Rightarrow> trie_node \<Rightarrow> bytes option" where
  "LeafNodeValue db r n =
     (case n of ValueNode v \<Rightarrow> Some v | HashNode v \<Rightarrow> getRefValue db r v | _ \<Rightarrow> None)"

definition GetValue :: "(bytes \<rightharpoonup> bytes) \<Rightarrow> trie_node \<times> refs \<Rightarrow> bytes \<Rightarrow> bytes option" where
  "GetValue db t key = LeafNodeValue db (snd t) (getLeafNode (fst t) key)"

section \<open>Well-formed tries\<close>

text \<open>Short nodes have a key and lead to a leaf or a full node, the value of a full node is a leaf, every
  entry of the children is a node, and a full node is not empty.\<close>

fun wf_node :: "trie_node \<Rightarrow> bool" where
  "wf_node NilNode = False"
| "wf_node (UnknownNode h) = False"
| "wf_node (FullNode cs ch) \<longleftrightarrow> distinct (map fst cs) \<and> (\<forall>cn \<in> set cs. wf_node (snd cn)) \<and> (ch = NilNode \<or> IsLeafNode ch) \<and>
     (cs = [] \<longrightarrow> ch \<noteq> NilNode)"
| "wf_node (ShortNode nk n) \<longleftrightarrow> nk \<noteq> [] \<and> wf_node n \<and> (IsLeafNode n \<or> IsFullNode n)"
| "wf_node (ValueNode v) = True"
| "wf_node (HashNode v) = True"

definition wf_trie :: "trie_node \<Rightarrow> bool" where
  "wf_trie n \<longleftrightarrow> n = NilNode \<or> wf_node n"

lemma IsLeafNode_wf: "IsLeafNode n \<Longrightarrow> wf_node n"
  by (cases n) simp_all

lemma wf_child_at: "\<forall>cn \<in> set cs. wf_node (snd cn) \<Longrightarrow> wf_trie (child_at cs c)"
  using child_at_in [of cs c] by (auto simp: wf_trie_def)

lemma wf_update:
  assumes "\<forall>cn \<in> set cs. wf_node (snd cn)" "wf_node n"
  shows "\<forall>cn \<in> set (AList.update c n cs). wf_node (snd cn)"
  using assms by (induction cs) auto

lemma wf_full_update: "wf_node (FullNode cs ch) \<Longrightarrow> wf_node x \<Longrightarrow> wf_node (FullNode (AList.update c x cs) ch)"
  using wf_update [of cs x c] by (simp add: distinct_update)

lemma wf_full_child: "wf_node (FullNode cs ch) \<Longrightarrow> wf_trie (child_at cs c)"
  by (rule wf_child_at) simp

lemma wf_full_leaf: "wf_node (FullNode cs ch) \<Longrightarrow> IsLeafNode leaf \<Longrightarrow> wf_node (FullNode cs leaf)"
  by auto

lemma wf_new_short: "IsLeafNode n \<or> IsFullNode n \<Longrightarrow> wf_node n \<Longrightarrow> wf_node (new_short key n)"
  by (simp add: new_short_def)

lemma lcp_le: "lcp a b \<le> length a" "lcp a b \<le> length b"
  by (induction a b rule: lcp.induct) auto

lemma lcp_take: "take (lcp a b) a = take (lcp a b) b"
  by (induction a b rule: lcp.induct) auto

lemma lcp_differ: "lcp a b < length a \<Longrightarrow> lcp a b < length b \<Longrightarrow> a ! lcp a b \<noteq> b ! lcp a b"
  by (induction a b rule: lcp.induct) auto

lemma split_short_wf:
  assumes "wf_node (ShortNode nk n)" "split_short nk n i = (cs, ch)"
  shows "wf_node (FullNode cs ch)"
proof -
  have w: "wf_node n" "IsLeafNode n \<or> IsFullNode n" using assms(1) by simp_all
  then have "wf_node (new_short (drop (Suc i) nk) n)" by (intro wf_new_short)
  with assms(2) w show ?thesis by (cases n) (auto simp: split_short_def split: if_splits)
qed

lemma setValue_wf:
  "wf_trie n \<Longrightarrow> IsLeafNode leaf \<Longrightarrow> setValue n key leaf r = (n', r') \<Longrightarrow> wf_node n'"
proof (induction n key leaf r arbitrary: n' r' rule: setValue.induct)
  case (3 cs ch c key leaf r)
  then have w: "wf_node (FullNode cs ch)" by (simp add: wf_trie_def)
  from 3(1) [OF wf_full_child [OF w] 3(3)] 3(4) show ?case
    by (auto split: prod.splits simp del: wf_node.simps intro: wf_full_update [OF w])
next
  case (4 nk n key leaf r)
  let ?i = "lcp key nk"
  have w: "wf_node (ShortNode nk n)" using 4(2) by (simp add: wf_trie_def)
  obtain cs ch where sp: "split_short nk n ?i = (cs, ch)" by (cases "split_short nk n ?i")
  have f: "wf_node (FullNode cs ch)" by (rule split_short_wf [OF w sp])
  show ?case
  proof (cases "?i \<ge> length nk \<and> length key = ?i \<and> IsLeafNode n")
    case True
    with 4(3,4) w show ?thesis by (auto simp: Let_def IsLeafNode_wf)
  next
    case False
    note ih = 4(1) [OF refl False sp [symmetric] _ wf_full_child [OF f] 4(3)]
    have "wf_node (new_short (take ?i key) (FullNode (AList.update (key ! ?i) x cs) ch))" if "wf_node x" for x
      using wf_full_update [OF f that] by (intro wf_new_short) simp_all
    moreover have "wf_node (new_short (take ?i key) (FullNode cs leaf))"
      using wf_full_leaf [OF f 4(3)] by (intro wf_new_short) simp_all
    ultimately show ?thesis using ih False sp 4(4) by (auto simp: Let_def split: prod.splits if_splits)
  qed
qed (auto simp: wf_trie_def new_short_def IsLeafNode_wf split: list.splits)

section \<open>Lookup after insertion\<close>

lemma getLeafNode_new_short: "IsLeafNode n \<or> IsFullNode n \<Longrightarrow>
    getLeafNode (new_short p n) key = (if prefix p key then getLeafNode n (drop (length p) key) else NilNode)"
  by (auto simp: new_short_def)

lemma getLeafNode_leaf: "IsLeafNode leaf \<Longrightarrow> getLeafNode leaf key = (if key = [] then leaf else NilNode)"
  by (cases leaf) simp_all

text \<open>The full node a short node is split into, below the common prefix, looks up what the short node
  looked up.\<close>

lemma split_short_lookup:
  assumes "wf_node (ShortNode nk n)" "split_short nk n i = (cs, ch)" "i \<le> length nk"
  shows "getLeafNode (ShortNode nk n) (take i nk @ k) = getLeafNode (FullNode cs ch) k"
proof -
  have n: "nk \<noteq> []" "IsLeafNode n \<or> IsFullNode n" using assms(1) by simp_all
  have "getLeafNode (ShortNode nk n) (take i nk @ k) =
      (if prefix (drop i nk) k then getLeafNode n (drop (length nk - i) k) else NilNode)"
  proof -
    have "prefix nk (take i nk @ k) \<longleftrightarrow> prefix (drop i nk) k"
      by (metis append_take_drop_id same_prefix_prefix)
    moreover have "take i nk @ k = [] \<longrightarrow> \<not> prefix (drop i nk) k" using n(1) by auto
    ultimately show ?thesis using assms(3) by auto
  qed
  also have "\<dots> = getLeafNode (FullNode cs ch) k"
  proof (cases "i < length nk")
    case True
    then have cs: "cs = [(nk ! i, new_short (drop (Suc i) nk) n)]" "ch = NilNode"
      using assms(2) by (auto simp: split_short_def split: trie_node.splits)
    have d: "drop i nk = nk ! i # drop (Suc i) nk" using True by (simp add: Cons_nth_drop_Suc)
    have "length nk - i = Suc (length nk - Suc i)" using True by simp
    then show ?thesis using n(2) by (cases k) (auto simp: cs d getLeafNode_new_short)
  next
    case False
    then have "i = length nk" using assms(3) by simp
    then show ?thesis using assms(2) n(2) by (cases n; cases k) (auto simp: split_short_def)
  qed
  finally show ?thesis .
qed

lemma getLeafNode_single: "IsLeafNode leaf \<Longrightarrow>
    getLeafNode (FullNode [(c, new_short rest leaf)] n) k = (if k = c # rest then leaf else if k = [] then n else NilNode)"
  by (cases k) (auto simp: getLeafNode_new_short getLeafNode_leaf prefix_def)

lemma setValue_lookup:
  "wf_trie n \<Longrightarrow> IsLeafNode leaf \<Longrightarrow> setValue n key leaf r = (n', r') \<Longrightarrow>
    getLeafNode n' k = (if k = key then leaf else getLeafNode n k)"
proof (induction n key leaf r arbitrary: n' r' k rule: setValue.induct)
  case (1 key leaf r)
  then have "n' = new_short key leaf" by simp
  with 1(2) show ?case by (auto simp: getLeafNode_new_short getLeafNode_leaf prefix_def)
next
  case (2 cs ch leaf r)
  then show ?case by (cases k) auto
next
  case (3 cs ch c key leaf r)
  then show ?case using wf_child_at [of cs c] by (cases k) (auto simp: wf_trie_def split: prod.splits)
next
  case (4 nk n key leaf r)
  let ?i = "lcp key nk"
  have w: "wf_node (ShortNode nk n)" using 4(2) by (simp add: wf_trie_def)
  obtain cs ch where sp: "split_short nk n ?i = (cs, ch)" by (cases "split_short nk n ?i")
  have f: "wf_node (FullNode cs ch)" by (rule split_short_wf [OF w sp])
  have le: "?i \<le> length key" "?i \<le> length nk" using lcp_le by blast+
  show ?case
  proof (cases "?i \<ge> length nk \<and> length key = ?i \<and> IsLeafNode n")
    case True
    then have "key = nk" using lcp_take [of key nk] le by simp
    moreover have "n' = ShortNode nk leaf" using 4(4) True by (simp add: Let_def)
    ultimately show ?thesis using w 4(3) True by (auto simp: getLeafNode_leaf prefix_def)
  next
    case False
    have wc: "wf_trie (child_at cs (key ! ?i))" using f by (intro wf_child_at) simp
    obtain f' where f': "n' = new_short (take ?i key) f'" "IsFullNode f'"
      "\<And>k. getLeafNode f' k = (if k = drop ?i key then leaf else getLeafNode (FullNode cs ch) k)"
    proof (cases "?i < length key")
      case True
      obtain x r2 where x: "setValue (child_at cs (key ! ?i)) (drop (Suc ?i) key) leaf r = (x, r2)" by fastforce
      note ih = 4(1) [OF refl False sp [symmetric] True wc 4(3) x]
      have d: "drop ?i key = key ! ?i # drop (Suc ?i) key" using True by (simp add: Cons_nth_drop_Suc)
      have "getLeafNode (FullNode (AList.update (key ! ?i) x cs) ch) k =
          (if k = drop ?i key then leaf else getLeafNode (FullNode cs ch) k)" for k
        by (cases k) (auto simp: ih d)
      then show thesis using that [of "FullNode (AList.update (key ! ?i) x cs) ch"] 4(4) False sp True x
        by (auto simp: Let_def)
    next
      case i: False
      then have "drop ?i key = []" by simp
      then have "getLeafNode (FullNode cs leaf) k = (if k = drop ?i key then leaf else getLeafNode (FullNode cs ch) k)" for k
        by (cases k) auto
      then show thesis using that [of "FullNode cs leaf"] 4(4) False sp i by (auto simp: Let_def)
    qed
    note sl = split_short_lookup [OF w sp le(2)]
    have t: "take ?i key = take ?i nk" by (rule lcp_take)
    show ?thesis
    proof (cases "prefix (take ?i key) k")
      case True
      then obtain k2 where k2: "k = take ?i key @ k2" by (auto simp: prefix_def)
      then have "k = key \<longleftrightarrow> k2 = drop ?i key" by (metis append_take_drop_id same_append_eq)
      then show ?thesis using f'(2,3) le(1) sl [of k2] by (simp add: f'(1) getLeafNode_new_short k2 t [symmetric])
    next
      case np: False
      then have "k \<noteq> key" using take_is_prefix by blast
      moreover have "\<not> prefix nk k" using np t by (metis prefix_order.trans take_is_prefix)
      ultimately show ?thesis using np f'(2) by (simp add: f'(1) getLeafNode_new_short)
    qed
  qed
qed (auto simp: wf_trie_def getLeafNode_single getLeafNode_new_short getLeafNode_leaf split: list.splits)

end
