(* ===== verification/Trie_Hash.thy ===== *)
theory Trie_Hash
  imports Trie
begin

text \<open>The hash of a trie (\<open>TrieNode.Hash\<close> in \<open>trie/node.go\<close>) and what it commits to.\<close>

section \<open>Hashes\<close>

definition sortChildren :: "(byte \<times> 'a) list \<Rightarrow> (byte \<times> 'a) list" where
  "sortChildren cs = sort_key fst cs"

definition full_source :: "bytes option \<Rightarrow> (byte \<times> hash) list \<Rightarrow> bytes" where
  "full_source ch cs = 1 # (case ch of None \<Rightarrow> [] | Some h \<Rightarrow> h) @ concat (map (\<lambda>(c, h). c # be_bytes 32 h) (sortChildren cs))"

definition short_source :: "bytes \<Rightarrow> hash \<Rightarrow> bytes" where
  "short_source k h = 2 # k @ be_bytes 32 h"

text \<open>Leaves are hashed without a tag: the assignment of the tag is overwritten by that of the value. The
  hash of nil would panic; it is not asked for.\<close>

fun node_Hash :: "(bytes \<Rightarrow> hash) \<Rightarrow> trie_node \<Rightarrow> hash" where
  "node_Hash H NilNode = 0"
| "node_Hash H (UnknownNode h) = h"
| "node_Hash H (FullNode cs ch) =
     H (full_source (if ch = NilNode then None else Some (be_bytes 32 (node_Hash H ch))) (map (\<lambda>(c, n). (c, node_Hash H n)) cs))"
| "node_Hash H (ShortNode k n) = H (short_source k (node_Hash H n))"
| "node_Hash H (ValueNode v) = H v"
| "node_Hash H (HashNode v) = H v"

definition source :: "(bytes \<Rightarrow> hash) \<Rightarrow> trie_node \<Rightarrow> bytes" where
  "source H n =
     (case n of
        FullNode cs ch \<Rightarrow> full_source (if ch = NilNode then None else Some (be_bytes 32 (node_Hash H ch)))
          (map (\<lambda>(c, n). (c, node_Hash H n)) cs)
      | ShortNode k n \<Rightarrow> short_source k (node_Hash H n)
      | ValueNode v \<Rightarrow> v
      | HashNode v \<Rightarrow> v
      | _ \<Rightarrow> [])"

lemma node_Hash_source: "wf_node n \<Longrightarrow> node_Hash H n = H (source H n)"
  by (cases n) (simp_all add: source_def)

section \<open>Commitment\<close>

text \<open>All nodes of a trie.\<close>

fun nodes :: "trie_node \<Rightarrow> trie_node list" where
  "nodes (FullNode cs ch) = FullNode cs ch # (if ch = NilNode then [] else nodes ch) @ concat (map (\<lambda>(c, n). nodes n) cs)"
| "nodes (ShortNode k n) = ShortNode k n # nodes n"
| "nodes n = [n]"

lemma nodes_self [simp]: "n \<in> set (nodes n)"
  by (cases n) simp_all

lemma nodes_child: "(c, n) \<in> set cs \<Longrightarrow> set (nodes n) \<subseteq> set (nodes (FullNode cs ch))"
  by force

text \<open>What a leaf holds: the value, or the hash of a long one.\<close>

definition leaf_bytes :: "trie_node \<Rightarrow> bytes option" where
  "leaf_bytes n = (case n of ValueNode v \<Rightarrow> Some v | HashNode v \<Rightarrow> Some v | _ \<Rightarrow> None)"

text \<open>Leaves are at most as long as a hash.\<close>

definition short_leaves :: "trie_node \<Rightarrow> bool" where
  "short_leaves n \<longleftrightarrow> (\<forall>x \<in> set (nodes n). \<forall>v. leaf_bytes x = Some v \<longrightarrow> length v \<le> 32)"

lemma length_full_source: "length (full_source ch cs) = Suc (length (case ch of None \<Rightarrow> [] | Some h \<Rightarrow> h) + 33 * length cs)"
proof -
  have "sum_list (map (\<lambda>x. length (case x of (c, h) \<Rightarrow> c # be_bytes 32 h)) xs) = 33 * length xs" for xs :: "(byte \<times> hash) list"
    by (induction xs) auto
  then show ?thesis by (simp add: full_source_def sortChildren_def length_concat o_def)
qed

lemma chunks_inj:
  "concat (map (\<lambda>(c, h). c # be_bytes 32 (h::hash)) xs) = concat (map (\<lambda>(c, h). c # be_bytes 32 h) ys) \<Longrightarrow> xs = ys"
proof (induction xs arbitrary: ys)
  case Nil
  then show ?case by (cases ys) auto
next
  case (Cons x xs)
  then obtain y ys' where ys: "ys = y # ys'" by (cases ys; cases x) auto
  obtain c h d g where [simp]: "x = (c, h)" "y = (d, g)" by (cases x; cases y)
  have "c = d" "be_bytes 32 h @ concat (map (\<lambda>(c, h). c # be_bytes 32 h) xs) =
      be_bytes 32 g @ concat (map (\<lambda>(c, h). c # be_bytes 32 h) ys')"
    using Cons.prems by (simp_all add: ys)
  then have "be_bytes 32 h = be_bytes 32 g"
    "concat (map (\<lambda>(c, h). c # be_bytes 32 h) xs) = concat (map (\<lambda>(c, h). c # be_bytes 32 h) ys')"
    by (simp_all add: append_eq_append_conv)
  then show ?case using Cons.IH be_bytes_inj [of 32 h g] \<open>c = d\<close> by (simp add: ys)
qed

lemma full_source_inj:
  assumes "full_source ch cs = full_source ch' cs'" "\<And>h. ch = Some h \<Longrightarrow> length h = 32" "\<And>h. ch' = Some h \<Longrightarrow> length h = 32"
  shows "ch = ch' \<and> sortChildren cs = sortChildren cs'"
proof -
  have l: "length (case ch of None \<Rightarrow> [] | Some h \<Rightarrow> h) + 33 * length cs = length (case ch' of None \<Rightarrow> [] | Some h \<Rightarrow> h) + 33 * length cs'"
    using arg_cong [OF assms(1), of length] by (simp add: length_full_source)
  have e: "(ch = None) = (ch' = None)"
    using l assms(2,3) by (auto split: option.splits) presburger+
  then have "length (case ch of None \<Rightarrow> [] | Some h \<Rightarrow> h) = length (case ch' of None \<Rightarrow> [] | Some h \<Rightarrow> h)"
    using assms(2,3) by (auto split: option.splits)
  then show ?thesis using assms(1) e
    by (auto simp: full_source_def append_eq_append_conv dest!: chunks_inj split: option.splits)
qed

lemma short_source_inj: "short_source k h = short_source k' h' \<Longrightarrow> k = k' \<and> h = h'"
  using be_bytes_inj [of 32 h h'] by (auto simp: short_source_def append_eq_append_conv)

lemma nodes_wf: "wf_node n \<Longrightarrow> x \<in> set (nodes n) \<Longrightarrow> wf_node x"
proof (induction n)
  case (FullNode cs ch)
  then show ?case by (auto split: if_splits) (fastforce simp: IsLeafNode_wf)+
qed auto

lemma source_length:
  assumes "wf_node n" "short_leaves n"
  shows "length (source H n) > 32 \<longleftrightarrow> \<not> IsLeafNode n"
proof (cases n)
  case (FullNode cs ch)
  have "length (source H n) = Suc ((if ch = NilNode then 0 else 32) + 33 * length cs)"
    by (simp add: FullNode source_def length_full_source)
  moreover have "cs \<noteq> [] \<or> ch \<noteq> NilNode" using assms(1) FullNode by auto
  ultimately show ?thesis using FullNode by (cases cs) auto
qed (use assms in \<open>auto simp: source_def short_leaves_def leaf_bytes_def short_source_def\<close>)

lemma sorted_children_eq:
  fixes cs cs' :: "(byte \<times> 'a) list"
  assumes "distinct (map fst cs)" "distinct (map fst cs')" "sortChildren cs = sortChildren cs'"
  shows "map_of cs = map_of cs'"
proof -
  have "distinct (map fst cs) \<Longrightarrow> map_of (sortChildren cs) = map_of cs" for cs :: "(byte \<times> 'a) list"
    by (intro map_of_eqI) (auto simp: sortChildren_def distinct_map)
  then show ?thesis using assms by metis
qed

lemma source_eq:
  assumes "wf_node t" "wf_node u" "node_Hash H t = node_Hash H u"
    and "inj_on H (source H ` (set (nodes t) \<union> set (nodes u)))"
  shows "source H t = source H u"
  using assms by (auto simp: node_Hash_source dest!: inj_onD)

lemma hash_binds_leaf:
  assumes "wf_node t" "wf_node u" "short_leaves t" "short_leaves u" "node_Hash H t = node_Hash H u"
    and "inj_on H (source H ` (set (nodes t) \<union> set (nodes u)))" "IsLeafNode t"
  shows "leaf_bytes (getLeafNode t k) = leaf_bytes (getLeafNode u k)"
proof -
  have s: "source H t = source H u" by (rule source_eq [OF assms(1,2,5,6)])
  then have "IsLeafNode u" using source_length [OF assms(1,3)] source_length [OF assms(2,4)] assms(7) by metis
  with assms(7) s show ?thesis by (cases t; cases u) (auto simp: source_def leaf_bytes_def)
qed

text \<open>A node with the hash of a full node is a full node, with children and value of the same hashes.\<close>

lemma full_hash_eq:
  assumes "wf_node (FullNode cs ch)" "wf_node u" "short_leaves (FullNode cs ch)" "short_leaves u" "node_Hash H (FullNode cs ch) = node_Hash H u"
    and "inj_on H (source H ` (set (nodes (FullNode cs ch)) \<union> set (nodes u)))"
  obtains cs' ch' where "u = FullNode cs' ch'" "ch = NilNode \<longleftrightarrow> ch' = NilNode" "ch \<noteq> NilNode \<Longrightarrow> node_Hash H ch = node_Hash H ch'"
    "\<And>c. map_option (node_Hash H) (map_of cs c) = map_option (node_Hash H) (map_of cs' c)"
proof -
  have s: "source H (FullNode cs ch) = source H u" by (rule source_eq [OF assms(1,2,5,6)])
  then have "\<not> IsLeafNode u" using source_length [OF assms(1,3)] source_length [OF assms(2,4)] by (metis node_kinds(4))
  then obtain cs' ch' where u: "u = FullNode cs' ch'"
    using assms(2) s by (cases u) (auto simp: source_def full_source_def short_source_def)
  let ?h = "\<lambda>ch. if ch = NilNode then None else Some (be_bytes 32 (node_Hash H ch))" and ?cs = "map (\<lambda>(c, n). (c, node_Hash H n))"
  have "?h ch = ?h ch' \<and> sortChildren (?cs cs) = sortChildren (?cs cs')"
    by (rule full_source_inj) (use s in \<open>auto simp: u source_def split: if_splits\<close>)
  then have c: "ch = NilNode \<longleftrightarrow> ch' = NilNode" "ch \<noteq> NilNode \<Longrightarrow> node_Hash H ch = node_Hash H ch'"
    and sc: "sortChildren (?cs cs) = sortChildren (?cs cs')"
    using be_bytes_inj [of 32 "node_Hash H ch" "node_Hash H ch'"] by (auto split: if_splits)
  have d: "distinct (map fst cs)" "distinct (map fst cs')" using assms(1,2) u by simp_all
  have "map_of (?cs cs) = map_of (?cs cs')"
    by (rule sorted_children_eq [OF _ _ sc]) (use d in \<open>simp_all add: o_def case_prod_beta\<close>)
  then have "map_option (node_Hash H) (map_of cs c) = map_option (node_Hash H) (map_of cs' c)" for c
    by (simp add: map_of_map fun_eq_iff)
  then show thesis using that u c by blast
qed

text \<open>Equal hashes without a collision mean equal shape, node by node.\<close>

lemma hash_binds:
  assumes "wf_node t" "wf_node u" "short_leaves t" "short_leaves u" "node_Hash H t = node_Hash H u"
    and "inj_on H (source H ` (set (nodes t) \<union> set (nodes u)))"
  shows "leaf_bytes (getLeafNode t k) = leaf_bytes (getLeafNode u k)"
  using assms
proof (induction t arbitrary: u k)
  case (FullNode cs ch)
  obtain cs' ch' where u: "u = FullNode cs' ch'" and c: "ch = NilNode \<longleftrightarrow> ch' = NilNode" "ch \<noteq> NilNode \<Longrightarrow> node_Hash H ch = node_Hash H ch'"
    and m: "\<And>c. map_option (node_Hash H) (map_of cs c) = map_option (node_Hash H) (map_of cs' c)"
    by (rule full_hash_eq [OF FullNode.prems]) blast
  have sub: "short_leaves x" "short_leaves y" "inj_on H (source H ` (set (nodes x) \<union> set (nodes y)))"
    if "set (nodes x) \<subseteq> set (nodes (FullNode cs ch))" "set (nodes y) \<subseteq> set (nodes u)" for x y
  proof -
    show "short_leaves x" "short_leaves y" using that FullNode.prems(3,4) unfolding short_leaves_def by blast+
    show "inj_on H (source H ` (set (nodes x) \<union> set (nodes y)))"
      by (rule inj_on_subset [OF FullNode.prems(6)]) (use that in blast)
  qed
  show ?case
  proof (cases k)
    case Nil
    show ?thesis
    proof (cases "ch = NilNode")
      case False
      then have "IsLeafNode ch" "IsLeafNode ch'" "ch' \<noteq> NilNode" using FullNode.prems(1,2) u c(1) by auto
      then have "leaf_bytes (getLeafNode ch []) = leaf_bytes (getLeafNode ch' [])"
        by (intro FullNode.IH(2) IsLeafNode_wf c(2) False sub) (auto simp: u False)
      then show ?thesis using \<open>IsLeafNode ch\<close> \<open>IsLeafNode ch'\<close> by (simp add: Nil u getLeafNode_leaf)
    qed (use c(1) Nil u in simp)
  next
    case (Cons x k')
    show ?thesis
    proof (cases "map_of cs x")
      case None
      then show ?thesis using m [of x] by (simp add: Cons u child_at_def)
    next
      case (Some n)
      then obtain n' where n': "map_of cs' x = Some n'" "node_Hash H n = node_Hash H n'" using m [of x] by (cases "map_of cs' x") auto
      have in1: "(x, n) \<in> set cs" "(x, n') \<in> set cs'" using Some n' by (auto dest: map_of_SomeD)
      have "leaf_bytes (getLeafNode n k') = leaf_bytes (getLeafNode n' k')"
        by (rule FullNode.IH(1) [OF in1(1) _ _ _ sub(1,2) n'(2) sub(3)])
          (use in1 FullNode.prems(1,2) u nodes_child in auto)
      then show ?thesis using Some n' by (simp add: Cons u child_at_def)
    qed
  qed
next
  case (ShortNode p n)
  have s: "source H (ShortNode p n) = source H u" by (rule source_eq [OF ShortNode.prems(1,2,5,6)])
  then have "\<not> IsLeafNode u"
    using source_length [OF ShortNode.prems(1,3)] source_length [OF ShortNode.prems(2,4)] by (metis node_kinds(5))
  then obtain p' n' where u': "u = ShortNode p' n'"
    using ShortNode.prems(2) s by (cases u) (auto simp: source_def full_source_def short_source_def)
  with s have "p = p' \<and> node_Hash H n = node_Hash H n'" by (intro short_source_inj) (simp add: source_def)
  with u' have u: "u = ShortNode p n'" "node_Hash H n = node_Hash H n'" by simp_all
  have "leaf_bytes (getLeafNode n k) = leaf_bytes (getLeafNode n' k)" for k
    using ShortNode.IH [of n'] ShortNode.prems u by (auto simp: short_leaves_def intro: inj_on_subset)
  then show ?case using u(1) by simp
next
  case (ValueNode v)
  then show ?case using hash_binds_leaf [of "ValueNode v"] by simp
next
  case (HashNode v)
  then show ?case using hash_binds_leaf [of "HashNode v"] by simp
qed auto

end
