(* ===== verification/Trie_Store.thy ===== *)
theory Trie_Store
  imports Trie_Hash
begin

text \<open>Storing and loading tries (\<open>trie/trie.go\<close>, \<open>node.go\<close>). The message pack code of
  \<open>types.TrieNode\<close> is generated and enters as the record \<open>codec\<close>; what is relied on is that decoding
  inverts encoding and that an encoding is not empty (\<open>codec_ok\<close>).\<close>

section \<open>Serialisation of nodes\<close>

record tnode =
  tn_Hash :: hash
  tn_Type :: byte
  tn_Children :: "(string \<times> bytes) list"
  tn_Key :: bytes
  tn_Child :: bytes
  tn_Value :: bytes

record codec =
  enc :: "tnode \<Rightarrow> bytes"
  dec :: "bytes \<Rightarrow> tnode option"

definition codec_ok :: "codec \<Rightarrow> bool" where
  "codec_ok C \<longleftrightarrow> (\<forall>x. dec C (enc C x) = Some x \<and> enc C x \<noteq> [])"

definition hex_digits :: string where "hex_digits = ''0123456789abcdef''"

definition hex_EncodeToString :: "byte \<Rightarrow> string" where
  "hex_EncodeToString b = [hex_digits ! (unat b div 16), hex_digits ! (unat b mod 16)]"

definition fromHexChar :: "char \<Rightarrow> nat option" where
  "fromHexChar c =
     (let n = of_char c :: nat
      in if 48 \<le> n \<and> n \<le> 57 then Some (n - 48)
         else if 97 \<le> n \<and> n \<le> 102 then Some (n - 87)
         else if 65 \<le> n \<and> n \<le> 70 then Some (n - 55) else None)"

text \<open>\<open>hex.DecodeString\<close>, and the first byte of the result. An empty key would panic.\<close>

fun hex_DecodeString :: "string \<Rightarrow> bytes option" where
  "hex_DecodeString [] = Some []"
| "hex_DecodeString [c] = None"
| "hex_DecodeString (c # d # s) =
     (case (fromHexChar c, fromHexChar d, hex_DecodeString s) of
        (Some x, Some y, Some bs) \<Rightarrow> Some (word_of_nat (16 * x + y) # bs)
      | _ \<Rightarrow> None)"

definition serializeChildren :: "(bytes \<Rightarrow> hash) \<Rightarrow> (byte \<times> trie_node) list \<Rightarrow> (string \<times> bytes) list" where
  "serializeChildren H cs = map (\<lambda>(c, n). (hex_EncodeToString c, be_bytes 32 (node_Hash H n))) cs"

definition Serialize :: "(bytes \<Rightarrow> hash) \<Rightarrow> trie_node \<Rightarrow> tnode" where
  "Serialize H n =
     (let t = \<lparr>tn_Hash = node_Hash H n, tn_Type = 0, tn_Children = [], tn_Key = [], tn_Child = [], tn_Value = []\<rparr>
      in case n of
           FullNode cs ch \<Rightarrow> t\<lparr>tn_Type := 1, tn_Children := serializeChildren H cs,
             tn_Child := (if ch = NilNode then [] else be_bytes 32 (node_Hash H ch))\<rparr>
         | ShortNode k c \<Rightarrow> t\<lparr>tn_Type := 2, tn_Key := k, tn_Child := be_bytes 32 (node_Hash H c)\<rparr>
         | ValueNode v \<Rightarrow> t\<lparr>tn_Type := 3, tn_Value := v\<rparr>
         | HashNode v \<Rightarrow> t\<lparr>tn_Type := 4, tn_Value := v\<rparr>
         | _ \<Rightarrow> t)"

fun parseChildren :: "(string \<times> bytes) list \<Rightarrow> (byte \<times> trie_node) list option" where
  "parseChildren [] = Some []"
| "parseChildren ((k, v) # cs) =
     (case (BytesToHash v, hex_DecodeString k, parseChildren cs) of
        (Some h, Some (b # _), Some r) \<Rightarrow> Some ((b, UnknownNode h) # r)
      | _ \<Rightarrow> None)"

definition Deserialize :: "tnode \<Rightarrow> trie_node option" where
  "Deserialize t =
     (if tn_Type t = 1
      then (case parseChildren (tn_Children t) of
              None \<Rightarrow> None
            | Some cs \<Rightarrow>
                if tn_Child t = [] then Some (FullNode cs NilNode)
                else map_option (\<lambda>h. FullNode cs (UnknownNode h)) (BytesToHash (tn_Child t)))
      else if tn_Type t = 2 then map_option (\<lambda>h. ShortNode (tn_Key t) (UnknownNode h)) (BytesToHash (tn_Child t))
      else if tn_Type t = 3 then Some (ValueNode (tn_Value t))
      else if tn_Type t = 4 then Some (HashNode (tn_Value t))
      else Some (UnknownNode (tn_Hash t)))"

section \<open>The store\<close>

type_synonym kv = "bytes \<rightharpoonup> bytes"

definition getNodeFromDb :: "codec \<Rightarrow> kv \<Rightarrow> hash \<Rightarrow> trie_node option" where
  "getNodeFromDb C db h =
     (case db (encodeKey (be_bytes 32 h)) of
        None \<Rightarrow> None
      | Some val \<Rightarrow> if val = [] then None else Option.bind (dec C val) Deserialize)"

definition saveNodeToDb :: "codec \<Rightarrow> (bytes \<Rightarrow> hash) \<Rightarrow> trie_node \<Rightarrow> kv \<Rightarrow> kv" where
  "saveNodeToDb C H n b = b(encodeKey (be_bytes 32 (node_Hash H n)) \<mapsto> enc C (Serialize H n))"

text \<open>A node that the store has is not saved again, nor is anything below it.\<close>

fun traverseSave :: "codec \<Rightarrow> (bytes \<Rightarrow> hash) \<Rightarrow> kv \<Rightarrow> trie_node \<Rightarrow> kv \<Rightarrow> kv" where
  "traverseSave C H db NilNode b = b"
| "traverseSave C H db (FullNode cs ch) b =
     (if getNodeFromDb C db (node_Hash H (FullNode cs ch)) \<noteq> None then b
      else let b1 = saveNodeToDb C H (FullNode cs ch) b;
               b2 = (if ch \<noteq> NilNode then traverseSave C H db ch b1 else b1)
           in fold (\<lambda>(c, n) b. traverseSave C H db n b) cs b2)"
| "traverseSave C H db (ShortNode k n) b =
     (if getNodeFromDb C db (node_Hash H (ShortNode k n)) \<noteq> None then b
      else traverseSave C H db n (saveNodeToDb C H (ShortNode k n) b))"
| "traverseSave C H db n b =
     (if getNodeFromDb C db (node_Hash H n) \<noteq> None then b else saveNodeToDb C H n b)"

definition saveRefValueMap :: "refs \<Rightarrow> kv \<Rightarrow> kv" where
  "saveRefValueMap r b = fold (\<lambda>(h, v) b. b(encodeKey (be_bytes 32 h) \<mapsto> v)) r b"

definition Trie_Save :: "codec \<Rightarrow> (bytes \<Rightarrow> hash) \<Rightarrow> trie_node \<times> refs \<Rightarrow> kv \<Rightarrow> kv" where
  "Trie_Save C H t db = db ++ saveRefValueMap (snd t) (traverseSave C H db (fst t) Map.empty)"

text \<open>Loading follows the hashes; a node the store does not have is nil. The nodes read from the store hold
  hashes only, so \<open>LeafCallback\<close> always runs. Fuel stands for the depth of the trie; \<open>None\<close> is a chain of
  hashes that is longer.\<close>

fun stub_hash :: "trie_node \<Rightarrow> hash" where
  "stub_hash (UnknownNode h) = h" | "stub_hash _ = 0"

fun traverseLoad :: "nat \<Rightarrow> codec \<Rightarrow> kv \<Rightarrow> hash \<Rightarrow> trie_node option" where
  "traverseLoad 0 C db h = None"
| "traverseLoad (Suc fuel) C db h =
     (case getNodeFromDb C db h of
        None \<Rightarrow> Some NilNode
      | Some (FullNode cs ch) \<Rightarrow>
          (case those (map (\<lambda>(c, n). map_option (Pair c) (traverseLoad fuel C db (stub_hash n))) cs) of
             None \<Rightarrow> None
           | Some cs' \<Rightarrow> if ch = NilNode then Some (FullNode cs' NilNode)
               else map_option (FullNode cs') (traverseLoad fuel C db (stub_hash ch)))
      | Some (ShortNode k n) \<Rightarrow> map_option (ShortNode k) (traverseLoad fuel C db (stub_hash n))
      | Some n \<Rightarrow> Some n)"

text \<open>Removing a trie deletes its nodes, and forgets the unsaved values of its leaves.\<close>

definition removeNodeFromDb :: "(bytes \<Rightarrow> hash) \<Rightarrow> trie_node \<Rightarrow> kv \<times> refs \<Rightarrow> kv \<times> refs" where
  "removeNodeFromDb H n b = ((fst b)(encodeKey (be_bytes 32 (node_Hash H n)) := None), snd b)"

fun traverseRemove :: "(bytes \<Rightarrow> hash) \<Rightarrow> trie_node \<Rightarrow> kv \<times> refs \<Rightarrow> kv \<times> refs" where
  "traverseRemove H NilNode b = b"
| "traverseRemove H (FullNode cs ch) b =
     (let b1 = removeNodeFromDb H (FullNode cs ch) b;
          b2 = (if ch \<noteq> NilNode then traverseRemove H ch b1 else b1)
      in fold (\<lambda>(c, n) b. traverseRemove H n b) cs b2)"
| "traverseRemove H (ShortNode k n) b = traverseRemove H n (removeNodeFromDb H (ShortNode k n) b)"
| "traverseRemove H n b = removeNodeFromDb H n (fst b, deleteUnSavedRefValueMap n (snd b))"

definition Trie_Remove :: "(bytes \<Rightarrow> hash) \<Rightarrow> trie_node \<times> refs \<Rightarrow> kv \<Rightarrow> kv \<times> refs" where
  "Trie_Remove H t db = traverseRemove H (fst t) (db, snd t)"

section \<open>Round trips\<close>

lemma be_bytes_Suc: "be_bytes (Suc n) w = be_bytes n (drop_bit 8 w) @ [ucast w]"
  by (auto simp: be_bytes_def nth_append less_Suc_eq intro!: nth_equalityI)
    (metis add.commute drop_bit_drop_bit mult_Suc_right Suc_diff_Suc diff_Suc_1 Suc_pred)

lemma foldl_be_bytes:
  fixes w :: "'a::len word"
  shows "foldl (\<lambda>a b. a * 256 + unat b) 0 (be_bytes n w) = unat w mod 256 ^ n"
proof (induction n arbitrary: w)
  case (Suc n)
  have "unat (ucast w :: byte) = unat w mod 256" by (simp add: unsigned_ucast_eq take_bit_eq_mod)
  moreover have "unat (drop_bit 8 w) = unat w div 256" using unat_drop_bit_eq [of 8 w] by (simp only: drop_bit_eq_div) simp
  ultimately show ?case using Suc [of "drop_bit 8 w"]
    by (simp add: be_bytes_Suc) (metis mod_mult2_eq mult.commute)
qed (simp add: be_bytes_def)

lemma BytesToHash_be [simp]: "BytesToHash (be_bytes 32 h) = Some h"
proof -
  have "unat h < 256 ^ 32" using unsigned_less [of h, where ?'a = nat] by simp
  then show ?thesis by (simp add: BytesToHash_def foldl_be_bytes)
qed

abbreviation be_value :: "bytes \<Rightarrow> nat" where
  "be_value bs \<equiv> foldl (\<lambda>a b. a * 256 + unat b) 0 bs"

lemma be_value_inj: "length xs = length ys \<Longrightarrow> be_value xs = be_value ys \<Longrightarrow> xs = ys"
proof (induction xs arbitrary: ys rule: rev_induct)
  case (snoc x xs)
  then obtain y ys' where ys: "ys = ys' @ [y]" by (metis length_0_conv rev_exhaust snoc_eq_iff_butlast)
  have "unat x < 256" "unat y < 256" using unsigned_less [of x, where ?'a = nat] unsigned_less [of y, where ?'a = nat] by simp_all
  moreover have q: "be_value xs * 256 + unat x = be_value ys' * 256 + unat y" using snoc.prems(2) ys by simp
  ultimately have e: "be_value xs = be_value ys'" by linarith
  have "unat x = unat y" using q unfolding e by simp
  with e show ?case using snoc ys by (simp add: unsigned_word_eqI)
qed simp

lemma be_value_bound: "be_value bs < 256 ^ length bs"
proof (induction bs rule: rev_induct)
  case (snoc b bs)
  have "unat b < 256" using unsigned_less [of b, where ?'a = nat] by simp
  then show ?case using snoc by simp
qed simp

lemma be_BytesToHash: "BytesToHash bs = Some h \<Longrightarrow> bs = be_bytes 32 h"
proof -
  assume "BytesToHash bs = Some h"
  then have l: "length bs = 32" and h: "h = word_of_nat (be_value bs)" by (auto simp: BytesToHash_def split: if_splits)
  have "be_value (be_bytes 32 h) = unat h mod 256 ^ 32" by (rule foldl_be_bytes)
  also have "\<dots> = be_value bs" using be_value_bound [of bs] l by (simp add: h unsigned_of_nat take_bit_eq_mod)
  finally show ?thesis using be_value_inj [of bs "be_bytes 32 h"] l by simp
qed

lemma hex_digit_roundtrip: "n < 16 \<Longrightarrow> fromHexChar (hex_digits ! n) = Some n"
proof -
  have "list_all (\<lambda>n. fromHexChar (hex_digits ! n) = Some n) [0..<16]" by code_simp
  then show "n < 16 \<Longrightarrow> fromHexChar (hex_digits ! n) = Some n" by (simp add: list_all_iff)
qed

lemma hex_roundtrip: "hex_DecodeString (hex_EncodeToString b) = Some [b]"
proof -
  have "unat b < 256" using unsigned_less [of b, where ?'a = nat] by simp
  moreover have "16 * (unat b div 16) + unat b mod 16 = unat b" by simp
  ultimately show ?thesis by (simp add: hex_EncodeToString_def hex_digit_roundtrip)
qed

lemma parse_serialize: "parseChildren (serializeChildren H cs) = Some (map (\<lambda>(c, n). (c, UnknownNode (node_Hash H n))) cs)"
  by (induction cs) (auto simp: serializeChildren_def hex_roundtrip)

definition stub :: "(bytes \<Rightarrow> hash) \<Rightarrow> trie_node \<Rightarrow> trie_node" where
  "stub H n =
     (case n of
        FullNode cs ch \<Rightarrow> FullNode (map (\<lambda>(c, n). (c, UnknownNode (node_Hash H n))) cs)
          (if ch = NilNode then NilNode else UnknownNode (node_Hash H ch))
      | ShortNode k c \<Rightarrow> ShortNode k (UnknownNode (node_Hash H c))
      | n \<Rightarrow> n)"

lemma length_be_bytes_Nil: "be_bytes 32 h \<noteq> []"
  by (metis length_be_bytes list.size(3) zero_neq_numeral)

lemma Deserialize_Serialize: "wf_node n \<Longrightarrow> Deserialize (Serialize H n) = Some (stub H n)"
  by (cases n) (simp_all add: Serialize_def Let_def Deserialize_def stub_def parse_serialize length_be_bytes_Nil)

text \<open>A store that has every node of a trie gives it back.\<close>

definition stored :: "codec \<Rightarrow> (bytes \<Rightarrow> hash) \<Rightarrow> kv \<Rightarrow> trie_node \<Rightarrow> bool" where
  "stored C H db n \<longleftrightarrow> (\<forall>x \<in> set (nodes n). db (encodeKey (be_bytes 32 (node_Hash H x))) = Some (enc C (Serialize H x)))"

fun depth :: "trie_node \<Rightarrow> nat" where
  "depth (FullNode cs ch) = Suc (fold (\<lambda>(c, n) d. max (depth n) d) cs (if ch = NilNode then 0 else depth ch))"
| "depth (ShortNode k n) = Suc (depth n)"
| "depth n = 1"

lemma fold_max: "(\<forall>x \<in> set xs. f x \<le> fold (\<lambda>x d. max (f x) d) xs (e::nat)) \<and> e \<le> fold (\<lambda>x d. max (f x) d) xs e"
proof (induction xs arbitrary: e)
  case (Cons x xs)
  from Cons [of "max (f x) e"] show ?case by auto
qed simp

lemma depth_child: "(c, n) \<in> set cs \<Longrightarrow> depth n < depth (FullNode cs ch)" "ch \<noteq> NilNode \<Longrightarrow> depth ch < depth (FullNode cs ch)"
proof -
  have e: "(\<lambda>(c, n) d. max (depth n) d) = (\<lambda>x d. max (depth (snd x)) d)" by auto
  note m = fold_max [of cs "\<lambda>x. depth (snd x)" "if ch = NilNode then 0 else depth ch"]
  show "(c, n) \<in> set cs \<Longrightarrow> depth n < depth (FullNode cs ch)" "ch \<noteq> NilNode \<Longrightarrow> depth ch < depth (FullNode cs ch)"
    using m unfolding depth.simps e by (force simp: less_Suc_eq_le)+
qed

lemma stored_node:
  assumes "codec_ok C" "wf_node n" "stored C H db n"
  shows "getNodeFromDb C db (node_Hash H n) = Some (stub H n)"
  using assms by (simp add: getNodeFromDb_def stored_def codec_ok_def Deserialize_Serialize)

lemma those_map_Some: "(\<And>x. x \<in> set xs \<Longrightarrow> f x = Some (g x)) \<Longrightarrow> those (map f xs) = Some (map g xs)"
  by (induction xs) auto

lemma load_stored:
  assumes "codec_ok C" "wf_node n" "stored C H db n" "depth n \<le> fuel"
  shows "traverseLoad fuel C db (node_Hash H n) = Some n"
  using assms(2-4)
proof (induction n arbitrary: fuel)
  case (FullNode cs ch)
  obtain f where f: "fuel = Suc f" using FullNode.prems(3) by (cases fuel) auto
  have sub: "stored C H db x" if "set (nodes x) \<subseteq> set (nodes (FullNode cs ch))" for x
    using FullNode.prems(2) that by (auto simp: stored_def simp del: nodes.simps)
  have "traverseLoad f C db (node_Hash H n) = Some n" if cn: "(c, n) \<in> set cs" for c n
    by (rule FullNode.IH(1) [OF cn])
      (use cn FullNode.prems(1,3) depth_child(1) [OF cn, of ch] f nodes_child [OF cn] in \<open>auto intro!: sub simp del: nodes.simps depth.simps\<close>)
  then have cs: "those (map ((\<lambda>(c, n). map_option (Pair c) (traverseLoad f C db (stub_hash n))) \<circ> (\<lambda>(c, n). (c, UnknownNode (node_Hash H n)))) cs) =
      Some (map id cs)"
    by (intro those_map_Some) auto
  have ch: "traverseLoad f C db (node_Hash H ch) = Some ch" if "ch \<noteq> NilNode"
    by (rule FullNode.IH(2)) (use that FullNode.prems(1,3) depth_child(2) [OF that, of cs] f in
        \<open>auto intro!: sub simp: IsLeafNode_wf simp del: depth.simps\<close>)
  show ?case unfolding f traverseLoad.simps stored_node [OF assms(1) FullNode.prems(1,2)]
    using cs ch by (simp add: stub_def o_def)
next
  case (ShortNode k n)
  then obtain f where f: "fuel = Suc f" by (cases fuel) auto
  have "traverseLoad f C db (node_Hash H n) = Some n"
    by (rule ShortNode.IH) (use ShortNode.prems f in \<open>auto simp: stored_def\<close>)
  then show ?case unfolding f traverseLoad.simps stored_node [OF assms(1) ShortNode.prems(1,2)] by (simp add: stub_def)
next
  case (ValueNode v)
  then obtain f where f: "fuel = Suc f" by (cases fuel) auto
  show ?case unfolding f traverseLoad.simps stored_node [OF assms(1) ValueNode(1,2)] by (simp add: stub_def)
next
  case (HashNode v)
  then obtain f where f: "fuel = Suc f" by (cases fuel) auto
  show ?case unfolding f traverseLoad.simps stored_node [OF assms(1) HashNode(1,2)] by (simp add: stub_def)
qed auto

text \<open>Saving stores the nodes above the first ones the store has.\<close>

fun new_nodes :: "(trie_node \<Rightarrow> bool) \<Rightarrow> trie_node \<Rightarrow> trie_node list" where
  "new_nodes known NilNode = []"
| "new_nodes known (FullNode cs ch) =
     (if known (FullNode cs ch) then []
      else FullNode cs ch # (if ch = NilNode then [] else new_nodes known ch) @ concat (map (\<lambda>(c, n). new_nodes known n) cs))"
| "new_nodes known (ShortNode k n) = (if known (ShortNode k n) then [] else ShortNode k n # new_nodes known n)"
| "new_nodes known n = (if known n then [] else [n])"

lemma traverseSave_nodes:
  "traverseSave C H db n b = fold (saveNodeToDb C H) (new_nodes (\<lambda>x. getNodeFromDb C db (node_Hash H x) \<noteq> None) n) b"
proof (induction n arbitrary: b)
  case (FullNode cs ch)
  let ?K = "\<lambda>x. getNodeFromDb C db (node_Hash H x) \<noteq> None"
  have "fold (\<lambda>(c, n). traverseSave C H db n) cs b = fold (\<lambda>(c, n). fold (saveNodeToDb C H) (new_nodes ?K n)) cs b" for b
    using FullNode.IH(1) by (intro fold_cong) auto
  moreover have "fold (\<lambda>(c, n). fold (saveNodeToDb C H) (new_nodes ?K n)) cs b = fold (saveNodeToDb C H) (concat (map (\<lambda>(c, n). new_nodes ?K n) cs)) b" for b
    by (induction cs arbitrary: b) auto
  ultimately show ?case using FullNode.IH(2) by (simp add: Let_def)
qed simp_all

lemma new_nodes_in: "set (new_nodes known n) \<subseteq> set (nodes n)"
  by (induction n) (force split: if_splits)+

lemma nodes_full:
  assumes "x \<in> set (nodes (FullNode cs ch))"
  obtains "x = FullNode cs ch" | "ch \<noteq> NilNode" "x \<in> set (nodes ch)" | c n where "(c, n) \<in> set cs" "x \<in> set (nodes n)"
  using assms by (auto split: if_splits)

lemma nodes_leaf: "ch \<noteq> NilNode \<Longrightarrow> set (nodes ch) \<subseteq> set (nodes (FullNode cs ch))"
  by auto

lemma nodes_trans: "x \<in> set (nodes n) \<Longrightarrow> set (nodes x) \<subseteq> set (nodes n)"
proof (induction n)
  case (FullNode cs ch)
  from FullNode.prems show ?case
  proof (cases rule: nodes_full)
    case (3 c n)
    then show ?thesis using FullNode.IH(1) [OF 3(1), of n] nodes_child [OF 3(1), of ch] by (simp add: snds.simps del: nodes.simps)
  next
    case 2
    then show ?thesis using FullNode.IH(2) nodes_leaf [of ch cs] by blast
  qed simp
qed auto

lemma new_nodes_full:
  assumes "\<not> known (FullNode cs ch)"
  shows "ch \<noteq> NilNode \<Longrightarrow> set (new_nodes known ch) \<subseteq> set (new_nodes known (FullNode cs ch))"
    and "(c, n) \<in> set cs \<Longrightarrow> set (new_nodes known n) \<subseteq> set (new_nodes known (FullNode cs ch))"
  using assms by auto

lemma new_nodes_cover: "wf_node n \<Longrightarrow> x \<in> set (nodes n) \<Longrightarrow>
    x \<in> set (new_nodes known n) \<or> (\<exists>y \<in> set (nodes n). known y \<and> x \<in> set (nodes y))"
proof (induction n)
  case (FullNode cs ch)
  show ?case
  proof (cases "known (FullNode cs ch)")
    case True
    then show ?thesis using FullNode.prems(2) nodes_self [of "FullNode cs ch"] by blast
  next
    case new: False
    from FullNode.prems(2) show ?thesis
    proof (cases rule: nodes_full)
      case 1
      then show ?thesis using new by simp
    next
      case 2
      then have "wf_node ch" using FullNode.prems(1) by (auto simp: IsLeafNode_wf)
      then show ?thesis using 2 FullNode.IH(2) nodes_leaf [of ch cs] new_nodes_full(1) [of known, OF new] by blast
    next
      case (3 c n)
      then have "wf_node n" using FullNode.prems(1) by auto
      then have "x \<in> set (new_nodes known n) \<or> (\<exists>y \<in> set (nodes n). known y \<and> x \<in> set (nodes y))"
        using FullNode.IH(1) [OF 3(1), of n] 3 by (simp add: snds.simps)
      then show ?thesis using nodes_child [OF 3(1), of ch] new_nodes_full(2) [of known, OF new 3(1)] by blast
    qed
  qed
qed auto

text \<open>The nodes of all tries in use are a set \<open>U\<close> closed under children. A store fits it if each node is
  absent or stored with everything below it.\<close>

definition fits :: "codec \<Rightarrow> (bytes \<Rightarrow> hash) \<Rightarrow> trie_node set \<Rightarrow> kv \<Rightarrow> bool" where
  "fits C H U db \<longleftrightarrow> (\<forall>x \<in> U. db (encodeKey (be_bytes 32 (node_Hash H x))) = None \<or> stored C H db x)"

definition universe :: "(bytes \<Rightarrow> hash) \<Rightarrow> trie_node set \<Rightarrow> bool" where
  "universe H U \<longleftrightarrow> (\<forall>x \<in> U. wf_node x \<and> set (nodes x) \<subseteq> U) \<and> inj_on (node_Hash H) U"

lemma fold_put:
  assumes "\<And>y. y \<in> set xs \<Longrightarrow> k y = k x \<Longrightarrow> v y = v x"
  shows "fold (\<lambda>y b. b(k y \<mapsto> v y)) xs b (k x) = (if \<exists>y \<in> set xs. k y = k x then Some (v x) else b (k x))"
  using assms by (induction xs arbitrary: b) auto

lemma fold_put_other: "(\<And>y. y \<in> set xs \<Longrightarrow> k y \<noteq> key) \<Longrightarrow> fold (\<lambda>y b. b(k y \<mapsto> v y)) xs b key = b key"
  by (induction xs arbitrary: b) auto

lemma node_key_inj: "encodeKey (be_bytes 32 g) = encodeKey (be_bytes 32 (h::hash)) \<longleftrightarrow> g = h"
  using be_bytes_inj [of 32 g h] by (auto simp: encodeKey_def)

lemma Trie_Save_refs:
  assumes "distinct (map fst r)" "map_of r h = Some v"
  shows "Trie_Save C H (n, r) db (encodeKey (be_bytes 32 h)) = Some v"
proof -
  let ?k = "\<lambda>y::hash \<times> bytes. encodeKey (be_bytes 32 (fst y))"
  have hv: "(h, v) \<in> set r" by (rule map_of_SomeD [OF assms(2)])
  have "snd y = snd (h, v)" if "y \<in> set r" "?k y = ?k (h, v)" for y
  proof -
    have "fst y = h" using that(2) by (simp add: node_key_inj)
    then show ?thesis using map_of_is_SomeI [OF assms(1), of h "snd y"] that(1) assms(2) by (cases y) simp
  qed
  then have "fold (\<lambda>y b. b(?k y \<mapsto> snd y)) r b (?k (h, v)) = (if \<exists>y \<in> set r. ?k y = ?k (h, v) then Some (snd (h, v)) else b (?k (h, v)))" for b
    by (rule fold_put [where k = ?k and v = snd and x = "(h, v)"])
  moreover have "\<exists>y \<in> set r. ?k y = ?k (h, v)" using hv by blast
  ultimately have "saveRefValueMap r b (?k (h, v)) = Some (snd (h, v))" for b
    unfolding saveRefValueMap_def case_prod_beta by (simp only: if_True)
  then show ?thesis unfolding Trie_Save_def map_add_def by simp
qed

lemma Trie_Save_node:
  assumes "universe H U" "n \<in> U" "fst ` set r \<inter> node_Hash H ` U = {}" "x \<in> U"
  shows "Trie_Save C H (n, r) db (encodeKey (be_bytes 32 (node_Hash H x))) =
    (if x \<in> set (new_nodes (\<lambda>x. getNodeFromDb C db (node_Hash H x) \<noteq> None) n) then Some (enc C (Serialize H x))
     else db (encodeKey (be_bytes 32 (node_Hash H x))))"
proof -
  let ?k = "\<lambda>x. encodeKey (be_bytes 32 (node_Hash H x))" and ?v = "\<lambda>x. enc C (Serialize H x)"
  let ?N = "new_nodes (\<lambda>x. getNodeFromDb C db (node_Hash H x) \<noteq> None) n"
  have e: "saveNodeToDb C H = (\<lambda>y b. b(?k y \<mapsto> ?v y))" by (simp add: fun_eq_iff saveNodeToDb_def)
  have N: "set ?N \<subseteq> U" using new_nodes_in assms(1,2) unfolding universe_def by fastforce
  have same: "y = x" if "y \<in> set ?N" "?k y = ?k x" for y
    using assms(1) N that assms(4) by (auto simp: universe_def node_key_inj dest: inj_onD)
  then have "?v y = ?v x" if "y \<in> set ?N" "?k y = ?k x" for y using that by blast
  then have "fold (\<lambda>y b. b(?k y \<mapsto> ?v y)) ?N Map.empty (?k x) =
      (if \<exists>y \<in> set ?N. ?k y = ?k x then Some (?v x) else Map.empty (?k x))"
    by (rule fold_put [where k = ?k and v = ?v and x = x])
  moreover have "(\<exists>y \<in> set ?N. ?k y = ?k x) \<longleftrightarrow> x \<in> set ?N" using same by blast
  ultimately have sv: "traverseSave C H db n Map.empty (?k x) = (if x \<in> set ?N then Some (?v x) else None)"
    by (simp only: traverseSave_nodes e)
  have "saveRefValueMap r b (?k x) = b (?k x)" for b
    unfolding saveRefValueMap_def case_prod_beta
    by (rule fold_put_other [where k = "\<lambda>y. encodeKey (be_bytes 32 (fst y))" and v = snd])
      (use assms(3,4) in \<open>force simp: node_key_inj\<close>)
  then show ?thesis unfolding Trie_Save_def map_add_def by (simp add: sv)
qed

lemma Trie_Save_other:
  assumes "h \<notin> fst ` set r" "h \<notin> node_Hash H ` set (nodes n)"
  shows "Trie_Save C H (n, r) db (encodeKey (be_bytes 32 h)) = db (encodeKey (be_bytes 32 h))"
proof -
  have "saveRefValueMap r b (encodeKey (be_bytes 32 h)) = b (encodeKey (be_bytes 32 h))" for b
    unfolding saveRefValueMap_def case_prod_beta
    by (rule fold_put_other [where k = "\<lambda>y. encodeKey (be_bytes 32 (fst y))" and v = snd])
      (use assms(1) in \<open>force simp: node_key_inj\<close>)
  moreover have e: "saveNodeToDb C H = (\<lambda>y b. b(encodeKey (be_bytes 32 (node_Hash H y)) \<mapsto> enc C (Serialize H y)))"
    by (simp add: fun_eq_iff saveNodeToDb_def)
  have "traverseSave C H db n Map.empty (encodeKey (be_bytes 32 h)) = Map.empty (encodeKey (be_bytes 32 h))"
    unfolding traverseSave_nodes e
    by (rule fold_put_other [where k = "\<lambda>y. encodeKey (be_bytes 32 (node_Hash H y))" and v = "\<lambda>y. enc C (Serialize H y)"])
      (use assms(2) new_nodes_in in \<open>force simp: node_key_inj\<close>)
  ultimately show ?thesis by (simp add: Trie_Save_def map_add_def)
qed

lemma Trie_Save_keeps:
  assumes "universe H U" "n \<in> U" "fst ` set r \<inter> node_Hash H ` U = {}" "m \<in> U" "stored C H db m"
  shows "stored C H (Trie_Save C H (n, r) db) m"
  using assms(4,5) assms(1) Trie_Save_node [OF assms(1-3)] unfolding stored_def universe_def by (simp add: subset_iff)

lemma Trie_Save_stored:
  assumes "universe H U" "n \<in> U" "fst ` set r \<inter> node_Hash H ` U = {}" "fits C H U db"
  shows "stored C H (Trie_Save C H (n, r) db) n"
  unfolding stored_def
proof
  let ?K = "\<lambda>x. getNodeFromDb C db (node_Hash H x) \<noteq> None"
  fix x assume x: "x \<in> set (nodes n)"
  have u: "wf_node n" "set (nodes n) \<subseteq> U" using assms(1,2) unfolding universe_def by auto
  consider "x \<in> set (new_nodes ?K n)" | y where "y \<in> set (nodes n)" "?K y" "x \<in> set (nodes y)"
    using new_nodes_cover [OF u(1) x, of ?K] by blast
  then show "Trie_Save C H (n, r) db (encodeKey (be_bytes 32 (node_Hash H x))) = Some (enc C (Serialize H x))"
  proof cases
    case 2
    then have "stored C H db y" using assms(4) u(2) unfolding fits_def by (force simp: getNodeFromDb_def)
    then show ?thesis using Trie_Save_node [OF assms(1-3), of x] 2(3) u(2) x unfolding stored_def by auto
  qed (use Trie_Save_node [OF assms(1-3), of x] u(2) x in auto)
qed

lemma Trie_Save_fits:
  assumes "universe H U" "n \<in> U" "fst ` set r \<inter> node_Hash H ` U = {}" "fits C H U db"
  shows "fits C H U (Trie_Save C H (n, r) db)"
  unfolding fits_def
proof
  let ?K = "\<lambda>x. getNodeFromDb C db (node_Hash H x) \<noteq> None" and ?db = "Trie_Save C H (n, r) db"
  fix x assume x: "x \<in> U"
  show "?db (encodeKey (be_bytes 32 (node_Hash H x))) = None \<or> stored C H ?db x"
  proof (cases "x \<in> set (new_nodes ?K n)")
    case True
    then have "set (nodes x) \<subseteq> set (nodes n)" using new_nodes_in nodes_trans by blast
    then show ?thesis using Trie_Save_stored [OF assms] unfolding stored_def by blast
  next
    case False
    then show ?thesis
      using Trie_Save_node [OF assms(1-3) x, of C db] assms(4) Trie_Save_keeps [OF assms(1-3) x, of C db] x
      unfolding fits_def by auto
  qed
qed

lemma getLeafNode_in: "wf_trie n \<Longrightarrow> getLeafNode n k \<noteq> NilNode \<Longrightarrow> getLeafNode n k \<in> set (nodes n)"
proof (induction n k rule: getLeafNode.induct)
  case (6 cs ch c key)
  then have w: "wf_trie (child_at cs c)" using wf_full_child [of cs ch] by (simp add: wf_trie_def)
  have "child_at cs c \<noteq> NilNode" using 6(3) by auto
  then have "(c, child_at cs c) \<in> set cs" using child_at_in [of cs c] by simp
  from nodes_child [OF this, of ch] 6(1) [OF w] 6(3) show ?case by (simp del: nodes.simps) blast
next
  case (7 nk n key)
  then show ?case by (auto simp: wf_trie_def split: if_splits)
qed (auto split: if_splits)

end
