(* ===== verification/Trie_Iter.thy ===== *)
theory Trie_Iter
  imports Trie_Hash "HOL-Library.Multiset"
begin

text \<open>The iterator over the entries of a trie below a key prefix (\<open>trie/trie_iterator.go\<close>), a breadth-first
  walk with a queue of inner nodes and one of leaves. Termination is part of the definitions: every
  step takes a node out of the queue and puts only its children in.\<close>

section \<open>The iterator\<close>

type_synonym entry = "bytes \<times> trie_node"

text \<open>The keys and children of one node, as the switch in \<open>Next\<close> collects them.\<close>

definition node_children :: "trie_node \<Rightarrow> entry list" where
  "node_children n =
     (case n of
        FullNode cs ch \<Rightarrow> (if ch \<noteq> NilNode then [([], ch)] else []) @ map (\<lambda>(c, x). ([c], x)) cs
      | ShortNode k x \<Rightarrow> [(k, x)]
      | _ \<Rightarrow> [([], n)])"

definition IsMiddle :: "trie_node \<Rightarrow> bool" where
  "IsMiddle n \<longleftrightarrow> (case n of FullNode _ _ \<Rightarrow> True | ShortNode _ _ \<Rightarrow> True | _ \<Rightarrow> False)"

definition new_middle :: "bytes \<Rightarrow> entry list \<Rightarrow> entry list" where
  "new_middle pfx es = filter (\<lambda>(k, x). IsMiddle x \<and> (prefix pfx k \<or> prefix k pfx)) es"

definition new_leaves :: "bytes \<Rightarrow> entry list \<Rightarrow> entry list" where
  "new_leaves pfx es = filter (\<lambda>(k, x). \<not> IsMiddle x \<and> prefix pfx k) es"

definition expand :: "entry \<Rightarrow> entry list" where
  "expand e = map (\<lambda>(k, x). (fst e @ k, x)) (node_children (snd e))"

definition weight :: "entry list \<Rightarrow> entry list \<Rightarrow> nat" where
  "weight m l = sum_list (map (\<lambda>e. 2 * size (snd e) + 2) m) + length l"

lemma sum_children: "sum_list (map (\<lambda>e. 2 * size (snd e) + 2) cs) \<le> 2 * size_list (size_prod (\<lambda>_. 0) size) cs"
  by (induction cs) auto

definition cost :: "entry list \<Rightarrow> nat" where
  "cost es = sum_list (map (\<lambda>e. if IsMiddle (snd e) then 2 * size (snd e) + 2 else 1) es)"

lemma weight_cost: "weight (new_middle p es) (new_leaves p es) \<le> cost es"
  by (induction es) (auto simp: weight_def new_middle_def new_leaves_def cost_def)

lemma cost_le: "cost es \<le> sum_list (map (\<lambda>e. 2 * size (snd e) + 2) es)"
  by (induction es) (auto simp: cost_def)

lemma cost_expand: "cost (expand e) = cost (node_children (snd e))"
  by (simp add: cost_def expand_def o_def prod.case_eq_if cong: if_cong)

lemma expand_weight: "weight (new_middle p (expand e)) (new_leaves p (expand e)) < 2 * size (snd e) + 2"
proof -
  have "cost (node_children (snd e)) < 2 * size (snd e) + 2"
  proof (cases "snd e")
    case (FullNode cs ch)
    then have "cost (node_children (snd e)) \<le> 2 * size ch + 2 + sum_list (map (\<lambda>e. 2 * size (snd e) + 2) cs)"
      using cost_le [of "node_children (snd e)"] by (simp add: node_children_def o_def prod.case_eq_if split: if_splits)
    then show ?thesis using sum_children [of cs] FullNode by simp
  next
    case (ShortNode k x)
    then show ?thesis using cost_le [of "node_children (snd e)"] by (simp add: node_children_def)
  qed (simp_all add: node_children_def cost_def IsMiddle_def)
  then show ?thesis using weight_cost [of p "expand e"] by (simp add: cost_expand)
qed

lemma weight_append: "weight (m @ m') l = weight m [] + weight m' l"
  by (simp add: weight_def)

text \<open>\<open>Next\<close> on the queues of inner nodes and of leaves: the entry found and the queues after it. A nil
  node, the root of an empty trie, ends the iteration.\<close>

function Next :: "bytes \<Rightarrow> entry list \<Rightarrow> entry list \<Rightarrow> (entry \<times> entry list \<times> entry list) option" where
  "Next pfx m (e # l) = Some (e, m, l)"
| "Next pfx [] [] = None"
| "Next pfx (e # m) [] =
     (if snd e = NilNode then None
      else Next pfx (m @ new_middle pfx (expand e)) (new_leaves pfx (expand e)))"
  by pat_completeness auto
termination
proof (relation "measure (\<lambda>(p, m, l). weight m l)")
  fix pfx and e :: entry and m
  show "((pfx, m @ new_middle pfx (expand e), new_leaves pfx (expand e)), pfx, e # m, []) \<in> measure (\<lambda>(p, m, l). weight m l)"
    using expand_weight [of pfx e] by (simp add: weight_append) (simp add: weight_def)
qed simp

lemma Next_weight: "Next pfx m l = Some (e, m', l') \<Longrightarrow> weight m' l' < weight m l"
proof (induction pfx m l rule: Next.induct)
  case (3 pfx e1 m)
  then show ?case using expand_weight [of pfx e1] by (simp add: weight_append split: if_splits) (simp add: weight_def)
qed (auto simp: weight_def)

text \<open>Calling \<open>Next\<close> until it fails.\<close>

function drain :: "bytes \<Rightarrow> entry list \<Rightarrow> entry list \<Rightarrow> entry list" where
  "drain pfx m l = (case Next pfx m l of None \<Rightarrow> [] | Some (e, m', l') \<Rightarrow> e # drain pfx m' l')"
  by pat_completeness auto
termination by (relation "measure (\<lambda>(p, m, l). weight m l)") (auto dest: Next_weight)

declare drain.simps [simp del]

text \<open>\<open>NewIterator\<close> and the loop over it, with the leaves for their values.\<close>

definition iterate :: "trie_node \<Rightarrow> bytes \<Rightarrow> entry list" where
  "iterate t pfx = drain pfx [([], t)] []"

section \<open>The entries of a trie\<close>

fun leaves :: "trie_node \<Rightarrow> entry list" where
  "leaves (FullNode cs ch) =
     (if ch = NilNode then [] else [([], ch)]) @ concat (map (\<lambda>(c, n). map (\<lambda>(k, x). (c # k, x)) (leaves n)) cs)"
| "leaves (ShortNode p n) = map (\<lambda>(k, x). (p @ k, x)) (leaves n)"
| "leaves (ValueNode v) = [([], ValueNode v)]"
| "leaves (HashNode v) = [([], HashNode v)]"
| "leaves n = []"

definition found :: "bytes \<Rightarrow> entry \<Rightarrow> entry multiset" where
  "found pfx e = mset (filter (\<lambda>(k, x). prefix pfx k) (map (\<lambda>(k, x). (fst e @ k, x)) (leaves (snd e))))"

lemma drain_simps:
  "drain pfx m (e # l) = e # drain pfx m l" "drain pfx [] [] = []"
  "snd e \<noteq> NilNode \<Longrightarrow> drain pfx (e # m) [] = drain pfx (m @ new_middle pfx (expand e)) (new_leaves pfx (expand e))"
proof -
  show "drain pfx m (e # l) = e # drain pfx m l" "drain pfx [] [] = []"
    by (subst drain.simps; simp)+
  show "snd e \<noteq> NilNode \<Longrightarrow> drain pfx (e # m) [] = drain pfx (m @ new_middle pfx (expand e)) (new_leaves pfx (expand e))"
    by (subst (1 2) drain.simps) simp
qed

lemma found_leaf: "IsLeafNode (snd e) \<Longrightarrow> found pfx e = (if prefix pfx (fst e) then {#e#} else {#})"
  by (cases e; cases "snd e") (auto simp: found_def)

lemma found_outside: "\<not> prefix pfx (fst e) \<Longrightarrow> \<not> prefix (fst e) pfx \<Longrightarrow> found pfx e = {#}"
  by (auto simp: found_def filter_empty_conv prefix_append)

lemma found_expand: "wf_node (snd e) \<Longrightarrow> (\<Sum>x\<leftarrow>expand e. found pfx x) = found pfx e"
proof (cases "snd e")
  case (FullNode cs ch)
  have "(\<Sum>x\<leftarrow>map (\<lambda>(k, x). (fst e @ k, x)) (map (\<lambda>(c, x). ([c], x)) ds). found pfx x) =
      mset (filter (\<lambda>(k, x). prefix pfx k) (map (\<lambda>(k, x). (fst e @ k, x))
        (concat (map (\<lambda>(c, n). map (\<lambda>(k, x). (c # k, x)) (leaves n)) ds))))" for ds
    by (induction ds) (auto simp: found_def o_def case_prod_unfold)
  moreover assume "wf_node (snd e)"
  ultimately show ?thesis using FullNode found_leaf [of "(fst e, ch)" pfx]
    by (auto simp: expand_def node_children_def found_def [of pfx e])
next
  case (ShortNode p n)
  then show ?thesis by (simp add: expand_def node_children_def found_def o_def case_prod_unfold)
qed (simp_all add: expand_def node_children_def found_def)

lemma wf_children: "wf_node n \<Longrightarrow> e \<in> set (node_children n) \<Longrightarrow> wf_node (snd e)"
  by (cases n) (auto simp: node_children_def IsLeafNode_wf split: if_splits)

lemma wf_expand: "wf_node (snd e) \<Longrightarrow> x \<in> set (expand e) \<Longrightarrow> wf_node (snd x)"
  by (auto simp: expand_def dest: wf_children)

lemma not_middle: "wf_node n \<Longrightarrow> \<not> IsMiddle n \<longleftrightarrow> IsLeafNode n"
  by (cases n) (simp_all add: IsMiddle_def)

lemma found_split: "\<forall>e \<in> set es. wf_node (snd e) \<Longrightarrow>
    (\<Sum>e\<leftarrow>es. found pfx e) = mset (new_leaves pfx es) + (\<Sum>e\<leftarrow>new_middle pfx es. found pfx e)"
proof (induction es)
  case (Cons e es)
  then show ?case
    using found_leaf [of e pfx] found_outside [of pfx e] not_middle [of "snd e"]
    by (auto simp: new_leaves_def new_middle_def prod.case_eq_if)
qed (simp add: new_leaves_def new_middle_def)

lemma drain_found: "\<forall>e \<in> set m. wf_node (snd e) \<Longrightarrow> mset (drain pfx m l) = mset l + (\<Sum>e\<leftarrow>m. found pfx e)"
proof (induction m l rule: measure_induct_rule [where f = "\<lambda>(m, l). weight m l", split_format(complete)])
  case (less m l)
  show ?case
  proof (cases l)
    case (Cons e l')
    then have "weight m l' < weight m l" by (simp add: weight_def)
    then show ?thesis using less Cons by (simp add: drain_simps)
  next
    case Nil
    show ?thesis
    proof (cases m)
      case (Cons e m')
      then have wf: "wf_node (snd e)" using less.prems by simp
      then have "snd e \<noteq> NilNode" by auto
      then have "drain pfx m l = drain pfx (m' @ new_middle pfx (expand e)) (new_leaves pfx (expand e))"
        using Nil Cons drain_simps(3) by simp
      moreover have "weight (m' @ new_middle pfx (expand e)) (new_leaves pfx (expand e)) < weight m l"
        using expand_weight [of pfx e] Cons Nil by (simp add: weight_append) (simp add: weight_def)
      moreover have "\<forall>x \<in> set (m' @ new_middle pfx (expand e)). wf_node (snd x)"
        using less.prems Cons wf_expand [OF wf] by (auto simp: new_middle_def)
      moreover have "found pfx e = mset (new_leaves pfx (expand e)) + (\<Sum>x\<leftarrow>new_middle pfx (expand e). found pfx x)"
        using found_split [of "expand e" pfx] found_expand [OF wf, of pfx] wf_expand [OF wf] by auto
      ultimately show ?thesis using less.IH Cons Nil by simp
    qed (simp add: Nil drain_simps)
  qed
qed

section \<open>The entries are the lookups\<close>

lemma leaves_lookup: "wf_node n \<Longrightarrow> (k, x) \<in> set (leaves n) \<longleftrightarrow> x = getLeafNode n k \<and> x \<noteq> NilNode"
proof (induction n arbitrary: k)
  case (FullNode cs ch)
  have child: "(k, x) \<in> set (leaves n) \<longleftrightarrow> x = getLeafNode n k \<and> x \<noteq> NilNode" if "(c, n) \<in> set cs" for c n k
  proof -
    have "wf_node n" using FullNode.prems that by auto
    then show ?thesis using FullNode.IH(1) [OF that, of n] by (simp add: snds.simps)
  qed
  have at: "child_at cs c = n" if "(c, n) \<in> set cs" for c n
    using FullNode.prems that by (simp add: child_at_def)
  show ?case
  proof (cases k)
    case Nil
    then show ?thesis using FullNode.prems by auto
  next
    case (Cons c k')
    have "(k, x) \<in> set (leaves (FullNode cs ch)) \<longleftrightarrow> (\<exists>n. (c, n) \<in> set cs \<and> (k', x) \<in> set (leaves n))"
      using Cons FullNode.prems by (force simp: case_prod_unfold)
    also have "\<dots> \<longleftrightarrow> x = getLeafNode (child_at cs c) k' \<and> x \<noteq> NilNode"
      using at child_at_in [of cs c] child [of c "child_at cs c" k'] by (metis getLeafNode.simps(1))
    finally show ?thesis using Cons by simp
  qed
next
  case (ShortNode p n)
  then have "wf_node n" by simp
  then have IH: "(k', x) \<in> set (leaves n) \<longleftrightarrow> x = getLeafNode n k' \<and> x \<noteq> NilNode" for k'
    using ShortNode.IH by blast
  have s: "(k, x) \<in> set (leaves (ShortNode p n)) \<longleftrightarrow> (\<exists>k'. k = p @ k' \<and> (k', x) \<in> set (leaves n))"
    by (force simp: case_prod_unfold)
  have "p \<noteq> []" using ShortNode.prems by simp
  then show ?case unfolding s by (cases "prefix p k") (auto simp: IH prefix_def)
qed auto

lemma distinct_cons_append:
  "distinct ks \<Longrightarrow> distinct ls \<Longrightarrow> \<forall>k. c # k \<notin> set ls \<Longrightarrow> distinct (map ((#) c) ks @ ls)"
  by (auto simp: distinct_map)

lemma distinct_concat_keys:
  "distinct (map fst cs) \<Longrightarrow> \<forall>cn \<in> set cs. distinct (map fst (leaves (snd cn))) \<Longrightarrow>
   distinct (map fst (concat (map (\<lambda>(c, n). map (\<lambda>(k, x). (c # k, x)) (leaves n)) cs)))"
proof (induction cs)
  case (Cons cn cs)
  obtain c n where cn: "cn = (c, n)" by fastforce
  let ?f = "\<lambda>ds. map fst (concat (map (\<lambda>(c, n). map (\<lambda>(k, x). (c # k, x)) (leaves n)) ds))"
  have "map fst (map (\<lambda>(k, x). (c # k, x)) (leaves n)) = map ((#) c) (map fst (leaves n))" by (simp add: case_prod_unfold)
  then have f: "?f (cn # cs) = map ((#) c) (map fst (leaves n)) @ ?f cs" using cn by simp
  have "distinct (map fst (leaves n))" "distinct (?f cs)" using Cons cn by simp_all
  moreover have "\<forall>k \<in> set (?f cs). k \<noteq> [] \<and> hd k \<in> fst ` set cs" by (force simp: case_prod_unfold)
  moreover from this have "\<forall>k. c # k \<notin> set (?f cs)" using Cons.prems(1) cn by force
  ultimately show ?case unfolding f by (intro distinct_cons_append)
qed simp

lemma leaves_distinct: "wf_node n \<Longrightarrow> distinct (map fst (leaves n))"
proof (induction n)
  case (FullNode cs ch)
  then have "distinct (map fst (concat (map (\<lambda>(c, n). map (\<lambda>(k, x). (c # k, x)) (leaves n)) cs)))"
    using FullNode.IH(1) by (intro distinct_concat_keys) (simp, metis prod.collapse snds.intros wf_node.simps(3))
  then show ?case by auto
next
  case (ShortNode p n)
  then have "distinct (map fst (leaves n))" by simp
  then show ?case by (simp add: case_prod_unfold o_def distinct_map inj_on_def)
qed auto

lemma iterate_found: "wf_node t \<Longrightarrow> mset (iterate t pfx) = mset (filter (\<lambda>(k, x). prefix pfx k) (leaves t))"
  using drain_found [of "[([], t)]" pfx "[]"] by (simp add: iterate_def found_def)

section \<open>The walk over all nodes\<close>

definition SortedChildren :: "(byte \<times> trie_node) list \<Rightarrow> trie_node list" where
  "SortedChildren cs = map snd (sortChildren cs)"

definition queue_children :: "trie_node \<Rightarrow> trie_node list" where
  "queue_children n =
     (case n of
        FullNode cs ch \<Rightarrow> SortedChildren cs @ (if ch \<noteq> NilNode then [ch] else [])
      | ShortNode k c \<Rightarrow> (if c \<noteq> NilNode then [c] else [])
      | _ \<Rightarrow> [])"

lemma mset_SortedChildren: "mset (SortedChildren cs) = mset (map snd cs)"
  by (simp add: SortedChildren_def sortChildren_def)

lemma sum_SortedChildren: "(\<Sum>x\<leftarrow>SortedChildren cs. f x) = (\<Sum>e\<leftarrow>cs. f (snd e))" for f :: "trie_node \<Rightarrow> 'a::comm_monoid_add"
proof -
  have "sum_mset (image_mset f (mset (SortedChildren cs))) = sum_mset (image_mset f (mset (map snd cs)))"
    by (simp only: mset_SortedChildren)
  then show ?thesis by (simp add: o_def flip: mset_map sum_mset_sum_list)
qed

lemma queue_children_size: "(\<Sum>x\<leftarrow>queue_children n. Suc (size x)) < Suc (size n)"
proof (cases n)
  case (FullNode cs ch)
  have "(\<Sum>e\<leftarrow>cs. Suc (size (snd e))) \<le> size_list (size_prod (\<lambda>_. 0) size) cs" by (induction cs) auto
  then show ?thesis by (simp add: FullNode queue_children_def sum_SortedChildren)
qed (simp_all add: queue_children_def)

text \<open>The nodes sent on the channel, in order.\<close>

function node_walk :: "(trie_node \<Rightarrow> bool) \<Rightarrow> trie_node list \<Rightarrow> trie_node list" where
  "node_walk p [] = []"
| "node_walk p (n # q) = (if p n then [n] else []) @ node_walk p (q @ queue_children n)"
  by pat_completeness auto
termination
  by (relation "measure (\<lambda>(p, q). sum_list (map (\<lambda>x. Suc (size x)) q))") (use queue_children_size in auto)

definition NewNodeIterator :: "trie_node \<Rightarrow> (trie_node \<Rightarrow> bool) \<Rightarrow> trie_node list" where
  "NewNodeIterator root p = (if root = NilNode then [] else node_walk p [root])"

lemma nodes_queue_children:
  assumes "wf_node n"
  shows "mset (nodes n) = add_mset n (\<Sum>x\<leftarrow>queue_children n. mset (nodes x))"
proof (cases n)
  case (FullNode cs ch)
  have "mset (concat (map (\<lambda>(c, n). nodes n) cs)) = (\<Sum>e\<leftarrow>cs. mset (nodes (snd e)))" by (induction cs) auto
  then show ?thesis by (simp add: FullNode queue_children_def sum_SortedChildren)
qed (use assms in \<open>auto simp: queue_children_def\<close>)

lemma wf_queue_children: "wf_node n \<Longrightarrow> x \<in> set (queue_children n) \<Longrightarrow> wf_node x"
  by (cases n) (auto simp: queue_children_def SortedChildren_def sortChildren_def IsLeafNode_wf split: if_splits)

lemma node_walk_nodes: "\<forall>n \<in> set q. wf_node n \<Longrightarrow> mset (node_walk p q) = filter_mset p (\<Sum>n\<leftarrow>q. mset (nodes n))"
proof (induction p q rule: node_walk.induct)
  case (2 p n q)
  then have "\<forall>x \<in> set (q @ queue_children n). wf_node x" using wf_queue_children [of n] by auto
  with 2 nodes_queue_children [of n] show ?case by simp
qed simp

end
