(* ===== verification/Trie_Thms.thy ===== *)
theory Trie_Thms
  imports Trie_Store Trie_Iter "HOL-Library.Monad_Syntax"
begin

text \<open>What the trie promises: a map from keys to values, a hash that commits to its leaves, an iterator that
  lists a prefix, and a store that gives saved tries back; and the places where the code falls short of it.\<close>

section \<open>A map with insertion\<close>

locale insert_map =
  fixes ok :: "'t \<Rightarrow> bool" and look :: "'t \<Rightarrow> 'k \<Rightarrow> 'v option" and ins :: "'k \<Rightarrow> 'w \<Rightarrow> 't \<Rightarrow> 't" and val :: "'w \<Rightarrow> 'v"
  assumes ok_ins: "ok t \<Longrightarrow> ok (ins k w t)"
    and look_ins: "ok t \<Longrightarrow> look (ins k w t) k' = (if k' = k then Some (val w) else look t k')"
begin

lemma ok_fold: "ok t \<Longrightarrow> ok (fold (\<lambda>(k, w). ins k w) kws t)"
  by (induction kws arbitrary: t) (auto simp: ok_ins)

lemma look_fold: "ok t \<Longrightarrow> look (fold (\<lambda>(k, w). ins k w) kws t) = look t ++ (\<lambda>k. map_option val (map_of (rev kws) k))"
proof (induction kws rule: rev_induct)
  case (snoc kw kws)
  then show ?case using look_ins [OF ok_fold, of t "fst kw" "snd kw" kws]
    by (auto simp: fun_eq_iff map_add_def case_prod_unfold)
qed (simp add: map_add_def fun_eq_iff)

text \<open>Inserting under different keys in another order gives the same map.\<close>

lemma look_perm:
  assumes "ok t" "distinct (map fst kws)" "mset kws = mset kws'"
  shows "look (fold (\<lambda>(k, w). ins k w) kws t) = look (fold (\<lambda>(k, w). ins k w) kws' t)"
proof -
  have "distinct (map fst kws')" using assms(2,3) by (metis mset_eq_imp_distinct_iff mset_map)
  then have "map_of (rev kws) = map_of (rev kws')"
    using assms(2,3) by (intro map_of_eqI) (auto simp: rev_map [symmetric] dest: mset_eq_setD)
  then show ?thesis using assms(1) by (simp add: look_fold)
qed

end

definition leaf_of :: "(bytes \<Rightarrow> hash) \<Rightarrow> bytes \<Rightarrow> trie_node" where
  "leaf_of H v = (if length v > 32 then HashNode (be_bytes 32 (H v)) else ValueNode v)"

definition leaf_at :: "trie_node \<times> refs \<Rightarrow> bytes \<Rightarrow> trie_node option" where
  "leaf_at t k = (let n = getLeafNode (fst t) k in if n = NilNode then None else Some n)"

lemma leaf_of_leaf [simp]: "IsLeafNode (leaf_of H v)" "leaf_of H v \<noteq> NilNode"
  by (simp_all add: leaf_of_def)

lemma SetValue_fst: "fst (SetValue H k v t) = fst (setValue (fst t) k (leaf_of H v) (snd t))"
  by (simp add: SetValue_def leaf_of_def split: prod.split)

interpretation trie: insert_map "\<lambda>t. wf_trie (fst t)" leaf_at "SetValue H" "leaf_of H" for H
proof
  fix t :: "trie_node \<times> refs" and k w
  assume t: "wf_trie (fst t)"
  obtain n r where s: "setValue (fst t) k (leaf_of H w) (snd t) = (n, r)" by fastforce
  show "wf_trie (fst (SetValue H k w t))"
    using setValue_wf [OF t leaf_of_leaf(1) s] by (simp add: SetValue_fst s wf_trie_def)
  show "leaf_at (SetValue H k w t) k' = (if k' = k then Some (leaf_of H w) else leaf_at t k')" for k'
    using setValue_lookup [OF t leaf_of_leaf(1) s] by (simp add: SetValue_fst s leaf_at_def)
qed

section \<open>Values\<close>

text \<open>Insertion forgets at most the value of the leaf it replaces.\<close>

lemma setValue_refs:
  "wf_trie n \<Longrightarrow> setValue n key leaf r = (n', r') \<Longrightarrow> r' = r \<or> r' = deleteUnSavedRefValueMap (getLeafNode n key) r"
proof (induction n key leaf r arbitrary: n' r' rule: setValue.induct)
  case (3 cs ch c key leaf r)
  then show ?case using wf_full_child [of cs ch c] by (auto simp: wf_trie_def split: prod.splits)
next
  case (4 nk n key leaf r)
  let ?i = "lcp key nk"
  have w: "wf_node (ShortNode nk n)" using 4(2) by (simp add: wf_trie_def)
  obtain cs ch where sp: "split_short nk n ?i = (cs, ch)" by (cases "split_short nk n ?i")
  have le: "?i \<le> length key" "?i \<le> length nk" using lcp_le by blast+
  show ?case
  proof (cases "?i \<ge> length nk \<and> length key = ?i \<and> IsLeafNode n")
    case True
    then have "key = nk" using lcp_take [of key nk] le by simp
    then show ?thesis using True 4(3) w by (auto simp: getLeafNode_leaf)
  next
    case False
    show ?thesis
    proof (cases "?i < length key")
      case True
      obtain x r2 where x: "setValue (child_at cs (key ! ?i)) (drop (Suc ?i) key) leaf r = (x, r2)" by fastforce
      have f: "wf_node (FullNode cs ch)" by (rule split_short_wf [OF w sp])
      have "r2 = r \<or> r2 = deleteUnSavedRefValueMap (getLeafNode (child_at cs (key ! ?i)) (drop (Suc ?i) key)) r"
        by (rule 4(1) [OF refl False sp [symmetric] True wf_full_child [OF f] x])
      moreover have "key = take ?i nk @ key ! ?i # drop (Suc ?i) key"
        using True by (metis id_take_nth_drop lcp_take)
      then have "getLeafNode (child_at cs (key ! ?i)) (drop (Suc ?i) key) = getLeafNode (ShortNode nk n) key"
        using split_short_lookup [OF w sp le(2), of "key ! ?i # drop (Suc ?i) key"] by (metis getLeafNode.simps(6))
      moreover have "r' = r2" using 4(3) False sp True x by (auto simp: Let_def)
      ultimately show ?thesis by simp
    qed (use 4(3) False sp in \<open>auto simp: Let_def\<close>)
  qed
qed (auto split: list.splits)

lemma setValue_short_refs:
  assumes "wf_trie n" "setValue n key leaf r = (n', r')" "\<forall>v. getLeafNode n key \<noteq> HashNode v"
  shows "r' = r"
  using setValue_refs [OF assms(1,2)] assms(3) by (auto simp: deleteUnSavedRefValueMap_def split: trie_node.splits)

definition long_once :: "(bytes \<times> bytes) list \<Rightarrow> bool" where
  "long_once kvs \<longleftrightarrow> (\<forall>(k, v) \<in> set kvs. length v > 32 \<longrightarrow> count_list (map fst kvs) k = 1)"

lemma long_once_snoc:
  assumes "long_once (kvs @ [(k, v)])"
  shows "long_once kvs" "(k, u) \<in> set kvs \<Longrightarrow> length u \<le> 32"
proof -
  have pos: "count_list (map fst kvs) k' > 0" if "(k', v') \<in> set kvs" for k' v'
    using that by (force simp: count_list_0_iff intro: gr0I)
  have one: "count_list (map fst kvs) k' + (if k' = k then 1 else 0) = 1" if "(k', v') \<in> set kvs" "length v' > 32" for k' v'
    using assms that unfolding long_once_def by fastforce
  have "count_list (map fst kvs) k' = 1" if "(k', v') \<in> set kvs" "length v' > 32" for k' v'
    using one [OF that] pos [OF that(1)] by (simp split: if_splits)
  then show "long_once kvs" unfolding long_once_def by blast
  show "(k, u) \<in> set kvs \<Longrightarrow> length u \<le> 32" using one [of k u] pos [of k u] by fastforce
qed

lemma leaf_at_fold: "leaf_at (fold (\<lambda>(k, v). SetValue H k v) kvs (NilNode, [])) k = map_option (leaf_of H) (map_of (rev kvs) k)"
  using trie.look_fold [of "(NilNode, [])" H kvs] by (simp add: wf_trie_def leaf_at_def map_add_def split: option.split)

lemma refs_fold:
  assumes "inj_on H {v. \<exists>k. (k, v) \<in> set kvs \<and> length v > 32}" "long_once kvs"
  shows "\<forall>(k, v) \<in> set kvs. length v > 32 \<longrightarrow> map_of (snd (fold (\<lambda>(k, v). SetValue H k v) kvs (NilNode, []))) (H v) = Some v"
  using assms
proof (induction kvs rule: rev_induct)
  case (snoc kv kvs)
  obtain k v where kv: "kv = (k, v)" by fastforce
  let ?t = "fold (\<lambda>(k, v). SetValue H k v) kvs (NilNode, [])"
  have i: "inj_on H {v. \<exists>k. (k, v) \<in> set kvs \<and> length v > 32}"
    by (rule inj_on_subset [OF snoc.prems(1)]) auto
  note lo = long_once_snoc [OF snoc.prems(2) [unfolded kv]]
  obtain n r where s: "setValue (fst ?t) k (leaf_of H v) (snd ?t) = (n, r)" by fastforce
  have wf: "wf_trie (fst ?t)" by (rule trie.ok_fold) (simp add: wf_trie_def)
  have "getLeafNode (fst ?t) k \<noteq> HashNode x" for x
  proof
    assume "getLeafNode (fst ?t) k = HashNode x"
    then obtain u where u: "map_of (rev kvs) k = Some u" "leaf_of H u = HashNode x"
      using leaf_at_fold [of H kvs k] by (cases "map_of (rev kvs) k") (simp_all add: leaf_at_def)
    then have "(k, u) \<in> set kvs" using map_of_SomeD by fastforce
    then show False using lo(2) [of u] u(2) by (simp add: leaf_of_def split: if_splits)
  qed
  then have "r = snd ?t" using setValue_short_refs [OF wf s] by blast
  then have f: "snd (fold (\<lambda>(k, v). SetValue H k v) (kvs @ [kv]) (NilNode, [])) =
      (if length v > 32 then AList.update (H v) v (snd ?t) else snd ?t)"
    using s by (simp add: kv SetValue_def leaf_of_def split: if_splits)
  have "map_of (if length v > 32 then AList.update (H v) v (snd ?t) else snd ?t) (H v') = Some v'"
    if "(k', v') \<in> set (kvs @ [kv])" "length v' > 32" for k' v'
  proof (cases "v' = v")
    case False
    then have "H v' \<noteq> H v" if "length v > 32"
      using inj_onD [OF snoc.prems(1), of v' v] that \<open>(k', v') \<in> _\<close> \<open>length v' > 32\<close> kv by auto
    moreover have "map_of (snd ?t) (H v') = Some v'" using snoc.IH [OF i lo(1)] that False kv by auto
    ultimately show ?thesis by (simp add: update_conv')
  qed (use that in \<open>simp add: update_conv'\<close>)
  then show ?case unfolding f by blast
qed simp

text \<open>C17: inserting a list of entries into an empty trie and looking a key up gives the last value inserted
  under it, and nothing for a key never inserted, provided that values of more than 32 bytes, which are kept by
  their hash, are inserted under keys that occur only once in the list and that their hashes do not collide.\<close>

theorem trie_set_get:
  assumes "inj_on H {v. \<exists>k. (k, v) \<in> set kvs \<and> length v > 32}" "long_once kvs"
  shows "GetValue db (fold (\<lambda>(k, v). SetValue H k v) kvs (NilNode, [])) k = map_of (rev kvs) k"
proof (cases "map_of (rev kvs) k")
  case None
  then show ?thesis using leaf_at_fold [of H kvs k] by (simp add: GetValue_def LeafNodeValue_def leaf_at_def Let_def split: if_splits)
next
  case (Some v)
  then have "(k, v) \<in> set kvs" using map_of_SomeD by fastforce
  then have r: "length v > 32 \<Longrightarrow> map_of (snd (fold (\<lambda>(k, v). SetValue H k v) kvs (NilNode, []))) (H v) = Some v"
    using refs_fold [OF assms] by blast
  have "getLeafNode (fst (fold (\<lambda>(k, v). SetValue H k v) kvs (NilNode, []))) k = leaf_of H v"
    using leaf_at_fold [of H kvs k] Some by (simp add: leaf_at_def Let_def split: if_splits)
  then show ?thesis using r Some by (simp add: GetValue_def LeafNodeValue_def getRefValue_def leaf_of_def)
qed

text \<open>The hash used in examples: the length of the data and its first byte.\<close>

definition ex_H :: "bytes \<Rightarrow> hash" where
  "ex_H bs = 256 * of_nat (length bs) + (case bs of [] \<Rightarrow> 0 | b # _ \<Rightarrow> ucast b)"

theorem trie_set_get_witness:
  "GetValue Map.empty (fold (\<lambda>(k, v). SetValue ex_H k v) [([1], [2]), ([1, 2], replicate 33 7), ([1], [3])] (NilNode, [])) [1] = Some [3]"
proof -
  let ?l = "[([1], [2]), ([1, 2], replicate 33 7), ([1], [3])] :: (bytes \<times> bytes) list"
  have "inj_on ex_H {v. \<exists>k. (k, v) \<in> set ?l \<and> length v > 32}" by (rule inj_onI) auto
  moreover have "long_once ?l" by code_simp
  ultimately have "GetValue Map.empty (fold (\<lambda>(k, v). SetValue ex_H k v) ?l (NilNode, [])) [1] = map_of (rev ?l) [1]"
    by (rule trie_set_get)
  then show ?thesis by simp
qed

lemma lcp_self [simp]: "lcp p p = length p"
  by (induction p) auto

lemma setValue_same:
  assumes "IsLeafNode l"
  shows "setValue (new_short p l) p leaf r = (new_short p leaf, deleteUnSavedRefValueMap l r)"
  using assms by (cases l) (auto simp: new_short_def Let_def deleteUnSavedRefValueMap_def)

text \<open>C21: long values are lost. In a new trie with two keys that differ in their first byte and hold the same
  value of more than 32 bytes, overwriting the first with another value of more than 32 bytes makes the second
  unreadable: the map of unsaved values has one entry for both and is not counted.\<close>

theorem trie_overwrite_loses:
  assumes "length v > 32" "length w > 32" "H w \<noteq> H v" "c \<noteq> d"
  shows "GetValue Map.empty (fold (\<lambda>(k, v). SetValue H k v) [(c # p, v), (d # q, v), (c # p, w)] (NilNode, [])) (d # q) = None"
proof -
  let ?l = "HashNode (be_bytes 32 (H v))"
  have "SetValue H (d # q) v (SetValue H (c # p) v (NilNode, [])) = (FullNode [(c, new_short p ?l), (d, new_short q ?l)] NilNode, [(H v, v)])"
    using assms by (simp add: SetValue_def new_short_def [of "c # p"] split_short_def Let_def new_short_def [of "[]"])
  then show ?thesis using assms
    by (simp add: SetValue_def setValue_same deleteUnSavedRefValueMap_def GetValue_def getLeafNode_new_short LeafNodeValue_def getRefValue_def)
qed

theorem trie_overwrite_loses_witness:
  "GetValue Map.empty (fold (\<lambda>(k, v). SetValue ex_H k v) [([1], replicate 33 7), ([2], replicate 33 7), ([1], replicate 33 8)] (NilNode, [])) [2] = None"
proof -
  have "length (replicate 33 (7::byte)) > 32" "length (replicate 33 (8::byte)) > 32" "ex_H (replicate 33 8) \<noteq> ex_H (replicate 33 7)" "(1::byte) \<noteq> 2"
    by (simp, simp, code_simp, simp)
  from trie_overwrite_loses [OF this, of "[]" "[]"] show ?thesis .
qed

section \<open>The iterator\<close>

text \<open>C20: the iterator ends, and lists each key below the prefix once with the leaf a lookup finds there.\<close>

theorem trie_iterate:
  assumes "wf_trie t"
  shows "distinct (map fst (iterate t pfx)) \<and> set (iterate t pfx) = {(k, getLeafNode t k) |k. prefix pfx k \<and> getLeafNode t k \<noteq> NilNode}"
proof (cases "t = NilNode")
  case True
  then have "iterate t pfx = []" by (simp add: iterate_def drain.simps [of _ "_ # _"])
  then show ?thesis using True by simp
next
  case False
  then have wf: "wf_node t" using assms by (simp add: wf_trie_def)
  note m = iterate_found [OF wf, of pfx]
  have "mset (map fst (iterate t pfx)) = mset (map fst (filter (\<lambda>(k, x). prefix pfx k) (leaves t)))" using m by simp
  moreover have "distinct (map fst (filter (\<lambda>(k, x). prefix pfx k) (leaves t)))" by (rule distinct_map_filter [OF leaves_distinct [OF wf]])
  ultimately have "distinct (map fst (iterate t pfx))" by (metis mset_eq_imp_distinct_iff)
  moreover have "set (iterate t pfx) = {(k, x). prefix pfx k \<and> (k, x) \<in> set (leaves t)}" using mset_eq_setD [OF m] by auto
  ultimately show ?thesis by (auto simp: leaves_lookup [OF wf])
qed

theorem trie_iterate_witness:
  "distinct (map fst (iterate (FullNode [(1, ValueNode [5]), (2, ShortNode [3] (ValueNode []))] NilNode) [2])) \<and>
   ([2, 3], ValueNode []) \<in> set (iterate (FullNode [(1, ValueNode [5]), (2, ShortNode [3] (ValueNode []))] NilNode) [2])"
proof -
  have "wf_trie (FullNode [(1, ValueNode [5]), (2, ShortNode [3] (ValueNode []))] NilNode)" by (simp add: wf_trie_def)
  from trie_iterate [OF this, of "[2]"] show ?thesis by simp
qed

section \<open>Commitment\<close>

lemma leaf_found: "wf_node n \<Longrightarrow> x \<in> set (nodes n) \<Longrightarrow> IsLeafNode x \<Longrightarrow> \<exists>k. (k, x) \<in> set (leaves n)"
proof (induction n)
  case (FullNode cs ch)
  from FullNode.prems(2) show ?case
  proof (cases rule: nodes_full)
    case 2
    then have "IsLeafNode ch" using FullNode.prems(1) by auto
    then have "x = ch" using 2 by (cases ch) auto
    then show ?thesis using 2 by auto
  next
    case (3 c n)
    then have "wf_node n" using FullNode.prems(1) by auto
    then obtain k where "(k, x) \<in> set (leaves n)" using FullNode.IH(1) [OF 3(1), of n] 3(2) FullNode.prems(3) by (auto simp: snds.simps)
    then have "(c # k, x) \<in> set (leaves (FullNode cs ch))" using 3(1) by force
    then show ?thesis by blast
  qed (use FullNode.prems(3) in simp)
next
  case (ShortNode p n)
  then show ?case by force
qed auto

lemma short_leavesI:
  assumes "wf_node n" "\<And>k v. leaf_bytes (getLeafNode n k) = Some v \<Longrightarrow> length v \<le> 32"
  shows "short_leaves n"
  unfolding short_leaves_def
proof (intro ballI allI impI)
  fix x v
  assume x: "x \<in> set (nodes n)" "leaf_bytes x = Some v"
  have "IsLeafNode x" using x(2) by (cases x) (simp_all add: leaf_bytes_def)
  then obtain k where "(k, x) \<in> set (leaves n)" using leaf_found [OF assms(1) x(1)] by blast
  then have "x = getLeafNode n k" using leaves_lookup [OF assms(1), of k x] by simp
  then show "length v \<le> 32" using assms(2) [of k v] x(2) by simp
qed

text \<open>What a leaf holds of a value.\<close>

definition digest :: "(bytes \<Rightarrow> hash) \<Rightarrow> bytes \<Rightarrow> bytes" where
  "digest H v = (if length v > 32 then be_bytes 32 (H v) else v)"

lemma leaf_bytes_fold:
  "leaf_bytes (getLeafNode (fst (fold (\<lambda>(k, v). SetValue H k v) kvs (NilNode, []))) k) = map_option (digest H) (map_of (rev kvs) k)"
  using leaf_at_fold [of H kvs k]
  by (cases "map_of (rev kvs) k") (auto simp: leaf_at_def Let_def leaf_bytes_def leaf_of_def digest_def split: if_splits)

lemma wf_fold: "kvs \<noteq> [] \<Longrightarrow> wf_node (fst (fold (\<lambda>(k, v). SetValue H k v) kvs (NilNode, [])))"
proof -
  assume "kvs \<noteq> []"
  then obtain k v l where "kvs = l @ [(k, v)]" by (metis rev_exhaust surj_pair)
  then show ?thesis
    using trie.ok_fold [of "(NilNode, [])" H l] setValue_wf [OF _ leaf_of_leaf(1), of _ k H v]
    by (simp add: SetValue_fst wf_trie_def) (metis prod.collapse)
qed

text \<open>C18: two tries with the same root hash hold the same entries, whatever the order they were filled in,
  up to the hash of long values and as long as the hash does not collide on their nodes.\<close>

theorem trie_hash_commits:
  fixes H and kvs kvs' :: "(bytes \<times> bytes) list"
  defines "t \<equiv> fst (fold (\<lambda>(k, v). SetValue H k v) kvs (NilNode, []))"
    and "u \<equiv> fst (fold (\<lambda>(k, v). SetValue H k v) kvs' (NilNode, []))"
  assumes "kvs \<noteq> []" "kvs' \<noteq> []" "inj_on H (source H ` (set (nodes t) \<union> set (nodes u)))" "node_Hash H t = node_Hash H u"
  shows "map_option (digest H) (map_of (rev kvs) k) = map_option (digest H) (map_of (rev kvs') k)"
proof -
  have wf: "wf_node t" "wf_node u" using wf_fold assms(3,4) unfolding t_def u_def by blast+
  have d: "map_option (digest H) x = Some v \<Longrightarrow> length v \<le> 32" for x v by (auto simp: digest_def)
  have sh: "short_leaves t" "short_leaves u"
    by (rule short_leavesI [OF wf(1)], rule d, simp only: t_def leaf_bytes_fold)
      (rule short_leavesI [OF wf(2)], rule d, simp only: u_def leaf_bytes_fold)
  from hash_binds [OF wf sh assms(6,5), of k] show ?thesis unfolding t_def u_def leaf_bytes_fold .
qed

lemma inj_on_lists:
  "list_all (\<lambda>x. list_all (\<lambda>y. f (g x) = f (g y) \<longrightarrow> g x = g y) (xs @ ys)) (xs @ ys) \<Longrightarrow> inj_on f (g ` (set xs \<union> set ys))"
  by (auto simp: list_all_iff inj_on_def)

theorem trie_hash_commits_witness:
  "map_option (digest ex_H) (map_of (rev [([1], [2]), ([3], [4])]) ([1] :: bytes)) = map_option (digest ex_H) (map_of (rev [([3], [4]), ([1], [2])]) ([1] :: bytes))"
proof -
  let ?a = "[([1], [2]), ([3], [4])] :: (bytes \<times> bytes) list" and ?b = "[([3], [4]), ([1], [2])] :: (bytes \<times> bytes) list"
  have t: "fst (fold (\<lambda>(k, v). SetValue ex_H k v) ?a (NilNode, [])) = FullNode [(1, ValueNode [2]), (3, ValueNode [4])] NilNode"
    by code_simp
  have u: "fst (fold (\<lambda>(k, v). SetValue ex_H k v) ?b (NilNode, [])) = FullNode [(3, ValueNode [4]), (1, ValueNode [2])] NilNode"
    by code_simp
  have h: "node_Hash ex_H (FullNode [(1, ValueNode [2]), (3, ValueNode [4])] NilNode) = node_Hash ex_H (FullNode [(3, ValueNode [4]), (1, ValueNode [2])] NilNode)"
    by code_simp
  have "inj_on ex_H (source ex_H ` (set (nodes (FullNode [(1, ValueNode [2]), (3, ValueNode [4])] NilNode)) \<union> set (nodes (FullNode [(3, ValueNode [4]), (1, ValueNode [2])] NilNode))))"
    by (rule inj_on_lists) code_simp
  then have "inj_on ex_H (source ex_H ` (set (nodes (fst (fold (\<lambda>(k, v). SetValue ex_H k v) ?a (NilNode, [])))) \<union>
      set (nodes (fst (fold (\<lambda>(k, v). SetValue ex_H k v) ?b (NilNode, []))))))" unfolding t u .
  from trie_hash_commits [OF _ _ this, of "[1]"] show ?thesis unfolding t u using h by simp
qed

text \<open>The commitment is only up to the hash: a long value and a value of 32 bytes equal to its hash give leaves of
  the same hash.\<close>

lemma leaf_hash_ambiguous: "length v > 32 \<Longrightarrow> node_Hash H (leaf_of H v) = node_Hash H (leaf_of H (be_bytes 32 (H v)))"
  by (simp add: leaf_of_def)

section \<open>The store\<close>

lemma Trie_Save_value:
  assumes "universe H U" "n \<in> U" "distinct (map fst r)" "wf_trie n"
    and "\<forall>v h. HashNode v \<in> U \<and> BytesToHash v = Some h \<longrightarrow> h \<notin> node_Hash H ` U"
  shows "GetValue (Trie_Save C H (n, r) db) (n, []) k = GetValue db (n, r) k"
proof (cases "getLeafNode n k")
  case (HashNode v)
  have U: "set (nodes n) \<subseteq> U" using assms(1,2) unfolding universe_def by auto
  then have v: "HashNode v \<in> U" using getLeafNode_in [OF assms(4), of k] HashNode by auto
  show ?thesis
  proof (cases "BytesToHash v")
    case (Some h)
    have vh: "v = be_bytes 32 h" by (rule be_BytesToHash [OF Some])
    show ?thesis
    proof (cases "map_of r h")
      case None
      have "h \<notin> node_Hash H ` set (nodes n)" using assms(5) v Some U by blast
      moreover have "h \<notin> fst ` set r" using None by (simp add: map_of_eq_None_iff)
      ultimately show ?thesis using HashNode Some None Trie_Save_other [of h r H n C db]
        by (simp add: GetValue_def LeafNodeValue_def getRefValue_def vh)
    next
      case x: (Some x)
      then show ?thesis using HashNode Some Trie_Save_refs [OF assms(3) x, of C H n db]
        by (simp add: GetValue_def LeafNodeValue_def getRefValue_def vh)
    qed
  qed (simp add: HashNode GetValue_def LeafNodeValue_def getRefValue_def)
qed (simp_all add: GetValue_def LeafNodeValue_def)

text \<open>C19: a trie saved in a store is loaded back from its root hash, with the same values, and tries saved
  before are still loaded back. The nodes of the tries in use have different hashes, which are not hashes of
  values either; the store has each of them with all nodes below it or not at all, and still does afterwards.\<close>

theorem trie_save_load:
  assumes "codec_ok C" "universe H U" "n \<in> U" "fits C H U db" "depth n \<le> fuel" "distinct (map fst r)"
    and "fst ` set r \<inter> node_Hash H ` U = {}" "\<forall>v h. HashNode v \<in> U \<and> BytesToHash v = Some h \<longrightarrow> h \<notin> node_Hash H ` U"
  defines "db' \<equiv> Trie_Save C H (n, r) db"
  shows "traverseLoad fuel C db' (node_Hash H n) = Some n \<and> (\<forall>k. GetValue db' (n, []) k = GetValue db (n, r) k) \<and>
    fits C H U db' \<and> (\<forall>m \<in> U. stored C H db m \<longrightarrow> traverseLoad (depth m) C db' (node_Hash H m) = Some m)"
proof (intro conjI ballI impI allI)
  have wf: "m \<in> U \<Longrightarrow> wf_node m" for m using assms(2) unfolding universe_def by auto
  show "traverseLoad fuel C db' (node_Hash H n) = Some n" unfolding db'_def
    by (rule load_stored [OF assms(1) wf [OF assms(3)] Trie_Save_stored [OF assms(2,3,7,4)] assms(5)])
  show "GetValue db' (n, []) k = GetValue db (n, r) k" for k unfolding db'_def
    by (rule Trie_Save_value [OF assms(2,3,6) _ assms(8)]) (simp add: wf_trie_def wf assms(3))
  show "fits C H U db'" unfolding db'_def by (rule Trie_Save_fits [OF assms(2,3,7,4)])
  show "traverseLoad (depth m) C db' (node_Hash H m) = Some m" if "m \<in> U" "stored C H db m" for m unfolding db'_def
    by (rule load_stored [OF assms(1) wf [OF that(1)] Trie_Save_keeps [OF assms(2,3,7) that] order_refl])
qed

text \<open>A codec: every byte is preceded by 1 and a list ends with 0.\<close>

primrec put_bytes :: "bytes \<Rightarrow> bytes \<Rightarrow> bytes" where
  "put_bytes [] s = 0 # s"
| "put_bytes (b # bs) s = 1 # b # put_bytes bs s"

fun get_bytes :: "bytes \<Rightarrow> (bytes \<times> bytes) option" where
  "get_bytes (c # s) =
     (if c = 0 then Some ([], s)
      else case s of [] \<Rightarrow> None | b # s' \<Rightarrow> map_option (\<lambda>(bs, r). (b # bs, r)) (get_bytes s'))"
| "get_bytes [] = None"

lemma get_put_bytes [simp]: "get_bytes (put_bytes bs s) = Some (bs, s)"
  by (induction bs) auto

primrec put_children :: "(string \<times> bytes) list \<Rightarrow> bytes \<Rightarrow> bytes" where
  "put_children [] s = 0 # s"
| "put_children (kv # kvs) s = 1 # put_bytes (map (\<lambda>c. of_nat (of_char c)) (fst kv)) (put_bytes (snd kv) (put_children kvs s))"

fun get_children :: "nat \<Rightarrow> bytes \<Rightarrow> ((string \<times> bytes) list \<times> bytes) option" where
  "get_children (Suc n) (c # s) =
     (if c = 0 then Some ([], s)
      else case get_bytes s of None \<Rightarrow> None | Some (k, s1) \<Rightarrow>
             (case get_bytes s1 of None \<Rightarrow> None | Some (v, s2) \<Rightarrow>
                map_option (\<lambda>(kvs, r). ((map (\<lambda>b. char_of (unat b)) k, v) # kvs, r)) (get_children n s2)))"
| "get_children _ _ = None"

lemma length_put_bytes: "length s < length (put_bytes bs s)"
  by (induction bs) auto

lemma length_put_children: "length kvs < length (put_children kvs s)"
proof (induction kvs)
  case (Cons kv kvs)
  then show ?case
    using length_put_bytes [of "put_bytes (snd kv) (put_children kvs s)" "map (\<lambda>c. of_nat (of_char c)) (fst kv)"]
      length_put_bytes [of "put_children kvs s" "snd kv"] by simp
qed simp

lemma char_byte: "char_of (unat (of_nat (of_char c) :: byte)) = c"
proof -
  have "(of_char c :: nat) < 256" by (rule nat_of_char_less_256)
  then show ?thesis by (simp add: unsigned_of_nat take_bit_eq_mod)
qed

lemma get_put_children: "length kvs < n \<Longrightarrow> get_children n (put_children kvs s) = Some (kvs, s)"
proof (induction kvs arbitrary: n)
  case Nil
  then show ?case by (cases n) auto
next
  case (Cons kv kvs)
  then show ?case by (cases n) (auto simp: o_def char_byte)
qed

definition ex_codec :: codec where
  "ex_codec =
     \<lparr>enc = \<lambda>t. put_bytes (be_bytes 32 (tn_Hash t)) (tn_Type t # put_children (tn_Children t)
        (put_bytes (tn_Key t) (put_bytes (tn_Child t) (put_bytes (tn_Value t) [])))),
      dec = \<lambda>s. do {
        (h, s1) \<leftarrow> get_bytes s;
        hash \<leftarrow> BytesToHash h;
        (typ, s2) \<leftarrow> (case s1 of [] \<Rightarrow> None | b # s' \<Rightarrow> Some (b, s'));
        (cs, s3) \<leftarrow> get_children (length s2) s2;
        (key, s4) \<leftarrow> get_bytes s3;
        (child, s5) \<leftarrow> get_bytes s4;
        (val, s6) \<leftarrow> get_bytes s5;
        Some \<lparr>tn_Hash = hash, tn_Type = typ, tn_Children = cs, tn_Key = key, tn_Child = child, tn_Value = val\<rparr>
      }\<rparr>"

lemma ex_codec_ok: "codec_ok ex_codec"
proof -
  have "put_bytes bs s \<noteq> []" for bs s by (cases bs) auto
  then show ?thesis by (simp add: codec_ok_def ex_codec_def get_put_children length_put_children)
qed

definition ex_node :: trie_node where
  "ex_node = ShortNode [1] (ValueNode [2])"

theorem trie_save_load_witness:
  "traverseLoad 2 ex_codec (Trie_Save ex_codec ex_H (ex_node, []) Map.empty) (node_Hash ex_H ex_node) = Some ex_node"
proof -
  let ?U = "set (nodes ex_node)"
  have "node_Hash ex_H ex_node \<noteq> node_Hash ex_H (ValueNode [2])" by code_simp
  then have "universe ex_H ?U" by (auto simp: universe_def ex_node_def)
  moreover have "fits ex_codec ex_H ?U Map.empty" by (simp add: fits_def)
  moreover have "\<forall>v h. HashNode v \<in> ?U \<and> BytesToHash v = Some h \<longrightarrow> h \<notin> node_Hash ex_H ` ?U" by (simp add: ex_node_def)
  moreover have "depth ex_node \<le> 2" by (simp add: ex_node_def)
  ultimately show ?thesis using trie_save_load [OF ex_codec_ok, of ex_H ?U ex_node Map.empty 2 "[]"] by simp
qed

text \<open>C22: removing a trie breaks another one that shares a leaf with it: the nodes are deleted without
  asking whether another trie refers to them.\<close>

theorem trie_remove_shared:
  fixes H k k' v
  assumes "codec_ok C" "k \<noteq> []" "k' \<noteq> []" "length v \<le> 32"
  defines "t \<equiv> SetValue H k v (NilNode, [])" and "u \<equiv> SetValue H k' v (NilNode, [])"
  assumes "distinct [node_Hash H (fst t), node_Hash H (fst u), H v]"
  defines "db \<equiv> Trie_Save C H u (Trie_Save C H t Map.empty)"
  shows "traverseLoad 2 C db (node_Hash H (fst u)) = Some (fst u) \<and>
    traverseLoad 2 C (fst (Trie_Remove H t db)) (node_Hash H (fst u)) = Some (ShortNode k' NilNode)"
proof -
  let ?n = "ShortNode k (ValueNode v)" and ?m = "ShortNode k' (ValueNode v)"
  let ?U = "{?n, ?m, ValueNode v}"
  have tu: "t = (?n, [])" "u = (?m, [])" using assms(2-4) by (simp_all add: t_def u_def SetValue_def new_short_def)
  have d: "distinct [node_Hash H ?n, node_Hash H ?m, H v]" using assms(7) by (simp only: tu fst_conv)
  have U: "universe H ?U" using assms(2,3) d by (auto simp: universe_def inj_on_def)
  have s1: "fits C H ?U (Trie_Save C H (?n, []) Map.empty)" by (rule Trie_Save_fits [OF U]) (simp_all add: fits_def)
  have st: "stored C H db ?m" unfolding db_def tu by (rule Trie_Save_stored [OF U _ _ s1]) simp_all
  have wf: "wf_node ?m" using assms(3) by simp
  have "traverseLoad 2 C db (node_Hash H ?m) = Some ?m" by (rule load_stored [OF assms(1) wf st]) simp
  moreover have r: "fst (Trie_Remove H t db) =
      db(encodeKey (be_bytes 32 (node_Hash H ?n)) := None, encodeKey (be_bytes 32 (H v)) := None)"
    by (simp add: Trie_Remove_def tu removeNodeFromDb_def)
  have "getNodeFromDb C (fst (Trie_Remove H t db)) (node_Hash H ?m) = Some (stub H ?m)"
    using stored_node [OF assms(1) wf st] d not_sym [of "node_Hash H ?n" "node_Hash H ?m"] unfolding r getNodeFromDb_def by (simp add: node_key_inj del: node_Hash.simps)
  moreover have "getNodeFromDb C (fst (Trie_Remove H t db)) (H v) = None" by (simp add: r getNodeFromDb_def)
  ultimately show ?thesis unfolding tu by (simp add: numeral_2_eq_2 stub_def del: node_Hash.simps(4))
qed

theorem trie_remove_shared_witness:
  "traverseLoad 2 ex_codec (fst (Trie_Remove ex_H (SetValue ex_H [1] [9] (NilNode, []))
      (Trie_Save ex_codec ex_H (SetValue ex_H [2, 2] [9] (NilNode, [])) (Trie_Save ex_codec ex_H (SetValue ex_H [1] [9] (NilNode, [])) Map.empty))))
    (node_Hash ex_H (fst (SetValue ex_H [2, 2] [9] (NilNode, [])))) = Some (ShortNode [2, 2] NilNode)"
proof -
  have "distinct [node_Hash ex_H (fst (SetValue ex_H [1] [9] (NilNode, []))), node_Hash ex_H (fst (SetValue ex_H [2, 2] [9] (NilNode, []))), ex_H [9]]"
    by code_simp
  from trie_remove_shared [OF ex_codec_ok _ _ _ this] show ?thesis by simp
qed

end
