(* ===== verification/Trie_Canon.thy ===== *)
theory Trie_Canon
  imports Trie_Thms
begin

text \<open>The shape of a trie is determined by its entries: insertion keeps every full node branching, and two tries with
  the same entries and branching full nodes have the same root hash. The order in which entries are inserted does
  therefore not show in the hash.\<close>

section \<open>Branching nodes\<close>

fun canon :: "trie_node \<Rightarrow> bool" where
  "canon (FullNode cs ch) \<longleftrightarrow> (\<forall>cn \<in> set cs. canon (snd cn)) \<and> length cs + (if ch = NilNode then 0 else 1) \<ge> 2"
| "canon (ShortNode k n) \<longleftrightarrow> canon n"
| "canon n = True"

lemma canon_leaf [simp]: "IsLeafNode n \<Longrightarrow> canon n"
  by (cases n) simp_all

lemma canon_new_short [simp]: "canon (new_short k n) = canon n"
  by (simp add: new_short_def)

lemma canon_child: "\<forall>cn \<in> set cs. canon (snd cn) \<Longrightarrow> canon (child_at cs c)"
  using child_at_in [of cs c] by auto

lemma length_update_le: "length cs \<le> length (AList.update c n cs)"
  by (induction cs) auto

lemma length_update_new: "c \<notin> fst ` set cs \<Longrightarrow> length (AList.update c n cs) = Suc (length cs)"
  by (induction cs) auto

lemma canon_update: "\<forall>cn \<in> set cs. canon (snd cn) \<Longrightarrow> canon n \<Longrightarrow> \<forall>cn \<in> set (AList.update c n cs). canon (snd cn)"
  by (induction cs) auto

lemma split_short_canon:
  assumes "wf_node (ShortNode nk n)" "canon n" "split_short nk n i = (cs, ch)"
  shows "\<forall>cn \<in> set cs. canon (snd cn)" "canon (FullNode cs ch) \<or> (i < length nk \<and> cs = [(nk ! i, new_short (drop (Suc i) nk) n)] \<and> ch = NilNode) \<or>
     (i \<ge> length nk \<and> cs = [] \<and> ch \<noteq> NilNode \<and> IsLeafNode n)"
  using assms by (cases n; auto simp: split_short_def split: if_splits)+

lemma setValue_canon:
  "wf_trie n \<Longrightarrow> canon n \<Longrightarrow> IsLeafNode leaf \<Longrightarrow> setValue n key leaf r = (n', r') \<Longrightarrow> canon n'"
proof (induction n key leaf r arbitrary: n' r' rule: setValue.induct)
  case (2 cs ch leaf r)
  then show ?case by (auto split: if_splits)
next
  case (3 cs ch c key leaf r)
  then have w: "wf_node (FullNode cs ch)" by (simp add: wf_trie_def)
  obtain x r2 where x: "setValue (child_at cs c) key leaf r = (x, r2)" by fastforce
  have cs: "\<forall>cn \<in> set cs. canon (snd cn)" using 3(3) by simp
  have "canon x" by (rule 3(1) [OF wf_full_child [OF w] canon_child [OF cs] 3(4) x])
  then have "canon (FullNode (AList.update c x cs) ch)"
    using canon_update [OF cs, of x c] 3(3) length_update_le [of cs c x] by (auto intro: order_trans split: if_splits)
  then show ?case using 3(5) x by (auto simp del: canon.simps)
next
  case (4 nk n key leaf r)
  let ?i = "lcp key nk"
  have w: "wf_node (ShortNode nk n)" using 4(2) by (simp add: wf_trie_def)
  obtain cs ch where sp: "split_short nk n ?i = (cs, ch)" by (cases "split_short nk n ?i")
  have f: "wf_node (FullNode cs ch)" by (rule split_short_wf [OF w sp])
  have cn: "canon n" using 4(3) by simp
  note sc = split_short_canon [OF w cn sp]
  show ?case
  proof (cases "?i \<ge> length nk \<and> length key = ?i \<and> IsLeafNode n")
    case True
    then show ?thesis using 4(4,5) by (auto simp: Let_def)
  next
    case False
    show ?thesis
    proof (cases "?i < length key")
      case True
      obtain x r2 where x: "setValue (child_at cs (key ! ?i)) (drop (Suc ?i) key) leaf r = (x, r2)" by fastforce
      have cx: "canon x" by (rule 4(1) [OF refl False sp [symmetric] True wf_full_child [OF f] canon_child [OF sc(1)] 4(4) x])
      have "length (AList.update (key ! ?i) x cs) + (if ch = NilNode then 0 else 1) \<ge> 2"
        using sc(2)
      proof (elim disjE conjE)
        assume "canon (FullNode cs ch)"
        then show ?thesis using length_update_le [of cs "key ! ?i" x] by (auto split: if_splits)
      next
        assume "?i < length nk" "cs = [(nk ! ?i, new_short (drop (Suc ?i) nk) n)]" "ch = NilNode"
        then show ?thesis using lcp_differ [of key nk] True by (auto simp: length_update_new)
      qed (auto simp: length_update_new)
      then have "canon (FullNode (AList.update (key ! ?i) x cs) ch)"
        unfolding canon.simps using canon_update [OF sc(1) cx] by blast
      then show ?thesis using 4(5) False sp True x by (auto simp: Let_def simp del: canon.simps)
    next
      case i: False
      have "canon (FullNode cs leaf)"
        using sc 4(4) False i lcp_le [of key nk] by (cases leaf; auto split: if_splits)
      then show ?thesis using 4(5) False sp i by (auto simp: Let_def simp del: canon.simps)
    qed
  qed
qed (auto split: list.splits)

section \<open>Entries\<close>

abbreviation has_key :: "trie_node \<Rightarrow> bytes \<Rightarrow> bool" where "has_key n k \<equiv> getLeafNode n k \<noteq> NilNode"

lemma has_some_key: "wf_node n \<Longrightarrow> \<exists>k. has_key n k"
proof (induction n)
  case (FullNode cs ch)
  show ?case
  proof (cases "ch = NilNode")
    case True
    then obtain c x r where cs: "cs = (c, x) # r" using FullNode.prems by (cases cs) auto
    then have "(c, x) \<in> set cs" "wf_node x" using FullNode.prems by auto
    then obtain k where "has_key x k" using FullNode.IH(1) by fastforce
    then show ?thesis using cs by (intro exI [of _ "c # k"]) simp
  qed (auto intro: exI [of _ "[]"])
next
  case (ShortNode nk n)
  then obtain k where "has_key n k" by auto
  then show ?case using ShortNode.prems by (intro exI [of _ "nk @ k"]) simp
qed (auto intro: exI [of _ "[]"])

lemma child_key: "wf_node (FullNode cs ch) \<Longrightarrow> (c, x) \<in> set cs \<Longrightarrow> child_at cs c = x \<and> (\<exists>k. has_key x k)"
proof -
  assume w: "wf_node (FullNode cs ch)" and c: "(c, x) \<in> set cs"
  then have "wf_node x" by auto
  moreover have "child_at cs c = x" using w c by (simp add: child_at_def)
  ultimately show ?thesis using has_some_key by blast
qed

text \<open>The keys below a branching node do not share a first byte.\<close>

lemma full_no_prefix:
  assumes "wf_node (FullNode cs ch)" "canon (FullNode cs ch)" "\<And>k. has_key (FullNode cs ch) k \<Longrightarrow> \<exists>k'. k = c # k'"
  shows False
proof -
  have ch: "ch = NilNode" using assms(3) [of "[]"] by auto
  then obtain a b r where cs: "cs = a # b # r" using assms(2) by (cases cs; cases "tl cs") auto
  have "fst x = c" if "x \<in> {a, b}" for x
  proof -
    have "(fst x, snd x) \<in> set cs" using that cs by auto
    then obtain k where "has_key (snd x) k" "child_at cs (fst x) = snd x" using child_key [OF assms(1)] by blast
    then have "has_key (FullNode cs ch) (fst x # k)" by simp
    then show ?thesis using assms(3) by blast
  qed
  then show False using assms(1) cs by simp
qed

lemma short_keys: "has_key (ShortNode nk n) k \<longleftrightarrow> k \<noteq> [] \<and> prefix nk k \<and> has_key n (drop (length nk) k)"
  by simp

text \<open>Equal entries under two short nodes: the keys of the nodes agree.\<close>

lemma no_longer_prefix:
  assumes "wf_node n" "canon n" "IsLeafNode n \<or> IsFullNode n" "z \<noteq> []" "\<And>k. has_key n k \<Longrightarrow> prefix z k"
  shows False
proof (cases "IsLeafNode n")
  case True
  then have "has_key n []" by (cases n) simp_all
  then show False using assms(4,5) by fastforce
next
  case False
  then obtain cs ch where n: "n = FullNode cs ch" using assms(3) by (cases n) simp_all
  obtain c z' where z: "z = c # z'" using assms(4) by (cases z) auto
  show False
    by (rule full_no_prefix [of cs ch c]) (use assms(1,2,5) n z in \<open>auto simp: prefix_def simp del: getLeafNode.simps wf_node.simps canon.simps\<close>)
qed

lemma short_same_key:
  assumes "wf_node (ShortNode nk n)" "wf_node (ShortNode mk m)" "canon n" "canon m"
    "\<And>k. getLeafNode (ShortNode nk n) k = getLeafNode (ShortNode mk m) k"
  shows "nk = mk"
proof -
  have half: "\<not> strict_prefix a b" if "wf_node (ShortNode a x)" "wf_node (ShortNode b y)" "canon x"
    "\<And>k. has_key (ShortNode a x) k \<Longrightarrow> has_key (ShortNode b y) k" for a b x y
  proof
    assume "strict_prefix a b"
    then obtain z where z: "b = a @ z" "z \<noteq> []" by (auto simp: strict_prefix_def prefix_def)
    have "prefix z k" if "has_key x k" for k
    proof -
      have "has_key (ShortNode a x) (a @ k)" using that \<open>wf_node (ShortNode a x)\<close> by simp
      then have "prefix b (a @ k)" using \<open>\<And>k. has_key (ShortNode a x) k \<Longrightarrow> has_key (ShortNode b y) k\<close> short_keys by blast
      then show ?thesis using z by simp
    qed
    then show False using no_longer_prefix [of x z] that(1,3) z(2) by auto
  qed
  obtain k where k: "has_key (ShortNode nk n) k" using has_some_key [OF assms(1)] by blast
  then have "prefix nk k" "prefix mk k" using assms(5) short_keys by metis+
  then consider "nk = mk" | "strict_prefix nk mk" | "strict_prefix mk nk"
    using prefix_same_cases [of nk k mk] by (auto simp: strict_prefix_def)
  then show ?thesis using half [OF assms(1,2,3)] half [OF assms(2,1,4)] assms(5) by cases metis+
qed

section \<open>Hashes\<close>

lemma sortChildren_eq:
  fixes cs ds :: "(byte \<times> 'a) list"
  assumes "distinct (map fst cs)" "distinct (map fst ds)" "set cs = set ds"
  shows "sortChildren cs = sortChildren ds"
proof -
  have "inj_on fst (set cs)" using assms(1) by (simp add: distinct_map)
  then show ?thesis unfolding sortChildren_def using assms
    by (intro map_sorted_distinct_set_unique [of fst]) (simp_all add: distinct_map)
qed

text \<open>The entries tell the kind of the node.\<close>

lemma full_long_key:
  assumes "wf_node (FullNode cs ch)" "canon (FullNode cs ch)"
  shows "\<exists>c k. has_key (FullNode cs ch) (c # k)"
proof -
  obtain c x r where cs: "cs = (c, x) # r" using assms(2) by (cases cs) (auto split: if_splits)
  then obtain k where "child_at cs c = x" "has_key x k" using child_key [OF assms(1), of c x] by auto
  then have "has_key (FullNode cs ch) (c # k)" by simp
  then show ?thesis by blast
qed

lemma same_leaf:
  assumes "IsLeafNode n" "wf_node m" "canon m" "\<And>k. getLeafNode n k = getLeafNode m k"
  shows "m = n"
proof -
  have n: "has_key n k \<longleftrightarrow> k = []" for k using assms(1) by (cases n) auto
  have m: "has_key m k \<longleftrightarrow> k = []" for k using n [of k] assms(4) [of k] by simp
  have "IsLeafNode m"
  proof (cases m)
    case (FullNode cs ch)
    then obtain c k where "has_key m (c # k)" using full_long_key assms(2,3) by blast
    then show ?thesis using m [of "c # k"] by simp
  next
    case (ShortNode nk x)
    then show ?thesis using m [of "[]"] by simp
  qed (use assms(2) in simp_all)
  then show ?thesis using assms(4) [of "[]"] assms(1) by (cases m; cases n) auto
qed

lemma full_not_short:
  assumes "wf_node (FullNode cs ch)" "canon (FullNode cs ch)" "wf_node (ShortNode nk x)"
    "\<And>k. getLeafNode (FullNode cs ch) k = getLeafNode (ShortNode nk x) k"
  shows False
proof (rule full_no_prefix [OF assms(1,2)])
  fix k assume "has_key (FullNode cs ch) k"
  then have "has_key (ShortNode nk x) k" using assms(4) [of k] by simp
  then have "prefix nk k" using short_keys by blast
  moreover have "nk \<noteq> []" using assms(3) by simp
  ultimately show "\<exists>k'. k = hd nk # k'" by (cases nk; cases k) auto
qed

text \<open>Two branching nodes with equal entries have children under the same bytes, with equal entries.\<close>

lemma full_children:
  assumes "wf_node (FullNode cs ch)" "wf_node (FullNode ds dh)" "\<And>k. getLeafNode (FullNode cs ch) k = getLeafNode (FullNode ds dh) k"
    "(c, x) \<in> set cs"
  shows "\<exists>y. (c, y) \<in> set ds \<and> (\<forall>k. getLeafNode x k = getLeafNode y k)"
proof -
  obtain k where x: "child_at cs c = x" "has_key x k" using child_key [OF assms(1,4)] by blast
  have kids: "getLeafNode x k = getLeafNode (child_at ds c) k" for k using assms(3) [of "c # k"] x(1) by simp
  then have "child_at ds c \<noteq> NilNode" using x(2) by auto
  then have "(c, child_at ds c) \<in> set ds" using child_at_in by blast
  then show ?thesis using kids by blast
qed

lemma canon_hash_full:
  assumes "wf_node (FullNode cs ch)" "wf_node (FullNode ds dh)" "canon (FullNode cs ch)" "canon (FullNode ds dh)"
    "\<And>k. getLeafNode (FullNode cs ch) k = getLeafNode (FullNode ds dh) k"
    and ih: "\<And>c x y. (c, x) \<in> set cs \<Longrightarrow> wf_node x \<Longrightarrow> wf_node y \<Longrightarrow> canon x \<Longrightarrow> canon y \<Longrightarrow> (\<And>k. getLeafNode x k = getLeafNode y k) \<Longrightarrow>
      node_Hash H x = node_Hash H y"
  shows "node_Hash H (FullNode cs ch) = node_Hash H (FullNode ds dh)"
proof -
  let ?h = "\<lambda>(c, n). (c, node_Hash H n)"
  have ok: "wf_node x \<and> canon x" if "(c, x) \<in> set cs \<or> (c, x) \<in> set ds" for c x using assms(1-4) that by auto
  have "?h (c, x) \<in> ?h ` set ds" if cx: "(c, x) \<in> set cs" for c x
  proof -
    obtain y where y: "(c, y) \<in> set ds" "\<And>k. getLeafNode x k = getLeafNode y k" using full_children [OF assms(1,2,5) cx] by blast
    then have "node_Hash H x = node_Hash H y" using ih [OF cx] ok cx by blast
    then show ?thesis using y(1) by force
  qed
  moreover have "?h (c, y) \<in> ?h ` set cs" if cy: "(c, y) \<in> set ds" for c y
  proof -
    obtain x where x: "(c, x) \<in> set cs" "\<And>k. getLeafNode y k = getLeafNode x k" using full_children [OF assms(2,1) assms(5) [symmetric] cy] by blast
    then have "node_Hash H x = node_Hash H y" using ih [OF x(1)] ok cy by metis
    then show ?thesis using x(1) by force
  qed
  ultimately have "set (map ?h cs) = set (map ?h ds)" by force
  moreover have "map fst (map ?h cs) = map fst cs" "map fst (map ?h ds) = map fst ds" by (simp_all add: case_prod_unfold o_def)
  ultimately have "sortChildren (map ?h cs) = sortChildren (map ?h ds)"
    using assms(1,2) by (intro sortChildren_eq) (simp_all del: map_map)
  moreover have "ch = dh" using assms(5) [of "[]"] by simp
  ultimately show ?thesis by (simp add: full_source_def)
qed

lemma canon_hash:
  "wf_node n \<Longrightarrow> wf_node m \<Longrightarrow> canon n \<Longrightarrow> canon m \<Longrightarrow> (\<And>k. getLeafNode n k = getLeafNode m k) \<Longrightarrow> node_Hash H n = node_Hash H m"
proof (induction n arbitrary: m)
  case (FullNode cs ch)
  note p = FullNode.prems
  have ih: "node_Hash H x = node_Hash H y"
    if "(c, x) \<in> set cs" "wf_node x" "wf_node y" "canon x" "canon y" "\<And>k. getLeafNode x k = getLeafNode y k" for c x y
    by (rule FullNode.IH(1) [OF that(1) _ that(2-)]) simp
  show ?case
  proof (cases m)
    case m: (FullNode ds dh)
    show ?thesis unfolding m
    proof (rule canon_hash_full [OF p(1) _ p(3)])
      show "wf_node (FullNode ds dh)" "canon (FullNode ds dh)" using p(2,4) unfolding m .
      show "getLeafNode (FullNode cs ch) k = getLeafNode (FullNode ds dh) k" for k using p(5) [of k] unfolding m .
    qed (rule ih)
  next
    case (ShortNode nk x)
    then show ?thesis using full_not_short [OF p(1,3)] p(2,5) by blast
  qed (use p(2) same_leaf [of m "FullNode cs ch"] p(1,3) p(5) [symmetric] in simp_all)
next
  case (ShortNode nk n)
  note p = ShortNode.prems
  show ?case
  proof (cases m)
    case (FullNode ds dh)
    then show ?thesis using full_not_short [of ds dh nk n] p(1,2,4) p(5) [symmetric] by blast
  next
    case m: (ShortNode mk x)
    have "nk = mk"
    proof (rule short_same_key)
      show "getLeafNode (ShortNode nk n) k = getLeafNode (ShortNode mk x) k" for k using p(5) [of k] unfolding m .
    qed (use p m in simp_all)
    moreover have "node_Hash H n = node_Hash H x"
    proof (rule ShortNode.IH)
      show "getLeafNode n k = getLeafNode x k" for k using p(5) [of "nk @ k"] p(1) m \<open>nk = mk\<close> by simp
    qed (use p m in simp_all)
    ultimately show ?thesis by (simp add: m)
  qed (use p(2) same_leaf [of m "ShortNode nk n"] p(1,3) p(5) [symmetric] in simp_all)
next
  case (ValueNode v)
  then show ?case using same_leaf [of "ValueNode v" m] by simp
next
  case (HashNode v)
  then show ?case using same_leaf [of "HashNode v" m] by simp
qed simp_all

section \<open>The order of insertions\<close>

definition sound_trie :: "trie_node \<times> refs \<Rightarrow> bool" where
  "sound_trie t \<longleftrightarrow> wf_trie (fst t) \<and> canon (fst t)"

lemma sound_new [simp]: "sound_trie (NilNode, r)"
  by (simp add: sound_trie_def wf_trie_def)

lemma sound_SetValue: "sound_trie t \<Longrightarrow> sound_trie (SetValue H k v t)"
proof -
  assume t: "sound_trie t"
  obtain n r where s: "setValue (fst t) k (leaf_of H v) (snd t) = (n, r)" by fastforce
  show ?thesis
    using setValue_canon [OF _ _ leaf_of_leaf(1) s] setValue_wf [OF _ leaf_of_leaf(1) s] t
    by (simp add: sound_trie_def SetValue_fst s wf_trie_def)
qed

lemma sound_fold: "sound_trie t \<Longrightarrow> sound_trie (fold (\<lambda>(k, v). SetValue H k v) kvs t)"
  by (induction kvs rule: rev_induct) (simp_all add: sound_SetValue case_prod_unfold)

lemma leaf_at_eq: "leaf_at t = leaf_at u \<Longrightarrow> getLeafNode (fst t) k = getLeafNode (fst u) k"
  by (drule fun_cong [of _ _ k]) (simp add: leaf_at_def Let_def split: if_splits)

lemma sound_hash:
  assumes "sound_trie t" "sound_trie u" "leaf_at t = leaf_at u"
  shows "node_Hash H (fst t) = node_Hash H (fst u)"
proof -
  note e = leaf_at_eq [OF assms(3)]
  have "fst t = NilNode \<longleftrightarrow> fst u = NilNode"
    using assms(1,2) e has_some_key [of "fst t"] has_some_key [of "fst u"] by (auto simp: sound_trie_def wf_trie_def)
  then show ?thesis using assms(1,2) e canon_hash [of "fst t" "fst u" H] by (auto simp: sound_trie_def wf_trie_def)
qed

text \<open>Inserting under different keys in any order gives the same hash.\<close>

lemma hash_perm:
  assumes "sound_trie t" "distinct (map fst kvs)" "mset kvs = mset kvs'"
  shows "node_Hash H (fst (fold (\<lambda>(k, v). SetValue H k v) kvs t)) = node_Hash H (fst (fold (\<lambda>(k, v). SetValue H k v) kvs' t))"
  using assms trie.look_perm [of t kvs kvs' H]
  by (intro sound_hash sound_fold) (simp_all add: sound_trie_def)

end
