(* ===== verification/Pov_Types.thy ===== *)
theory Pov_Types
  imports Block_Types
begin

text \<open>The data of the proof-of-work chain: headers, coinbase and parent chain transactions and the bytes that
  are hashed (\<open>common/types/block_pov.go\<close>, \<open>block_pov_btc.go\<close>, \<open>pov_algo.go\<close>, \<open>common/util/bytes.go\<close>,
  \<open>common/types/hash.go\<close>, \<open>common/params_pov.go\<close>). The hash functions are a record of parameters. The fields
  that only cache a computed value are left out.\<close>

unbundle bit_operations_syntax

type_synonym u32 = "32 word"

section \<open>Bytes\<close>

definition LE_Uint32ToBytes :: "u32 \<Rightarrow> bytes" where
  "LE_Uint32ToBytes i = rev (be_bytes 4 i)"

definition LE_Uint64ToBytes :: "u64 \<Rightarrow> bytes" where
  "LE_Uint64ToBytes i = rev (be_bytes 8 i)"

text \<open>\<open>binary.LittleEndian.Uint32\<close> on four bytes.\<close>

definition LE_BytesToUint32 :: "bytes \<Rightarrow> u32" where
  "LE_BytesToUint32 bs = of_nat (bytes_nat (rev bs))"

definition LE_EncodeVarInt :: "u64 \<Rightarrow> bytes" where
  "LE_EncodeVarInt v =
     (if v < 0xfd then [ucast v]
      else if v \<le> 0xffff then 0xfd # rev (be_bytes 2 (ucast v :: 16 word))
      else if v \<le> 0xffffffff then 0xfe # rev (be_bytes 4 (ucast v :: u32))
      else 0xff # LE_Uint64ToBytes v)"

definition ReverseByte :: "hash \<Rightarrow> hash" where
  "ReverseByte h = of_nat (bytes_nat (rev (be_bytes 32 h)))"

section \<open>Hash functions\<close>

record pov_hashes =
  Sha256DHashData :: "bytes \<Rightarrow> hash"
  ScryptHashData :: "bytes \<Rightarrow> hash"
  X11HashData :: "bytes \<Rightarrow> hash"

definition HybridHashData :: "pov_hashes \<Rightarrow> bytes \<Rightarrow> hash" where
  "HybridHashData P d = X11HashData P (be_bytes 32 (ScryptHashData P (be_bytes 32 (Sha256DHashData P d))))"

abbreviation FFFFHash :: hash where "FFFFHash \<equiv> - 1"

section \<open>Algorithms\<close>

definition ALGO_VERSION_MASK :: u32 where "ALGO_VERSION_MASK = push_bit 8 255"
definition ALGO_SHA256D :: u32 where "ALGO_SHA256D = 0"
definition ALGO_SCRYPT :: u32 where "ALGO_SCRYPT = push_bit 8 1"
definition ALGO_NIST5 :: u32 where "ALGO_NIST5 = push_bit 8 2"
definition ALGO_LYRA2Z :: u32 where "ALGO_LYRA2Z = push_bit 8 3"
definition ALGO_X11 :: u32 where "ALGO_X11 = push_bit 8 4"
definition ALGO_X16R :: u32 where "ALGO_X16R = push_bit 8 5"
definition ALGO_HYBRID :: u32 where "ALGO_HYBRID = push_bit 8 254"

lemmas algo_defs = ALGO_VERSION_MASK_def ALGO_SHA256D_def ALGO_SCRYPT_def ALGO_NIST5_def ALGO_LYRA2Z_def
  ALGO_X11_def ALGO_X16R_def ALGO_HYBRID_def

definition PovIsAlgoSupported :: "u32 \<Rightarrow> bool" where
  "PovIsAlgoSupported a \<longleftrightarrow> a = ALGO_SHA256D \<or> a = ALGO_SCRYPT \<or> a = ALGO_X11"

text \<open>The switch over the algorithm in both \<open>ComputePowHash\<close> methods.\<close>

definition pow_hash :: "pov_hashes \<Rightarrow> u32 \<Rightarrow> bytes \<Rightarrow> hash" where
  "pow_hash P algo d =
     (if algo = ALGO_SHA256D then Sha256DHashData P d
      else if algo = ALGO_SCRYPT then ScryptHashData P d
      else if algo = ALGO_X11 then X11HashData P d
      else if algo = ALGO_HYBRID then HybridHashData P d
      else FFFFHash)"

section \<open>The parent chain\<close>

record PovBtcHeader =
  btc_Version :: u32
  btc_Previous :: hash
  btc_MerkleRoot :: hash
  btc_Timestamp :: u32
  btc_Bits :: u32
  btc_Nonce :: u32

definition BtcHeader_BuildHashData :: "PovBtcHeader \<Rightarrow> bytes" where
  "BtcHeader_BuildHashData h =
     LE_Uint32ToBytes (btc_Version h) @ be_bytes 32 (btc_Previous h) @ be_bytes 32 (btc_MerkleRoot h)
     @ LE_Uint32ToBytes (btc_Timestamp h) @ LE_Uint32ToBytes (btc_Bits h) @ LE_Uint32ToBytes (btc_Nonce h)"

definition BtcHeader_ComputePowHash :: "pov_hashes \<Rightarrow> PovBtcHeader \<Rightarrow> u32 \<Rightarrow> hash" where
  "BtcHeader_ComputePowHash P h algo = pow_hash P algo (BtcHeader_BuildHashData h)"

record PovBtcTxIn =
  bti_Hash :: hash
  bti_Index :: u32
  bti_SignatureScript :: bytes
  bti_Sequence :: u32

definition BtcTxIn_BuildHashData :: "PovBtcTxIn \<Rightarrow> bytes" where
  "BtcTxIn_BuildHashData i =
     be_bytes 32 (bti_Hash i) @ LE_Uint32ToBytes (bti_Index i)
     @ LE_EncodeVarInt (of_nat (length (bti_SignatureScript i))) @ bti_SignatureScript i
     @ LE_Uint32ToBytes (bti_Sequence i)"

record PovBtcTxOut =
  bto_Value :: int
  bto_PkScript :: bytes

definition BtcTxOut_BuildHashData :: "PovBtcTxOut \<Rightarrow> bytes" where
  "BtcTxOut_BuildHashData t =
     LE_Uint64ToBytes (of_int (bto_Value t)) @ LE_EncodeVarInt (of_nat (length (bto_PkScript t))) @ bto_PkScript t"

record PovBtcTx =
  btx_Version :: int
  btx_TxIn :: "PovBtcTxIn list"
  btx_TxOut :: "PovBtcTxOut list"
  btx_LockTime :: u32

definition BtcTx_BuildHashData :: "PovBtcTx \<Rightarrow> bytes" where
  "BtcTx_BuildHashData t =
     LE_Uint32ToBytes (of_int (btx_Version t))
     @ LE_EncodeVarInt (of_nat (length (btx_TxIn t))) @ concat (map BtcTxIn_BuildHashData (btx_TxIn t))
     @ LE_EncodeVarInt (of_nat (length (btx_TxOut t))) @ concat (map BtcTxOut_BuildHashData (btx_TxOut t))
     @ LE_Uint32ToBytes (btx_LockTime t)"

definition BtcTx_ComputeHash :: "pov_hashes \<Rightarrow> PovBtcTx \<Rightarrow> hash" where
  "BtcTx_ComputeHash P t = Sha256DHashData P (BtcTx_BuildHashData t)"

record PovAuxHeader =
  aux_AuxMerkleBranch :: "hash list"
  aux_AuxMerkleIndex :: int
  aux_ParCoinBaseTx :: PovBtcTx
  aux_ParCoinBaseMerkle :: "hash list"
  aux_ParMerkleIndex :: int
  aux_ParBlockHeader :: PovBtcHeader
  aux_ParentHash :: hash

definition PovAuxPowChainID :: u32 where "PovAuxPowChainID = 1688"

definition PovAuxPowHeaderMagic :: bytes where
  "PovAuxPowHeaderMagic = [0xfa, 0xbe, of_char (CHR ''m''), of_char (CHR ''m'')]"

section \<open>Coinbase transactions\<close>

record PovCoinBaseTxIn =
  cbi_PrevTxHash :: hash
  cbi_PrevTxIdx :: u32
  cbi_Extra :: bytes
  cbi_Sequence :: u32

record PovCoinBaseTxOut =
  cbo_Value :: int
  cbo_Address :: address

record PovCoinBaseTx =
  cb_Version :: u32
  cb_TxIns :: "PovCoinBaseTxIn list"
  cb_TxOuts :: "PovCoinBaseTxOut list"
  cb_StateHash :: hash
  cb_TxNum :: u32
  cb_Hash :: hash

text \<open>The transaction reads its first input: \<open>None\<close> is the panic on an empty list.\<close>

definition GetCoinBaseData1 :: "PovCoinBaseTx \<Rightarrow> bytes option" where
  "GetCoinBaseData1 t =
     (case cb_TxIns t of
        [] \<Rightarrow> None
      | ti # _ \<Rightarrow> Some (LE_Uint32ToBytes (cb_Version t) @ LE_EncodeVarInt 1 @ be_bytes 32 (cbi_PrevTxHash ti)
          @ LE_Uint32ToBytes (cbi_PrevTxIdx ti)))"

definition GetCoinBaseData2 :: "PovCoinBaseTx \<Rightarrow> bytes option" where
  "GetCoinBaseData2 t =
     (case cb_TxIns t of
        [] \<Rightarrow> None
      | ti # _ \<Rightarrow> Some (LE_Uint32ToBytes (cbi_Sequence ti) @ LE_EncodeVarInt (of_nat (length (cb_TxOuts t)))
          @ concat (map (\<lambda>to. be_bytes 32 (cbo_Address to) @ Balance_Bytes (Some (cbo_Value to))) (cb_TxOuts t))
          @ be_bytes 32 (cb_StateHash t) @ LE_Uint32ToBytes (cb_TxNum t)))"

definition CbTx_BuildHashData :: "PovCoinBaseTx \<Rightarrow> bytes option" where
  "CbTx_BuildHashData t =
     (case (GetCoinBaseData1 t, cb_TxIns t, GetCoinBaseData2 t) of
        (Some d1, ti # _, Some d2) \<Rightarrow> Some (d1 @ LE_EncodeVarInt (of_nat (length (cbi_Extra ti))) @ cbi_Extra ti @ d2)
      | _ \<Rightarrow> None)"

definition CbTx_ComputeHash :: "pov_hashes \<Rightarrow> PovCoinBaseTx \<Rightarrow> hash option" where
  "CbTx_ComputeHash P t = map_option (Sha256DHashData P) (CbTx_BuildHashData t)"

definition GetMinerTxOut :: "PovCoinBaseTx \<Rightarrow> PovCoinBaseTxOut option" where
  "GetMinerTxOut t = (if length (cb_TxOuts t) > 0 then Some (cb_TxOuts t ! 0) else None)"

definition GetRepTxOut :: "PovCoinBaseTx \<Rightarrow> PovCoinBaseTxOut option" where
  "GetRepTxOut t = (if length (cb_TxOuts t) > 1 then Some (cb_TxOuts t ! 1) else None)"

section \<open>Headers and blocks\<close>

record PovHeader =
  ph_Version :: u32
  ph_Previous :: hash
  ph_MerkleRoot :: hash
  ph_Timestamp :: u32
  ph_Bits :: u32
  ph_Nonce :: u32
  ph_Hash :: hash
  ph_Height :: u64
  ph_AuxHdr :: "PovAuxHeader option"
  ph_CbTx :: PovCoinBaseTx

definition GetAlgoType :: "PovHeader \<Rightarrow> u32" where
  "GetAlgoType h = ph_Version h AND ALGO_VERSION_MASK"

definition algo_efficiency :: "u32 \<Rightarrow> int" where
  "algo_efficiency algo =
     (if algo = ALGO_SHA256D then 1
      else if algo = ALGO_SCRYPT then 12984
      else if algo = ALGO_NIST5 then 513
      else if algo = ALGO_LYRA2Z then 1973648
      else if algo = ALGO_X11 then 513
      else if algo = ALGO_X16R then 257849
      else if algo = ALGO_HYBRID then 1000000000
      else 1)"

definition GetAlgoEfficiency :: "PovHeader \<Rightarrow> int" where
  "GetAlgoEfficiency h = algo_efficiency (GetAlgoType h)"

lemma algo_efficiency_pos [simp]: "algo_efficiency a > 0" "GetAlgoEfficiency h > 0"
  by (simp_all add: algo_efficiency_def GetAlgoEfficiency_def)

definition Header_BuildHashData :: "PovHeader \<Rightarrow> bytes" where
  "Header_BuildHashData h =
     LE_Uint32ToBytes (ph_Version h) @ be_bytes 32 (ph_Previous h) @ be_bytes 32 (ph_MerkleRoot h)
     @ LE_Uint32ToBytes (ph_Timestamp h) @ LE_Uint32ToBytes (ph_Bits h) @ LE_Uint32ToBytes (ph_Nonce h)"

definition Header_ComputePowHash :: "pov_hashes \<Rightarrow> PovHeader \<Rightarrow> hash" where
  "Header_ComputePowHash P h =
     (case ph_AuxHdr h of
        Some aux \<Rightarrow> BtcHeader_ComputePowHash P (aux_ParBlockHeader aux) (GetAlgoType h)
      | None \<Rightarrow> pow_hash P (GetAlgoType h) (Header_BuildHashData h))"

definition Header_ComputeHash :: "pov_hashes \<Rightarrow> PovHeader \<Rightarrow> hash" where
  "Header_ComputeHash P h = Sha256DHashData P (Header_BuildHashData h)"

record PovTransaction =
  pt_Hash :: hash
  pt_CbTx :: "PovCoinBaseTx option"
  pt_Block :: "state_block option"

record PovBlock =
  pb_Header :: PovHeader
  pb_Txs :: "PovTransaction list"

record PovTD =
  td_Chain :: int
  td_Sha256d :: int
  td_Scrypt :: int
  td_X11 :: int
  td_Hybrid :: int

text \<open>\<open>BigNum.Copy\<close> goes through the absolute value; \<open>PovTD.Copy\<close> leaves \<open>Hybrid\<close> at zero.\<close>

definition TD_Copy :: "PovTD \<Rightarrow> PovTD" where
  "TD_Copy td = \<lparr>td_Chain = \<bar>td_Chain td\<bar>, td_Sha256d = \<bar>td_Sha256d td\<bar>, td_Scrypt = \<bar>td_Scrypt td\<bar>,
     td_X11 = \<bar>td_X11 td\<bar>, td_Hybrid = 0\<rparr>"

section \<open>Parameters of the chain\<close>

definition PovChainBlockInterval :: nat where "PovChainBlockInterval = 60"
definition PovChainTargetCycle :: nat where "PovChainTargetCycle = 20"
definition PovChainRetargetTimespan :: nat where "PovChainRetargetTimespan = PovChainBlockInterval * PovChainTargetCycle"
definition PovChainMinRetargetTimespan :: nat where "PovChainMinRetargetTimespan = PovChainRetargetTimespan div 4"
definition PovChainMaxRetargetTimespan :: nat where "PovChainMaxRetargetTimespan = PovChainRetargetTimespan * 4"
definition POVChainBlocksPerHour :: nat where "POVChainBlocksPerHour = 3600 div PovChainBlockInterval"
definition POVChainBlocksPerDay :: nat where "POVChainBlocksPerDay = POVChainBlocksPerHour * 24"
definition PoVMaxForkHeight :: nat where "PoVMaxForkHeight = POVChainBlocksPerHour * 23"
definition PovMinerVerifyHeightStart :: nat where "PovMinerVerifyHeightStart = POVChainBlocksPerDay * 1"
definition PovMaxAllowedFutureTimeSec :: nat where "PovMaxAllowedFutureTimeSec = 300"
definition PovMinerRewardPerBlock :: int where "PovMinerRewardPerBlock = 570776255"
definition PovMinerRewardRatioMiner :: int where "PovMinerRewardRatioMiner = 60"
definition PovMinerRewardRatioRep :: int where "PovMinerRewardRatioRep = 40"

text \<open>\<open>0xffffffff\<close> followed by 28 bytes \<open>0xff\<close>.\<close>

definition PovPowLimitInt :: int where "PovPowLimitInt = 2 ^ 224 - 1"

lemmas pov_params = PovChainBlockInterval_def PovChainTargetCycle_def PovChainRetargetTimespan_def
  PovChainMinRetargetTimespan_def PovChainMaxRetargetTimespan_def POVChainBlocksPerHour_def POVChainBlocksPerDay_def
  PoVMaxForkHeight_def PovMinerVerifyHeightStart_def PovMaxAllowedFutureTimeSec_def PovMinerRewardPerBlock_def
  PovMinerRewardRatioMiner_def PovMinerRewardRatioRep_def

section \<open>Encodings\<close>

lemma LE_Uint32_inj: "LE_Uint32ToBytes a = LE_Uint32ToBytes b \<Longrightarrow> a = b"
  using be_bytes_inj [of 4 a b] by (simp add: LE_Uint32ToBytes_def)

lemma length_LE_Uint32 [simp]: "length (LE_Uint32ToBytes a) = 4"
  by (simp add: LE_Uint32ToBytes_def)

text \<open>The bytes of a header determine the hashed fields.\<close>

lemma Header_BuildHashData_inj:
  assumes "Header_BuildHashData h = Header_BuildHashData g"
  shows "ph_Version h = ph_Version g \<and> ph_Previous h = ph_Previous g \<and> ph_MerkleRoot h = ph_MerkleRoot g \<and>
    ph_Timestamp h = ph_Timestamp g \<and> ph_Bits h = ph_Bits g \<and> ph_Nonce h = ph_Nonce g"
  using assms be_bytes_inj [of 32 "ph_Previous h" "ph_Previous g"] be_bytes_inj [of 32 "ph_MerkleRoot h" "ph_MerkleRoot g"]
  by (simp add: Header_BuildHashData_def append_eq_append_conv) (blast dest: LE_Uint32_inj)

end
