(* ===== verification/Pov_Target.thy ===== *)
theory Pov_Target
  imports Pov_Types
begin

text \<open>Targets and work (\<open>common/types/target.go\<close>): hashes as numbers, the compact form of a target and the work
  it stands for. The ratio of difficulties is a floating point number and is left out.\<close>

section \<open>The code\<close>

definition HashToBig :: "hash \<Rightarrow> int" where
  "HashToBig h = int (bytes_nat (rev (be_bytes 32 h)))"

definition BigToHash :: "int \<Rightarrow> hash option" where
  "BigToHash n =
     (let buf = nat_bytes (nat \<bar>n\<bar>)
      in if length buf > 32 then None
         else Some (of_nat (bytes_nat (rev (replicate (32 - length buf) 0 @ buf)))))"

definition CompactToBig :: "u32 \<Rightarrow> int" where
  "CompactToBig compact =
     (if compact = 0 then 0
      else let mantissa = compact AND 0x007fffff;
               isNegative = (compact AND 0x00800000 \<noteq> 0);
               exponent = unat (drop_bit 24 compact);
               bn = (if exponent \<le> 3 then uint (drop_bit (8 * (3 - exponent)) mantissa)
                     else push_bit (8 * (exponent - 3)) (uint mantissa))
           in if isNegative then - bn else bn)"

text \<open>\<open>Bits()[0]\<close> is the low word of the absolute value, here cut to 32 bits at once. \<open>Rsh\<close> rounds down.\<close>

definition BigToCompact :: "int \<Rightarrow> u32" where
  "BigToCompact n =
     (if n = 0 then 0
      else let exponent = length (nat_bytes (nat \<bar>n\<bar>));
               mantissa = (if exponent \<le> 3 then push_bit (8 * (3 - exponent)) (of_int \<bar>n\<bar> :: u32)
                           else of_int \<bar>drop_bit (8 * (exponent - 3)) n\<bar>);
               carry = (mantissa AND 0x00800000 \<noteq> 0);
               mantissa = (if carry then drop_bit 8 mantissa else mantissa);
               exponent = (if carry then exponent + 1 else exponent);
               compact = push_bit 24 (of_nat exponent) OR mantissa
           in if n < 0 then compact OR 0x00800000 else compact)"

definition CalcWorkIntToBigInt :: "int \<Rightarrow> int" where
  "CalcWorkIntToBigInt d = (if d \<le> 0 then 0 else 2 ^ 256 div (d + 1))"

definition CalcWorkBitsToBigInt :: "u32 \<Rightarrow> int" where
  "CalcWorkBitsToBigInt bits = CalcWorkIntToBigInt (CompactToBig bits)"

text \<open>\<open>NewBigNumFromBigInt\<close> takes the absolute value.\<close>

definition CalcWorkIntToBigNum :: "int \<Rightarrow> int" where
  "CalcWorkIntToBigNum d = \<bar>CalcWorkIntToBigInt d\<bar>"

definition GetAlgoTargetInt :: "PovHeader \<Rightarrow> int" where
  "GetAlgoTargetInt h = CompactToBig (ph_Bits h)"

text \<open>\<open>big.Int.Div\<close> is Euclidean division; the divisor is positive.\<close>

definition GetNormTargetInt :: "PovHeader \<Rightarrow> int" where
  "GetNormTargetInt h = GetAlgoTargetInt h div GetAlgoEfficiency h"

section \<open>Byte lengths\<close>

lemma length_nat_bytes: "n > 0 \<Longrightarrow> 256 ^ (length (nat_bytes n) - 1) \<le> n \<and> n < 256 ^ length (nat_bytes n) \<and> nat_bytes n \<noteq> []"
proof (induction n rule: nat_bytes.induct)
  case (1 n)
  let ?m = "n div 256"
  have e: "nat_bytes n = nat_bytes ?m @ [of_nat (n mod 256)]" using 1(2) by (simp add: nat_bytes.simps [of n])
  show ?case
  proof (cases "?m = 0")
    case True
    then have "n < 256" "nat_bytes ?m = []" by (simp_all add: nat_bytes.simps)
    then show ?thesis using 1(2) e by simp
  next
    case False
    then have ih: "256 ^ (length (nat_bytes ?m) - 1) \<le> ?m" "?m < 256 ^ length (nat_bytes ?m)" "nat_bytes ?m \<noteq> []"
      using 1 by simp_all
    then obtain l where l: "length (nat_bytes ?m) = Suc l" by (cases "nat_bytes ?m") auto
    have "256 * 256 ^ l \<le> n" "n < 256 * (256 * 256 ^ l)" using ih l by simp_all
    then show ?thesis using l by (simp add: e)
  qed
qed

lemma nat_bytes_length: "256 ^ k \<le> n \<Longrightarrow> n < 256 ^ Suc k \<Longrightarrow> length (nat_bytes n) = Suc k"
proof -
  assume k: "256 ^ k \<le> n" "n < 256 ^ Suc k"
  then have "n > 0" using less_le_trans zero_less_power by fastforce
  note l = length_nat_bytes [OF this]
  have "256 ^ (length (nat_bytes n) - 1) < (256::nat) ^ Suc k" "(256::nat) ^ k < 256 ^ length (nat_bytes n)" using l k by linarith+
  then have "length (nat_bytes n) - 1 < Suc k" "k < length (nat_bytes n)" by (simp_all only: power_strict_increasing_iff one_less_numeral_iff semiring_norm)
  then show ?thesis by linarith
qed

section \<open>Hashes as numbers\<close>

lemma bytes_nat_bound: "bytes_nat bs < 256 ^ length bs"
proof (induction bs rule: rev_induct)
  case (snoc b bs)
  have "unat b < 256" using unsigned_less [of b, where ?'a = nat] by simp
  then show ?case using snoc by (simp add: bytes_nat_snoc)
qed (simp add: bytes_nat_def)

section \<open>The parts of a compact target\<close>

definition pack :: "nat \<Rightarrow> nat \<Rightarrow> u32" where
  "pack e m = push_bit 24 (of_nat e) OR of_nat m"

lemma uint_pack:
  assumes "m < 2 ^ 24" "e < 256"
  shows "uint (pack e m) = int e * 2 ^ 24 + int m"
proof -
  have "pack e m = of_int (push_bit 24 (int e) OR take_bit 24 (int m))"
    using assms(1) by (simp add: pack_def of_int_or_eq of_int_push_bit take_bit_int_eq_self)
  also have "push_bit 24 (int e) OR take_bit 24 (int m) = int e * 2 ^ 24 + int m"
    using concat_bit_eq [of 24 "int m" "int e"] assms(1)
    by (simp add: concat_bit_def or.commute push_bit_eq_mult take_bit_int_eq_self)
  finally have p: "pack e m = of_int (int e * 2 ^ 24 + int m)" .
  have "int e * 2 ^ 24 + int m < 2 ^ 32" using assms by simp
  then show ?thesis unfolding p by (simp only: unsigned_of_int) (simp add: take_bit_int_eq_self)
qed

lemma pack_parts:
  assumes "m < 2 ^ 23" "e < 256"
  shows "unat (drop_bit 24 (pack e m)) = e" "uint (pack e m AND 0x007fffff) = int m" "pack e m AND 0x00800000 = 0"
proof -
  have u: "uint (pack e m) = int e * 2 ^ 24 + int m" using assms by (intro uint_pack) simp_all
  have "unat (drop_bit 24 (pack e m)) = unat (pack e m) div 2 ^ 24"
    using unat_drop_bit_eq [of 24 "pack e m"] by (simp only: drop_bit_eq_div)
  then show "unat (drop_bit 24 (pack e m)) = e" using u assms(1) by (simp add: unat_eq_nat_uint nat_add_distrib nat_mult_distrib del: nat_uint_eq)
  have k: "(0x007fffff :: u32) = mask 23" by (simp add: mask_eq_exp_minus_1)
  have "uint (pack e m AND 0x007fffff) = uint (pack e m) mod 2 ^ 23"
    unfolding k take_bit_eq_mask [symmetric] by (simp only: unsigned_take_bit_eq) (simp add: take_bit_eq_mod)
  also have "\<dots> = int m" using assms(1) by (simp add: u mod_add_left_eq [symmetric] mod_mult_right_eq [symmetric])
  finally show "uint (pack e m AND 0x007fffff) = int m" .
  have "(int e * 2 ^ 24 + int m) div 2 ^ 23 = 2 * int e" using assms(1) by simp
  then have "\<not> bit (uint (pack e m)) 23" unfolding u bit_iff_odd by simp
  then have "\<not> bit (pack e m) 23" by (simp add: bit_uint_iff)
  then show "pack e m AND 0x00800000 = 0" using and_exp_eq_0_iff_not_bit [of "pack e m" 23] by simp
qed

lemma CompactToBig_pack:
  assumes "m < 2 ^ 23" "e < 256" "e > 0 \<or> m > 0"
  shows "CompactToBig (pack e m) = (if e \<le> 3 then int m div 256 ^ (3 - e) else int m * 256 ^ (e - 3))"
proof -
  have "uint (pack e m) = int e * 2 ^ 24 + int m" using assms(1,2) by (intro uint_pack) simp_all
  then have "uint (pack e m) > 0" using assms(3) by (auto intro: add_pos_nonneg add_nonneg_pos)
  then have nz: "pack e m \<noteq> 0" by auto
  have "uint (drop_bit k (pack e m AND 0x007fffff)) = int m div 2 ^ k" for k
    using pack_parts(2) [OF assms(1,2)] assms(1)
    by (simp only: unsigned_drop_bit_eq) (simp add: drop_bit_eq_div take_bit_int_eq_self)
  moreover have "(256::int) ^ k = 2 ^ (8 * k)" for k by (simp add: power_mult)
  ultimately show ?thesis using nz pack_parts [OF assms(1,2)]
    by (simp add: CompactToBig_def Let_def push_bit_eq_mult)
qed

text \<open>The leading three bytes of a number.\<close>

definition mantissa :: "nat \<Rightarrow> nat" where
  "mantissa n = (let e = length (nat_bytes n) in if e \<le> 3 then n * 256 ^ (3 - e) else n div 256 ^ (e - 3))"

lemma mantissa_bounds:
  assumes "n > 0"
  shows "2 ^ 16 \<le> mantissa n" "mantissa n < 2 ^ 24"
proof -
  let ?e = "length (nat_bytes n)"
  note l = length_nat_bytes [OF assms]
  obtain d where d: "?e = Suc d" using l by (cases "nat_bytes n") auto
  have b: "256 ^ d \<le> n" "n < 256 ^ Suc d" using l d by simp_all
  have "2 ^ 16 \<le> mantissa n \<and> mantissa n < 2 ^ 24"
  proof (cases "?e \<le> 3")
    case True
    then have "d = 0 \<or> d = 1 \<or> d = 2" using d by linarith
    then show ?thesis using b True d by (auto simp: mantissa_def Let_def)
  next
    case False
    define k where "k = d - 2"
    have k: "d = k + 2" "?e - 3 = k" using False d by (simp_all add: k_def)
    have "256 ^ k * 65536 \<le> n" "n < 256 ^ k * 16777216" using b k(1) by (simp_all add: power_add)
    then have "65536 \<le> n div 256 ^ k" "n div 256 ^ k < 16777216"
      by (simp_all add: less_eq_div_iff_mult_less_eq div_less_iff_less_mult mult.commute)
    then show ?thesis using False k(2) by (simp add: mantissa_def Let_def)
  qed
  then show "2 ^ 16 \<le> mantissa n" "mantissa n < 2 ^ 24" by simp_all
qed

lemma word_parts:
  assumes "m < 2 ^ 24"
  shows "(of_nat m :: u32) AND 0x00800000 \<noteq> 0 \<longleftrightarrow> 2 ^ 23 \<le> m" "drop_bit 8 (of_nat m :: u32) = of_nat (m div 256)"
proof -
  have "bit (of_nat m :: u32) 23 \<longleftrightarrow> odd (m div 2 ^ 23)" by (simp only: bit_of_nat_iff bit_iff_odd [of m]) simp
  also have "\<dots> \<longleftrightarrow> 2 ^ 23 \<le> m"
  proof -
    have "m div 2 ^ 23 < 2" using assms by simp
    then have "odd (m div 2 ^ 23) \<longleftrightarrow> m div 2 ^ 23 > 0" by (cases "m div 2 ^ 23") auto
    then show ?thesis by (simp add: div_greater_zero_iff)
  qed
  finally show "(of_nat m :: u32) AND 0x00800000 \<noteq> 0 \<longleftrightarrow> 2 ^ 23 \<le> m"
    using and_exp_eq_0_iff_not_bit [of "of_nat m :: u32" 23] by simp
  show "drop_bit 8 (of_nat m :: u32) = of_nat (m div 256)"
    by (rule word_unat_eq_iff [THEN iffD2], simp only: unat_drop_bit_eq) (use assms in \<open>simp add: unat_of_nat drop_bit_eq_div\<close>)
qed

lemma BigToCompact_pack:
  assumes "n > 0"
  defines "e \<equiv> length (nat_bytes n)" and "m \<equiv> mantissa n"
  shows "BigToCompact (int n) = (if 2 ^ 23 \<le> m then pack (e + 1) (m div 256) else pack e m)"
proof -
  have m: "m < 2 ^ 24" unfolding m_def by (rule mantissa_bounds(2) [OF assms(1)])
  have p: "(256::nat) ^ k = 2 ^ (8 * k)" for k by (simp add: power_mult)
  have "(if e \<le> 3 then push_bit (8 * (3 - e)) (of_int \<bar>int n\<bar> :: u32) else of_int \<bar>drop_bit (8 * (e - 3)) (int n)\<bar>) = of_nat m"
  proof -
    have "\<bar>drop_bit k (int n)\<bar> = int (n div 2 ^ k)" for k
      using pos_imp_zdiv_nonneg_iff [of "2 ^ k" "int n"] by (simp add: drop_bit_eq_div zdiv_int)
    moreover have "push_bit k (of_nat n :: u32) = of_nat (n * 2 ^ k)" for k by (simp add: push_bit_eq_mult)
    ultimately show ?thesis by (simp only: m_def mantissa_def Let_def e_def p of_int_of_nat_eq abs_of_nat split: if_split) simp
  qed
  then show ?thesis using assms(1) word_parts [OF m]
    by (simp add: BigToCompact_def Let_def e_def [symmetric] pack_def)
qed

text \<open>What the compact form keeps: a number of low bytes is cut off.\<close>

definition cut_bytes :: "nat \<Rightarrow> nat" where
  "cut_bytes n = length (nat_bytes n) + (if 2 ^ 23 \<le> mantissa n then 1 else 0) - 3"

lemma mantissa_ge3: "length (nat_bytes n) \<ge> 3 \<Longrightarrow> mantissa n = n div 256 ^ (length (nat_bytes n) - 3)"
  by (auto simp: mantissa_def Let_def)

lemma decode_compact:
  assumes "n > 0" "length (nat_bytes n) < 255"
  shows "CompactToBig (BigToCompact (int n)) = int (n div 256 ^ cut_bytes n * 256 ^ cut_bytes n)"
proof -
  let ?e = "length (nat_bytes n)" and ?m = "mantissa n"
  note b = mantissa_bounds [OF assms(1)]
  note l = length_nat_bytes [OF assms(1)]
  have e: "?e > 0" using l by simp
  have small: "int (n * 256 ^ j) div 256 ^ j = int n" for j by simp
  show ?thesis
  proof (cases "2 ^ 23 \<le> ?m")
    case True
    have m8: "?m div 256 < 2 ^ 23" using b by simp
    have c: "CompactToBig (BigToCompact (int n)) =
        (if ?e + 1 \<le> 3 then int (?m div 256) div 256 ^ (3 - (?e + 1)) else int (?m div 256) * 256 ^ (?e + 1 - 3))"
      using True BigToCompact_pack [OF assms(1)] CompactToBig_pack [OF m8, of "?e + 1"] assms(2) by simp
    show ?thesis
    proof (cases "?e + 1 \<le> 3")
      case le: True
      then have "3 - ?e = Suc (2 - ?e)" by simp
      then have "?m div 256 = n * 256 ^ (2 - ?e)" using le by (simp add: mantissa_def Let_def)
      then have "int (?m div 256) div 256 ^ (3 - (?e + 1)) = int n" using le small [of "2 - ?e"] by simp
      then show ?thesis using c le True by (simp add: cut_bytes_def)
    next
      case False
      then have "?e + 1 - 3 = Suc (?e - 3)" by simp
      then have "256 ^ (?e + 1 - 3) = (256 ^ (?e - 3) * 256 :: nat)" by simp
      then have "?m div 256 = n div 256 ^ (?e + 1 - 3)" using False mantissa_ge3 [of n] by (simp add: div_mult2_eq)
      then show ?thesis using c False True by (simp add: cut_bytes_def)
    qed
  next
    case False
    have c: "CompactToBig (BigToCompact (int n)) = (if ?e \<le> 3 then int ?m div 256 ^ (3 - ?e) else int ?m * 256 ^ (?e - 3))"
      using False BigToCompact_pack [OF assms(1)] CompactToBig_pack [of ?m ?e] assms(2) e by simp
    show ?thesis
    proof (cases "?e \<le> 3")
      case True
      then show ?thesis using c False small [of "3 - ?e"] by (simp add: cut_bytes_def mantissa_def Let_def)
    next
      case f: False
      then show ?thesis using c False mantissa_ge3 [of n] by (simp add: cut_bytes_def)
    qed
  qed
qed

lemma cut_small: "n > 0 \<Longrightarrow> cut_bytes n = 0 \<or> 256 ^ cut_bytes n * 2 ^ 15 \<le> n"
proof -
  assume n: "n > 0"
  let ?e = "length (nat_bytes n)"
  show ?thesis
  proof (cases "cut_bytes n = 0")
    case False
    then have e: "?e \<ge> 3" by (auto simp: cut_bytes_def split: if_splits)
    have m: "mantissa n = n div 256 ^ (?e - 3)" by (rule mantissa_ge3 [OF e])
    have "256 ^ (?e - 3) * mantissa n \<le> n" unfolding m by simp
    moreover have "256 ^ cut_bytes n * 2 ^ 15 \<le> 256 ^ (?e - 3) * mantissa n"
    proof (cases "2 ^ 23 \<le> mantissa n")
      case True
      then have "cut_bytes n = Suc (?e - 3)" using e by (simp add: cut_bytes_def)
      then show ?thesis using True by simp
    next
      case False
      then have "cut_bytes n = ?e - 3" by (simp add: cut_bytes_def)
      then show ?thesis using mantissa_bounds(1) [OF n] by simp
    qed
    ultimately show ?thesis by linarith
  qed simp
qed

lemma mantissa_scaled:
  assumes "n > 0" "length (nat_bytes n) \<ge> 3" "2 ^ 16 \<le> q" "q * 256 ^ (length (nat_bytes n) - 3) \<le> n"
  defines "v \<equiv> q * 256 ^ (length (nat_bytes n) - 3)"
  shows "length (nat_bytes v) = length (nat_bytes n) \<and> mantissa v = q"
proof -
  let ?e = "length (nat_bytes n)" and ?A = "256 ^ (length (nat_bytes n) - 3) :: nat"
  have e: "?e = Suc (?e - 3 + 2)" using assms(2) by simp
  have "256 ^ (?e - 3 + 2) = ?A * 2 ^ 16" by (simp add: power_add)
  then have "256 ^ (?e - 3 + 2) \<le> v" using assms(3) by (simp add: v_def)
  moreover have "v < 256 ^ Suc (?e - 3 + 2)" using length_nat_bytes [OF assms(1)] assms(4) e unfolding v_def by (metis le_less_trans)
  ultimately have "length (nat_bytes v) = ?e" using nat_bytes_length [of "?e - 3 + 2" v] e by simp
  then show ?thesis using mantissa_ge3 [of v] assms(2) by (simp add: v_def)
qed

lemma compact_cut:
  assumes "n > 0"
  shows "BigToCompact (int (n div 256 ^ cut_bytes n * 256 ^ cut_bytes n)) = BigToCompact (int n)"
proof (cases "cut_bytes n = 0")
  case False
  let ?e = "length (nat_bytes n)" and ?A = "256 ^ (length (nat_bytes n) - 3) :: nat" and ?v = "n div 256 ^ cut_bytes n * 256 ^ cut_bytes n"
  have e: "?e \<ge> 3" using False by (auto simp: cut_bytes_def split: if_splits)
  have m: "mantissa n = n div ?A" by (rule mantissa_ge3 [OF e])
  have vn: "?v \<le> n" by simp
  show ?thesis
  proof (cases "2 ^ 23 \<le> mantissa n")
    case True
    then have c: "cut_bytes n = Suc (?e - 3)" using e by (simp add: cut_bytes_def)
    define q where "q = mantissa n div 256"
    have pw: "256 ^ cut_bytes n = ?A * 256" by (simp add: c)
    have v: "?v = q * 256 * ?A" unfolding pw div_mult2_eq q_def m by (simp add: ac_simps)
    have q: "2 ^ 23 \<le> q * 256" using True unfolding q_def by (simp add: less_eq_div_iff_mult_less_eq)
    then have "length (nat_bytes ?v) = ?e" "mantissa ?v = q * 256"
      using mantissa_scaled [OF assms e, of "q * 256"] vn unfolding v by simp_all
    moreover have "?v > 0" using q unfolding v by simp
    ultimately show ?thesis using BigToCompact_pack [of ?v] BigToCompact_pack [OF assms] True q by (simp add: q_def)
  next
    case False
    then have c: "cut_bytes n = ?e - 3" by (simp add: cut_bytes_def)
    have v: "?v = mantissa n * ?A" by (simp add: c m)
    then have "length (nat_bytes ?v) = ?e" "mantissa ?v = mantissa n"
      using mantissa_scaled [OF assms e mantissa_bounds(1) [OF assms]] vn unfolding v by simp_all
    moreover have "?v > 0" using mantissa_bounds(1) [OF assms] unfolding v by simp
    ultimately show ?thesis using BigToCompact_pack [of ?v] BigToCompact_pack [OF assms] by simp
  qed
qed simp

lemma compact_value:
  assumes "0 < n" "n < 256 ^ 254"
  shows "CompactToBig (BigToCompact n) = int (nat n div 256 ^ cut_bytes (nat n) * 256 ^ cut_bytes (nat n))"
proof -
  define k where "k = nat n"
  have k: "n = int k" "k > 0" using assms(1) by (simp_all add: k_def)
  have "int k < int (256 ^ 254)" using assms(2) unfolding k(1) of_nat_power of_nat_numeral .
  then have "k < 256 ^ 254" unfolding of_nat_less_iff .
  then have "256 ^ (length (nat_bytes k) - 1) < (256::nat) ^ 254" using length_nat_bytes [OF k(2)] by (metis le_less_trans)
  then have "length (nat_bytes k) - 1 < 254" by (simp only: power_strict_increasing_iff one_less_numeral_iff semiring_norm)
  then have "CompactToBig (BigToCompact (int k)) = int (k div 256 ^ cut_bytes k * 256 ^ cut_bytes k)" by (intro decode_compact [OF k(2)]) simp
  then show ?thesis using k(1) by simp
qed

lemma compact_loss:
  assumes "0 < n" "n < 256 ^ 254"
  shows "0 \<le> CompactToBig (BigToCompact n) \<and> CompactToBig (BigToCompact n) \<le> n \<and> (n - CompactToBig (BigToCompact n)) * 2 ^ 15 < n"
proof -
  define k where "k = nat n"
  have k: "n = int k" "k > 0" using assms(1) by (simp_all add: k_def)
  have v: "CompactToBig (BigToCompact (int k)) = int (k div 256 ^ cut_bytes k * 256 ^ cut_bytes k)" using compact_value [OF assms] by (simp add: k)
  have "int k - int (k div 256 ^ cut_bytes k * 256 ^ cut_bytes k) = int (k mod 256 ^ cut_bytes k)"
    using mult_div_mod_eq [of "256 ^ cut_bytes k" k] by (simp add: minus_mod_eq_mult_div [symmetric] algebra_simps zmod_int)
  moreover have "k mod 256 ^ cut_bytes k * 2 ^ 15 < k"
  proof (cases "cut_bytes k = 0")
    case False
    have "k mod 256 ^ cut_bytes k < 256 ^ cut_bytes k" by simp
    then have "k mod 256 ^ cut_bytes k * 2 ^ 15 < 256 ^ cut_bytes k * 2 ^ 15" by simp
    then show ?thesis using cut_small [OF k(2)] False by (meson less_le_trans)
  qed (use k(2) in simp)
  ultimately have "(int k - CompactToBig (BigToCompact (int k))) * 2 ^ 15 < int k" unfolding v by (simp flip: of_nat_mult of_nat_less_iff)
  moreover have "CompactToBig (BigToCompact (int k)) \<le> int k" unfolding v by (simp del: of_nat_mult)
  moreover have "0 \<le> CompactToBig (BigToCompact (int k))" unfolding v by (rule of_nat_0_le_iff)
  ultimately show ?thesis unfolding k(1) by blast
qed

text \<open>C24: a target survives its compact form up to its low bytes: decoding never gives more than the target and
  loses less than one part in \<open>2 ^ 15\<close>, and encoding the decoded target again gives the same compact form.\<close>

theorem compact_roundtrip:
  assumes "0 < n" "n < 256 ^ 254"
  shows "CompactToBig (BigToCompact n) \<le> n \<and> (n - CompactToBig (BigToCompact n)) * 2 ^ 15 < n \<and>
    BigToCompact (CompactToBig (BigToCompact n)) = BigToCompact n"
  using compact_loss [OF assms] compact_value [OF assms] compact_cut [of "nat n"] assms(1) by simp

theorem compact_roundtrip_witness:
  "CompactToBig (BigToCompact PovPowLimitInt) \<le> PovPowLimitInt \<and> BigToCompact (CompactToBig (BigToCompact PovPowLimitInt)) = BigToCompact PovPowLimitInt"
  using compact_roundtrip [of PovPowLimitInt] by (simp add: PovPowLimitInt_def)

text \<open>A lower target stands for more work, and every target stands for some.\<close>

lemma CalcWork_mono: "0 < d \<Longrightarrow> d \<le> d' \<Longrightarrow> CalcWorkIntToBigInt d' \<le> CalcWorkIntToBigInt d"
  by (simp add: CalcWorkIntToBigInt_def zdiv_mono2)

lemma CalcWork_pos: "0 < d \<Longrightarrow> d < 2 ^ 256 \<Longrightarrow> CalcWorkIntToBigInt d > 0"
  by (simp add: CalcWorkIntToBigInt_def pos_imp_zdiv_pos_iff)

lemma CalcWork_nonneg [simp]: "CalcWorkIntToBigInt d \<ge> 0" "CalcWorkIntToBigNum d \<ge> 0"
  by (simp_all add: CalcWorkIntToBigInt_def CalcWorkIntToBigNum_def pos_imp_zdiv_nonneg_iff)

end
