(* ===== verification/Pov_Store.thy ===== *)
theory Pov_Store
  imports Pov_Target
begin

text \<open>The tables of the proof-of-work chain (\<open>ledger/ledger_pov.go\<close>): headers and bodies under height and
  hash, the height of a hash, total difficulties, the best hash of a height, the latest height, the positions of
  transactions and the cursor of the scan that records them. A function that takes a batch is a state transformer
  on the tables the batch shows; one without a batch reads the tables of the store. The message pack code is left
  out: what is stored is the value without the fields it does not encode. The tables of daily statistics, which are
  derived from the blocks, are left out.\<close>

section \<open>Tables\<close>

record PovTxLookup =
  txl_BlockHash :: hash
  txl_BlockHeight :: u64
  txl_TxIndex :: u64

record pov_db =
  pv_header :: "u64 \<times> hash \<rightharpoonup> PovHeader"
  pv_body :: "u64 \<times> hash \<rightharpoonup> PovTransaction list"
  pv_height :: "hash \<rightharpoonup> u64"
  pv_td :: "u64 \<times> hash \<rightharpoonup> PovTD"
  pv_best :: "u64 \<rightharpoonup> hash"
  pv_latest :: "u64 option"
  pv_txl :: "hash \<rightharpoonup> PovTxLookup"
  pv_cursor :: "u64 option"
  pv_trie :: "bytes \<rightharpoonup> bytes"

datatype perr =
    ErrPovKeyNotFound | ErrPovHeaderNotFound | ErrPovBodyNotFound | ErrPovHeightNotFound | ErrPovHashNotFound
  | ErrPovTxLookupNotFound | ErrPovTxLookupNotBest | ErrPovTDNotFound | ErrPovBlockExists
  | ErrPovInvalidHash | ErrPovInvalidHeight | ErrPovInvalidPrevious | ErrPovInvalidHead | ErrPovInvalidFork
  | ErrPovOther

definition need :: "perr \<Rightarrow> 'a option \<Rightarrow> perr + 'a" where
  "need e r = (case r of None \<Rightarrow> Inl e | Some x \<Rightarrow> Inr x)"

lemma need_simps [simp]: "need e None = Inl e" "need e (Some x) = Inr x"
  by (simp_all add: need_def)

lemma need_Inr [simp]: "need e r = Inr x \<longleftrightarrow> r = Some x"
  by (cases r) simp_all

text \<open>The encoding of a transaction keeps the hash alone, that of a difficulty keeps absolute values.\<close>

definition Tx_stored :: "PovTransaction \<Rightarrow> PovTransaction" where
  "Tx_stored t = t\<lparr>pt_CbTx := None, pt_Block := None\<rparr>"

definition TD_stored :: "PovTD \<Rightarrow> PovTD" where
  "TD_stored td = \<lparr>td_Chain = \<bar>td_Chain td\<bar>, td_Sha256d = \<bar>td_Sha256d td\<bar>, td_Scrypt = \<bar>td_Scrypt td\<bar>,
     td_X11 = \<bar>td_X11 td\<bar>, td_Hybrid = \<bar>td_Hybrid td\<bar>\<rparr>"

abbreviation pb_Hash :: "PovBlock \<Rightarrow> hash" where "pb_Hash b \<equiv> ph_Hash (pb_Header b)"
abbreviation pb_Height :: "PovBlock \<Rightarrow> u64" where "pb_Height b \<equiv> ph_Height (pb_Header b)"
abbreviation pb_Previous :: "PovBlock \<Rightarrow> hash" where "pb_Previous b \<equiv> ph_Previous (pb_Header b)"

section \<open>Writing\<close>

type_synonym 'a pov_tx = "(perr, pov_db, 'a) stm"

definition addPovHeader :: "PovHeader \<Rightarrow> unit pov_tx" where
  "addPovHeader h = (\<lambda>db.
     if pv_header db (ph_Height h, ph_Hash h) \<noteq> None then (Inl ErrPovBlockExists, db)
     else (Inr (), db\<lparr>pv_header := (pv_header db)((ph_Height h, ph_Hash h) \<mapsto> h)\<rparr>))"

definition addPovBody :: "u64 \<Rightarrow> hash \<Rightarrow> PovTransaction list \<Rightarrow> unit pov_tx" where
  "addPovBody height hash body = (\<lambda>db.
     if pv_body db (height, hash) \<noteq> None then (Inl ErrPovBlockExists, db)
     else (Inr (), db\<lparr>pv_body := (pv_body db)((height, hash) \<mapsto> map Tx_stored body)\<rparr>))"

definition addPovHeight :: "hash \<Rightarrow> u64 \<Rightarrow> unit pov_tx" where
  "addPovHeight hash height = (\<lambda>db.
     if pv_height db hash \<noteq> None then (Inl ErrPovBlockExists, db)
     else (Inr (), db\<lparr>pv_height := (pv_height db)(hash \<mapsto> height)\<rparr>))"

definition addPovTD :: "hash \<Rightarrow> u64 \<Rightarrow> PovTD \<Rightarrow> unit pov_tx" where
  "addPovTD hash height td = (\<lambda>db.
     if pv_td db (height, hash) \<noteq> None then (Inl ErrPovBlockExists, db)
     else (Inr (), db\<lparr>pv_td := (pv_td db)((height, hash) \<mapsto> TD_stored td)\<rparr>))"

definition AddPovBlock :: "PovBlock \<Rightarrow> PovTD \<Rightarrow> unit pov_tx" where
  "AddPovBlock blk td =
     bindM (addPovHeader (pb_Header blk)) (\<lambda>_.
     bindM (addPovBody (pb_Height blk) (pb_Hash blk) (pb_Txs blk)) (\<lambda>_.
     bindM (addPovHeight (pb_Hash blk) (pb_Height blk)) (\<lambda>_.
     addPovTD (pb_Hash blk) (pb_Height blk) td)))"

definition deletePovHeader :: "u64 \<Rightarrow> hash \<Rightarrow> unit pov_tx" where
  "deletePovHeader height hash = modifyM (\<lambda>db. db\<lparr>pv_header := (pv_header db)((height, hash) := None)\<rparr>)"

definition deletePovBody :: "u64 \<Rightarrow> hash \<Rightarrow> unit pov_tx" where
  "deletePovBody height hash = modifyM (\<lambda>db. db\<lparr>pv_body := (pv_body db)((height, hash) := None)\<rparr>)"

definition deletePovHeight :: "hash \<Rightarrow> unit pov_tx" where
  "deletePovHeight hash = modifyM (\<lambda>db. db\<lparr>pv_height := (pv_height db)(hash := None)\<rparr>)"

definition deletePovTD :: "hash \<Rightarrow> u64 \<Rightarrow> unit pov_tx" where
  "deletePovTD hash height = modifyM (\<lambda>db. db\<lparr>pv_td := (pv_td db)((height, hash) := None)\<rparr>)"

definition DeletePovBlock :: "PovBlock \<Rightarrow> unit pov_tx" where
  "DeletePovBlock blk =
     bindM (deletePovHeader (pb_Height blk) (pb_Hash blk)) (\<lambda>_.
     bindM (deletePovBody (pb_Height blk) (pb_Hash blk)) (\<lambda>_.
     bindM (deletePovHeight (pb_Hash blk)) (\<lambda>_.
     deletePovTD (pb_Hash blk) (pb_Height blk))))"

definition AddPovTxLookup :: "hash \<Rightarrow> PovTxLookup \<Rightarrow> unit pov_tx" where
  "AddPovTxLookup txHash l = modifyM (\<lambda>db. db\<lparr>pv_txl := (pv_txl db)(txHash \<mapsto> l)\<rparr>)"

definition DeletePovTxLookup :: "hash \<Rightarrow> unit pov_tx" where
  "DeletePovTxLookup txHash = modifyM (\<lambda>db. db\<lparr>pv_txl := (pv_txl db)(txHash := None)\<rparr>)"

definition SetPovTxlScanCursor :: "u64 \<Rightarrow> unit pov_tx" where
  "SetPovTxlScanCursor height = modifyM (\<lambda>db. db\<lparr>pv_cursor := Some height\<rparr>)"

definition AddPovBestHash :: "u64 \<Rightarrow> hash \<Rightarrow> unit pov_tx" where
  "AddPovBestHash height hash = modifyM (\<lambda>db. db\<lparr>pv_best := (pv_best db)(height \<mapsto> hash)\<rparr>)"

definition DeletePovBestHash :: "u64 \<Rightarrow> unit pov_tx" where
  "DeletePovBestHash height = modifyM (\<lambda>db. db\<lparr>pv_best := (pv_best db)(height := None)\<rparr>)"

definition SetPovLatestHeight :: "u64 \<Rightarrow> unit pov_tx" where
  "SetPovLatestHeight height = modifyM (\<lambda>db. db\<lparr>pv_latest := Some height\<rparr>)"

text \<open>The entries of the tries are not dropped.\<close>

definition DropAllPovBlocks :: "unit pov_tx" where
  "DropAllPovBlocks = modifyM (\<lambda>db. \<lparr>pv_header = Map.empty, pv_body = Map.empty, pv_height = Map.empty,
     pv_td = Map.empty, pv_best = Map.empty, pv_latest = None, pv_txl = Map.empty, pv_cursor = None,
     pv_trie = pv_trie db\<rparr>)"

lemmas pov_writes = addPovHeader_def addPovBody_def addPovHeight_def addPovTD_def deletePovHeader_def
  deletePovBody_def deletePovHeight_def deletePovTD_def AddPovTxLookup_def DeletePovTxLookup_def
  SetPovTxlScanCursor_def AddPovBestHash_def DeletePovBestHash_def SetPovLatestHeight_def

section \<open>Reading\<close>

definition GetPovHeader :: "pov_db \<Rightarrow> u64 \<Rightarrow> hash \<Rightarrow> perr + PovHeader" where
  "GetPovHeader db height hash = need ErrPovHeaderNotFound (pv_header db (height, hash))"

definition HasPovHeader :: "pov_db \<Rightarrow> u64 \<Rightarrow> hash \<Rightarrow> bool" where
  "HasPovHeader db height hash \<longleftrightarrow> pv_header db (height, hash) \<noteq> None"

definition GetPovBody :: "pov_db \<Rightarrow> u64 \<Rightarrow> hash \<Rightarrow> perr + PovTransaction list" where
  "GetPovBody db height hash = need ErrPovBodyNotFound (pv_body db (height, hash))"

definition HasPovBody :: "pov_db \<Rightarrow> u64 \<Rightarrow> hash \<Rightarrow> bool" where
  "HasPovBody db height hash \<longleftrightarrow> pv_body db (height, hash) \<noteq> None"

definition GetPovHeight :: "pov_db \<Rightarrow> hash \<Rightarrow> perr + u64" where
  "GetPovHeight db hash = need ErrPovHeightNotFound (pv_height db hash)"

definition GetPovTD :: "pov_db \<Rightarrow> hash \<Rightarrow> u64 \<Rightarrow> perr + PovTD" where
  "GetPovTD db hash height = need ErrPovTDNotFound (pv_td db (height, hash))"

definition GetPovBestHash :: "pov_db \<Rightarrow> u64 \<Rightarrow> perr + hash" where
  "GetPovBestHash db height = need ErrPovHashNotFound (pv_best db height)"

definition GetPovTxlScanCursor :: "pov_db \<Rightarrow> perr + u64" where
  "GetPovTxlScanCursor db = need ErrPovKeyNotFound (pv_cursor db)"

definition GetPovLatestHeight :: "pov_db \<Rightarrow> perr + u64" where
  "GetPovLatestHeight db = need ErrPovHeightNotFound (pv_latest db)"

definition GetPovTxLookup :: "pov_db \<Rightarrow> hash \<Rightarrow> perr + PovTxLookup" where
  "GetPovTxLookup db txHash =
     (case pv_txl db txHash of
        None \<Rightarrow> Inl ErrPovTxLookupNotFound
      | Some l \<Rightarrow>
          (case GetPovBestHash db (txl_BlockHeight l) of
             Inl _ \<Rightarrow> Inl ErrPovTxLookupNotBest
           | Inr bestHash \<Rightarrow> if bestHash \<noteq> txl_BlockHash l then Inl ErrPovTxLookupNotBest else Inr l))"

definition HasPovTxLookup :: "pov_db \<Rightarrow> hash \<Rightarrow> bool" where
  "HasPovTxLookup db txHash =
     (case pv_txl db txHash of
        None \<Rightarrow> False
      | Some l \<Rightarrow> (case GetPovBestHash db (txl_BlockHeight l) of
                     Inl _ \<Rightarrow> False | Inr bestHash \<Rightarrow> bestHash = txl_BlockHash l))"

definition GetPovBlockByHeightAndHash :: "pov_db \<Rightarrow> u64 \<Rightarrow> hash \<Rightarrow> perr + PovBlock" where
  "GetPovBlockByHeightAndHash db height hash =
     (case GetPovHeader db height hash of
        Inl e \<Rightarrow> Inl e
      | Inr header \<Rightarrow> (case GetPovBody db height hash of
                         Inl e \<Rightarrow> Inl e
                       | Inr body \<Rightarrow> Inr \<lparr>pb_Header = header, pb_Txs = body\<rparr>))"

definition GetPovBlockByHeight :: "pov_db \<Rightarrow> u64 \<Rightarrow> perr + PovBlock" where
  "GetPovBlockByHeight db height =
     (case GetPovBestHash db height of Inl e \<Rightarrow> Inl e | Inr hash \<Rightarrow> GetPovBlockByHeightAndHash db height hash)"

definition GetPovBlockByHash :: "pov_db \<Rightarrow> hash \<Rightarrow> perr + PovBlock" where
  "GetPovBlockByHash db hash =
     (case GetPovHeight db hash of Inl e \<Rightarrow> Inl e | Inr height \<Rightarrow> GetPovBlockByHeightAndHash db height hash)"

definition GetPovHeaderByHeight :: "pov_db \<Rightarrow> u64 \<Rightarrow> perr + PovHeader" where
  "GetPovHeaderByHeight db height =
     (case GetPovBestHash db height of Inl e \<Rightarrow> Inl e | Inr hash \<Rightarrow> GetPovHeader db height hash)"

definition GetPovHeaderByHash :: "pov_db \<Rightarrow> hash \<Rightarrow> perr + PovHeader" where
  "GetPovHeaderByHash db hash =
     (case GetPovHeight db hash of Inl e \<Rightarrow> Inl e | Inr height \<Rightarrow> GetPovHeader db height hash)"

definition GetLatestPovBestHash :: "pov_db \<Rightarrow> perr + hash" where
  "GetLatestPovBestHash db =
     (case GetPovLatestHeight db of
        Inl e \<Rightarrow> Inl e
      | Inr latestHeight \<Rightarrow>
          (case GetPovBestHash db latestHeight of
             Inl e \<Rightarrow> Inl e
           | Inr latestHash \<Rightarrow> if latestHash = ZeroHash then Inl ErrPovOther else Inr latestHash))"

definition GetLatestPovHeader :: "pov_db \<Rightarrow> perr + PovHeader" where
  "GetLatestPovHeader db =
     (case GetLatestPovBestHash db of
        Inl e \<Rightarrow> Inl e
      | Inr latestHash \<Rightarrow> (case GetPovHeight db latestHash of
                             Inl e \<Rightarrow> Inl e | Inr height \<Rightarrow> GetPovHeader db height latestHash))"

definition GetLatestPovBlock :: "pov_db \<Rightarrow> perr + PovBlock" where
  "GetLatestPovBlock db =
     (case GetLatestPovBestHash db of Inl e \<Rightarrow> Inl e | Inr latestHash \<Rightarrow> GetPovBlockByHash db latestHash)"

definition HasPovBlock :: "pov_db \<Rightarrow> u64 \<Rightarrow> hash \<Rightarrow> bool" where
  "HasPovBlock db height hash \<longleftrightarrow> HasPovHeader db height hash \<and> HasPovBody db height hash"

lemmas pov_reads = GetPovHeader_def HasPovHeader_def GetPovBody_def HasPovBody_def GetPovHeight_def GetPovTD_def
  GetPovBestHash_def GetPovTxlScanCursor_def GetPovLatestHeight_def GetPovBlockByHeightAndHash_def HasPovBlock_def

text \<open>A lookup is found exactly when its block is on the best chain.\<close>

lemma HasPovTxLookup_iff: "HasPovTxLookup db t \<longleftrightarrow> (\<exists>l. GetPovTxLookup db t = Inr l)"
  by (auto simp: HasPovTxLookup_def GetPovTxLookup_def split: option.splits sum.splits)

text \<open>The block that a reader gets back from the tables.\<close>

definition Block_stored :: "PovBlock \<Rightarrow> PovBlock" where
  "Block_stored b = b\<lparr>pb_Txs := map Tx_stored (pb_Txs b)\<rparr>"

lemma Block_stored_simps [simp]:
  "pb_Header (Block_stored b) = pb_Header b" "pb_Txs (Block_stored b) = map Tx_stored (pb_Txs b)"
  by (simp_all add: Block_stored_def)

lemma Tx_stored_simps [simp]: "pt_Hash (Tx_stored t) = pt_Hash t" "Tx_stored (Tx_stored t) = Tx_stored t"
  by (simp_all add: Tx_stored_def)

lemma Block_stored_idem [simp]: "Block_stored (Block_stored b) = Block_stored b"
  by (simp add: Block_stored_def)

end
