(* ===== verification/Pov_State.thy ===== *)
theory Pov_State
  imports Trie_Canon Contracts Pov_Store
begin

text \<open>The state behind the proof-of-work chain: the states of accounts, representatives and contracts
  (\<open>common/types/state_pov.go\<close>), the database over the state tries (\<open>common/statedb/pov_statedb.go\<close>) and the
  transition of a block (\<open>consensus/pov/pov_state.go\<close>). The generated message pack code enters as \<open>serde\<close>
  records. The order in which Go ranges over a map is not fixed: every range takes its order from an
  \<open>iteration\<close>. Reading fills the caches with what the trie holds, which no later read can tell apart; this is left
  out. What a contract does to its own state is a list of values it sets. The result \<open>None\<close> is a panic.\<close>

section \<open>States\<close>

record PovTokenState =
  pts_Type :: hash
  pts_Hash :: hash
  pts_Representative :: address
  pts_Balance :: int

record PovAccountState =
  pas_Account :: address
  pas_Balance :: int
  pas_Vote :: int
  pas_Network :: int
  pas_Storage :: int
  pas_Oracle :: int
  pas_TokenStates :: "PovTokenState list"

record PovRepState =
  prs_Account :: address
  prs_Balance :: int
  prs_Vote :: int
  prs_Network :: int
  prs_Storage :: int
  prs_Oracle :: int
  prs_Total :: int
  prs_Status :: u32
  prs_Height :: u64

record PovContractState =
  pcs_StateHash :: hash
  pcs_CodeHash :: hash

definition NewPovAccountState :: PovAccountState where
  "NewPovAccountState = \<lparr>pas_Account = 0, pas_Balance = 0, pas_Vote = 0, pas_Network = 0, pas_Storage = 0,
     pas_Oracle = 0, pas_TokenStates = []\<rparr>"

definition NewPovRepState :: PovRepState where
  "NewPovRepState = \<lparr>prs_Account = 0, prs_Balance = 0, prs_Vote = 0, prs_Network = 0, prs_Storage = 0,
     prs_Oracle = 0, prs_Total = 0, prs_Status = 0, prs_Height = 0\<rparr>"

definition NewPovContractState :: PovContractState where
  "NewPovContractState = \<lparr>pcs_StateHash = 0, pcs_CodeHash = 0\<rparr>"

definition GetTokenState :: "PovAccountState \<Rightarrow> hash \<Rightarrow> PovTokenState option" where
  "GetTokenState s token = find (\<lambda>ts. pts_Type ts = token) (pas_TokenStates s)"

definition PovAccountState_TotalBalance :: "PovAccountState \<Rightarrow> int" where
  "PovAccountState_TotalBalance s =
     Balance_Add (Balance_Add (Balance_Add (Balance_Add (pas_Balance s) (pas_Vote s)) (pas_Storage s)) (pas_Network s)) (pas_Oracle s)"

definition CalcTotal :: "PovRepState \<Rightarrow> int" where
  "CalcTotal s =
     Balance_Add (Balance_Add (Balance_Add (Balance_Add (prs_Balance s) (prs_Vote s)) (prs_Network s)) (prs_Oracle s)) (prs_Storage s)"

section \<open>The state database\<close>

record 'a serde =
  Ser :: "'a \<Rightarrow> bytes"
  Des :: "bytes \<Rightarrow> 'a option"

record state_env =
  se_H :: "bytes \<Rightarrow> hash"
  se_codec :: codec
  se_fuel :: nat
  se_db :: kv
  se_as :: "PovAccountState serde"
  se_rs :: "PovRepState serde"
  se_cs :: "PovContractState serde"

type_synonym trie = "trie_node \<times> refs"

text \<open>A cached value may be nil.\<close>

record PovContractStateDB =
  cd_CS :: PovContractState
  cd_dirty :: bool
  cd_curTrie :: trie
  cd_kvCache :: "bytes \<rightharpoonup> bytes option"
  cd_kvDirty :: "bytes list"

record PovGlobalStateDB =
  gs_prevTrie :: "trie_node option"
  gs_curTrie :: trie
  gs_kvCache :: "bytes \<rightharpoonup> bytes option"
  gs_kvDirty :: "bytes list"
  gs_asCache :: "address \<rightharpoonup> PovAccountState"
  gs_asDirty :: "address list"
  gs_rsCache :: "address \<rightharpoonup> PovRepState"
  gs_rsDirty :: "address list"
  gs_allCSDBs :: "(address \<times> PovContractStateDB) list"

type_synonym 'a panics = "(perr + 'a) option"

definition bindP :: "'a panics \<Rightarrow> ('a \<Rightarrow> 'b panics) \<Rightarrow> 'b panics" where
  "bindP m f = (case m of None \<Rightarrow> None | Some (Inl e) \<Rightarrow> Some (Inl e) | Some (Inr x) \<Rightarrow> f x)"

lemma bindP_simps [simp]: "bindP None f = None" "bindP (Some (Inl e)) f = Some (Inl e)" "bindP (Some (Inr x)) f = f x"
  by (simp_all add: bindP_def)

lemma bindP_done: "bindP m f = Some (Inr y) \<longleftrightarrow> (\<exists>x. m = Some (Inr x) \<and> f x = Some (Inr y))"
  by (cases m; cases "the m") (auto simp: bindP_def)

definition KeyPrefixTriePovState :: byte where "KeyPrefixTriePovState = 102"
definition PovGlobalStatePrefixAcc :: byte where "PovGlobalStatePrefixAcc = 1"
definition PovGlobalStatePrefixRep :: byte where "PovGlobalStatePrefixRep = 2"
definition PovGlobalStatePrefixCS :: byte where "PovGlobalStatePrefixCS = 201"

definition PovCreateGlobalStateKey :: "byte \<Rightarrow> bytes \<Rightarrow> bytes" where
  "PovCreateGlobalStateKey p rawKey = KeyPrefixTriePovState # p # rawKey"

definition PovCreateAccountStateKey :: "address \<Rightarrow> bytes" where
  "PovCreateAccountStateKey a = PovCreateGlobalStateKey PovGlobalStatePrefixAcc (be_bytes 32 a)"

definition PovCreateRepStateKey :: "address \<Rightarrow> bytes" where
  "PovCreateRepStateKey a = PovCreateGlobalStateKey PovGlobalStatePrefixRep (be_bytes 32 a)"

definition PovCreateContractStateKey :: "address \<Rightarrow> bytes" where
  "PovCreateContractStateKey a = PovCreateGlobalStateKey PovGlobalStatePrefixCS (be_bytes 32 a)"

text \<open>\<open>NewTrie\<close> with a root hash loads what it finds; when the root is missing, the trie is empty, not
  nil. The fuel is a bound on the depth of the tries in the store.\<close>

definition load_trie :: "state_env \<Rightarrow> hash \<Rightarrow> trie_node" where
  "load_trie E h = (case traverseLoad (se_fuel E) (se_codec E) (se_db E) h of None \<Rightarrow> NilNode | Some n \<Rightarrow> n)"

definition NewPovContractStateDB :: "state_env \<Rightarrow> PovContractState \<Rightarrow> PovContractStateDB" where
  "NewPovContractStateDB E cs =
     \<lparr>cd_CS = cs, cd_dirty = False,
      cd_curTrie = (if pcs_StateHash cs = ZeroHash then NilNode else load_trie E (pcs_StateHash cs), []),
      cd_kvCache = Map.empty, cd_kvDirty = []\<rparr>"

definition NewPovGlobalStateDB :: "state_env \<Rightarrow> hash \<Rightarrow> PovGlobalStateDB" where
  "NewPovGlobalStateDB E prevStateHash =
     \<lparr>gs_prevTrie = (if prevStateHash = ZeroHash then None else Some (load_trie E prevStateHash)),
      gs_curTrie = (if prevStateHash = ZeroHash then NilNode else load_trie E prevStateHash, []),
      gs_kvCache = Map.empty, gs_kvDirty = [], gs_asCache = Map.empty, gs_asDirty = [],
      gs_rsCache = Map.empty, gs_rsDirty = [], gs_allCSDBs = []\<rparr>"

definition trie_Hash :: "state_env \<Rightarrow> trie_node \<Rightarrow> hash option" where
  "trie_Hash E n = (if n = NilNode then None else Some (node_Hash (se_H E) n))"

definition hash_or_zero :: "hash option \<Rightarrow> hash" where
  "hash_or_zero h = (case h of None \<Rightarrow> ZeroHash | Some h \<Rightarrow> h)"

definition GetPrevHash :: "state_env \<Rightarrow> PovGlobalStateDB \<Rightarrow> hash" where
  "GetPrevHash E g = (case gs_prevTrie g of None \<Rightarrow> ZeroHash | Some n \<Rightarrow> hash_or_zero (trie_Hash E n))"

definition GetCurHash :: "state_env \<Rightarrow> PovGlobalStateDB \<Rightarrow> hash" where
  "GetCurHash E g = hash_or_zero (trie_Hash E (fst (gs_curTrie g)))"

text \<open>Setting and reading. The dirty sets are lists without repetition.\<close>

definition Global_SetValue :: "bytes \<Rightarrow> bytes option \<Rightarrow> PovGlobalStateDB \<Rightarrow> PovGlobalStateDB" where
  "Global_SetValue key val g =
     g\<lparr>gs_kvCache := (gs_kvCache g)(key \<mapsto> val), gs_kvDirty := List.insert key (gs_kvDirty g)\<rparr>"

definition trie_value :: "state_env \<Rightarrow> trie \<Rightarrow> bytes \<Rightarrow> bytes" where
  "trie_value E t key = (case GetValue (se_db E) t key of None \<Rightarrow> [] | Some v \<Rightarrow> v)"

definition Global_GetValue :: "state_env \<Rightarrow> PovGlobalStateDB \<Rightarrow> bytes \<Rightarrow> perr + bytes option" where
  "Global_GetValue E g key =
     (case gs_kvCache g key of
        Some val \<Rightarrow> Inr val
      | None \<Rightarrow> let val = trie_value E (gs_curTrie g) key in if val = [] then Inl ErrPovKeyNotFound else Inr (Some val))"

definition SetAccountState :: "address \<Rightarrow> PovAccountState \<Rightarrow> PovGlobalStateDB \<Rightarrow> PovGlobalStateDB" where
  "SetAccountState a s g =
     g\<lparr>gs_asCache := (gs_asCache g)(a \<mapsto> s\<lparr>pas_Account := a\<rparr>), gs_asDirty := List.insert a (gs_asDirty g)\<rparr>"

definition decoded :: "'a serde \<Rightarrow> bytes \<Rightarrow> 'a option" where
  "decoded S val = (if val = [] then None else Des S val)"

definition GetAccountState :: "state_env \<Rightarrow> PovGlobalStateDB \<Rightarrow> address \<Rightarrow> PovAccountState option" where
  "GetAccountState E g a =
     (case gs_asCache g a of
        Some s \<Rightarrow> Some s
      | None \<Rightarrow> decoded (se_as E) (trie_value E (gs_curTrie g) (PovCreateAccountStateKey a)))"

definition SetRepState :: "address \<Rightarrow> PovRepState \<Rightarrow> PovGlobalStateDB \<Rightarrow> PovGlobalStateDB" where
  "SetRepState a s g =
     g\<lparr>gs_rsCache := (gs_rsCache g)(a \<mapsto> s\<lparr>prs_Account := a\<rparr>), gs_rsDirty := List.insert a (gs_rsDirty g)\<rparr>"

definition GetRepState :: "state_env \<Rightarrow> PovGlobalStateDB \<Rightarrow> address \<Rightarrow> PovRepState option" where
  "GetRepState E g a =
     (case gs_rsCache g a of
        Some s \<Rightarrow> Some s
      | None \<Rightarrow> decoded (se_rs E) (trie_value E (gs_curTrie g) (PovCreateRepStateKey a)))"

definition GetContractState :: "state_env \<Rightarrow> PovGlobalStateDB \<Rightarrow> address \<Rightarrow> PovContractState option" where
  "GetContractState E g a = decoded (se_cs E) (trie_value E (gs_curTrie g) (PovCreateContractStateKey a))"

definition LookupContractStateDB :: "state_env \<Rightarrow> address \<Rightarrow> PovGlobalStateDB \<Rightarrow> perr + PovContractStateDB \<times> PovGlobalStateDB" where
  "LookupContractStateDB E a g =
     (case map_of (gs_allCSDBs g) a of
        Some c \<Rightarrow> Inr (c, g)
      | None \<Rightarrow>
          let val = trie_value E (gs_curTrie g) (PovCreateContractStateKey a)
          in case (if val = [] then Some NewPovContractState else Des (se_cs E) val) of
               None \<Rightarrow> Inl ErrPovOther
             | Some cs \<Rightarrow>
                 let c = NewPovContractStateDB E cs in Inr (c, g\<lparr>gs_allCSDBs := AList.update a c (gs_allCSDBs g)\<rparr>))"

definition Contract_SetValue :: "bytes \<Rightarrow> bytes option \<Rightarrow> PovContractStateDB \<Rightarrow> PovContractStateDB" where
  "Contract_SetValue key val c =
     c\<lparr>cd_kvCache := (cd_kvCache c)(key \<mapsto> val), cd_kvDirty := List.insert key (cd_kvDirty c)\<rparr>"

definition Contract_GetValue :: "state_env \<Rightarrow> PovContractStateDB \<Rightarrow> bytes \<Rightarrow> perr + bytes option" where
  "Contract_GetValue E c key =
     (case cd_kvCache c key of
        Some val \<Rightarrow> Inr val
      | None \<Rightarrow> let val = trie_value E (cd_curTrie c) key in if val = [] then Inl ErrPovKeyNotFound else Inr (Some val))"

text \<open>The contract databases are shared by pointer: a change of one is a change of the entry.\<close>

definition put_csdb :: "address \<Rightarrow> PovContractStateDB \<Rightarrow> PovGlobalStateDB \<Rightarrow> PovGlobalStateDB" where
  "put_csdb a c g = g\<lparr>gs_allCSDBs := AList.update a c (gs_allCSDBs g)\<rparr>"

definition SetContractValue :: "state_env \<Rightarrow> address \<Rightarrow> bytes \<Rightarrow> bytes option \<Rightarrow> PovGlobalStateDB \<Rightarrow> perr + PovGlobalStateDB" where
  "SetContractValue E a key val g =
     (case LookupContractStateDB E a g of
        Inl e \<Rightarrow> Inl e
      | Inr (c, g') \<Rightarrow> Inr (put_csdb a (Contract_SetValue key val c) g'))"

definition GetContractValue :: "state_env \<Rightarrow> address \<Rightarrow> bytes \<Rightarrow> PovGlobalStateDB \<Rightarrow> perr + bytes option" where
  "GetContractValue E a key g =
     (case LookupContractStateDB E a g of Inl e \<Rightarrow> Inl e | Inr (c, _) \<Rightarrow> Contract_GetValue E c key)"

section \<open>Commits\<close>

record iteration =
  it_kv :: "bytes list \<Rightarrow> bytes list"
  it_as :: "address list \<Rightarrow> address list"
  it_rs :: "address list \<Rightarrow> address list"
  it_cs :: "address list \<Rightarrow> address list"
  it_ckv :: "address \<Rightarrow> bytes list \<Rightarrow> bytes list"

definition put_values :: "state_env \<Rightarrow> (bytes \<rightharpoonup> bytes option) \<Rightarrow> bytes list \<Rightarrow> trie \<Rightarrow> trie" where
  "put_values E cache = fold (\<lambda>key t.
     case cache key of Some (Some val) \<Rightarrow> SetValue (se_H E) key val t | _ \<Rightarrow> t)"

fun put_states :: "state_env \<Rightarrow> 'a serde \<Rightarrow> (address \<Rightarrow> bytes) \<Rightarrow> (address \<rightharpoonup> 'a) \<Rightarrow> address list \<Rightarrow> trie \<Rightarrow> trie panics" where
  "put_states E S key cache [] t = Some (Inr t)"
| "put_states E S key cache (a # as) t =
     (case cache a of
        None \<Rightarrow> put_states E S key cache as t
      | Some s \<Rightarrow>
          if Ser S s = [] then Some (Inl ErrPovOther)
          else put_states E S key cache as (SetValue (se_H E) (key a) (Ser S s) t))"

definition Contract_CommitToTrie :: "state_env \<Rightarrow> (bytes list \<Rightarrow> bytes list) \<Rightarrow> PovContractStateDB \<Rightarrow> PovContractStateDB panics" where
  "Contract_CommitToTrie E ord c =
     (if cd_kvDirty c = [] then Some (Inr c)
      else let t = put_values E (cd_kvCache c) (ord (cd_kvDirty c)) (cd_curTrie c)
           in case trie_Hash E (fst t) of
                None \<Rightarrow> None
              | Some h \<Rightarrow> Some (Inr (c\<lparr>cd_curTrie := t, cd_kvDirty := [],
                  cd_CS := (cd_CS c)\<lparr>pcs_StateHash := h\<rparr>, cd_dirty := True\<rparr>)))"

fun commit_contracts :: "state_env \<Rightarrow> (address \<Rightarrow> bytes list \<Rightarrow> bytes list) \<Rightarrow> address list \<Rightarrow> PovGlobalStateDB \<Rightarrow> PovGlobalStateDB panics" where
  "commit_contracts E ord [] g = Some (Inr g)"
| "commit_contracts E ord (a # as) g =
     (case map_of (gs_allCSDBs g) a of
        None \<Rightarrow> commit_contracts E ord as g
      | Some c \<Rightarrow>
          bindP (Contract_CommitToTrie E (ord a) c) (\<lambda>c'.
            let g' = put_csdb a c' g
            in if \<not> cd_dirty c' then commit_contracts E ord as g'
               else if Ser (se_cs E) (cd_CS c') = [] then Some (Inl ErrPovOther)
               else commit_contracts E ord as
                      (g'\<lparr>gs_curTrie := SetValue (se_H E) (PovCreateContractStateKey a) (Ser (se_cs E) (cd_CS c')) (gs_curTrie g')\<rparr>)))"

definition CommitToTrie :: "state_env \<Rightarrow> iteration \<Rightarrow> PovGlobalStateDB \<Rightarrow> PovGlobalStateDB panics" where
  "CommitToTrie E it g =
     (let t = put_values E (gs_kvCache g) (it_kv it (gs_kvDirty g)) (gs_curTrie g)
      in bindP (put_states E (se_as E) PovCreateAccountStateKey (gs_asCache g) (it_as it (gs_asDirty g)) t) (\<lambda>t.
         bindP (put_states E (se_rs E) PovCreateRepStateKey (gs_rsCache g) (it_rs it (gs_rsDirty g)) t) (\<lambda>t.
         commit_contracts E (it_ckv it) (it_cs it (map fst (gs_allCSDBs g)))
           (g\<lparr>gs_curTrie := t, gs_kvDirty := [], gs_asDirty := [], gs_rsDirty := []\<rparr>))))"

text \<open>\<open>CommitToDB\<close> puts the nodes and values of the contract tries and then of the global one into the batch;
  whether a node is known already is asked of the store, not of the batch.\<close>

definition SaveInTxn :: "state_env \<Rightarrow> trie \<Rightarrow> kv \<Rightarrow> kv" where
  "SaveInTxn E t batch = saveRefValueMap (snd t) (traverseSave (se_codec E) (se_H E) (se_db E) (fst t) batch)"

definition Global_CommitToDB :: "state_env \<Rightarrow> iteration \<Rightarrow> PovGlobalStateDB \<Rightarrow> kv \<Rightarrow> kv" where
  "Global_CommitToDB E it g batch =
     SaveInTxn E (gs_curTrie g)
       (fold (\<lambda>a b. case map_of (gs_allCSDBs g) a of None \<Rightarrow> b | Some c \<Rightarrow> SaveInTxn E (cd_curTrie c) b)
         (it_cs it (map fst (gs_allCSDBs g))) batch)"

section \<open>The transition of a block\<close>

text \<open>The contracts: what a call sets in the contract's state, from the ledger, the state and the blocks.\<close>

record pov_vm =
  vm_DoSendOnPov :: "address \<Rightarrow> bytes \<Rightarrow> ledger \<Rightarrow> vm_context \<Rightarrow> PovContractStateDB \<Rightarrow> u64 \<Rightarrow> state_block \<Rightarrow> perr + (bytes \<times> bytes option) list"
  vm_DoReceiveOnPov :: "address \<Rightarrow> bytes \<Rightarrow> ledger \<Rightarrow> vm_context \<Rightarrow> PovContractStateDB \<Rightarrow> u64 \<Rightarrow> state_block \<Rightarrow> state_block \<Rightarrow>
    perr + (bytes \<times> bytes option) list"

fun set_token :: "PovTokenState \<Rightarrow> PovTokenState list \<Rightarrow> PovTokenState list" where
  "set_token ts [] = [ts]"
| "set_token ts (x # xs) = (if pts_Type x = pts_Type ts then ts # xs else x # set_token ts xs)"

definition new_account_state :: "config \<Rightarrow> state_block \<Rightarrow> hash \<Rightarrow> PovAccountState \<Rightarrow> PovAccountState" where
  "new_account_state F b h s =
     (let ts = \<lparr>pts_Type = sb_Token b, pts_Hash = h, pts_Representative = sb_Representative b, pts_Balance = sb_Balance b\<rparr>;
          s' = (if sb_Token b = cf_ChainToken F
                then s\<lparr>pas_Balance := sb_Balance b, pas_Oracle := StateBlock_GetOracle b, pas_Network := StateBlock_GetNetwork b,
                       pas_Vote := StateBlock_GetVote b, pas_Storage := StateBlock_GetStorage b\<rparr>
                else s)
      in s'\<lparr>pas_TokenStates := set_token ts (pas_TokenStates s')\<rparr>)"

definition updateAccountState :: "config \<Rightarrow> state_block \<Rightarrow> hash \<Rightarrow> PovAccountState option \<Rightarrow> PovGlobalStateDB \<Rightarrow> PovGlobalStateDB \<times> PovAccountState" where
  "updateAccountState F b h oldAs g =
     (let newAs = new_account_state F b h (case oldAs of None \<Rightarrow> NewPovAccountState | Some s \<Rightarrow> s)
      in (SetAccountState (sb_Address b) newAs g, newAs\<lparr>pas_Account := sb_Address b\<rparr>))"

definition minus_account :: "PovAccountState \<Rightarrow> PovRepState \<Rightarrow> PovRepState" where
  "minus_account s rs = rs\<lparr>prs_Balance := Balance_Sub (prs_Balance rs) (pas_Balance s),
     prs_Vote := Balance_Sub (prs_Vote rs) (pas_Vote s), prs_Network := Balance_Sub (prs_Network rs) (pas_Network s),
     prs_Oracle := Balance_Sub (prs_Oracle rs) (pas_Oracle s), prs_Storage := Balance_Sub (prs_Storage rs) (pas_Storage s),
     prs_Total := Balance_Sub (prs_Total rs) (PovAccountState_TotalBalance s)\<rparr>"

text \<open>Adding an amount whose pointer is nil panics.\<close>

definition plus_block :: "state_block \<Rightarrow> PovRepState \<Rightarrow> PovRepState option" where
  "plus_block b rs =
     (case (sb_Vote b, sb_Network b, sb_Oracle b, sb_Storage b) of
        (Some v, Some n, Some r, Some s) \<Rightarrow>
          Some (rs\<lparr>prs_Balance := Balance_Add (prs_Balance rs) (sb_Balance b), prs_Vote := Balance_Add (prs_Vote rs) v,
            prs_Network := Balance_Add (prs_Network rs) n, prs_Oracle := Balance_Add (prs_Oracle rs) r,
            prs_Storage := Balance_Add (prs_Storage rs) s, prs_Total := Balance_Add (prs_Total rs) (StateBlock_TotalBalance b)\<rparr>)
      | _ \<Rightarrow> None)"

definition leave_rep :: "state_env \<Rightarrow> hash \<Rightarrow> PovAccountState option \<Rightarrow> PovGlobalStateDB \<Rightarrow> PovGlobalStateDB" where
  "leave_rep E token oldAs g =
     (case oldAs of
        None \<Rightarrow> g
      | Some s \<Rightarrow>
          (case GetTokenState s token of
             None \<Rightarrow> g
           | Some ts \<Rightarrow>
               if pts_Representative ts = 0 then g
               else case GetRepState E g (pts_Representative ts) of
                      None \<Rightarrow> g
                    | Some rs \<Rightarrow> SetRepState (pts_Representative ts) (minus_account s rs) g))"

definition join_rep :: "state_env \<Rightarrow> state_block \<Rightarrow> PovAccountState \<Rightarrow> PovGlobalStateDB \<Rightarrow> PovGlobalStateDB option" where
  "join_rep E b newAs g =
     (case GetTokenState newAs (sb_Token b) of
        None \<Rightarrow> Some g
      | Some ts \<Rightarrow>
          if pts_Representative ts = 0 then Some g
          else let rs = (case GetRepState E g (pts_Representative ts) of None \<Rightarrow> NewPovRepState | Some rs \<Rightarrow> rs)
               in map_option (\<lambda>rs'. SetRepState (pts_Representative ts) rs' g) (plus_block b rs))"

definition updateRepState :: "state_env \<Rightarrow> config \<Rightarrow> state_block \<Rightarrow> PovAccountState option \<Rightarrow> PovAccountState \<Rightarrow> PovGlobalStateDB \<Rightarrow> PovGlobalStateDB panics" where
  "updateRepState E F b oldAs newAs g =
     (if sb_Token b \<noteq> cf_ChainToken F then Some (Inr g)
      else map_option Inr (join_rep E b newAs (leave_rep E (sb_Token b) oldAs g)))"

definition PovStatusOnline :: u32 where "PovStatusOnline = 1"

definition updateRepOnline :: "state_env \<Rightarrow> u64 \<Rightarrow> state_block \<Rightarrow> PovGlobalStateDB \<Rightarrow> PovGlobalStateDB" where
  "updateRepOnline E height b g =
     (let rs = (case GetRepState E g (sb_Address b) of None \<Rightarrow> NewPovRepState | Some rs \<Rightarrow> rs)
      in SetRepState (sb_Address b) (rs\<lparr>prs_Status := PovStatusOnline, prs_Height := height\<rparr>) g)"

definition call_contract :: "state_env \<Rightarrow> registry \<Rightarrow> ledger \<Rightarrow> address \<Rightarrow> bytes \<Rightarrow> state_block \<Rightarrow>
    (vm_context \<Rightarrow> PovContractStateDB \<Rightarrow> perr + (bytes \<times> bytes option) list) \<Rightarrow> PovGlobalStateDB \<Rightarrow> perr + PovGlobalStateDB" where
  "call_contract E R l ca sel b run g =
     (case GetChainContract R ca sel of
        None \<Rightarrow> Inl ErrPovOther
      | Some cf \<Rightarrow>
          if \<not> d_povState (c_Describe cf) then Inr g
          else case LookupContractStateDB E ca g of
                 Inl e \<Rightarrow> Inl e
               | Inr (c, g') \<Rightarrow>
                   (case NewVMContextWithBlock l b of
                      None \<Rightarrow> Inl ErrPovOther
                    | Some ctx \<Rightarrow>
                        (case run ctx c of
                           Inl e \<Rightarrow> Inl e
                         | Inr kvs \<Rightarrow> Inr (put_csdb ca (fold (\<lambda>(k, v). Contract_SetValue k v) kvs c) g'))))"

definition updateContractState :: "state_env \<Rightarrow> config \<Rightarrow> registry \<Rightarrow> pov_vm \<Rightarrow> ledger \<Rightarrow> u64 \<Rightarrow> state_block \<Rightarrow> PovGlobalStateDB \<Rightarrow> perr + PovGlobalStateDB" where
  "updateContractState E F R V l height b g =
     (if IsGenesisBlock F b then Inr g
      else if sb_Type b = ContractSend then
        (if IsPrivate b \<and> \<not> IsRecipient b then Inr g
         else call_contract E R l (sb_Link b) (GetPayload b) b
                (\<lambda>ctx c. vm_DoSendOnPov V (sb_Link b) (GetPayload b) l ctx c height b) g)
      else if sb_Type b = ContractReward then
        (if IsPrivate b \<and> \<not> IsRecipient b then Inr g
         else case GetStateBlockConfirmed l None (sb_Link b) of
                Inl _ \<Rightarrow> Inl ErrPovOther
              | Inr send \<Rightarrow>
                  if IsPrivate send \<and> \<not> IsRecipient send then Inr g
                  else call_contract E R l (sb_Link send) (GetPayload send) b
                         (\<lambda>ctx c. vm_DoReceiveOnPov V (sb_Link send) (GetPayload send) l ctx c height b send) g)
      else Inr g)"

text \<open>A transaction that reaches the transition has its block.\<close>

definition ApplyTransaction :: "state_env \<Rightarrow> config \<Rightarrow> registry \<Rightarrow> pov_vm \<Rightarrow> ledger \<Rightarrow> u64 \<Rightarrow> state_block \<Rightarrow> hash \<Rightarrow> PovGlobalStateDB \<Rightarrow> PovGlobalStateDB panics" where
  "ApplyTransaction E F R V l height b h g =
     (let oldAs = GetAccountState E g (sb_Address b) in
      case updateAccountState F b h oldAs g of
        (g1, newAs) \<Rightarrow>
          bindP (if sb_Type b \<noteq> Online then updateRepState E F b oldAs newAs g1 else Some (Inr (updateRepOnline E height b g1))) (\<lambda>g2.
          Some (updateContractState E F R V l height b g2)))"

fun apply_all :: "state_env \<Rightarrow> config \<Rightarrow> registry \<Rightarrow> pov_vm \<Rightarrow> ledger \<Rightarrow> u64 \<Rightarrow> PovTransaction list \<Rightarrow> PovGlobalStateDB \<Rightarrow> PovGlobalStateDB panics" where
  "apply_all E F R V l height [] g = Some (Inr g)"
| "apply_all E F R V l height (tx # txs) g =
     (case pt_Block tx of
        None \<Rightarrow> None
      | Some b \<Rightarrow> bindP (ApplyTransaction E F R V l height b (pt_Hash tx) g) (apply_all E F R V l height txs))"

definition TransitStateDB :: "state_env \<Rightarrow> config \<Rightarrow> registry \<Rightarrow> pov_vm \<Rightarrow> ledger \<Rightarrow> iteration \<Rightarrow> u64 \<Rightarrow> PovTransaction list \<Rightarrow> PovGlobalStateDB \<Rightarrow> PovGlobalStateDB panics" where
  "TransitStateDB E F R V l it height txs g = bindP (apply_all E F R V l height txs g) (CommitToTrie E it)"

end
