(* ===== verification/Pov_State_Thms.thy ===== *)
theory Pov_State_Thms
  imports Pov_State Ledger_Example
begin

text \<open>The state behind the chain is a function of the blocks: the state hash of a block does not depend on the order
  in which Go ranges over maps. The shape of a trie is determined by its entries, the entries do not depend on the
  order, and every operation of a transition keeps the databases ready for a commit.\<close>

section \<open>Tries with equal entries\<close>

definition same_trie :: "trie \<Rightarrow> trie \<Rightarrow> bool" where
  "same_trie t u \<longleftrightarrow> sound_trie t \<and> sound_trie u \<and> leaf_at t = leaf_at u"

lemma same_refl [simp]: "same_trie t t \<longleftrightarrow> sound_trie t"
  by (simp add: same_trie_def)

lemma same_fold:
  assumes "same_trie t u" "distinct (map fst kvs)" "mset kvs = mset kvs'"
  shows "same_trie (fold (\<lambda>(k, v). SetValue H k v) kvs t) (fold (\<lambda>(k, v). SetValue H k v) kvs' u)"
proof -
  have wf: "wf_trie (fst t)" "wf_trie (fst u)" using assms(1) by (simp_all add: same_trie_def sound_trie_def)
  have "leaf_at (fold (\<lambda>(k, v). SetValue H k v) kvs t) = leaf_at (fold (\<lambda>(k, v). SetValue H k v) kvs u)"
    using assms(1) by (simp add: trie.look_fold wf same_trie_def)
  also have "\<dots> = leaf_at (fold (\<lambda>(k, v). SetValue H k v) kvs' u)" by (rule trie.look_perm [OF wf(2) assms(2,3)])
  finally show ?thesis using assms(1) by (simp add: same_trie_def sound_fold)
qed

lemma same_hash: "same_trie t u \<Longrightarrow> trie_Hash E (fst t) = trie_Hash E (fst u)"
proof -
  assume s: "same_trie t u"
  have "fst t = NilNode \<longleftrightarrow> fst u = NilNode"
    using s leaf_at_eq [of t u] has_some_key [of "fst t"] has_some_key [of "fst u"] by (auto simp: same_trie_def sound_trie_def wf_trie_def)
  then show ?thesis using s sound_hash [of t u "se_H E"] by (simp add: trie_Hash_def same_trie_def)
qed

lemma fold_not_nil:
  assumes "sound_trie t" "fst t \<noteq> NilNode \<or> kvs \<noteq> []"
  shows "fst (fold (\<lambda>(k, v). SetValue H k v) kvs t) \<noteq> NilNode"
proof -
  have wf: "wf_trie (fst t)" using assms(1) by (simp add: sound_trie_def)
  obtain k x where "leaf_at (fold (\<lambda>(k, v). SetValue H k v) kvs t) k = Some x"
  proof (cases kvs rule: rev_cases)
    case Nil
    then obtain k where "getLeafNode (fst t) k \<noteq> NilNode"
      using assms(2) wf has_some_key [of "fst t"] by (auto simp: wf_trie_def)
    then show ?thesis using that [of k "getLeafNode (fst t) k"] Nil by (simp add: leaf_at_def)
  next
    case (snoc l kv)
    then show ?thesis using that [of "fst kv"] trie.look_ins [OF trie.ok_fold [OF wf, of H l]]
      by (simp add: case_prod_unfold)
  qed
  then show ?thesis by (auto simp: leaf_at_def Let_def split: if_splits)
qed

section \<open>What a commit inserts\<close>

definition dirty_values :: "(bytes \<rightharpoonup> bytes option) \<Rightarrow> bytes list \<Rightarrow> (bytes \<times> bytes) list" where
  "dirty_values cache = List.map_filter (\<lambda>k. map_option (Pair k) (Option.bind (cache k) id))"

definition dirty_states :: "'a serde \<Rightarrow> (address \<Rightarrow> bytes) \<Rightarrow> (address \<rightharpoonup> 'a) \<Rightarrow> address list \<Rightarrow> (bytes \<times> bytes) list" where
  "dirty_states S key cache = List.map_filter (\<lambda>a. map_option (\<lambda>s. (key a, Ser S s)) (cache a))"

lemma map_filter_fst:
  assumes "distinct xs" "inj key" "\<And>x y. f x = Some y \<Longrightarrow> fst y = key x"
  shows "distinct (map fst (List.map_filter f xs))"
proof -
  have "map fst (List.map_filter f xs) = map key (filter (\<lambda>x. f x \<noteq> None) xs)"
    using assms(3) by (auto simp: map_filter_def)
  then show ?thesis using assms(1) inj_on_subset [OF assms(2) subset_UNIV] by (simp add: distinct_map)
qed

lemma map_filter_mset: "mset xs = mset ys \<Longrightarrow> mset (List.map_filter f xs) = mset (List.map_filter f ys)"
  by (simp add: map_filter_def mset_filter)

lemma put_values_fold: "put_values E cache keys t = fold (\<lambda>(k, v). SetValue (se_H E) k v) (dirty_values cache keys) t"
  unfolding put_values_def dirty_values_def
  by (induction keys arbitrary: t) (auto simp: map_filter_simps split: option.split)

lemma put_states_fold:
  assumes "\<And>s. Ser S s \<noteq> []"
  shows "put_states E S key cache as t = Some (Inr (fold (\<lambda>(k, v). SetValue (se_H E) k v) (dirty_states S key cache as) t))"
  unfolding dirty_states_def
  by (induction as arbitrary: t) (simp_all add: assms map_filter_simps split: option.split)

lemma state_key_inj: "inj PovCreateAccountStateKey" "inj PovCreateRepStateKey" "inj PovCreateContractStateKey"
  using be_bytes_inj [where 'a = 256 and n = 32]
  by (auto simp: inj_def PovCreateAccountStateKey_def PovCreateRepStateKey_def PovCreateContractStateKey_def
      PovCreateGlobalStateKey_def)

lemma values_same:
  assumes "same_trie t u" "distinct keys" "mset keys = mset keys'"
  shows "same_trie (put_values E cache keys t) (put_values E cache keys' u)"
proof -
  have "distinct (map fst (dirty_values cache keys))" unfolding dirty_values_def
    by (rule map_filter_fst [OF assms(2), of id]) auto
  moreover have "mset (dirty_values cache keys) = mset (dirty_values cache keys')"
    unfolding dirty_values_def by (rule map_filter_mset [OF assms(3)])
  ultimately show ?thesis unfolding put_values_fold by (rule same_fold [OF assms(1)])
qed

lemma states_same:
  assumes "same_trie t u" "distinct as" "mset as = mset as'" "inj key" "\<And>s. Ser S s \<noteq> []"
  shows "\<exists>t' u'. put_states E S key cache as t = Some (Inr t') \<and> put_states E S key cache as' u = Some (Inr u') \<and> same_trie t' u'"
proof -
  have "distinct (map fst (dirty_states S key cache as))" unfolding dirty_states_def
    by (rule map_filter_fst [OF assms(2,4)]) auto
  moreover have "mset (dirty_states S key cache as) = mset (dirty_states S key cache as')"
    unfolding dirty_states_def by (rule map_filter_mset [OF assms(3)])
  ultimately show ?thesis unfolding put_states_fold [of S, OF assms(5)] using same_fold [OF assms(1)] by blast
qed

section \<open>Contracts\<close>

text \<open>A contract database in use: its trie was built by insertions, and if it has dirty keys, one of them has a
  value, so that the trie is not empty after the commit.\<close>

definition contract_ready :: "PovContractStateDB \<Rightarrow> bool" where
  "contract_ready c \<longleftrightarrow> sound_trie (cd_curTrie c) \<and> distinct (cd_kvDirty c) \<and>
     (cd_kvDirty c \<noteq> [] \<longrightarrow> dirty_values (cd_kvCache c) (cd_kvDirty c) \<noteq> [])"

definition same_contract :: "PovContractStateDB \<Rightarrow> PovContractStateDB \<Rightarrow> bool" where
  "same_contract c d \<longleftrightarrow> same_trie (cd_curTrie c) (cd_curTrie d) \<and> cd_CS c = cd_CS d \<and> cd_dirty c = cd_dirty d \<and>
     cd_kvCache c = cd_kvCache d \<and> cd_kvDirty c = cd_kvDirty d"

lemma contract_commit_same:
  assumes "contract_ready c" "\<And>xs. mset (ord xs) = mset xs" "\<And>xs. mset (ord' xs) = mset xs"
  shows "\<exists>c1 c2. Contract_CommitToTrie E ord c = Some (Inr c1) \<and> Contract_CommitToTrie E ord' c = Some (Inr c2) \<and> same_contract c1 c2 \<and>
    cd_kvDirty c1 = []"
proof (cases "cd_kvDirty c = []")
  case True
  then show ?thesis using assms(1) by (simp add: Contract_CommitToTrie_def same_contract_def contract_ready_def)
next
  case False
  let ?t = "\<lambda>ord. put_values E (cd_kvCache c) (ord (cd_kvDirty c)) (cd_curTrie c)"
  have m: "mset (ord (cd_kvDirty c)) = mset (ord' (cd_kvDirty c))" using assms(2,3) by simp
  have "distinct (ord (cd_kvDirty c))" using assms(1) mset_eq_imp_distinct_iff [OF assms(2)] by (simp add: contract_ready_def)
  then have s: "same_trie (?t ord) (?t ord')" using values_same m assms(1) by (simp add: contract_ready_def)
  have "mset (dirty_values (cd_kvCache c) (ord (cd_kvDirty c))) = mset (dirty_values (cd_kvCache c) (cd_kvDirty c))"
    unfolding dirty_values_def by (rule map_filter_mset [OF assms(2)])
  then have "dirty_values (cd_kvCache c) (ord (cd_kvDirty c)) \<noteq> []" using assms(1) False unfolding contract_ready_def by force
  then have "fst (?t ord) \<noteq> NilNode" unfolding put_values_fold using fold_not_nil assms(1) by (auto simp: contract_ready_def)
  then obtain h where h: "trie_Hash E (fst (?t ord)) = Some h" by (simp add: trie_Hash_def)
  then have h': "trie_Hash E (fst (?t ord')) = Some h" using same_hash [OF s] by simp
  show ?thesis using s False by (simp add: Contract_CommitToTrie_def Let_def h h' same_contract_def)
qed

text \<open>The databases before and after the commit of some of the contracts, in two runs.\<close>

definition contracts_match :: "PovGlobalStateDB \<Rightarrow> PovGlobalStateDB \<Rightarrow> bool" where
  "contracts_match g h \<longleftrightarrow> (\<forall>a. rel_option same_contract (map_of (gs_allCSDBs g) a) (map_of (gs_allCSDBs h) a))"

definition committed :: "state_env \<Rightarrow> (bytes list \<Rightarrow> bytes list) \<Rightarrow> PovContractStateDB \<Rightarrow> PovContractStateDB" where
  "committed E ord c = (case Contract_CommitToTrie E ord c of Some (Inr c') \<Rightarrow> c' | _ \<Rightarrow> c)"

definition contract_entry :: "state_env \<Rightarrow> (address \<Rightarrow> bytes list \<Rightarrow> bytes list) \<Rightarrow> (address \<rightharpoonup> PovContractStateDB) \<Rightarrow> address \<rightharpoonup> bytes \<times> bytes" where
  "contract_entry E ord m a =
     (case m a of
        None \<Rightarrow> None
      | Some c \<Rightarrow> let c' = committed E (ord a) c in
          if cd_dirty c' then Some (PovCreateContractStateKey a, Ser (se_cs E) (cd_CS c')) else None)"

lemma map_filter_cong: "(\<And>x. x \<in> set xs \<Longrightarrow> f x = g x) \<Longrightarrow> List.map_filter f xs = List.map_filter g xs"
  by (induction xs) (simp_all add: map_filter_simps split: option.split)

lemma map_of_put_csdb: "map_of (gs_allCSDBs (put_csdb a c g)) = (map_of (gs_allCSDBs g))(a \<mapsto> c)"
  by (simp add: put_csdb_def update_conv')

lemma committed_ready:
  assumes "contract_ready c" "\<And>xs. mset (ord xs) = mset xs"
  shows "Contract_CommitToTrie E ord c = Some (Inr (committed E ord c))" "contract_ready (committed E ord c)"
  using contract_commit_same [OF assms assms(2), of E]
  by (auto simp: committed_def contract_ready_def same_contract_def same_trie_def)

definition commit_one :: "state_env \<Rightarrow> (address \<Rightarrow> bytes list \<Rightarrow> bytes list) \<Rightarrow> address \<Rightarrow> PovContractStateDB \<Rightarrow> PovGlobalStateDB \<Rightarrow> PovGlobalStateDB" where
  "commit_one E ord a c g = (let c' = committed E (ord a) c; g' = put_csdb a c' g in
     if cd_dirty c' then g'\<lparr>gs_curTrie := SetValue (se_H E) (PovCreateContractStateKey a) (Ser (se_cs E) (cd_CS c')) (gs_curTrie g')\<rparr> else g')"

lemma commit_one_fields:
  "map_of (gs_allCSDBs (commit_one E ord a c g)) = (map_of (gs_allCSDBs g))(a \<mapsto> committed E (ord a) c)"
  "gs_asCache (commit_one E ord a c g) = gs_asCache g" "gs_rsCache (commit_one E ord a c g) = gs_rsCache g"
  using map_of_put_csdb by (simp_all add: commit_one_def Let_def put_csdb_def)

lemma commit_contracts_step:
  assumes "map_of (gs_allCSDBs g) a = Some c" "contract_ready c" "\<And>s. Ser (se_cs E) s \<noteq> []" "\<And>a xs. mset (ord a xs) = mset xs"
  shows "commit_contracts E ord (a # as) g = commit_contracts E ord as (commit_one E ord a c g)"
    and "gs_curTrie (commit_one E ord a c g) = fold (\<lambda>(k, v). SetValue (se_H E) k v)
      (List.map_filter (contract_entry E ord (map_of (gs_allCSDBs g))) [a]) (gs_curTrie g)"
  by (simp_all add: assms(1,3) committed_ready(1) [OF assms(2,4)] commit_one_def Let_def contract_entry_def map_filter_simps put_csdb_def)

lemma map_filter_append: "List.map_filter f (x # xs) = List.map_filter f [x] @ List.map_filter f xs"
  by (simp add: map_filter_simps split: option.split)

lemma commit_contracts_fold:
  assumes "distinct as" "\<And>s. Ser (se_cs E) s \<noteq> []" "\<And>a xs. mset (ord a xs) = mset xs"
    "\<And>a c. map_of (gs_allCSDBs g) a = Some c \<Longrightarrow> contract_ready c"
  shows "\<exists>g'. commit_contracts E ord as g = Some (Inr g') \<and>
    gs_curTrie g' = fold (\<lambda>(k, v). SetValue (se_H E) k v)
      (List.map_filter (contract_entry E ord (map_of (gs_allCSDBs g))) as) (gs_curTrie g) \<and>
    (\<forall>a. map_of (gs_allCSDBs g') a =
       (if a \<in> set as then map_option (committed E (ord a)) (map_of (gs_allCSDBs g) a) else map_of (gs_allCSDBs g) a)) \<and>
    gs_asCache g' = gs_asCache g \<and> gs_rsCache g' = gs_rsCache g"
  using assms(1,4)
proof (induction as arbitrary: g)
  case Nil
  then show ?case by (simp add: map_filter_simps)
next
  case (Cons a as)
  show ?case
  proof (cases "map_of (gs_allCSDBs g) a")
    case None
    then show ?thesis using Cons.IH [of g] Cons.prems by (auto simp: map_filter_simps contract_entry_def)
  next
    case (Some c)
    let ?g = "commit_one E ord a c g" and ?e = "\<lambda>g. contract_entry E ord (map_of (gs_allCSDBs g))"
    have r: "contract_ready c" using Cons.prems(2) Some by blast
    note step = commit_contracts_step [OF Some r assms(2,3)]
    have r': "contract_ready d" if "map_of (gs_allCSDBs ?g) b = Some d" for b d
      using that Cons.prems(2) committed_ready(2) [OF r assms(3)] by (auto simp: commit_one_fields split: if_splits)
    have m: "List.map_filter (?e ?g) as = List.map_filter (?e g) as"
      using Cons.prems(1) by (intro map_filter_cong) (auto simp: contract_entry_def commit_one_fields)
    have d: "distinct as" using Cons.prems(1) by simp
    show ?thesis unfolding step(1) map_filter_append [of _ a as] fold_append comp_apply step(2) [symmetric]
      by (rule ex_forward [OF Cons.IH [of ?g, OF d r', unfolded m]]) (use Cons.prems(1) Some in \<open>auto simp: commit_one_fields\<close>)
  qed
qed

text \<open>Two orders of the commits.\<close>

lemma commit_contracts_same:
  assumes "distinct as" "mset as = mset as'" "\<And>s. Ser (se_cs E) s \<noteq> []"
    and "\<And>a xs. mset (ord a xs) = mset xs" "\<And>a xs. mset (ord' a xs) = mset xs"
    and "\<And>a c. map_of (gs_allCSDBs g) a = Some c \<Longrightarrow> contract_ready c"
    and "gs_allCSDBs h = gs_allCSDBs g" "same_trie (gs_curTrie g) (gs_curTrie h)"
  shows "\<exists>g' h'. commit_contracts E ord as g = Some (Inr g') \<and> commit_contracts E ord' as' h = Some (Inr h') \<and>
    same_trie (gs_curTrie g') (gs_curTrie h') \<and> contracts_match g' h'"
proof -
  let ?m = "map_of (gs_allCSDBs g)"
  have d': "distinct as'" and st: "set as' = set as"
    using assms(1,2) mset_eq_imp_distinct_iff [OF assms(2)] mset_eq_setD [OF assms(2)] by simp_all
  have sc: "same_contract (committed E (ord a) c) (committed E (ord' a) c)" if "?m a = Some c" for a c
    using contract_commit_same [OF assms(6) [OF that] assms(4) [of a] assms(5) [of a], of E] by (auto simp: committed_def)
  have e: "contract_entry E ord ?m = contract_entry E ord' ?m"
    using sc by (auto simp: fun_eq_iff contract_entry_def same_contract_def Let_def split: option.split)
  obtain g' where g': "commit_contracts E ord as g = Some (Inr g')"
    "gs_curTrie g' = fold (\<lambda>(k, v). SetValue (se_H E) k v) (List.map_filter (contract_entry E ord ?m) as) (gs_curTrie g)"
    "\<And>a. map_of (gs_allCSDBs g') a = (if a \<in> set as then map_option (committed E (ord a)) (?m a) else ?m a)"
    using commit_contracts_fold [of as E ord g, OF assms(1,3,4)] assms(6) by blast
  obtain h' where h': "commit_contracts E ord' as' h = Some (Inr h')"
    "gs_curTrie h' = fold (\<lambda>(k, v). SetValue (se_H E) k v) (List.map_filter (contract_entry E ord' ?m) as') (gs_curTrie h)"
    "\<And>a. map_of (gs_allCSDBs h') a = (if a \<in> set as' then map_option (committed E (ord' a)) (?m a) else ?m a)"
    using commit_contracts_fold [of as' E ord' h, OF d' assms(3,5)] assms(6) unfolding assms(7) by blast
  have "distinct (map fst (List.map_filter (contract_entry E ord ?m) as))"
    by (rule map_filter_fst [OF assms(1) state_key_inj(3)]) (auto simp: contract_entry_def Let_def split: option.splits if_splits)
  then have "same_trie (gs_curTrie g') (gs_curTrie h')" unfolding g'(2) h'(2) e [symmetric]
    by (rule same_fold [OF assms(8) _ map_filter_mset [OF assms(2)]])
  moreover have "same_contract c c" if "?m a = Some c" for a c
    using assms(6) [OF that] by (simp add: same_contract_def contract_ready_def)
  then have "contracts_match g' h'" using sc unfolding contracts_match_def g'(3) h'(3) st
    by (auto simp: option.rel_map intro!: option.rel_refl_strong)
  ultimately show ?thesis using g'(1) h'(1) by blast
qed

section \<open>The order of the commit\<close>

definition orders :: "iteration \<Rightarrow> bool" where
  "orders it \<longleftrightarrow> (\<forall>xs. mset (it_kv it xs) = mset xs) \<and> (\<forall>xs. mset (it_as it xs) = mset xs) \<and> (\<forall>xs. mset (it_rs it xs) = mset xs) \<and>
     (\<forall>xs. mset (it_cs it xs) = mset xs) \<and> (\<forall>a xs. mset (it_ckv it a xs) = mset xs)"

definition serde_ok :: "state_env \<Rightarrow> bool" where
  "serde_ok E \<longleftrightarrow> (\<forall>s. Ser (se_as E) s \<noteq> []) \<and> (\<forall>s. Ser (se_rs E) s \<noteq> []) \<and> (\<forall>s. Ser (se_cs E) s \<noteq> [])"

definition state_ready :: "PovGlobalStateDB \<Rightarrow> bool" where
  "state_ready g \<longleftrightarrow> sound_trie (gs_curTrie g) \<and> distinct (gs_kvDirty g) \<and> distinct (gs_asDirty g) \<and> distinct (gs_rsDirty g) \<and>
     distinct (map fst (gs_allCSDBs g)) \<and> (\<forall>c \<in> snd ` set (gs_allCSDBs g). contract_ready c)"

lemma perm_distinct: "mset ys = mset xs \<Longrightarrow> distinct xs \<Longrightarrow> distinct ys"
  using mset_eq_imp_distinct_iff by blast

lemma commit_same:
  assumes "serde_ok E" "orders it" "orders it'" "state_ready g"
  shows "\<exists>s s'. CommitToTrie E it g = Some (Inr s) \<and> CommitToTrie E it' g = Some (Inr s') \<and>
    same_trie (gs_curTrie s) (gs_curTrie s') \<and> contracts_match s s'"
proof -
  note o = assms(2,3) [unfolded orders_def] and r = assms(4) [unfolded state_ready_def] and n = assms(1) [unfolded serde_ok_def]
  let ?t = "\<lambda>it. put_values E (gs_kvCache g) (it_kv it (gs_kvDirty g)) (gs_curTrie g)"
  let ?as = "\<lambda>it. it_as it (gs_asDirty g)" and ?rs = "\<lambda>it. it_rs it (gs_rsDirty g)" and ?cs = "\<lambda>it. it_cs it (map fst (gs_allCSDBs g))"
  have d: "distinct (it_kv it (gs_kvDirty g))" "distinct (?as it)" "distinct (?rs it)" "distinct (?cs it)"
    using o r by (auto intro: perm_distinct)
  have m: "mset (it_kv it (gs_kvDirty g)) = mset (it_kv it' (gs_kvDirty g))" "mset (?as it) = mset (?as it')"
    "mset (?rs it) = mset (?rs it')" "mset (?cs it) = mset (?cs it')" using o by simp_all
  have "same_trie (?t it) (?t it')" using r by (intro values_same [OF _ d(1) m(1)]) simp
  then obtain t1 u1 where 1: "put_states E (se_as E) PovCreateAccountStateKey (gs_asCache g) (?as it) (?t it) = Some (Inr t1)"
    "put_states E (se_as E) PovCreateAccountStateKey (gs_asCache g) (?as it') (?t it') = Some (Inr u1)" "same_trie t1 u1"
    using states_same [OF _ d(2) m(2) state_key_inj(1), of "?t it" "?t it'" "se_as E" E "gs_asCache g"] n by blast
  then obtain t2 u2 where 2: "put_states E (se_rs E) PovCreateRepStateKey (gs_rsCache g) (?rs it) t1 = Some (Inr t2)"
    "put_states E (se_rs E) PovCreateRepStateKey (gs_rsCache g) (?rs it') u1 = Some (Inr u2)" "same_trie t2 u2"
    using states_same [OF _ d(3) m(3) state_key_inj(2), of t1 u1 "se_rs E" E "gs_rsCache g"] n by blast
  let ?g = "\<lambda>t. g\<lparr>gs_curTrie := t, gs_kvDirty := [], gs_asDirty := [], gs_rsDirty := []\<rparr>"
  have "\<exists>s s'. commit_contracts E (it_ckv it) (?cs it) (?g t2) = Some (Inr s) \<and> commit_contracts E (it_ckv it') (?cs it') (?g u2) = Some (Inr s') \<and>
    same_trie (gs_curTrie s) (gs_curTrie s') \<and> contracts_match s s'"
    using o r n 2(3) by (intro commit_contracts_same [OF d(4) m(4)]) (auto dest!: map_of_SomeD)
  then show ?thesis by (simp add: CommitToTrie_def Let_def 1 2)
qed

section \<open>The transition keeps the state ready\<close>

text \<open>The tries in the store were built by insertions, and contracts never set nil.\<close>

definition loads_sound :: "state_env \<Rightarrow> bool" where
  "loads_sound E \<longleftrightarrow> (\<forall>h. sound_trie (load_trie E h, []))"

definition sets_values :: "pov_vm \<Rightarrow> bool" where
  "sets_values V \<longleftrightarrow>
     (\<forall>ca sel l ctx c height b kvs. vm_DoSendOnPov V ca sel l ctx c height b = Inr kvs \<longrightarrow> None \<notin> snd ` set kvs) \<and>
     (\<forall>ca sel l ctx c height b send kvs. vm_DoReceiveOnPov V ca sel l ctx c height b send = Inr kvs \<longrightarrow> None \<notin> snd ` set kvs)"

lemma ready_states [simp]:
  "state_ready (SetAccountState a s g) \<longleftrightarrow> state_ready g" "state_ready (SetRepState a r g) \<longleftrightarrow> state_ready g"
  by (simp_all add: state_ready_def SetAccountState_def SetRepState_def)

lemma ready_contract_set: "contract_ready c \<Longrightarrow> contract_ready (Contract_SetValue k (Some v) c)"
proof -
  assume "contract_ready c"
  moreover have "dirty_values ((cd_kvCache c)(k \<mapsto> Some v)) (List.insert k ks) \<noteq> []" for ks
    unfolding dirty_values_def by (induction ks) (auto simp: map_filter_simps List.insert_def split: option.split)
  ultimately show ?thesis by (simp add: contract_ready_def Contract_SetValue_def)
qed

lemma ready_contract_sets: "contract_ready c \<Longrightarrow> None \<notin> snd ` set kvs \<Longrightarrow> contract_ready (fold (\<lambda>(k, v). Contract_SetValue k v) kvs c)"
proof (induction kvs arbitrary: c)
  case (Cons kv kvs)
  then obtain v where "snd kv = Some v" by (cases "snd kv") auto
  then show ?case using Cons ready_contract_set by (auto simp: case_prod_unfold)
qed simp

lemma update_subset: "set (AList.update k v al) \<subseteq> insert (k, v) (set al)"
  by (induction al) auto

lemma ready_put: "state_ready g \<Longrightarrow> contract_ready c \<Longrightarrow> state_ready (put_csdb a c g)"
  using update_subset [of a c "gs_allCSDBs g"]
  by (auto simp: state_ready_def put_csdb_def distinct_update)

lemma ready_new: "loads_sound E \<Longrightarrow> contract_ready (NewPovContractStateDB E cs)"
  by (simp add: contract_ready_def NewPovContractStateDB_def loads_sound_def)

lemma ready_lookup:
  assumes "loads_sound E" "state_ready g" "LookupContractStateDB E a g = Inr (c, g')"
  shows "contract_ready c \<and> state_ready g'"
proof (cases "map_of (gs_allCSDBs g) a")
  case None
  then obtain cs where "c = NewPovContractStateDB E cs" "g' = put_csdb a c g"
    using assms(3) by (auto simp: LookupContractStateDB_def put_csdb_def Let_def split: option.splits if_splits)
  then show ?thesis using ready_new [OF assms(1)] ready_put [OF assms(2)] by simp
next
  case (Some d)
  then have "d = c" "g' = g" using assms(3) by (simp_all add: LookupContractStateDB_def)
  then show ?thesis using assms(2) map_of_SomeD [OF Some] by (force simp: state_ready_def)
qed

lemma ready_call:
  assumes "loads_sound E" "state_ready g" "call_contract E R l ca sel b run g = Inr g'"
    "\<And>ctx c kvs. run ctx c = Inr kvs \<Longrightarrow> None \<notin> snd ` set kvs"
  shows "state_ready g'"
proof (cases "g' = g")
  case False
  then obtain c h ctx kvs where c: "LookupContractStateDB E ca g = Inr (c, h)" "run ctx c = Inr kvs"
    "g' = put_csdb ca (fold (\<lambda>(k, v). Contract_SetValue k v) kvs c) h"
    using assms(3) by (auto simp: call_contract_def split: option.splits sum.splits if_splits prod.splits)
  show ?thesis using ready_lookup [OF assms(1,2) c(1)] ready_put ready_contract_sets assms(4) [OF c(2)] c(3) by auto
qed (use assms(2) in simp)

lemma ready_apply:
  assumes "loads_sound E" "sets_values V" "state_ready g" "ApplyTransaction E F R V l height b h g = Some (Inr g')"
  shows "state_ready g'"
proof -
  obtain g1 newAs where u: "updateAccountState F b h (GetAccountState E g (sb_Address b)) g = (g1, newAs)" by fastforce
  have 1: "state_ready g1" using u assms(3) by (auto simp: updateAccountState_def Let_def)
  then have l: "state_ready (leave_rep E token s g1)" for token s by (simp add: leave_rep_def split: option.split)
  have j: "state_ready k'" if "state_ready k" "join_rep E b s k = Some k'" for s k k'
    using that by (auto simp: join_rep_def Let_def split: option.splits if_splits)
  obtain g2 where m: "(if sb_Type b \<noteq> Online then updateRepState E F b (GetAccountState E g (sb_Address b)) newAs g1
      else Some (Inr (updateRepOnline E height b g1))) = Some (Inr g2)" and u2: "updateContractState E F R V l height b g2 = Inr g'"
    using assms(4) unfolding ApplyTransaction_def u Let_def by (auto simp: bindP_done simp del: if_splits)
  have ready2: "state_ready g2" using m 1 j [OF l]
    by (auto simp: updateRepState_def updateRepOnline_def Let_def split: if_splits)
  show ?thesis
  proof (cases "g' = g2")
    case False
    then consider "call_contract E R l (sb_Link b) (GetPayload b) b (\<lambda>ctx c. vm_DoSendOnPov V (sb_Link b) (GetPayload b) l ctx c height b) g2 = Inr g'"
      | send where "call_contract E R l (sb_Link send) (GetPayload send) b
          (\<lambda>ctx c. vm_DoReceiveOnPov V (sb_Link send) (GetPayload send) l ctx c height b send) g2 = Inr g'"
      using u2 by (auto simp: updateContractState_def split: if_splits sum.splits)
    then show ?thesis
    proof cases
      case 1
      show ?thesis by (rule ready_call [OF assms(1) ready2 1]) (use assms(2) in \<open>unfold sets_values_def, blast\<close>)
    next
      case (2 send)
      show ?thesis by (rule ready_call [OF assms(1) ready2 2]) (use assms(2) in \<open>unfold sets_values_def, blast\<close>)
    qed
  qed (use ready2 in simp)
qed

lemma ready_all:
  assumes "loads_sound E" "sets_values V" "state_ready g" "apply_all E F R V l height txs g = Some (Inr g')"
  shows "state_ready g'"
  using assms(3,4)
proof (induction txs arbitrary: g)
  case (Cons tx txs)
  obtain b k where "ApplyTransaction E F R V l height b (pt_Hash tx) g = Some (Inr k)" "apply_all E F R V l height txs k = Some (Inr g')"
    using Cons.prems(2) by (cases "pt_Block tx") (simp_all add: bindP_done, blast)
  then show ?case using Cons.IH ready_apply [OF assms(1,2) Cons.prems(1)] by blast
qed simp

text \<open>C32: the order of the commit does not matter. The changed values, accounts, representatives and contracts of a state are
  put into its tries in the order in which Go ranges over its maps, which differs from run to run and from node to
  node. For a state whose tries have the form insertions give them, whose lists of changes have no repetitions and
  whose changed contracts have set at least one value, the commit succeeds and reaches the same state hash and the same
  contract states whatever the orders. The bytes of the values the contracts have set are given.\<close>

theorem pov_state_order_free:
  assumes "serde_ok E" "state_ready g" "orders it" "orders it'"
  shows "\<exists>s s'. CommitToTrie E it g = Some (Inr s) \<and> CommitToTrie E it' g = Some (Inr s') \<and> GetCurHash E s = GetCurHash E s' \<and>
    (\<forall>a. map_option cd_CS (map_of (gs_allCSDBs s) a) = map_option cd_CS (map_of (gs_allCSDBs s') a))"
proof -
  obtain s s' where s: "CommitToTrie E it g = Some (Inr s)" "CommitToTrie E it' g = Some (Inr s')"
    "same_trie (gs_curTrie s) (gs_curTrie s')" "contracts_match s s'"
    using commit_same [OF assms(1,3,4,2)] by blast
  have "map_option cd_CS (map_of (gs_allCSDBs s) a) = map_option cd_CS (map_of (gs_allCSDBs s') a)" for a
    using s(4) unfolding contracts_match_def by (auto simp: option.rel_sel same_contract_def option.map_sel dest!: spec [of _ a])
  then show ?thesis using s(1,2) same_hash [OF s(3)] by (simp add: GetCurHash_def)
qed

text \<open>The example: account 100 sends to account 101, which opens its chain, on top of an empty state.\<close>

definition ex_senv :: state_env where
  "ex_senv = \<lparr>se_H = ex_H, se_codec = ex_codec, se_fuel = 9, se_db = Map.empty,
     se_as = \<lparr>Ser = (\<lambda>s. [of_int (pas_Balance s), ucast (pas_Account s)]), Des = Map.empty\<rparr>,
     se_rs = \<lparr>Ser = (\<lambda>s. [of_int (prs_Balance s), ucast (prs_Account s)]), Des = Map.empty\<rparr>,
     se_cs = \<lparr>Ser = (\<lambda>s. be_bytes 32 (pcs_StateHash s)), Des = Map.empty\<rparr>\<rparr>"

definition ex_vm :: pov_vm where
  "ex_vm = \<lparr>vm_DoSendOnPov = (\<lambda>ca sel l ctx c height b. Inr [(sel, Some [1])]),
     vm_DoReceiveOnPov = (\<lambda>ca sel l ctx c height b send. Inr [(sel, Some [2])])\<rparr>"

definition ex_iteration :: "(bytes list \<Rightarrow> bytes list) \<Rightarrow> (address list \<Rightarrow> address list) \<Rightarrow> iteration" where
  "ex_iteration k a = \<lparr>it_kv = k, it_as = a, it_rs = a, it_cs = a, it_ckv = (\<lambda>_. k)\<rparr>"

definition ex_txs :: "PovTransaction list" where
  "ex_txs = [\<lparr>pt_Hash = 243, pt_CbTx = None, pt_Block = Some ex_send\<rparr>, \<lparr>pt_Hash = 244, pt_CbTx = None, pt_Block = Some ex_open\<rparr>]"

lemma ex_senv_ok: "serde_ok ex_senv" "loads_sound ex_senv" "sets_values ex_vm" "state_ready (NewPovGlobalStateDB ex_senv ZeroHash)"
proof -
  have "traverseLoad 9 ex_codec Map.empty h = Some NilNode" for h by (simp add: getNodeFromDb_def eval_nat_numeral)
  moreover have "be_bytes 32 (w :: 256 word) \<noteq> []" for w by (metis length_be_bytes list.size(3) zero_neq_numeral)
  ultimately show "serde_ok ex_senv" "loads_sound ex_senv" "sets_values ex_vm" "state_ready (NewPovGlobalStateDB ex_senv ZeroHash)"
    by (simp_all add: serde_ok_def loads_sound_def load_trie_def ex_senv_def sets_values_def ex_vm_def state_ready_def NewPovGlobalStateDB_def)
qed

theorem pov_state_order_free_witness:
  "\<exists>g s s'. apply_all ex_senv ex_config ex_registry ex_vm ex_ledger 1 ex_txs (NewPovGlobalStateDB ex_senv ZeroHash) = Some (Inr g) \<and>
     length (gs_asDirty g) = 2 \<and> CommitToTrie ex_senv (ex_iteration id id) g = Some (Inr s) \<and>
     CommitToTrie ex_senv (ex_iteration rev rev) g = Some (Inr s') \<and> GetCurHash ex_senv s = GetCurHash ex_senv s'"
proof -
  have o: "orders (ex_iteration id id)" "orders (ex_iteration rev rev)" by (simp_all add: orders_def ex_iteration_def)
  have "case apply_all ex_senv ex_config ex_registry ex_vm ex_ledger 1 ex_txs (NewPovGlobalStateDB ex_senv ZeroHash) of
    Some (Inr g) \<Rightarrow> length (gs_asDirty g) = 2 | _ \<Rightarrow> False" by code_simp
  then obtain g where g: "apply_all ex_senv ex_config ex_registry ex_vm ex_ledger 1 ex_txs (NewPovGlobalStateDB ex_senv ZeroHash) = Some (Inr g)"
    "length (gs_asDirty g) = 2" by (auto split: option.splits sum.splits)
  then show ?thesis using pov_state_order_free [OF ex_senv_ok(1) ready_all [OF ex_senv_ok(2-4) g(1)] o] by blast
qed

end
