(* ===== verification/Pov_Weights.thy ===== *)
theory Pov_Weights
  imports Pov_State_Thms
begin

text \<open>The weights of the representatives in the state of the proof-of-work chain. Every transition keeps them
  equal to the sums of what the accounts hold that chose the representative, for the five kinds of weight and their
  total, as long as the amounts fit 64 bits. Online blocks are left out of the bookkeeping; one that changes the
  representative breaks it.\<close>

section \<open>Amounts\<close>

datatype amount = ABalance | AVote | ANetwork | AStorage | AOracle | ATotal

fun as_amount :: "amount \<Rightarrow> PovAccountState \<Rightarrow> int" where
  "as_amount ABalance s = pas_Balance s"
| "as_amount AVote s = pas_Vote s"
| "as_amount ANetwork s = pas_Network s"
| "as_amount AStorage s = pas_Storage s"
| "as_amount AOracle s = pas_Oracle s"
| "as_amount ATotal s = pas_Balance s + pas_Vote s + pas_Network s + pas_Storage s + pas_Oracle s"

fun rs_amount :: "amount \<Rightarrow> PovRepState \<Rightarrow> int" where
  "rs_amount ABalance s = prs_Balance s"
| "rs_amount AVote s = prs_Vote s"
| "rs_amount ANetwork s = prs_Network s"
| "rs_amount AStorage s = prs_Storage s"
| "rs_amount AOracle s = prs_Oracle s"
| "rs_amount ATotal s = prs_Total s"

definition account_ok :: "PovAccountState \<Rightarrow> bool" where
  "account_ok s \<longleftrightarrow> 0 \<le> pas_Balance s \<and> 0 \<le> pas_Vote s \<and> 0 \<le> pas_Network s \<and> 0 \<le> pas_Storage s \<and> 0 \<le> pas_Oracle s \<and>
     as_amount ATotal s < 2 ^ 64"

lemma account_ok_bounds: "account_ok s \<Longrightarrow> 0 \<le> as_amount k s \<and> as_amount k s \<le> as_amount ATotal s \<and> as_amount ATotal s < 2 ^ 64"
  by (cases k) (simp_all add: account_ok_def)

lemma account_total: "account_ok s \<Longrightarrow> PovAccountState_TotalBalance s = as_amount ATotal s"
  by (simp add: account_ok_def PovAccountState_TotalBalance_def Balance_Add_exact)

text \<open>Taking an account off a representative and adding a block to one, kind by kind.\<close>

lemma minus_amount:
  assumes "account_ok s" "rs_amount k rs < 2 ^ 64" "as_amount k s \<le> rs_amount k rs"
  shows "rs_amount k (minus_account s rs) = rs_amount k rs - as_amount k s"
proof -
  have "Balance_Sub (rs_amount k rs) (as_amount k s) = rs_amount k rs - as_amount k s"
    using account_ok_bounds [OF assms(1), of k] assms(2,3) by (simp add: Balance_Sub_exact)
  then show ?thesis by (cases k) (simp_all add: minus_account_def account_total [OF assms(1)])
qed

definition block_account :: "state_block \<Rightarrow> PovAccountState" where
  "block_account b = NewPovAccountState\<lparr>pas_Balance := sb_Balance b, pas_Vote := opt_bal (sb_Vote b), pas_Network := opt_bal (sb_Network b),
     pas_Storage := opt_bal (sb_Storage b), pas_Oracle := opt_bal (sb_Oracle b)\<rparr>"

lemma block_account_ok: "account_ok (block_account b) \<longleftrightarrow> sb_amounts_ok b"
  by (auto simp: account_ok_def block_account_def sb_amounts_ok_def)

definition amounts_present :: "state_block \<Rightarrow> bool" where
  "amounts_present b \<longleftrightarrow> sb_Vote b \<noteq> None \<and> sb_Network b \<noteq> None \<and> sb_Oracle b \<noteq> None \<and> sb_Storage b \<noteq> None"

lemma block_total:
  assumes "sb_amounts_ok b"
  shows "StateBlock_TotalBalance b = as_amount ATotal (block_account b)"
  using assms by (simp add: StateBlock_TotalBalance_def sb_amounts_ok_def add_opt_exact block_account_def)

lemma plus_amount:
  assumes "amounts_present b" "sb_amounts_ok b"
    and "\<And>k. 0 \<le> rs_amount k rs" "\<And>k. rs_amount k rs + as_amount k (block_account b) < 2 ^ 64"
  shows "\<exists>rs'. plus_block b rs = Some rs' \<and> (\<forall>k. rs_amount k rs' = rs_amount k rs + as_amount k (block_account b))"
proof -
  have add: "Balance_Add (rs_amount k rs) (as_amount k (block_account b)) = rs_amount k rs + as_amount k (block_account b)" for k
    using assms(3,4) [of k] account_ok_bounds [of "block_account b" k] assms(2) by (simp add: Balance_Add_exact block_account_ok)
  obtain v n r s where a: "sb_Vote b = Some v" "sb_Network b = Some n" "sb_Oracle b = Some r" "sb_Storage b = Some s"
    using assms(1) by (auto simp: amounts_present_def)
  then obtain rs' where rs': "plus_block b rs = Some rs'" by (simp add: plus_block_def)
  have "rs_amount k rs' = rs_amount k rs + as_amount k (block_account b)" for k
    using add [of k] rs' a block_total [OF assms(2)] by (cases k) (auto simp: plus_block_def block_account_def)
  then show ?thesis using rs' by blast
qed

section \<open>Views of the state\<close>

lemma view_set [simp]:
  "GetAccountState E (SetAccountState a s g) = (GetAccountState E g)(a \<mapsto> s\<lparr>pas_Account := a\<rparr>)"
  "GetRepState E (SetAccountState a s g) = GetRepState E g"
  "GetAccountState E (SetRepState a r g) = GetAccountState E g"
  "GetRepState E (SetRepState a r g) = (GetRepState E g)(a \<mapsto> r\<lparr>prs_Account := a\<rparr>)"
  by (auto simp: fun_eq_iff GetAccountState_def GetRepState_def SetAccountState_def SetRepState_def split: option.split)

lemma view_put: "GetAccountState E (put_csdb a c g) = GetAccountState E g" "GetRepState E (put_csdb a c g) = GetRepState E g"
  by (auto simp: put_csdb_def fun_eq_iff GetAccountState_def GetRepState_def split: option.split)

lemma view_lookup:
  assumes "LookupContractStateDB E a g = Inr (c, g')"
  shows "GetAccountState E g' = GetAccountState E g \<and> GetRepState E g' = GetRepState E g"
proof (cases "g' = g")
  case False
  then have "g' = put_csdb a c g"
    using assms by (auto simp: LookupContractStateDB_def put_csdb_def Let_def split: option.splits if_splits)
  then show ?thesis by (simp add: view_put)
qed simp

lemma view_call:
  assumes "call_contract E R l ca sel b run g = Inr g'"
  shows "GetAccountState E g' = GetAccountState E g \<and> GetRepState E g' = GetRepState E g"
proof (cases "g' = g")
  case False
  then obtain c h ctx kvs where "LookupContractStateDB E ca g = Inr (c, h)"
    "g' = put_csdb ca (fold (\<lambda>(k, v). Contract_SetValue k v) kvs c) h"
    using assms by (auto simp: call_contract_def split: option.splits sum.splits if_splits prod.splits)
  then show ?thesis using view_lookup view_put by simp
qed simp

lemma view_contract:
  "updateContractState E F R V l height b g = Inr g' \<Longrightarrow> GetAccountState E g' = GetAccountState E g \<and> GetRepState E g' = GetRepState E g"
  by (auto simp: updateContractState_def split: if_splits sum.splits dest!: view_call)

lemma find_set_token: "find (\<lambda>x. pts_Type x = t) (set_token ts tss) =
    (if t = pts_Type ts then Some ts else find (\<lambda>x. pts_Type x = t) tss)"
  by (induction tss) auto

text \<open>The representative an account chose, zero for none.\<close>

definition rep_of :: "config \<Rightarrow> PovAccountState \<Rightarrow> address" where
  "rep_of F s = (case GetTokenState s (cf_ChainToken F) of None \<Rightarrow> 0 | Some ts \<Rightarrow> pts_Representative ts)"

lemma new_account_chain:
  assumes "sb_Token b = cf_ChainToken F"
  shows "as_amount k (new_account_state F b h s) = as_amount k (block_account b)" "rep_of F (new_account_state F b h s) = sb_Representative b"
    "GetTokenState (new_account_state F b h s) (sb_Token b) = Some \<lparr>pts_Type = sb_Token b, pts_Hash = h, pts_Representative = sb_Representative b, pts_Balance = sb_Balance b\<rparr>"
  using assms by (cases k; simp add: new_account_state_def block_account_def get_eq_opt_bal rep_of_def GetTokenState_def find_set_token Let_def)+

lemma new_account_other:
  assumes "sb_Token b \<noteq> cf_ChainToken F"
  shows "as_amount k (new_account_state F b h s) = as_amount k s" "rep_of F (new_account_state F b h s) = rep_of F s"
  using assms by (cases k; simp add: new_account_state_def rep_of_def GetTokenState_def find_set_token Let_def)+

section \<open>Credits are sums\<close>

definition pov_delegated :: "config \<Rightarrow> amount \<Rightarrow> (address \<rightharpoonup> PovAccountState) \<Rightarrow> address \<Rightarrow> int" where
  "pov_delegated F k m r = msum (\<lambda>_ s. if rep_of F s = r then as_amount k s else 0) m"

definition credited :: "amount \<Rightarrow> (address \<rightharpoonup> PovRepState) \<Rightarrow> address \<Rightarrow> int" where
  "credited k m r = (case m r of None \<Rightarrow> 0 | Some rs \<Rightarrow> rs_amount k rs)"

definition held :: "(address \<rightharpoonup> PovAccountState) \<Rightarrow> int" where
  "held m = msum (\<lambda>_. as_amount ATotal) m"

definition accounts_ok :: "(address \<rightharpoonup> PovAccountState) \<Rightarrow> bool" where
  "accounts_ok m \<longleftrightarrow> (\<forall>s \<in> ran m. account_ok s) \<and> held m < 2 ^ 64"

definition credits_match :: "config \<Rightarrow> (address \<rightharpoonup> PovAccountState) \<Rightarrow> (address \<rightharpoonup> PovRepState) \<Rightarrow> bool" where
  "credits_match F m c \<longleftrightarrow> (\<forall>r k. r \<noteq> 0 \<longrightarrow> credited k c r = pov_delegated F k m r)"

lemma pov_delegated_upd:
  "pov_delegated F k (m(a := r)) q = pov_delegated F k m q - at (\<lambda>_ s. if rep_of F s = q then as_amount k s else 0) a (m a)
     + at (\<lambda>_ s. if rep_of F s = q then as_amount k s else 0) a r"
  unfolding pov_delegated_def by (rule msum_upd) simp

lemma held_upd: "held (m(a := r)) = held m - at (\<lambda>_. as_amount ATotal) a (m a) + at (\<lambda>_. as_amount ATotal) a r"
  unfolding held_def by (rule msum_upd) simp

lemma pov_delegated_bounds:
  assumes "\<forall>s \<in> ran m. account_ok s"
  shows "0 \<le> pov_delegated F k m r" "pov_delegated F k m r \<le> held m"
proof -
  have b: "account_ok s" if "m a = Some s" for a s using assms that by (auto simp: ran_def)
  then show "0 \<le> pov_delegated F k m r" unfolding pov_delegated_def by (intro msum_nonneg) (simp add: account_ok_bounds)
  show "pov_delegated F k m r \<le> held m" unfolding pov_delegated_def held_def msum_def
  proof (rule sum_mono)
    fix a assume "a \<in> dom m"
    then obtain s where s: "m a = Some s" by auto
    show "(if rep_of F (the (m a)) = r then as_amount k (the (m a)) else 0) \<le> as_amount ATotal (the (m a))"
      using account_ok_bounds [OF b [OF s], of k] s by auto
  qed
qed

lemma accounts_ok_remove: "accounts_ok m \<Longrightarrow> accounts_ok (m(a := None))"
proof -
  assume m: "accounts_ok m"
  have "account_ok s" if "s \<in> ran (m(a := None))" for s using m that unfolding accounts_ok_def ran_def by (auto split: if_splits)
  moreover have "0 \<le> at (\<lambda>_. as_amount ATotal) a (m a)"
    using m account_ok_bounds [of _ ATotal] by (cases "m a") (auto simp: accounts_ok_def ran_def)
  ultimately show ?thesis using m unfolding accounts_ok_def held_upd by simp
qed

lemma credited_upd: "credited k (c(p \<mapsto> rs\<lparr>prs_Account := p\<rparr>)) r = (if r = p then rs_amount k rs else credited k c r)"
  by (cases k) (simp_all add: credited_def)

lemma leave_credited:
  assumes "accounts_ok m" "credits_match F m (GetRepState E g)" "m a = oldAs"
  shows "credits_match F (m(a := None)) (GetRepState E (leave_rep E (cf_ChainToken F) oldAs g))"
proof -
  let ?f = "\<lambda>k r. at (\<lambda>_ s. if rep_of F s = r then as_amount k s else 0) a (m a)"
  have d: "pov_delegated F k (m(a := None)) r = pov_delegated F k m r - ?f k r" for k r by (simp add: pov_delegated_upd)
  show ?thesis
  proof (cases "\<exists>s. oldAs = Some s \<and> rep_of F s \<noteq> 0")
    case False
    then have "?f k r = 0" if "r \<noteq> 0" for k r using that assms(3) by (cases oldAs) auto
    moreover have "leave_rep E (cf_ChainToken F) oldAs g = g"
      using False by (auto simp: leave_rep_def rep_of_def split: option.splits)
    ultimately show ?thesis using assms(2) unfolding credits_match_def d by simp
  next
    case True
    then obtain s where s: "oldAs = Some s" "rep_of F s \<noteq> 0" by blast
    have ok: "account_ok s" using assms(1,3) s(1) by (auto simp: accounts_ok_def ran_def)
    have m: "credited k (GetRepState E g) (rep_of F s) = pov_delegated F k m (rep_of F s)" for k
      using assms(2) s(2) by (simp add: credits_match_def)
    have le: "as_amount k s \<le> pov_delegated F k m (rep_of F s)" for k
      using pov_delegated_bounds(1) [of "m(a := None)" F k "rep_of F s"] accounts_ok_remove [OF assms(1)] d [of k "rep_of F s"] assms(3) s(1)
      by (simp add: accounts_ok_def)
    have lt: "pov_delegated F k m (rep_of F s) < 2 ^ 64" for k
      using pov_delegated_bounds(2) [of m F k "rep_of F s"] assms(1) by (simp add: accounts_ok_def)
    show ?thesis
    proof (cases "GetRepState E g (rep_of F s)")
      case None
      then have "as_amount k s = 0" for k using le [of k] m [of k] account_ok_bounds [OF ok, of k] by (simp add: credited_def)
      moreover have "leave_rep E (cf_ChainToken F) oldAs g = g"
        using None s by (auto simp: leave_rep_def rep_of_def split: option.splits)
      ultimately show ?thesis using assms(2,3) s(1) unfolding credits_match_def d by simp
    next
      case (Some rs)
      have "leave_rep E (cf_ChainToken F) oldAs g = SetRepState (rep_of F s) (minus_account s rs) g"
        using Some s by (auto simp: leave_rep_def rep_of_def split: option.splits)
      moreover have "rs_amount k (minus_account s rs) = pov_delegated F k m (rep_of F s) - as_amount k s" for k
        using minus_amount [OF ok, of k rs] le [of k] lt [of k] m [of k] Some by (simp add: credited_def)
      ultimately show ?thesis using assms(2,3) s(1) unfolding credits_match_def d by (simp add: credited_upd)
    qed
  qed
qed

lemma join_credited:
  assumes "credits_match F (m(a := None)) (GetRepState E g)" "accounts_ok (m(a \<mapsto> s))"
    and "GetTokenState s (sb_Token b) = Some ts" "pts_Representative ts = rep_of F s"
    and "\<And>k. as_amount k s = as_amount k (block_account b)" "amounts_present b" "sb_amounts_ok b"
  shows "\<exists>g'. join_rep E b s g = Some g' \<and> GetAccountState E g' = GetAccountState E g \<and> credits_match F (m(a \<mapsto> s)) (GetRepState E g')"
proof -
  have d: "pov_delegated F k (m(a \<mapsto> s)) r = pov_delegated F k (m(a := None)) r + (if rep_of F s = r then as_amount k s else 0)" for k r
    by (simp add: pov_delegated_upd)
  show ?thesis
  proof (cases "rep_of F s = 0")
    case True
    then show ?thesis using assms(1,3,4) by (simp add: join_rep_def credits_match_def d)
  next
    case False
    let ?rs = "case GetRepState E g (rep_of F s) of None \<Rightarrow> NewPovRepState | Some rs \<Rightarrow> rs"
    have "rs_amount k NewPovRepState = 0" for k by (cases k) (simp_all add: NewPovRepState_def)
    then have "credited k (GetRepState E g) (rep_of F s) = rs_amount k ?rs" for k by (simp add: credited_def split: option.split)
    then have rs: "rs_amount k ?rs = pov_delegated F k (m(a := None)) (rep_of F s)" for k
      using assms(1) False by (simp add: credits_match_def)
    have ok: "\<forall>x \<in> ran (m(a := None)). account_ok x"
      using accounts_ok_remove [OF assms(2), of a] by (simp add: accounts_ok_def)
    have "rs_amount k ?rs + as_amount k (block_account b) < 2 ^ 64" for k
      using pov_delegated_bounds(2) [of "m(a \<mapsto> s)" F k "rep_of F s"] assms(2) d [of k "rep_of F s"] rs [of k] assms(5) [of k]
      by (simp add: accounts_ok_def)
    then obtain rs' where rs': "plus_block b ?rs = Some rs'" "\<And>k. rs_amount k rs' = rs_amount k ?rs + as_amount k (block_account b)"
      using plus_amount [OF assms(6,7), of ?rs] pov_delegated_bounds(1) [OF ok] rs by (metis (no_types, lifting))
    have "join_rep E b s g = Some (SetRepState (rep_of F s) rs' g)" using assms(3,4) False rs'(1) by (simp add: join_rep_def Let_def)
    then show ?thesis using assms(1,5) rs rs'(2) by (simp add: credits_match_def credited_upd d)
  qed
qed

section \<open>The transition keeps the weights\<close>

text \<open>An online block that says of its account what the state says already.\<close>

definition online_repeats :: "config \<Rightarrow> state_block \<Rightarrow> PovAccountState option \<Rightarrow> bool" where
  "online_repeats F b oldAs \<longleftrightarrow> sb_Token b = cf_ChainToken F \<and>
     (\<exists>s. oldAs = Some s \<and> rep_of F s = sb_Representative b \<and> (\<forall>k. as_amount k s = as_amount k (block_account b)))"

lemma account_amounts_ok: "(\<And>k. as_amount k s = as_amount k t) \<Longrightarrow> account_ok s = account_ok t"
  using as_amount.simps by (metis account_ok_def)

lemma rep_of_account [simp]: "rep_of F (s\<lparr>pas_Account := a\<rparr>) = rep_of F s" "as_amount k (s\<lparr>pas_Account := a\<rparr>) = as_amount k s"
  by (simp_all add: rep_of_def GetTokenState_def) (cases k; simp)

lemma new_state_weights: "rep_of F NewPovAccountState = 0" "as_amount k NewPovAccountState = 0"
  by (simp_all add: rep_of_def GetTokenState_def NewPovAccountState_def) (cases k; simp)

lemma ball_ran: "(\<forall>x \<in> ran m. P x) \<longleftrightarrow> (\<forall>i x. m i = Some x \<longrightarrow> P x)"
  by (auto simp: ran_def)

lemma same_weights:
  assumes "rep_of F t = rep_of F s" "\<And>k. as_amount k t = as_amount k s" "s = (case m a of None \<Rightarrow> NewPovAccountState | Some s \<Rightarrow> s)"
    and "credits_match F m c" "accounts_ok m"
  shows "credits_match F (m(a \<mapsto> t)) c" "accounts_ok (m(a \<mapsto> t))"
proof -
  have "pov_delegated F k (m(a \<mapsto> t)) r = pov_delegated F k m r" for k r
    using assms(1-3) by (cases "m a") (simp_all add: pov_delegated_upd new_state_weights)
  then show "credits_match F (m(a \<mapsto> t)) c" using assms(4) by (simp add: credits_match_def)
  have h: "held (m(a \<mapsto> t)) = held m"
    using assms(2) [of ATotal] assms(3) new_state_weights(2) [of ATotal] by (cases "m a") (simp_all only: held_upd at_simps option.case)
  have "account_ok s" using assms(3,5) by (cases "m a") (auto simp: accounts_ok_def ball_ran account_ok_def NewPovAccountState_def)
  then have "account_ok t" using account_amounts_ok [OF assms(2)] by simp
  then show "accounts_ok (m(a \<mapsto> t))" using assms(5) unfolding accounts_ok_def h ball_ran by simp
qed

definition pov_weights_ok :: "state_env \<Rightarrow> config \<Rightarrow> PovGlobalStateDB \<Rightarrow> bool" where
  "pov_weights_ok E F g \<longleftrightarrow> accounts_ok (GetAccountState E g) \<and> credits_match F (GetAccountState E g) (GetRepState E g)"

lemma accounts_ok_new:
  assumes "accounts_ok m" "\<And>k. as_amount k t = as_amount k (block_account b)" "sb_amounts_ok b"
    "held (m(a := None)) + as_amount ATotal (block_account b) < 2 ^ 64"
  shows "accounts_ok (m(a \<mapsto> t))"
proof -
  have "held (m(a \<mapsto> t)) = held (m(a := None)) + as_amount ATotal (block_account b)" using assms(2) [of ATotal] by (simp add: held_upd del: as_amount.simps)
  moreover have "account_ok t" using account_amounts_ok [OF assms(2)] assms(3) by (simp add: block_account_ok)
  ultimately show ?thesis using assms(1,4) by (simp add: accounts_ok_def ball_ran)
qed

lemma online_weights:
  assumes "pov_weights_ok E F g"
  shows "pov_weights_ok E F (updateRepOnline E height b g)"
proof -
  let ?rs = "case GetRepState E g (sb_Address b) of None \<Rightarrow> NewPovRepState | Some rs \<Rightarrow> rs"
  have "rs_amount k (?rs\<lparr>prs_Status := PovStatusOnline, prs_Height := height\<rparr>) = credited k (GetRepState E g) (sb_Address b)" for k
    by (cases k; cases "GetRepState E g (sb_Address b)") (simp_all add: credited_def NewPovRepState_def)
  then show ?thesis using assms by (simp add: pov_weights_ok_def updateRepOnline_def Let_def credits_match_def credited_upd)
qed

lemma rep_state_weights:
  assumes "pov_weights_ok E F g" "sb_Token b = cf_ChainToken F" "amounts_present b" "sb_amounts_ok b"
    and "held ((GetAccountState E g)(sb_Address b := None)) + as_amount ATotal (block_account b) < 2 ^ 64"
    and "updateAccountState F b h (GetAccountState E g (sb_Address b)) g = (g1, newAs)"
  shows "\<exists>g2. updateRepState E F b (GetAccountState E g (sb_Address b)) newAs g1 = Some (Inr g2) \<and> pov_weights_ok E F g2"
proof -
  let ?m = "GetAccountState E g" and ?a = "sb_Address b"
  let ?s = "new_account_state F b h (case ?m ?a of None \<Rightarrow> NewPovAccountState | Some s \<Rightarrow> s)"
  have g1: "g1 = SetAccountState ?a ?s g" and n: "newAs = ?s\<lparr>pas_Account := ?a\<rparr>"
    using assms(6) by (auto simp: updateAccountState_def Let_def)
  have w: "accounts_ok ?m" "credits_match F ?m (GetRepState E g)" using assms(1) by (simp_all add: pov_weights_ok_def)
  have a: "as_amount k newAs = as_amount k (block_account b)" for k unfolding n by (simp add: new_account_chain [OF assms(2)])
  have "credits_match F (?m(?a := None)) (GetRepState E (leave_rep E (sb_Token b) (?m ?a) g1))"
    using leave_credited [OF w(1), of F E g1 ?a] w(2) g1 assms(2) by simp
  moreover have ok: "accounts_ok (?m(?a \<mapsto> newAs))" by (rule accounts_ok_new [OF w(1) a assms(4,5)])
  ultimately obtain g2 where g2: "join_rep E b newAs (leave_rep E (sb_Token b) (?m ?a) g1) = Some g2"
    "GetAccountState E g2 = GetAccountState E (leave_rep E (sb_Token b) (?m ?a) g1)" "credits_match F (?m(?a \<mapsto> newAs)) (GetRepState E g2)"
    using join_credited [OF _ ok _ _ a assms(3,4)] new_account_chain(2,3) [OF assms(2)] n
    by (fastforce simp: GetTokenState_def)
  have "GetAccountState E (leave_rep E (sb_Token b) (?m ?a) g1) = ?m(?a \<mapsto> newAs)"
    using g1 n by (simp add: leave_rep_def split: option.split)
  then show ?thesis using g2 ok assms(2) by (simp add: updateRepState_def pov_weights_ok_def)
qed

lemma weights_contract:
  "updateContractState E F R V l height b g = Inr g' \<Longrightarrow> pov_weights_ok E F g' = pov_weights_ok E F g"
  using view_contract [of E F R V l height b g g'] by (simp add: pov_weights_ok_def)

lemma contract_error: "updateContractState E F R V l height b g = Inl e \<Longrightarrow> sb_Type b \<in> {ContractSend, ContractReward}"
  by (auto simp: updateContractState_def split: if_splits)

lemma repeated_account:
  assumes "pov_weights_ok E F g" "updateAccountState F b h (GetAccountState E g (sb_Address b)) g = (g1, newAs)"
    "sb_Token b \<noteq> cf_ChainToken F \<or> online_repeats F b (GetAccountState E g (sb_Address b))"
  shows "pov_weights_ok E F g1"
proof -
  let ?m = "GetAccountState E g" and ?a = "sb_Address b"
  let ?s = "case ?m ?a of None \<Rightarrow> NewPovAccountState | Some s \<Rightarrow> s"
  let ?t = "(new_account_state F b h ?s)\<lparr>pas_Account := ?a\<rparr>"
  have "rep_of F ?t = rep_of F ?s \<and> (\<forall>k. as_amount k ?t = as_amount k ?s)"
    using assms(3) by (cases "sb_Token b = cf_ChainToken F") (auto simp: new_account_other new_account_chain online_repeats_def)
  then have "credits_match F (?m(?a \<mapsto> ?t)) (GetRepState E g)" "accounts_ok (?m(?a \<mapsto> ?t))"
    using same_weights [of F ?t ?s ?m ?a "GetRepState E g"] assms(1) by (auto simp: pov_weights_ok_def)
  then show ?thesis using assms(2) by (auto simp: updateAccountState_def pov_weights_ok_def Let_def)
qed

text \<open>C33: the weight of a representative is the sum of what the accounts hold that chose it: balance, vote, network,
  storage, oracle and their total, for every representative but the zero address. Applying a transaction keeps this, if none of the block's
  amounts is nil, which would make the code panic, if they are not negative and fit and all accounts together stay
  below 2^64, and if an online block names the representative and the amounts its account already has. Under these
  conditions it does not panic, and only a contract call can make it fail.\<close>

theorem pov_rep_weights:
  assumes "pov_weights_ok E F g" "amounts_present b" "sb_amounts_ok b"
    and "held ((GetAccountState E g)(sb_Address b := None)) + as_amount ATotal (block_account b) < 2 ^ 64"
    and "sb_Type b = Online \<longrightarrow> online_repeats F b (GetAccountState E g (sb_Address b))"
  shows "case ApplyTransaction E F R V l height b h g of
      None \<Rightarrow> False
    | Some (Inl _) \<Rightarrow> sb_Type b \<in> {ContractSend, ContractReward}
    | Some (Inr g') \<Rightarrow> pov_weights_ok E F g'"
proof -
  let ?old = "GetAccountState E g (sb_Address b)"
  obtain g1 newAs where u: "updateAccountState F b h ?old g = (g1, newAs)" by fastforce
  let ?m = "if sb_Type b \<noteq> Online then updateRepState E F b ?old newAs g1 else Some (Inr (updateRepOnline E height b g1))"
  have "\<exists>g2. ?m = Some (Inr g2) \<and> pov_weights_ok E F g2"
  proof (cases "sb_Type b = Online")
    case True
    then show ?thesis using assms(1,5) u by (simp add: online_weights repeated_account)
  next
    case False
    then show ?thesis using rep_state_weights [OF assms(1) _ assms(2-4) u] repeated_account [OF assms(1) u]
      by (cases "sb_Token b = cf_ChainToken F") (simp_all add: updateRepState_def)
  qed
  then obtain g2 where "?m = Some (Inr g2)" "pov_weights_ok E F g2" by blast
  then show ?thesis using contract_error weights_contract
    by (auto simp: ApplyTransaction_def u Let_def simp del: if_split split: sum.split)
qed

text \<open>An empty state takes the opening of an account.\<close>

lemma ex_empty_weights: "pov_weights_ok ex_senv F (NewPovGlobalStateDB ex_senv ZeroHash)"
proof -
  have "GetAccountState ex_senv (NewPovGlobalStateDB ex_senv ZeroHash) = Map.empty" "GetRepState ex_senv (NewPovGlobalStateDB ex_senv ZeroHash) = Map.empty"
    by (auto simp: fun_eq_iff GetAccountState_def GetRepState_def NewPovGlobalStateDB_def decoded_def trie_value_def GetValue_def LeafNodeValue_def)
  then show ?thesis by (simp add: pov_weights_ok_def accounts_ok_def credits_match_def held_def pov_delegated_def credited_def)
qed

theorem pov_rep_weights_witness:
  "case ApplyTransaction ex_senv ex_config ex_registry ex_vm ex_ledger 1 ex_send 243 (NewPovGlobalStateDB ex_senv ZeroHash) of
     None \<Rightarrow> False | Some (Inl _) \<Rightarrow> False | Some (Inr g') \<Rightarrow> pov_weights_ok ex_senv ex_config g'"
proof -
  have "GetAccountState ex_senv (NewPovGlobalStateDB ex_senv ZeroHash) = Map.empty"
    by (auto simp: fun_eq_iff GetAccountState_def NewPovGlobalStateDB_def decoded_def trie_value_def GetValue_def LeafNodeValue_def)
  then have h: "held ((GetAccountState ex_senv (NewPovGlobalStateDB ex_senv ZeroHash))(sb_Address ex_send := None)) + as_amount ATotal (block_account ex_send) < 2 ^ 64"
    by (simp add: held_def block_account_def ex_send_def ex_block_def)
  have "amounts_present ex_send" "sb_amounts_ok ex_send" "sb_Type ex_send = Send"
    by (simp_all add: amounts_present_def sb_amounts_ok_def ex_send_def ex_block_def)
  then show ?thesis
    using pov_rep_weights [OF ex_empty_weights, of ex_send ex_config ex_registry ex_vm ex_ledger 1 243] h by (simp split: option.splits sum.splits)
qed

section \<open>An online block that changes the representative\<close>

lemma leave_effect:
  assumes "account_ok s" "rep_of F s \<noteq> 0" "GetRepState E g (rep_of F s) = Some rs"
    "\<And>k. as_amount k s \<le> rs_amount k rs \<and> rs_amount k rs < 2 ^ 64"
  shows "credited k (GetRepState E (leave_rep E (cf_ChainToken F) (Some s) g)) r =
    credited k (GetRepState E g) r - (if r = rep_of F s then as_amount k s else 0)"
proof -
  have "leave_rep E (cf_ChainToken F) (Some s) g = SetRepState (rep_of F s) (minus_account s rs) g"
    using assms(2,3) by (auto simp: leave_rep_def rep_of_def split: option.splits)
  moreover have "credited k (GetRepState E g) (rep_of F s) = rs_amount k rs" using assms(3) by (simp add: credited_def)
  ultimately show ?thesis using minus_amount [OF assms(1), of k rs] assms(4) by (simp add: credited_upd)
qed

lemma join_effect:
  assumes "GetTokenState s (sb_Token b) = Some ts" "pts_Representative ts = p" "p \<noteq> 0" "amounts_present b" "sb_amounts_ok b"
    "\<And>k. 0 \<le> credited k (GetRepState E g) p" "\<And>k. credited k (GetRepState E g) p + as_amount k (block_account b) < 2 ^ 64"
  shows "\<exists>g'. join_rep E b s g = Some g' \<and> GetAccountState E g' = GetAccountState E g \<and>
    (\<forall>k r. credited k (GetRepState E g') r = credited k (GetRepState E g) r + (if r = p then as_amount k (block_account b) else 0))"
proof -
  let ?rs = "case GetRepState E g p of None \<Rightarrow> NewPovRepState | Some rs \<Rightarrow> rs"
  have "rs_amount k NewPovRepState = 0" for k by (cases k) (simp_all add: NewPovRepState_def)
  then have rs: "rs_amount k ?rs = credited k (GetRepState E g) p" for k by (simp add: credited_def split: option.split)
  then obtain rs' where rs': "plus_block b ?rs = Some rs'" "\<And>k. rs_amount k rs' = rs_amount k ?rs + as_amount k (block_account b)"
    using plus_amount [OF assms(4,5), of ?rs] assms(6,7) by (metis (no_types, lifting))
  then have "join_rep E b s g = Some (SetRepState p rs' g)" using assms(1-3) by (simp add: join_rep_def Let_def)
  then show ?thesis using rs rs'(2) by (simp add: credited_upd)
qed

text \<open>The two blocks of the account: an online block that names another representative, and a change back.\<close>

definition detour :: "config \<Rightarrow> PovAccountState \<Rightarrow> address \<Rightarrow> address \<Rightarrow> state_block \<Rightarrow> state_block \<Rightarrow> bool" where
  "detour F s a v b1 b2 \<longleftrightarrow> sb_Type b1 = Online \<and> sb_Type b2 = Change \<and> sb_Address b1 = a \<and> sb_Address b2 = a \<and>
     sb_Token b1 = cf_ChainToken F \<and> sb_Token b2 = cf_ChainToken F \<and> sb_Representative b1 = v \<and> sb_Representative b2 = rep_of F s \<and>
     amounts_present b2 \<and> (\<forall>k. as_amount k (block_account b1) = as_amount k s \<and> as_amount k (block_account b2) = as_amount k s)"

lemma contract_skip: "sb_Type b \<in> {Online, Change} \<Longrightarrow> updateContractState E F R V l height b g = Inr g"
  by (auto simp: updateContractState_def)

lemma online_step:
  assumes "GetAccountState E g a = Some s" "sb_Type b = Online" "sb_Address b = a" "sb_Token b = cf_ChainToken F"
  shows "\<exists>g' s'. ApplyTransaction E F R V l height b h g = Some (Inr g') \<and> GetAccountState E g' = (GetAccountState E g)(a \<mapsto> s') \<and>
    rep_of F s' = sb_Representative b \<and> (\<forall>k. as_amount k s' = as_amount k (block_account b)) \<and>
    (\<forall>k r. credited k (GetRepState E g') r = credited k (GetRepState E g) r) \<and>
    (\<forall>r. GetRepState E g r \<noteq> None \<longrightarrow> GetRepState E g' r \<noteq> None)"
proof -
  let ?s = "(new_account_state F b h s)\<lparr>pas_Account := a\<rparr>" and ?g = "SetAccountState a (new_account_state F b h s) g"
  let ?rs = "case GetRepState E g a of None \<Rightarrow> NewPovRepState | Some rs \<Rightarrow> rs"
  have "rs_amount k (?rs\<lparr>prs_Status := PovStatusOnline, prs_Height := height\<rparr>) = credited k (GetRepState E g) a" for k
    by (cases k; cases "GetRepState E g a") (simp_all add: credited_def NewPovRepState_def)
  then have "credited k (GetRepState E (updateRepOnline E height b ?g)) r = credited k (GetRepState E g) r" for k r
    by (simp add: updateRepOnline_def Let_def credited_upd assms(3))
  moreover have "ApplyTransaction E F R V l height b h g = Some (Inr (updateRepOnline E height b ?g))"
    using assms by (simp add: ApplyTransaction_def updateAccountState_def Let_def contract_skip)
  moreover have "GetAccountState E (updateRepOnline E height b ?g) = (GetAccountState E g)(a \<mapsto> ?s)"
    by (simp add: updateRepOnline_def Let_def)
  moreover have "GetRepState E (updateRepOnline E height b ?g) r \<noteq> None" if "GetRepState E g r \<noteq> None" for r
    using that by (simp add: updateRepOnline_def Let_def)
  ultimately show ?thesis using new_account_chain [OF assms(4)] by (metis rep_of_account)
qed

lemma change_step:
  assumes "GetAccountState E g a = Some s" "sb_Type b = Change" "sb_Address b = a" "sb_Token b = cf_ChainToken F" "amounts_present b" "sb_amounts_ok b"
    and "account_ok s" "rep_of F s \<noteq> 0" "GetRepState E g (rep_of F s) = Some rs"
    and "\<And>k. as_amount k s \<le> rs_amount k rs \<and> rs_amount k rs < 2 ^ 64"
    and "sb_Representative b = p" "p \<noteq> 0" "p \<noteq> rep_of F s" "\<And>k. 0 \<le> credited k (GetRepState E g) p"
    and "\<And>k. credited k (GetRepState E g) p + as_amount k (block_account b) < 2 ^ 64"
  shows "\<exists>g' s'. ApplyTransaction E F R V l height b h g = Some (Inr g') \<and> GetAccountState E g' = (GetAccountState E g)(a \<mapsto> s') \<and>
    rep_of F s' = p \<and> (\<forall>k. as_amount k s' = as_amount k (block_account b)) \<and>
    (\<forall>k r. credited k (GetRepState E g') r = credited k (GetRepState E g) r -
       (if r = rep_of F s then as_amount k s else 0) + (if r = p then as_amount k (block_account b) else 0))"
proof -
  let ?n = "new_account_state F b h s" and ?g1 = "SetAccountState a (new_account_state F b h s) g"
  let ?g2 = "leave_rep E (cf_ChainToken F) (Some s) ?g1"
  have l: "credited k (GetRepState E ?g2) r = credited k (GetRepState E g) r - (if r = rep_of F s then as_amount k s else 0)" for k r
    using leave_effect [OF assms(7,8), of E ?g1 rs] assms(9,10) by simp
  have v: "GetAccountState E ?g2 = (GetAccountState E g)(a \<mapsto> ?n\<lparr>pas_Account := a\<rparr>)" by (simp add: leave_rep_def split: option.split)
  have t: "GetTokenState (?n\<lparr>pas_Account := a\<rparr>) (sb_Token b) = Some \<lparr>pts_Type = sb_Token b, pts_Hash = h, pts_Representative = sb_Representative b, pts_Balance = sb_Balance b\<rparr>"
    using new_account_chain(3) [OF assms(4)] by (simp add: GetTokenState_def)
  have "credited k (GetRepState E ?g2) p = credited k (GetRepState E g) p" for k using l assms(13) by simp
  then obtain g' where g': "join_rep E b (?n\<lparr>pas_Account := a\<rparr>) ?g2 = Some g'" "GetAccountState E g' = GetAccountState E ?g2"
    "\<And>k r. credited k (GetRepState E g') r = credited k (GetRepState E ?g2) r + (if r = p then as_amount k (block_account b) else 0)"
    using join_effect [OF t _ assms(12,5,6), of E ?g2] assms(11,14,15) by auto
  then have "ApplyTransaction E F R V l height b h g = Some (Inr g')"
    using assms(1-4) by (simp add: ApplyTransaction_def updateAccountState_def updateRepState_def Let_def contract_skip)
  moreover have "rep_of F (?n\<lparr>pas_Account := a\<rparr>) = p" "as_amount k (?n\<lparr>pas_Account := a\<rparr>) = as_amount k (block_account b)" for k
    using new_account_chain(1,2) [OF assms(4)] assms(11) by simp_all
  ultimately show ?thesis using g'(2,3) l v by auto
qed

text \<open>C34: an online block that names another representative, which the block checks of the ledger let through, does
  not move the weight of its account, but the account counts as one that chose the new representative. Changing back
  takes the weight from a representative that never had it and gives it once more to one that still has it: the
  account and its choice are as before, its representative has gained the amounts and the other one has lost them.\<close>

theorem pov_online_skews:
  assumes "GetAccountState E g a = Some s" "account_ok s" "rep_of F s \<noteq> 0" "v \<noteq> 0" "v \<noteq> rep_of F s" "detour F s a v b1 b2"
    and "\<forall>k. as_amount k s \<le> credited k (GetRepState E g) v \<and> credited k (GetRepState E g) v < 2 ^ 64" "GetRepState E g v \<noteq> None"
    and "\<forall>k. 0 \<le> credited k (GetRepState E g) (rep_of F s) \<and> credited k (GetRepState E g) (rep_of F s) + as_amount k s < 2 ^ 64"
  shows "\<exists>g1 g2 s2. ApplyTransaction E F R V l height b1 h1 g = Some (Inr g1) \<and> ApplyTransaction E F R V l height b2 h2 g1 = Some (Inr g2) \<and>
    GetAccountState E g2 a = Some s2 \<and> rep_of F s2 = rep_of F s \<and> (\<forall>k. as_amount k s2 = as_amount k s \<and>
      credited k (GetRepState E g2) v = credited k (GetRepState E g) v - as_amount k s \<and>
      credited k (GetRepState E g2) (rep_of F s) = credited k (GetRepState E g) (rep_of F s) + as_amount k s)"
proof -
  note d = assms(6) [unfolded detour_def]
  obtain g1 s1 where 1: "ApplyTransaction E F R V l height b1 h1 g = Some (Inr g1)" "GetAccountState E g1 = (GetAccountState E g)(a \<mapsto> s1)"
    "rep_of F s1 = v" "\<And>k. as_amount k s1 = as_amount k s" "\<And>k r. credited k (GetRepState E g1) r = credited k (GetRepState E g) r"
    "GetRepState E g1 v \<noteq> None"
    using online_step [OF assms(1), of b1 F R V l height h1] d assms(8) by auto
  obtain rs where rs: "GetRepState E g1 v = Some rs" using 1(6) by blast
  then have c: "credited k (GetRepState E g1) v = rs_amount k rs" for k by (simp add: credited_def)
  have ok: "account_ok s1" "sb_amounts_ok b2"
    using account_amounts_ok [of s1 s] account_amounts_ok [of "block_account b2" s] 1(4) d assms(2) by (simp_all add: block_account_ok)
  have rv: "as_amount k s1 \<le> rs_amount k rs \<and> rs_amount k rs < 2 ^ 64" for k
    using spec [OF assms(7), of k] 1(4) [of k] 1(5) [of k v] c [of k] by simp
  have a: "GetAccountState E g1 a = Some s1" using 1(2) by simp
  have p: "0 \<le> credited k (GetRepState E g1) (rep_of F s)" "credited k (GetRepState E g1) (rep_of F s) + as_amount k (block_account b2) < 2 ^ 64" for k
    using assms(9) 1(5) d by simp_all
  have "\<exists>g2 s2. ApplyTransaction E F R V l height b2 h2 g1 = Some (Inr g2) \<and> GetAccountState E g2 = (GetAccountState E g1)(a \<mapsto> s2) \<and>
    rep_of F s2 = rep_of F s \<and> (\<forall>k. as_amount k s2 = as_amount k (block_account b2)) \<and>
    (\<forall>k r. credited k (GetRepState E g2) r = credited k (GetRepState E g1) r -
       (if r = rep_of F s1 then as_amount k s1 else 0) + (if r = rep_of F s then as_amount k (block_account b2) else 0))"
    using d assms(3-5) 1(3) rs ok rv p by (intro change_step [OF a]) simp_all
  then show ?thesis using 1 d assms(5) by auto
qed

text \<open>The example: account 100 chose representative 7 and holds 150; representative 8 has 500 from others.\<close>

definition ex_as :: PovAccountState where
  "ex_as = NewPovAccountState\<lparr>pas_Account := 100, pas_Balance := 150,
     pas_TokenStates := [\<lparr>pts_Type = 1, pts_Hash = 243, pts_Representative = 7, pts_Balance = 150\<rparr>]\<rparr>"

definition ex_rs :: "address \<Rightarrow> int \<Rightarrow> PovRepState" where
  "ex_rs a n = NewPovRepState\<lparr>prs_Account := a, prs_Balance := n, prs_Total := n\<rparr>"

definition ex_gs :: PovGlobalStateDB where
  "ex_gs = (NewPovGlobalStateDB ex_senv ZeroHash)\<lparr>gs_asCache := [100 \<mapsto> ex_as], gs_rsCache := [7 \<mapsto> ex_rs 7 150, 8 \<mapsto> ex_rs 8 500]\<rparr>"

definition ex_online :: state_block where
  "ex_online = (ex_block Online 100 150 243 0 3)\<lparr>sb_Representative := 8\<rparr>"

definition ex_povchange :: state_block where
  "ex_povchange = ex_block Change 100 150 245 0 4"

theorem pov_online_skews_witness:
  "\<exists>g1 g2. ApplyTransaction ex_senv ex_config ex_registry ex_vm ex_ledger 1 ex_online 245 ex_gs = Some (Inr g1) \<and>
     ApplyTransaction ex_senv ex_config ex_registry ex_vm ex_ledger 1 ex_povchange 246 g1 = Some (Inr g2) \<and>
     credited ATotal (GetRepState ex_senv g2) 8 = 350 \<and> credited ATotal (GetRepState ex_senv g2) 7 = 300"
proof -
  have g: "GetAccountState ex_senv ex_gs 100 = Some ex_as" "GetRepState ex_senv ex_gs 7 = Some (ex_rs 7 150)" "GetRepState ex_senv ex_gs 8 = Some (ex_rs 8 500)"
    by (simp_all add: ex_gs_def GetAccountState_def GetRepState_def)
  have s: "account_ok ex_as" "rep_of ex_config ex_as = 7"
    by (simp_all add: account_ok_def ex_as_def NewPovAccountState_def rep_of_def GetTokenState_def ex_config_def)
  have k: "as_amount k (block_account ex_online) = as_amount k ex_as" "as_amount k (block_account ex_povchange) = as_amount k ex_as"
    "as_amount k ex_as \<le> rs_amount k (ex_rs 8 500)" "rs_amount k (ex_rs 8 500) < 2 ^ 64" "0 \<le> rs_amount k (ex_rs 7 150)"
    "rs_amount k (ex_rs 7 150) + as_amount k ex_as < 2 ^ 64" for k
    by (cases k; simp add: block_account_def ex_online_def ex_povchange_def ex_block_def ex_as_def ex_rs_def NewPovAccountState_def NewPovRepState_def)+
  have "detour ex_config ex_as 100 8 ex_online ex_povchange" using k s(2)
    by (simp add: detour_def amounts_present_def) (simp add: ex_online_def ex_povchange_def ex_block_def ex_config_def)
  then obtain g1 g2 where r: "ApplyTransaction ex_senv ex_config ex_registry ex_vm ex_ledger 1 ex_online 245 ex_gs = Some (Inr g1)"
    "ApplyTransaction ex_senv ex_config ex_registry ex_vm ex_ledger 1 ex_povchange 246 g1 = Some (Inr g2)"
    "credited ATotal (GetRepState ex_senv g2) 8 = credited ATotal (GetRepState ex_senv ex_gs) 8 - as_amount ATotal ex_as"
    "credited ATotal (GetRepState ex_senv g2) 7 = credited ATotal (GetRepState ex_senv ex_gs) 7 + as_amount ATotal ex_as"
    using pov_online_skews [OF g(1) s(1), where F = ex_config and v = 8 and ?b1.0 = ex_online and ?b2.0 = ex_povchange and R = ex_registry and V = ex_vm and l = ex_ledger
      and height = 1 and ?h1.0 = 245 and ?h2.0 = 246] k g s(2) by (auto simp: credited_def)
  have "as_amount ATotal ex_as = 150" "credited ATotal (GetRepState ex_senv ex_gs) 8 = 500" "credited ATotal (GetRepState ex_senv ex_gs) 7 = 150"
    by (simp_all add: credited_def g ex_rs_def) (simp add: ex_as_def NewPovAccountState_def)
  then show ?thesis using r by (intro exI [of _ g1] exI [of _ g2]) simp
qed

end
