(* ===== verification/Pov_Chain.thy ===== *)
theory Pov_Chain
  imports Pov_Store
begin

text \<open>The proof-of-work chain (\<open>consensus/pov/pov_chain.go\<close>): total difficulty, growing the best chain, switching
  to a heavier fork, the positions of transactions, ancestors, median time and rewards. A batch shows its own
  writes to \<open>GetPovTD\<close> and \<open>HasPovBlock\<close>, whereas \<open>GetBlockByHash\<close> reads the store below it: the functions take
  that store as the argument \<open>S\<close>. The head lives in memory and changes while the batch is open. The caches hold
  what the store returns and are left out, as are the events and the daily statistics. The tie break
  \<open>rand.Float64() < 0.5\<close> and the outcome of writing the batch are arguments, as is what the state trie adds to the store.\<close>

section \<open>State\<close>

datatype ChainState = ChainStateNone | ChainStateMain | ChainStateSide

record chain_state =
  cs_db :: pov_db
  cs_latest :: PovBlock

type_synonym 'a chain_tx = "(perr, chain_state, 'a) stm"

definition on_db :: "'a pov_tx \<Rightarrow> 'a chain_tx" where
  "on_db m = (\<lambda>s. case m (cs_db s) of (r, db) \<Rightarrow> (r, s\<lparr>cs_db := db\<rparr>))"

lemma on_db_modify [simp]: "on_db (modifyM f) = modifyM (\<lambda>s. s\<lparr>cs_db := f (cs_db s)\<rparr>)"
  by (simp add: on_db_def modifyM_def)

definition GetBlockByHash :: "pov_db \<Rightarrow> hash \<Rightarrow> PovBlock option" where
  "GetBlockByHash S hash =
     (if hash = ZeroHash then None
      else case GetPovBlockByHash S hash of Inl _ \<Rightarrow> None | Inr block \<Rightarrow> Some block)"

definition GetHeaderByHash :: "pov_db \<Rightarrow> hash \<Rightarrow> PovHeader option" where
  "GetHeaderByHash S hash =
     (if hash = ZeroHash then None
      else case GetPovHeaderByHash S hash of Inl _ \<Rightarrow> None | Inr header \<Rightarrow> Some header)"

definition StoreLatestBlock :: "PovBlock \<Rightarrow> unit chain_tx" where
  "StoreLatestBlock block = modifyM (\<lambda>s. s\<lparr>cs_latest := block\<rparr>)"

definition CalcTotalDifficulty :: "PovTD \<Rightarrow> PovHeader \<Rightarrow> PovTD" where
  "CalcTotalDifficulty prevTD header =
     (let curTD = TD_Copy prevTD;
          curWorkNorm = CalcWorkIntToBigNum (GetNormTargetInt header);
          curTD = curTD\<lparr>td_Chain := td_Chain prevTD + curWorkNorm\<rparr>;
          algoType = GetAlgoType header
      in if algoType = ALGO_SHA256D then curTD\<lparr>td_Sha256d := td_Sha256d prevTD + curWorkNorm\<rparr>
         else if algoType = ALGO_SCRYPT then curTD\<lparr>td_Scrypt := td_Scrypt prevTD + curWorkNorm\<rparr>
         else if algoType = ALGO_X11 then curTD\<lparr>td_X11 := td_X11 prevTD + curWorkNorm\<rparr>
         else if algoType = ALGO_HYBRID then curTD\<lparr>td_Hybrid := td_Hybrid prevTD + curWorkNorm\<rparr>
         else curTD)"

section \<open>Connecting and disconnecting\<close>

definition connectBlock :: "PovBlock \<Rightarrow> unit chain_tx" where
  "connectBlock block = on_db (AddPovBestHash (pb_Height block) (pb_Hash block))"

definition disconnectBlock :: "PovBlock \<Rightarrow> unit chain_tx" where
  "disconnectBlock block = on_db (DeletePovBestHash (pb_Height block))"

text \<open>Only the first transaction, the coinbase, is written here.\<close>

definition connectTransactions :: "PovBlock \<Rightarrow> unit chain_tx" where
  "connectTransactions block =
     (case pb_Txs block of
        [] \<Rightarrow> returnM ()
      | txPov # _ \<Rightarrow> on_db (AddPovTxLookup (pt_Hash txPov)
          \<lparr>txl_BlockHash = pb_Hash block, txl_BlockHeight = pb_Height block, txl_TxIndex = 0\<rparr>))"

definition disconnectTransactions :: "PovBlock \<Rightarrow> unit chain_tx" where
  "disconnectTransactions block =
     (case pb_Txs block of [] \<Rightarrow> returnM () | txPov # _ \<Rightarrow> on_db (DeletePovTxLookup (pt_Hash txPov)))"

definition connectBestBlock :: "PovBlock \<Rightarrow> unit chain_tx" where
  "connectBestBlock block =
     bindM (readM (\<lambda>s. Inr (cs_latest s))) (\<lambda>latestBlock.
     if pb_Height block \<noteq> pb_Height latestBlock + 1 then throwM ErrPovInvalidHeight
     else bindM (connectBlock block) (\<lambda>_.
          bindM (connectTransactions block) (\<lambda>_.
          bindM (on_db (SetPovLatestHeight (pb_Height block))) (\<lambda>_.
          StoreLatestBlock block))))"

definition disconnectBestBlock :: "pov_db \<Rightarrow> PovBlock \<Rightarrow> unit chain_tx" where
  "disconnectBestBlock S block =
     bindM (readM (\<lambda>s. Inr (cs_latest s))) (\<lambda>latestBlock.
     if pb_Hash latestBlock \<noteq> pb_Hash block then throwM ErrPovInvalidHash
     else bindM (disconnectTransactions block) (\<lambda>_.
          bindM (disconnectBlock block) (\<lambda>_.
          bindM (liftM (need ErrPovInvalidPrevious (GetBlockByHash S (pb_Previous block)))) (\<lambda>prevBlock.
          bindM (on_db (SetPovLatestHeight (pb_Height prevBlock))) (\<lambda>_.
          StoreLatestBlock prevBlock)))))"

section \<open>Forks\<close>

text \<open>The first two loops of \<open>processFork\<close> collect the blocks above the lower of the two heads, counting the height
  down; the third goes down both branches until they meet. It has no bound of its own: \<open>None\<close> stands for a walk
  longer than the fuel.\<close>

fun walk_back :: "pov_db \<Rightarrow> nat \<Rightarrow> PovBlock \<Rightarrow> PovBlock list \<Rightarrow> perr + PovBlock list \<times> PovBlock" where
  "walk_back S 0 block blocks = Inr (blocks, block)"
| "walk_back S (Suc n) block blocks =
     (if pb_Previous block = ZeroHash then Inr (blocks @ [block], block)
      else case GetBlockByHash S (pb_Previous block) of
             None \<Rightarrow> Inl ErrPovInvalidPrevious
           | Some prevBlock \<Rightarrow> walk_back S n prevBlock (blocks @ [block]))"

fun find_fork :: "pov_db \<Rightarrow> nat \<Rightarrow> PovBlock \<Rightarrow> PovBlock \<Rightarrow> PovBlock list \<Rightarrow> PovBlock list
    \<Rightarrow> (perr + PovBlock list \<times> PovBlock list \<times> hash) option" where
  "find_fork S 0 attachBlock detachBlock attachBlocks detachBlocks = None"
| "find_fork S (Suc n) attachBlock detachBlock attachBlocks detachBlocks =
     (if pb_Previous attachBlock = pb_Previous detachBlock
      then Some (Inr (attachBlocks @ [attachBlock], detachBlocks @ [detachBlock], pb_Previous attachBlock))
      else case GetBlockByHash S (pb_Previous attachBlock) of
             None \<Rightarrow> Some (Inl ErrPovInvalidPrevious)
           | Some attachBlock' \<Rightarrow>
               (case GetBlockByHash S (pb_Previous detachBlock) of
                  None \<Rightarrow> Some (Inl ErrPovInvalidPrevious)
                | Some detachBlock' \<Rightarrow>
                    find_fork S n attachBlock' detachBlock' (attachBlocks @ [attachBlock]) (detachBlocks @ [detachBlock])))"

text \<open>\<open>ErrPovOther\<close> marks a walk that used up its fuel.\<close>

definition processFork :: "nat \<Rightarrow> pov_db \<Rightarrow> PovBlock \<Rightarrow> PovBlock \<Rightarrow> PovBlock chain_tx" where
  "processFork fuel S genesis newBlock =
     bindM (readM (\<lambda>s. Inr (cs_latest s))) (\<lambda>oldHeadBlock.
     bindM (liftM (walk_back S (unat (pb_Height newBlock) - unat (pb_Height oldHeadBlock)) newBlock [])) (\<lambda>(attachBlocks, attachBlock).
     bindM (liftM (walk_back S (unat (pb_Height oldHeadBlock) - unat (pb_Height newBlock)) oldHeadBlock [])) (\<lambda>(detachBlocks, detachBlock).
     if pb_Height attachBlock \<noteq> pb_Height detachBlock then throwM ErrPovInvalidHeight
     else bindM (liftM (case find_fork S fuel attachBlock detachBlock attachBlocks detachBlocks of
                          None \<Rightarrow> Inl ErrPovOther | Some r \<Rightarrow> r)) (\<lambda>(attachBlocks, detachBlocks, forkHash).
          bindM (liftM (need ErrPovInvalidHash
                   (if forkHash = ZeroHash then Some genesis else GetBlockByHash S forkHash))) (\<lambda>forkBlock.
          if length detachBlocks > PoVMaxForkHeight then throwM ErrPovInvalidFork
          else bindM (mapME (disconnectBestBlock S) detachBlocks) (\<lambda>_.
               bindM (mapME connectBestBlock (rev attachBlocks)) (\<lambda>_.
               returnM forkBlock)))))))"

section \<open>Inserting\<close>

definition is_best :: "bool \<Rightarrow> PovBlock \<Rightarrow> PovBlock \<Rightarrow> PovTD \<Rightarrow> PovTD \<Rightarrow> bool" where
  "is_best coin block currentBlock blockTD bestTD \<longleftrightarrow>
     td_Chain blockTD > td_Chain bestTD
     \<or> (td_Chain blockTD = td_Chain bestTD
        \<and> (pb_Height block < pb_Height currentBlock \<or> (pb_Height block = pb_Height currentBlock \<and> coin)))"

definition save_block :: "PovBlock \<Rightarrow> PovTD \<Rightarrow> unit chain_tx" where
  "save_block block blockTD = (\<lambda>s.
     if HasPovBlock (cs_db s) (pb_Height block) (pb_Hash block) then (Inr (), s)
     else case on_db (AddPovBlock block blockTD) s of
            (Inl e, s') \<Rightarrow> (if e \<noteq> ErrPovBlockExists then Inl e else Inr (), s')
          | (Inr _, s') \<Rightarrow> (Inr (), s'))"

definition commitToDB :: "((bytes \<rightharpoonup> bytes) \<Rightarrow> (bytes \<rightharpoonup> bytes)) \<Rightarrow> unit pov_tx" where
  "commitToDB CommitToDB = modifyM (\<lambda>db. db\<lparr>pv_trie := CommitToDB (pv_trie db)\<rparr>)"

definition insertBlock :: "nat \<Rightarrow> pov_db \<Rightarrow> PovBlock \<Rightarrow> bool \<Rightarrow> ((bytes \<rightharpoonup> bytes) \<Rightarrow> (bytes \<rightharpoonup> bytes)) \<Rightarrow> PovBlock
    \<Rightarrow> (ChainState \<times> PovBlock option) chain_tx" where
  "insertBlock fuel S genesis coin CommitToDB block =
     bindM (readM (\<lambda>s. Inr (cs_latest s))) (\<lambda>currentBlock.
     bindM (readM (\<lambda>s. GetPovTD (cs_db s) (pb_Hash currentBlock) (pb_Height currentBlock))) (\<lambda>bestTD.
     bindM (readM (\<lambda>s. GetPovTD (cs_db s) (pb_Previous block) (pb_Height block - 1))) (\<lambda>prevTD.
     let blockTD = CalcTotalDifficulty prevTD (pb_Header block) in
     bindM (save_block block blockTD) (\<lambda>_.
     bindM (on_db (commitToDB CommitToDB)) (\<lambda>_.
     if is_best coin block currentBlock blockTD bestTD
     then if pb_Previous block = pb_Hash currentBlock
          then bindM (connectBestBlock block) (\<lambda>_. returnM (ChainStateMain, None))
          else bindM (processFork fuel S genesis block) (\<lambda>forkBlock. returnM (ChainStateMain, Some forkBlock))
     else returnM (ChainStateSide, None))))))"

record PovBlockChain =
  bc_db :: pov_db
  bc_latest :: PovBlock
  bc_genesis :: PovBlock

section \<open>Positions of transactions\<close>

definition block_lookups :: "PovBlock \<Rightarrow> (hash \<times> PovTxLookup) list" where
  "block_lookups block =
     map (\<lambda>(txIndex, txPov). (pt_Hash txPov,
            \<lparr>txl_BlockHash = pb_Hash block, txl_BlockHeight = pb_Height block, txl_TxIndex = of_nat txIndex\<rparr>))
       (List.enumerate 0 (pb_Txs block))"

text \<open>The loop runs from the cursor to the head; the first argument is the number of heights left.\<close>

fun scan_loop :: "nat \<Rightarrow> u64 \<Rightarrow> unit pov_tx" where
  "scan_loop 0 curHeight = returnM ()"
| "scan_loop (Suc n) curHeight =
     bindM (readM (\<lambda>db. GetPovBlockByHeight db curHeight)) (\<lambda>block.
     bindM (mapME (\<lambda>(txHash, txLookup). AddPovTxLookup txHash txLookup) (block_lookups block)) (\<lambda>_.
     bindM (SetPovTxlScanCursor curHeight) (\<lambda>_.
     scan_loop n (curHeight + 1))))"

definition batchUpdateTxLookupInSync :: "PovBlock option \<Rightarrow> PovBlock \<Rightarrow> unit pov_tx" where
  "batchUpdateTxLookupInSync forkBlock latest =
     bindM (case forkBlock of
              Some b \<Rightarrow> bindM (SetPovTxlScanCursor (pb_Height b)) (\<lambda>_. returnM (pb_Height b))
            | None \<Rightarrow> readM (\<lambda>db. case GetPovTxlScanCursor db of Inl _ \<Rightarrow> Inr 0 | Inr h \<Rightarrow> Inr h)) (\<lambda>lastCursorHeight.
     scan_loop (Suc (unat (pb_Height latest)) - unat (lastCursorHeight + 1)) (lastCursorHeight + 1))"

text \<open>\<open>put\<close> says whether the batch can be written; putting entries into it, the nodes of the state included, does not
  fail. On an error the batch is dropped; the head in memory stays as the closure left it. The scan reads the blocks
  from the store. In the code a cache of blocks by height, filled when the head is set, comes first; it agrees with the
  store unless the batch was dropped, and then the code records positions for the dropped block where the scan here
  stops.\<close>

definition InsertBlock :: "nat \<Rightarrow> bool \<Rightarrow> bool \<Rightarrow> ((bytes \<rightharpoonup> bytes) \<Rightarrow> (bytes \<rightharpoonup> bytes)) \<Rightarrow> PovBlock \<Rightarrow> PovBlockChain
    \<Rightarrow> (perr + unit) \<times> PovBlockChain" where
  "InsertBlock fuel coin put CommitToDB block bc =
     (case insertBlock fuel (bc_db bc) (bc_genesis bc) coin CommitToDB block \<lparr>cs_db = bc_db bc, cs_latest = bc_latest bc\<rparr> of
        (r, s) \<Rightarrow>
          let bc' = bc\<lparr>bc_db := if put \<and> \<not> isl r then cs_db s else bc_db bc, bc_latest := cs_latest s\<rparr>;
              forkBlock = (case r of Inl _ \<Rightarrow> None | Inr (_, f) \<Rightarrow> f);
              db = snd (batchUpdateTxLookupInSync forkBlock (bc_latest bc') (bc_db bc'))
          in (case r of Inl e \<Rightarrow> Inl e | Inr _ \<Rightarrow> if put then Inr () else Inl ErrPovOther, bc'\<lparr>bc_db := db\<rparr>))"

section \<open>Starting the chain\<close>

definition NewPovTD :: PovTD where
  "NewPovTD = \<lparr>td_Chain = 0, td_Sha256d = 0, td_Scrypt = 0, td_X11 = 0, td_Hybrid = 0\<rparr>"

text \<open>\<open>curHash\<close> and \<open>CommitToDB\<close> are those of the state filled with the genesis entries; \<open>None\<close> is the panic.\<close>

definition resetWithGenesisBlock :: "hash \<Rightarrow> ((bytes \<rightharpoonup> bytes) \<Rightarrow> (bytes \<rightharpoonup> bytes)) \<Rightarrow> PovBlock \<Rightarrow> pov_db \<Rightarrow> (perr + PovBlockChain) option" where
  "resetWithGenesisBlock curHash CommitToDB genesis db =
     (case bindM (AddPovBlock genesis (CalcTotalDifficulty NewPovTD (pb_Header genesis))) (\<lambda>_.
           bindM (AddPovBestHash (pb_Height genesis) (pb_Hash genesis)) (\<lambda>_.
           bindM (SetPovLatestHeight (pb_Height genesis)) (\<lambda>_.
           bindM (mapME (\<lambda>(txHash, txLookup). AddPovTxLookup txHash txLookup) (block_lookups genesis)) (\<lambda>_.
           SetPovTxlScanCursor (pb_Height genesis))))) db of
        (Inl e, _) \<Rightarrow> Some (Inl e)
      | (Inr _, db') \<Rightarrow>
          if curHash \<noteq> cb_StateHash (ph_CbTx (pb_Header genesis)) then None
          else Some (Inr \<lparr>bc_db = snd (commitToDB CommitToDB db'), bc_latest = genesis, bc_genesis = genesis\<rparr>))"

definition ResetChainState :: "hash \<Rightarrow> ((bytes \<rightharpoonup> bytes) \<Rightarrow> (bytes \<rightharpoonup> bytes)) \<Rightarrow> PovBlock \<Rightarrow> pov_db \<Rightarrow> (perr + PovBlockChain) option" where
  "ResetChainState curHash CommitToDB genesis db = resetWithGenesisBlock curHash CommitToDB genesis (snd (DropAllPovBlocks db))"

text \<open>After a restart the head is read from the store.\<close>

definition loadLastState :: "pov_db \<Rightarrow> perr + PovBlock" where
  "loadLastState db = GetLatestPovBlock db"

end
