(* ===== verification/Pov_Chain_Inv.thy ===== *)
theory Pov_Chain_Inv
  imports Pov_Chain
begin

text \<open>The invariant of the proof-of-work chain and its preservation by \<open>InsertBlock\<close>: the tables agree, every
  stored block is one above its stored parent and carries the work of its ancestors, the best hashes are the
  ancestors of the head, and no stored block is heavier than the head.\<close>

section \<open>Heights and tables\<close>

lemma unat_Suc_eq: "unat a = Suc (unat b) \<Longrightarrow> a = b + (1 :: u64)"
  by (drule arg_cong [where f = "of_nat :: nat \<Rightarrow> u64"]) (simp add: add.commute)

definition tables_ok :: "pov_db \<Rightarrow> bool" where
  "tables_ok S \<longleftrightarrow> pv_height S ZeroHash = None \<and>
     (\<forall>hash height. (pv_header S (height, hash) \<noteq> None \<longleftrightarrow> pv_height S hash = Some height) \<and>
        (pv_body S (height, hash) \<noteq> None \<longleftrightarrow> pv_height S hash = Some height) \<and>
        (pv_td S (height, hash) \<noteq> None \<longleftrightarrow> pv_height S hash = Some height))"

definition td_of :: "pov_db \<Rightarrow> PovBlock \<Rightarrow> int" where
  "td_of S b = (case pv_td S (pb_Height b, pb_Hash b) of None \<Rightarrow> 0 | Some td \<Rightarrow> td_Chain td)"

definition work :: "PovBlock \<Rightarrow> int" where
  "work b = CalcWorkIntToBigNum (GetNormTargetInt (pb_Header b))"

text \<open>A block is linked when its parent is stored one height below.\<close>

definition linked :: "pov_db \<Rightarrow> PovBlock \<Rightarrow> bool" where
  "linked S b \<longleftrightarrow> (\<exists>p. GetBlockByHash S (pb_Previous b) = Some p \<and> unat (pb_Height b) = Suc (unat (pb_Height p)))"

definition blocks_ok :: "pov_db \<Rightarrow> PovBlock \<Rightarrow> bool" where
  "blocks_ok S G \<longleftrightarrow> GetBlockByHash S (pb_Hash G) = Some (Block_stored G) \<and> pb_Height G = 0 \<and> pb_Previous G = ZeroHash \<and>
     (\<forall>hash b. GetBlockByHash S hash = Some b \<longrightarrow> pb_Hash b = hash \<and> pv_height S hash = Some (pb_Height b) \<and> td_of S b \<ge> 0 \<and>
        Block_stored b = b \<and>
        (if pb_Height b = 0 then b = Block_stored G else linked S b \<and> work b > 0 \<and>
           td_of S b = td_of S (the (GetBlockByHash S (pb_Previous b))) + work b))"

definition best_ok :: "pov_db \<Rightarrow> PovBlock \<Rightarrow> bool" where
  "best_ok S L \<longleftrightarrow> GetBlockByHash S (pb_Hash L) = Some (Block_stored L) \<and> pv_latest S = Some (pb_Height L) \<and>
     pv_best S (pb_Height L) = Some (pb_Hash L) \<and>
     (\<forall>k > pb_Height L. pv_best S k = None) \<and>
     (\<forall>k \<le> pb_Height L. \<exists>b. pv_best S k = Some (pb_Hash b) \<and> GetBlockByHash S (pb_Hash b) = Some b \<and> pb_Height b = k \<and>
        (k \<noteq> 0 \<longrightarrow> pv_best S (k - 1) = Some (pb_Previous b)))"

definition heaviest :: "pov_db \<Rightarrow> PovBlock \<Rightarrow> bool" where
  "heaviest S L \<longleftrightarrow> (\<forall>hash b. GetBlockByHash S hash = Some b \<longrightarrow> td_of S b \<le> td_of S L)"

definition chain_inv :: "PovBlockChain \<Rightarrow> bool" where
  "chain_inv bc \<longleftrightarrow> tables_ok (bc_db bc) \<and> blocks_ok (bc_db bc) (bc_genesis bc) \<and> best_ok (bc_db bc) (bc_latest bc) \<and>
     heaviest (bc_db bc) (bc_latest bc)"

text \<open>Two states of the tables that differ only in what the best chain is.\<close>

definition same_blocks :: "pov_db \<Rightarrow> pov_db \<Rightarrow> bool" where
  "same_blocks S T \<longleftrightarrow> pv_header T = pv_header S \<and> pv_body T = pv_body S \<and> pv_height T = pv_height S \<and> pv_td T = pv_td S"

lemma same_blocks_refl [simp]: "same_blocks S S"
  by (simp add: same_blocks_def)

lemma same_blocks_trans: "same_blocks S T \<Longrightarrow> same_blocks T U \<Longrightarrow> same_blocks S U"
  by (simp add: same_blocks_def)

lemma same_blocks_upd [simp]:
  "same_blocks S (T\<lparr>pv_best := a\<rparr>) = same_blocks S T" "same_blocks S (T\<lparr>pv_latest := c\<rparr>) = same_blocks S T"
  "same_blocks S (T\<lparr>pv_txl := d\<rparr>) = same_blocks S T" "same_blocks S (T\<lparr>pv_cursor := e\<rparr>) = same_blocks S T"
  "same_blocks S (T\<lparr>pv_trie := f\<rparr>) = same_blocks S T"
  by (simp_all add: same_blocks_def)

lemma GetBlockByHash_unfold:
  "GetBlockByHash S hash = (if hash = ZeroHash then None else
     case pv_height S hash of None \<Rightarrow> None | Some height \<Rightarrow>
       (case pv_header S (height, hash) of None \<Rightarrow> None | Some h \<Rightarrow>
          map_option (\<lambda>txs. \<lparr>pb_Header = h, pb_Txs = txs\<rparr>) (pv_body S (height, hash))))"
  by (auto simp: GetBlockByHash_def GetPovBlockByHash_def pov_reads need_def split: option.splits)

lemma same_blocks_reads:
  assumes "same_blocks S T"
  shows "GetBlockByHash T = GetBlockByHash S" "td_of T = td_of S" "linked T = linked S" "tables_ok T = tables_ok S"
    "blocks_ok T G = blocks_ok S G" "heaviest T L = heaviest S L"
proof -
  show 1: "GetBlockByHash T = GetBlockByHash S" "td_of T = td_of S"
    using assms by (simp_all only: same_blocks_def GetBlockByHash_unfold [abs_def] td_of_def [abs_def])
  show 2: "linked T = linked S" by (simp add: fun_eq_iff linked_def 1)
  show "tables_ok T = tables_ok S" using assms by (simp add: tables_ok_def same_blocks_def)
  show "blocks_ok T G = blocks_ok S G" using assms by (simp add: blocks_ok_def 1 2 same_blocks_def)
  show "heaviest T L = heaviest S L" by (simp add: heaviest_def 1)
qed

lemma GetBlock_zero [simp]: "GetBlockByHash S ZeroHash = None"
  by (simp add: GetBlockByHash_def)

lemma GetBlock_ok:
  assumes "blocks_ok S G" "GetBlockByHash S hash = Some b"
  shows "pb_Hash b = hash" "pv_height S hash = Some (pb_Height b)" "td_of S b \<ge> 0" "Block_stored b = b"
    "pb_Height b = 0 \<Longrightarrow> b = Block_stored G" "pb_Height b \<noteq> 0 \<Longrightarrow> linked S b \<and> work b > 0"
    "pb_Height b \<noteq> 0 \<Longrightarrow> td_of S b = td_of S (the (GetBlockByHash S (pb_Previous b))) + work b"
  using assms by (auto simp: blocks_ok_def split: if_splits)

lemma linked_prev: "linked S b \<Longrightarrow> \<exists>p. GetBlockByHash S (pb_Previous b) = Some p \<and> pb_Height b = pb_Height p + 1 \<and>
    unat (pb_Height b) = Suc (unat (pb_Height p)) \<and> pb_Previous b \<noteq> ZeroHash"
  by (auto simp: linked_def dest: unat_Suc_eq)

section \<open>Paths\<close>

text \<open>\<open>path S b xs f\<close>: going down from \<open>b\<close> passes \<open>xs\<close> and reaches \<open>f\<close>.\<close>

fun path :: "pov_db \<Rightarrow> PovBlock \<Rightarrow> PovBlock list \<Rightarrow> PovBlock \<Rightarrow> bool" where
  "path S b [] f \<longleftrightarrow> b = f"
| "path S b (x # xs) f \<longleftrightarrow> x = b \<and> linked S b \<and> path S (the (GetBlockByHash S (pb_Previous b))) xs f"

lemma path_append: "path S b xs c \<Longrightarrow> path S c ys f \<Longrightarrow> path S b (xs @ ys) f"
  by (induction xs arbitrary: b) auto

lemma path_height: "path S b xs f \<Longrightarrow> unat (pb_Height b) = unat (pb_Height f) + length xs"
proof (induction xs arbitrary: b)
  case (Cons x xs)
  then show ?case using linked_prev [of S b] by auto
qed simp

lemma path_mem: "path S b xs f \<Longrightarrow> x \<in> set xs \<Longrightarrow> unat (pb_Height f) < unat (pb_Height x) \<and> unat (pb_Height x) \<le> unat (pb_Height b)"
proof (induction xs arbitrary: b)
  case (Cons y xs)
  let ?p = "the (GetBlockByHash S (pb_Previous b))"
  have h: "unat (pb_Height b) = Suc (unat (pb_Height ?p))" using linked_prev [of S b] Cons.prems(1) by auto
  show ?case
  proof (cases "x = b")
    case True
    then show ?thesis using path_height [OF Cons.prems(1)] by simp
  next
    case False
    then show ?thesis using Cons.IH [of ?p] Cons.prems h by auto
  qed
qed simp

lemma path_end:
  assumes "path S b xs f" "xs \<noteq> []"
  shows "\<exists>hash. GetBlockByHash S hash = Some f"
  using assms
proof (induction xs arbitrary: b)
  case (Cons x xs)
  then show ?case using linked_prev [of S b] by (cases xs) auto
qed simp

text \<open>In a sound store a linked block has a path to every height below.\<close>

lemma walk_back_path:
  assumes "blocks_ok S G" "linked S b \<or> (\<exists>hash. GetBlockByHash S hash = Some b)" "n \<le> unat (pb_Height b)"
  shows "\<exists>xs f. walk_back S n b acc = Inr (acc @ xs, f) \<and> path S b xs f \<and> length xs = n"
  using assms(2,3)
proof (induction n arbitrary: b acc)
  case (Suc n)
  have "pb_Height b \<noteq> 0" using Suc.prems(2) by auto
  then have "linked S b" using Suc.prems(1) GetBlock_ok(6) [OF assms(1)] by blast
  then obtain p where p: "GetBlockByHash S (pb_Previous b) = Some p" "unat (pb_Height b) = Suc (unat (pb_Height p))"
    "pb_Previous b \<noteq> ZeroHash" using linked_prev by blast
  have "n \<le> unat (pb_Height p)" using Suc.prems(2) p(2) by simp
  from Suc.IH [OF _ this, of "acc @ [b]"] obtain xs f
    where "walk_back S n p (acc @ [b]) = Inr ((acc @ [b]) @ xs, f)" "path S p xs f" "length xs = n" using p(1) by blast
  then have "walk_back S (Suc n) b acc = Inr (acc @ (b # xs), f) \<and> path S b (b # xs) f \<and> length (b # xs) = Suc n"
    using p \<open>linked S b\<close> by simp
  then show ?case by blast
qed simp

lemma find_fork_path:
  assumes "blocks_ok S G" "linked S a" "linked S d" "unat (pb_Height a) = unat (pb_Height d)" "unat (pb_Height a) \<le> n"
  shows "\<exists>xs ys f. find_fork S n a d A D = Some (Inr (A @ xs, D @ ys, pb_Hash f)) \<and> path S a xs f \<and> path S d ys f \<and>
     GetBlockByHash S (pb_Hash f) = Some f \<and> xs \<noteq> [] \<and> ys \<noteq> []"
  using assms(2-)
proof (induction n arbitrary: a d A D)
  case (Suc n)
  from Suc.prems obtain p q where p: "GetBlockByHash S (pb_Previous a) = Some p" "unat (pb_Height a) = Suc (unat (pb_Height p))"
    and q: "GetBlockByHash S (pb_Previous d) = Some q" "unat (pb_Height d) = Suc (unat (pb_Height q))"
    using linked_prev by blast
  note hp = GetBlock_ok [OF assms(1) p(1)] and hq = GetBlock_ok [OF assms(1) q(1)]
  show ?case
  proof (cases "pb_Previous a = pb_Previous d")
    case True
    then have "find_fork S (Suc n) a d A D = Some (Inr (A @ [a], D @ [d], pb_Hash p)) \<and> path S a [a] p \<and> path S d [d] p \<and>
       GetBlockByHash S (pb_Hash p) = Some p"
      using p(1) hp(1) Suc.prems(1,2) by simp
    then show ?thesis by blast
  next
    case False
    have "pb_Height p \<noteq> 0"
    proof
      assume "pb_Height p = 0"
      then have "pb_Height q = 0" using p(2) q(2) Suc.prems(3) by (simp add: unat_eq_0)
      then have "pb_Hash p = pb_Hash q" using hp(5) hq(5) \<open>pb_Height p = 0\<close> by metis
      with False hp(1) hq(1) show False by simp
    qed
    moreover have "pb_Height q = pb_Height p" using p(2) q(2) Suc.prems(3) by (simp add: word_unat_eq_iff)
    ultimately have l: "linked S p" "linked S q" using hp(6) hq(6) by auto
    have n: "unat (pb_Height p) = unat (pb_Height q)" "unat (pb_Height p) \<le> n" using p(2) q(2) Suc.prems(3,4) by simp_all
    from Suc.IH [OF l n, of "A @ [a]" "D @ [d]"] obtain xs ys f
      where "find_fork S n p q (A @ [a]) (D @ [d]) = Some (Inr ((A @ [a]) @ xs, (D @ [d]) @ ys, pb_Hash f))"
        "path S p xs f" "path S q ys f" "GetBlockByHash S (pb_Hash f) = Some f" by blast
    then have "find_fork S (Suc n) a d A D = Some (Inr (A @ (a # xs), D @ (d # ys), pb_Hash f)) \<and> path S a (a # xs) f \<and>
       path S d (d # ys) f \<and> GetBlockByHash S (pb_Hash f) = Some f \<and> a # xs \<noteq> [] \<and> d # ys \<noteq> []"
      using False p(1) q(1) Suc.prems(1,2) by simp
    then show ?thesis by blast
  qed
qed (auto simp: linked_def)

section \<open>Switching branches\<close>

lemma mapME_append: "mapME f (xs @ ys) = bindM (mapME f xs) (\<lambda>_. mapME f ys)"
  by (induction xs) (auto simp: fun_eq_iff bindM_def split: prod.splits sum.splits)

text \<open>The positions after a block left or joined the best chain.\<close>

definition without_cb :: "PovBlock \<Rightarrow> (hash \<rightharpoonup> PovTxLookup) \<Rightarrow> (hash \<rightharpoonup> PovTxLookup)" where
  "without_cb b m = (case pb_Txs b of [] \<Rightarrow> m | t # _ \<Rightarrow> m(pt_Hash t := None))"

definition with_cb :: "PovBlock \<Rightarrow> (hash \<rightharpoonup> PovTxLookup) \<Rightarrow> (hash \<rightharpoonup> PovTxLookup)" where
  "with_cb b m = (case pb_Txs b of [] \<Rightarrow> m
     | t # _ \<Rightarrow> m(pt_Hash t \<mapsto> \<lparr>txl_BlockHash = pb_Hash b, txl_BlockHeight = pb_Height b, txl_TxIndex = 0\<rparr>))"

lemma disconnect_step:
  assumes "pb_Hash (cs_latest s) = pb_Hash b" "linked S b"
  shows "disconnectBestBlock S b s =
     (Inr (), s\<lparr>cs_db := (cs_db s)\<lparr>pv_best := (pv_best (cs_db s))(pb_Height b := None),
        pv_latest := Some (pb_Height (the (GetBlockByHash S (pb_Previous b)))), pv_txl := without_cb b (pv_txl (cs_db s))\<rparr>,
        cs_latest := the (GetBlockByHash S (pb_Previous b))\<rparr>)"
proof -
  obtain p where "GetBlockByHash S (pb_Previous b) = Some p" using assms(2) linked_prev by blast
  then show ?thesis using assms(1)
    by (cases s, cases "cs_db s") (auto simp: disconnectBestBlock_def disconnectTransactions_def disconnectBlock_def
      StoreLatestBlock_def without_cb_def pov_writes bindM_def split: list.splits)
qed

lemma connect_step:
  assumes "pb_Height b = pb_Height (cs_latest s) + 1"
  shows "connectBestBlock b s =
     (Inr (), s\<lparr>cs_db := (cs_db s)\<lparr>pv_best := (pv_best (cs_db s))(pb_Height b \<mapsto> pb_Hash b),
        pv_latest := Some (pb_Height b), pv_txl := with_cb b (pv_txl (cs_db s))\<rparr>, cs_latest := b\<rparr>)"
  using assms
  by (cases s, cases "cs_db s") (auto simp: connectBestBlock_def connectTransactions_def connectBlock_def
    StoreLatestBlock_def with_cb_def pov_writes bindM_def split: list.splits)

text \<open>What is kept of the tables and of the best chain outside a range of heights.\<close>

definition moved :: "nat \<Rightarrow> nat \<Rightarrow> pov_db \<Rightarrow> pov_db \<Rightarrow> bool" where
  "moved lo hi db db' \<longleftrightarrow> same_blocks db db' \<and> pv_trie db' = pv_trie db \<and> pv_cursor db' = pv_cursor db \<and>
     (\<forall>k. \<not> (lo < unat k \<and> unat k \<le> hi) \<longrightarrow> pv_best db' k = pv_best db k)"

lemma detach_path:
  assumes "path S b D f" "pb_Hash (cs_latest s) = pb_Hash b" "D \<noteq> []"
  shows "\<exists>s'. mapME (disconnectBestBlock S) D s = (Inr (), s') \<and> cs_latest s' = f \<and>
     moved (unat (pb_Height f)) (unat (pb_Height b)) (cs_db s) (cs_db s') \<and>
     pv_txl (cs_db s') = fold without_cb D (pv_txl (cs_db s)) \<and>
     (\<forall>k. unat (pb_Height f) < unat k \<and> unat k \<le> unat (pb_Height b) \<longrightarrow> pv_best (cs_db s') k = None)"
  using assms
proof (induction D arbitrary: b s)
  case (Cons x D)
  let ?p = "the (GetBlockByHash S (pb_Previous b))"
  have x: "x = b" "linked S b" "path S ?p D f" using Cons.prems(1) by simp_all
  have h: "unat (pb_Height b) = Suc (unat (pb_Height ?p))" using linked_prev [OF x(2)] by auto
  have s1: "disconnectBestBlock S b s =
     (Inr (), s\<lparr>cs_db := (cs_db s)\<lparr>pv_best := (pv_best (cs_db s))(pb_Height b := None),
        pv_latest := Some (pb_Height ?p), pv_txl := without_cb b (pv_txl (cs_db s))\<rparr>, cs_latest := ?p\<rparr>)" (is "_ = (_, ?s)")
    using disconnect_step [OF Cons.prems(2) x(2)] .
  have hf: "unat (pb_Height f) \<le> unat (pb_Height ?p)" using path_height [OF x(3)] by simp
  have m: "moved (unat (pb_Height ?p)) (unat (pb_Height b)) (cs_db s) (cs_db ?s)" using h by (auto simp: moved_def)
  have "\<exists>s'. mapME (disconnectBestBlock S) D ?s = (Inr (), s') \<and> cs_latest s' = f \<and>
     moved (unat (pb_Height f)) (unat (pb_Height ?p)) (cs_db ?s) (cs_db s') \<and>
     pv_txl (cs_db s') = fold without_cb D (pv_txl (cs_db ?s)) \<and>
     (\<forall>k. unat (pb_Height f) < unat k \<and> unat k \<le> unat (pb_Height ?p) \<longrightarrow> pv_best (cs_db s') k = None)"
  proof (cases "D = []")
    case True
    then have "?p = f" using x(3) by simp
    then show ?thesis using True by (intro exI [of _ ?s]) (auto simp: moved_def)
  next
    case False
    show ?thesis by (rule Cons.IH [OF x(3) _ False]) simp
  qed
  then obtain s' where s': "mapME (disconnectBestBlock S) D ?s = (Inr (), s')" "cs_latest s' = f"
    "moved (unat (pb_Height f)) (unat (pb_Height ?p)) (cs_db ?s) (cs_db s')"
    "pv_txl (cs_db s') = fold without_cb D (pv_txl (cs_db ?s))"
    "\<forall>k. unat (pb_Height f) < unat k \<and> unat k \<le> unat (pb_Height ?p) \<longrightarrow> pv_best (cs_db s') k = None" by blast
  have "moved (unat (pb_Height f)) (unat (pb_Height b)) (cs_db s) (cs_db s')"
    using s'(3) m h hf by (auto simp: moved_def same_blocks_def)
  moreover have "pv_best (cs_db s') k = None" if "unat (pb_Height f) < unat k" "unat k \<le> unat (pb_Height b)" for k
    using s'(3,5) that h by (cases "k = pb_Height b") (auto simp: moved_def word_unat_eq_iff)
  ultimately show ?case using s'(1,2,4) s1 x(1) by (intro exI [of _ s']) (simp add: bindM_def)
qed simp

lemma attach_path:
  assumes "path S b A f" "pb_Height (cs_latest s) = pb_Height f" "A \<noteq> []"
  shows "\<exists>s'. mapME connectBestBlock (rev A) s = (Inr (), s') \<and> cs_latest s' = b \<and>
     moved (unat (pb_Height f)) (unat (pb_Height b)) (cs_db s) (cs_db s') \<and> pv_latest (cs_db s') = Some (pb_Height b) \<and>
     pv_txl (cs_db s') = foldr with_cb A (pv_txl (cs_db s)) \<and>
     (\<forall>x \<in> set A. pv_best (cs_db s') (pb_Height x) = Some (pb_Hash x))"
  using assms
proof (induction A arbitrary: b)
  case (Cons x A)
  let ?p = "the (GetBlockByHash S (pb_Previous b))"
  have x: "x = b" "linked S b" "path S ?p A f" using Cons.prems(1) by simp_all
  have h: "unat (pb_Height b) = Suc (unat (pb_Height ?p))" "pb_Height b = pb_Height ?p + 1" using linked_prev [OF x(2)] by auto
  have hf: "unat (pb_Height f) \<le> unat (pb_Height ?p)" using path_height [OF x(3)] by simp
  have hA: "unat (pb_Height y) \<le> unat (pb_Height ?p)" if "y \<in> set A" for y using path_mem [OF x(3) that] by simp
  have "\<exists>s'. mapME connectBestBlock (rev A) s = (Inr (), s') \<and> pb_Height (cs_latest s') = pb_Height ?p \<and>
     moved (unat (pb_Height f)) (unat (pb_Height ?p)) (cs_db s) (cs_db s') \<and>
     pv_txl (cs_db s') = foldr with_cb A (pv_txl (cs_db s)) \<and>
     (\<forall>x \<in> set A. pv_best (cs_db s') (pb_Height x) = Some (pb_Hash x))"
  proof (cases "A = []")
    case True
    then show ?thesis using x(3) Cons.prems(2) by (auto simp: moved_def)
  next
    case False
    from Cons.IH [OF x(3) Cons.prems(2) this] show ?thesis by (elim ex_forward) simp
  qed
  then obtain s' where s': "mapME connectBestBlock (rev A) s = (Inr (), s')" "pb_Height (cs_latest s') = pb_Height ?p"
    "moved (unat (pb_Height f)) (unat (pb_Height ?p)) (cs_db s) (cs_db s')"
    "pv_txl (cs_db s') = foldr with_cb A (pv_txl (cs_db s))"
    "\<forall>x \<in> set A. pv_best (cs_db s') (pb_Height x) = Some (pb_Hash x)" by blast
  have s2: "connectBestBlock b s' =
     (Inr (), s'\<lparr>cs_db := (cs_db s')\<lparr>pv_best := (pv_best (cs_db s'))(pb_Height b \<mapsto> pb_Hash b),
        pv_latest := Some (pb_Height b), pv_txl := with_cb b (pv_txl (cs_db s'))\<rparr>, cs_latest := b\<rparr>)" (is "_ = (_, ?t)")
    using h(2) s'(2) by (intro connect_step) simp
  have "moved (unat (pb_Height f)) (unat (pb_Height b)) (cs_db s) (cs_db ?t)"
    using s'(3) h(1) hf by (auto simp: moved_def same_blocks_def)
  moreover have "\<forall>x \<in> set (x # A). pv_best (cs_db ?t) (pb_Height x) = Some (pb_Hash x)"
    using s'(5) x(1) hA h(1) by fastforce
  ultimately show ?case using s'(1,4) s2 x(1) by (intro exI [of _ ?t]) (simp add: mapME_append bindM_def)
qed simp

section \<open>The fork\<close>

text \<open>Every block on the way down from the head is the best one of its height.\<close>

lemma path_best:
  assumes "blocks_ok S G" "best_ok S L" "path S b xs f" "pv_best S (pb_Height b) = Some (pb_Hash b)" "pb_Height b \<le> pb_Height L"
    "GetBlockByHash S (pb_Hash b) = Some (Block_stored b)"
  shows "pv_best S (pb_Height f) = Some (pb_Hash f)"
  using assms(3-)
proof (induction xs arbitrary: b)
  case (Cons x xs)
  let ?p = "the (GetBlockByHash S (pb_Previous b))"
  have l: "linked S b" using Cons.prems(1) by simp
  obtain p where p: "GetBlockByHash S (pb_Previous b) = Some p" "pb_Height b = pb_Height p + 1"
    "unat (pb_Height b) = Suc (unat (pb_Height p))" using linked_prev [OF l] by blast
  obtain c where c: "pv_best S (pb_Height b) = Some (pb_Hash c)" "GetBlockByHash S (pb_Hash c) = Some c"
    "pb_Height b \<noteq> 0 \<longrightarrow> pv_best S (pb_Height b - 1) = Some (pb_Previous c)"
    using assms(2) Cons.prems(3) unfolding best_ok_def by blast
  have "c = Block_stored b" using c(1,2) Cons.prems(2,4) by simp
  then have "pv_best S (pb_Height p) = Some (pb_Previous b)" using c(3) p(2,3) by (auto simp: unat_eq_0)
  then have "pv_best S (pb_Height p) = Some (pb_Hash p)" using GetBlock_ok(1) [OF assms(1) p(1)] by simp
  moreover have "pb_Height p \<le> pb_Height L" using Cons.prems(3) p(3) by (simp add: word_le_nat_alt)
  moreover have "path S p xs f" using Cons.prems(1) p(1) by simp
  moreover have "GetBlockByHash S (pb_Hash p) = Some (Block_stored p)"
    using GetBlock_ok(1,4) [OF assms(1) p(1)] p(1) by simp
  ultimately show ?case using Cons.IH [of p] by simp
qed simp

text \<open>The work of a block exceeds that of the blocks below it.\<close>

lemma path_td:
  assumes "blocks_ok S G" "path S b xs f" "GetBlockByHash S (pb_Hash b) = Some b"
  shows "td_of S f \<le> td_of S b \<and> (xs \<noteq> [] \<longrightarrow> td_of S f < td_of S b)"
  using assms(2-)
proof (induction xs arbitrary: b)
  case (Cons x xs)
  have l: "linked S b" using Cons.prems(1) by simp
  obtain p where p: "GetBlockByHash S (pb_Previous b) = Some p" "unat (pb_Height b) = Suc (unat (pb_Height p))"
    using linked_prev [OF l] by blast
  have "pb_Height b \<noteq> 0" using p(2) by auto
  then have "td_of S b = td_of S p + work b" "work b > 0" using GetBlock_ok(6,7) [OF assms(1) Cons.prems(2)] p(1) by auto
  moreover have "path S p xs f" using Cons.prems(1) p(1) by simp
  moreover have "GetBlockByHash S (pb_Hash p) = Some p" using GetBlock_ok(1) [OF assms(1) p(1)] p(1) by simp
  ultimately show ?case using Cons.IH [of p] by auto
qed simp

lemma path_at:
  assumes "blocks_ok S G" "path S b xs f" "unat (pb_Height f) < k" "k \<le> unat (pb_Height b)"
  shows "\<exists>x \<in> set xs. unat (pb_Height x) = k \<and> linked S x \<and> (x = b \<or> GetBlockByHash S (pb_Hash x) = Some x) \<and>
    (\<exists>p. GetBlockByHash S (pb_Previous x) = Some p \<and> (p \<in> set xs \<or> p = f))"
  using assms(2-)
proof (induction xs arbitrary: b)
  case (Cons x xs)
  have l: "linked S b" "x = b" using Cons.prems(1) by simp_all
  obtain p where p: "GetBlockByHash S (pb_Previous b) = Some p" "unat (pb_Height b) = Suc (unat (pb_Height p))"
    using linked_prev [OF l(1)] by blast
  have pa: "path S p xs f" using Cons.prems(1) p(1) by simp
  show ?case
  proof (cases "k = unat (pb_Height b)")
    case True
    have "p \<in> set xs \<or> p = f" using pa by (cases xs) auto
    then show ?thesis using True l p(1) by auto
  next
    case False
    then have "k \<le> unat (pb_Height p)" using Cons.prems(3) p(2) by simp
    from Cons.IH [OF pa Cons.prems(2) this] obtain y where y: "y \<in> set xs" "unat (pb_Height y) = k" "linked S y"
      "y = p \<or> GetBlockByHash S (pb_Hash y) = Some y" "\<exists>q. GetBlockByHash S (pb_Previous y) = Some q \<and> (q \<in> set xs \<or> q = f)" by blast
    have "GetBlockByHash S (pb_Hash y) = Some y" using y(4) GetBlock_ok(1) [OF assms(1) p(1)] p(1) by auto
    then show ?thesis using y by auto
  qed
qed simp

lemma processFork_walks:
  assumes "blocks_ok S G" "best_ok S L" "heaviest S L" "linked S B" "pb_Previous B \<noteq> pb_Hash L"
  shows "\<exists>A a D d. walk_back S (unat (pb_Height B) - unat (pb_Height L)) B [] = Inr (A, a) \<and> path S B A a \<and>
     walk_back S (unat (pb_Height L) - unat (pb_Height B)) L [] = Inr (D, d) \<and> path S L D d \<and>
     unat (pb_Height a) = unat (pb_Height d) \<and> linked S a \<and> linked S d \<and> unat (pb_Height a) \<le> unat (pb_Height B)"
proof -
  let ?n = "unat (pb_Height B) - unat (pb_Height L)" and ?m = "unat (pb_Height L) - unat (pb_Height B)"
  have Ls: "GetBlockByHash S (pb_Hash L) = Some (Block_stored L)" using assms(2) by (simp add: best_ok_def)
  have lL: "linked S (Block_stored L) = linked S L" "td_of S (Block_stored L) = td_of S L" by (simp_all add: linked_def td_of_def)
  obtain A a where A: "walk_back S ?n B [] = Inr (A, a)" "path S B A a" "length A = ?n"
    using walk_back_path [OF assms(1), of B ?n "[]"] assms(4) unfolding append_Nil by (meson diff_le_self)
  have "linked S L \<or> unat (pb_Height L) = 0"
    using GetBlock_ok(6) [OF assms(1) Ls] lL by (auto simp: unat_eq_0)
  then have "\<exists>D d. walk_back S ?m L [] = Inr ([] @ D, d) \<and> path S L D d \<and> length D = ?m"
  proof
    assume "linked S L"
    then show ?thesis by (intro walk_back_path [OF assms(1)]) simp_all
  qed simp
  then obtain D d where D: "walk_back S ?m L [] = Inr (D, d)" "path S L D d" "length D = ?m" unfolding append_Nil by blast
  have ha: "unat (pb_Height a) = unat (pb_Height d)" "unat (pb_Height a) \<le> unat (pb_Height B)"
    using path_height [OF A(2)] path_height [OF D(2)] A(3) D(3) by linarith+
  obtain P where P: "GetBlockByHash S (pb_Previous B) = Some P" "unat (pb_Height B) = Suc (unat (pb_Height P))"
    using linked_prev [OF assms(4)] by blast
  have "unat (pb_Height a) \<noteq> 0"
  proof
    assume z: "unat (pb_Height a) = 0"
    then have "unat (pb_Height L) = 0" using ha(1) path_height [OF D(2)] path_height [OF A(2)] A(3) D(3) P(2) by linarith
    then have L0: "Block_stored L = Block_stored G" using GetBlock_ok(5) [OF assms(1) Ls] by (simp add: unat_eq_0)
    have PP: "GetBlockByHash S (pb_Hash P) = Some P" using GetBlock_ok(1) [OF assms(1) P(1)] P(1) by simp
    have "A \<noteq> []" using z A(2) P(2) by (cases A) auto
    then obtain A' where A': "A = B # A'" "path S P A' a" using A(2) P(1) by (cases A) auto
    show False
    proof (cases "A' = []")
      case True
      then have "P = Block_stored G" using A'(2) z GetBlock_ok(5) [OF assms(1) P(1)] by (simp add: unat_eq_0)
      then have "pb_Hash P = pb_Hash L" using L0 by (metis Block_stored_simps(1))
      then show False using GetBlock_ok(1) [OF assms(1) P(1)] assms(5) by simp
    next
      case False
      then have "td_of S a < td_of S P" using path_td [OF assms(1) A'(2) PP] by simp
      moreover obtain h where h: "GetBlockByHash S h = Some a" using path_end [OF A'(2) False] by blast
      have "a = Block_stored G" using GetBlock_ok(5) [OF assms(1) h] z by (simp add: unat_eq_0)
      then have "td_of S a = td_of S L" using L0 lL(2) by simp
      moreover have "td_of S P \<le> td_of S L" using assms(3) P(1) unfolding heaviest_def by blast
      ultimately show False by simp
    qed
  qed
  then have nz: "pb_Height a \<noteq> 0" "pb_Height d \<noteq> 0" using ha(1) by (auto simp: unat_eq_0)
  have "linked S a"
  proof (cases "A = []")
    case True then show ?thesis using A(2) assms(4) by simp
  next
    case False then show ?thesis using path_end [OF A(2) False] GetBlock_ok(6) [OF assms(1)] nz(1) by blast
  qed
  moreover have "linked S d"
  proof (cases "D = []")
    case True then show ?thesis using D(2) GetBlock_ok(6) [OF assms(1) Ls] nz(2) lL(1) by simp
  next
    case False then show ?thesis using path_end [OF D(2) False] GetBlock_ok(6) [OF assms(1)] nz(2) by blast
  qed
  ultimately show ?thesis using A(1,2) D(1,2) ha by blast
qed

text \<open>What switching the head from one block to another does to the tables.\<close>

definition switched :: "pov_db \<Rightarrow> pov_db \<Rightarrow> PovBlock \<Rightarrow> PovBlock list \<Rightarrow> PovBlock \<Rightarrow> bool" where
  "switched db db' B A f \<longleftrightarrow> same_blocks db db' \<and> pv_trie db' = pv_trie db \<and> pv_cursor db' = pv_cursor db \<and>
     pv_latest db' = Some (pb_Height B) \<and>
     (\<forall>k. unat k \<le> unat (pb_Height f) \<longrightarrow> pv_best db' k = pv_best db k) \<and>
     (\<forall>x \<in> set A. pv_best db' (pb_Height x) = Some (pb_Hash x)) \<and> (\<forall>k > pb_Height B. pv_best db' k = None)"

lemma processFork_ok:
  assumes "blocks_ok S G" "best_ok S L" "heaviest S L" "linked S B" "pb_Previous B \<noteq> pb_Hash L" "unat (pb_Height B) \<le> n"
    "cs_latest s = L" "pv_best (cs_db s) = pv_best S"
  shows "\<exists>A D f. path S B A f \<and> path S L D f \<and> A \<noteq> [] \<and> D \<noteq> [] \<and> GetBlockByHash S (pb_Hash f) = Some f \<and>
    (if length D > PoVMaxForkHeight then processFork n S G B s = (Inl ErrPovInvalidFork, s)
     else \<exists>s'. processFork n S G B s = (Inr f, s') \<and> cs_latest s' = B \<and> switched (cs_db s) (cs_db s') B A f \<and>
        pv_txl (cs_db s') = foldr with_cb A (fold without_cb D (pv_txl (cs_db s))))"
proof -
  obtain A0 a D0 d where w: "walk_back S (unat (pb_Height B) - unat (pb_Height L)) B [] = Inr (A0, a)" "path S B A0 a"
     "walk_back S (unat (pb_Height L) - unat (pb_Height B)) L [] = Inr (D0, d)" "path S L D0 d"
     "unat (pb_Height a) = unat (pb_Height d)" "linked S a" "linked S d" "unat (pb_Height a) \<le> unat (pb_Height B)"
    using processFork_walks [OF assms(1-5)] by blast
  have n: "unat (pb_Height a) \<le> n" using w(8) assms(6) by simp
  from find_fork_path [OF assms(1) w(6,7,5) n, of A0 D0] obtain xs ys f
    where f: "find_fork S n a d A0 D0 = Some (Inr (A0 @ xs, D0 @ ys, pb_Hash f))" "path S a xs f" "path S d ys f"
      "GetBlockByHash S (pb_Hash f) = Some f" "xs \<noteq> []" "ys \<noteq> []" by blast
  define A D where "A = A0 @ xs" and "D = D0 @ ys"
  have p: "path S B A f" "path S L D f" "A \<noteq> []" "D \<noteq> []"
    using path_append w(2,4) f(2,3,5,6) by (auto simp: A_def D_def)
  have h: "pb_Hash f \<noteq> ZeroHash" using f(4) by auto
  have eq: "pb_Height a = pb_Height d" using w(5) by (simp add: word_unat_eq_iff)
  have run: "processFork n S G B s = (if length D > PoVMaxForkHeight then (Inl ErrPovInvalidFork, s)
      else bindM (mapME (disconnectBestBlock S) D) (\<lambda>_. bindM (mapME connectBestBlock (rev A)) (\<lambda>_. returnM f)) s)"
    using assms(7) w(1,3) f(1,4) h eq by (simp add: processFork_def bindM_def A_def D_def)
  have "pb_Hash (cs_latest s) = pb_Hash L" using assms(7) by simp
  from detach_path [OF p(2) this p(4)] obtain s1 where s1: "mapME (disconnectBestBlock S) D s = (Inr (), s1)" "cs_latest s1 = f"
     "moved (unat (pb_Height f)) (unat (pb_Height L)) (cs_db s) (cs_db s1)" "pv_txl (cs_db s1) = fold without_cb D (pv_txl (cs_db s))"
     "\<And>k. unat (pb_Height f) < unat k \<Longrightarrow> unat k \<le> unat (pb_Height L) \<Longrightarrow> pv_best (cs_db s1) k = None" by blast
  have "pb_Height (cs_latest s1) = pb_Height f" using s1(2) by simp
  from attach_path [OF p(1) this p(3)] obtain s2 where s2: "mapME connectBestBlock (rev A) s1 = (Inr (), s2)" "cs_latest s2 = B"
     "moved (unat (pb_Height f)) (unat (pb_Height B)) (cs_db s1) (cs_db s2)" "pv_latest (cs_db s2) = Some (pb_Height B)"
     "pv_txl (cs_db s2) = foldr with_cb A (pv_txl (cs_db s1))" "\<forall>x \<in> set A. pv_best (cs_db s2) (pb_Height x) = Some (pb_Hash x)" by blast
  have top: "pv_best (cs_db s2) k = None" if "pb_Height B < k" for k
  proof -
    have kf: "unat (pb_Height f) < unat k" using that path_height [OF p(1)] by (simp add: word_less_nat_alt)
    have "pv_best (cs_db s2) k = pv_best (cs_db s1) k" using s2(3) that by (simp add: moved_def word_less_nat_alt)
    also have "\<dots> = None"
    proof (cases "unat k \<le> unat (pb_Height L)")
      case False
      then have "pb_Height L < k" by (simp add: word_less_nat_alt)
      then show ?thesis using s1(3) False assms(2,8) by (simp add: moved_def best_ok_def)
    qed (use s1(5) kf in simp)
    finally show ?thesis .
  qed
  have "switched (cs_db s) (cs_db s2) B A f"
    using s1(3) s2(3,4,6) top unfolding switched_def moved_def by (auto intro: same_blocks_trans)
  then show ?thesis using run s1(1,4) s2(1,2,5) p f(4) by (intro exI [of _ A] exI [of _ D] exI [of _ f]) (simp add: bindM_def)
qed

lemma best_switch:
  assumes "blocks_ok S G" "best_ok S L" "path S B A f" "A \<noteq> []" "pb_Height f \<le> pb_Height L" "pv_best S (pb_Height f) = Some (pb_Hash f)"
    "\<And>h b. GetBlockByHash S h = Some b \<Longrightarrow> GetBlockByHash T h = Some b" "GetBlockByHash T (pb_Hash B) = Some (Block_stored B)"
    "\<And>k. unat k \<le> unat (pb_Height f) \<Longrightarrow> pv_best T k = pv_best S k" "\<forall>x \<in> set A. pv_best T (pb_Height x) = Some (pb_Hash x)"
    "\<forall>k > pb_Height B. pv_best T k = None" "pv_latest T = Some (pb_Height B)"
  shows "best_ok T B"
  unfolding best_ok_def
proof (intro conjI assms(8,11,12) allI impI)
  have BA: "B \<in> set A" using assms(3,4) by (cases A) auto
  then show "pv_best T (pb_Height B) = Some (pb_Hash B)" using assms(10) by simp
  fix k assume k: "k \<le> pb_Height B"
  show "\<exists>b. pv_best T k = Some (pb_Hash b) \<and> GetBlockByHash T (pb_Hash b) = Some b \<and> pb_Height b = k \<and>
        (k \<noteq> 0 \<longrightarrow> pv_best T (k - 1) = Some (pb_Previous b))"
  proof (cases "unat k \<le> unat (pb_Height f)")
    case True
    then have "k \<le> pb_Height L" using assms(5) by (simp add: word_le_nat_alt)
    then obtain b where b: "pv_best S k = Some (pb_Hash b)" "GetBlockByHash S (pb_Hash b) = Some b" "pb_Height b = k"
        "k \<noteq> 0 \<longrightarrow> pv_best S (k - 1) = Some (pb_Previous b)" using assms(2) unfolding best_ok_def by blast
    have "k \<noteq> 0 \<longrightarrow> pv_best T (k - 1) = pv_best S (k - 1)" using True assms(9) [of "k - 1"] by (simp add: unat_minus_one)
    then show ?thesis using b True assms(7,9) by (intro exI [of _ b]) auto
  next
    case False
    then obtain x p where x: "x \<in> set A" "unat (pb_Height x) = unat k" "linked S x" "x = B \<or> GetBlockByHash S (pb_Hash x) = Some x"
       "GetBlockByHash S (pb_Previous x) = Some p" "p \<in> set A \<or> p = f"
      using path_at [OF assms(1,3), of "unat k"] k by (auto simp: word_le_nat_alt)
    have hx: "pb_Height x = k" using x(2) by (simp add: word_unat_eq_iff)
    have "GetBlockByHash T (pb_Hash x) = Some (Block_stored x)"
      using x(4) assms(7,8) GetBlock_ok(4) [OF assms(1)] by fastforce
    moreover have "pb_Height p = k - 1" using linked_prev [OF x(3)] x(5) hx by auto
    moreover have "pb_Hash p = pb_Previous x" using GetBlock_ok(1) [OF assms(1) x(5)] .
    moreover have "pv_best T (pb_Height p) = Some (pb_Hash p)" using x(6) assms(6,9,10) by auto
    ultimately show ?thesis using assms(10) x(1) hx by (intro exI [of _ "Block_stored x"]) auto
  qed
qed

section \<open>Saving a block\<close>

text \<open>What \<open>InsertBlock\<close> is given: a block whose parent is stored one height below, with some work, and whose hash
  is not taken by another block.\<close>

definition block_fits :: "pov_db \<Rightarrow> PovBlock \<Rightarrow> bool" where
  "block_fits S B \<longleftrightarrow> linked S B \<and> pb_Hash B \<noteq> ZeroHash \<and> work B > 0 \<and>
     (pv_height S (pb_Hash B) = None \<or> GetBlockByHash S (pb_Hash B) = Some (Block_stored B))"

lemma CalcTotalDifficulty_Chain: "td_Chain (CalcTotalDifficulty td h) = td_Chain td + CalcWorkIntToBigNum (GetNormTargetInt h)"
  by (simp add: CalcTotalDifficulty_def Let_def)

definition saved :: "pov_db \<Rightarrow> PovBlock \<Rightarrow> pov_db \<Rightarrow> bool" where
  "saved S B T \<longleftrightarrow> tables_ok T \<and> pv_best T = pv_best S \<and> pv_latest T = pv_latest S \<and> pv_txl T = pv_txl S \<and>
     pv_cursor T = pv_cursor S \<and> pv_height T = (pv_height S)(pb_Hash B \<mapsto> pb_Height B) \<and>
     (\<forall>h. GetBlockByHash T h = (if h = pb_Hash B then Some (Block_stored B) else GetBlockByHash S h)) \<and>
     (\<forall>h b. GetBlockByHash S h = Some b \<longrightarrow> td_of T b = td_of S b) \<and>
     td_of T B = td_of S (the (GetBlockByHash S (pb_Previous B))) + work B"

lemma GetBlock_td:
  assumes "tables_ok S" "blocks_ok S G" "GetBlockByHash S h = Some b"
  shows "\<exists>td. pv_td S (pb_Height b, h) = Some td \<and> td_Chain td = td_of S b"
proof -
  have "pv_height S h = Some (pb_Height b)" "pb_Hash b = h" using GetBlock_ok [OF assms(2,3)] by simp_all
  then have "pv_td S (pb_Height b, h) \<noteq> None" using assms(1) unfolding tables_ok_def by blast
  then show ?thesis using \<open>pb_Hash b = h\<close> by (auto simp: td_of_def)
qed

lemma save_new:
  assumes "tables_ok S" "blocks_ok S G" "block_fits S B" "pv_height S (pb_Hash B) = None" "cs_db s = S"
    "td_Chain td = td_of S (the (GetBlockByHash S (pb_Previous B)))"
  shows "\<exists>T. save_block B (CalcTotalDifficulty td (pb_Header B)) s = (Inr (), s\<lparr>cs_db := T\<rparr>) \<and> saved S B T"
proof -
  let ?k = "(pb_Height B, pb_Hash B)" and ?TD = "CalcTotalDifficulty td (pb_Header B)"
  let ?T = "S\<lparr>pv_header := (pv_header S)(?k \<mapsto> pb_Header B), pv_body := (pv_body S)(?k \<mapsto> map Tx_stored (pb_Txs B)),
     pv_height := (pv_height S)(pb_Hash B \<mapsto> pb_Height B), pv_td := (pv_td S)(?k \<mapsto> TD_stored ?TD)\<rparr>"
  have none: "pv_header S (h, pb_Hash B) = None" "pv_body S (h, pb_Hash B) = None" "pv_td S (h, pb_Hash B) = None" for h
    using assms(1,4) unfolding tables_ok_def by (metis option.distinct(1))+
  have run: "save_block B ?TD s = (Inr (), s\<lparr>cs_db := ?T\<rparr>)"
    using none assms(4,5) by (simp add: save_block_def HasPovBlock_def HasPovHeader_def on_db_def AddPovBlock_def pov_writes bindM_def)
  obtain P where P: "GetBlockByHash S (pb_Previous B) = Some P" using assms(3) linked_prev by (auto simp: block_fits_def)
  have "td_of S P \<ge> 0" "work B > 0" using GetBlock_ok(3) [OF assms(2) P] assms(3) by (simp_all add: block_fits_def)
  then have TD: "td_Chain (TD_stored ?TD) = td_of S P + work B"
    using assms(6) P by (simp add: TD_stored_def CalcTotalDifficulty_Chain work_def)
  have ne: "pb_Hash b \<noteq> pb_Hash B" if "GetBlockByHash S h = Some b" for h b
    using GetBlock_ok(1,2) [OF assms(2) that] assms(4) by auto
  have get: "GetBlockByHash ?T h = (if h = pb_Hash B then Some (Block_stored B) else GetBlockByHash S h)" for h
    using assms(3) by (auto simp: GetBlockByHash_unfold block_fits_def Block_stored_def split: option.splits)
  have "tables_ok ?T"
    using assms(1) none assms(3) unfolding tables_ok_def by (auto simp: block_fits_def)
  moreover have "td_of ?T b = td_of S b" if "GetBlockByHash S h = Some b" for h b using ne [OF that] by (simp add: td_of_def)
  moreover have "td_of ?T B = td_of S P + work B" using TD by (simp add: td_of_def)
  ultimately have "saved S B ?T" using get P by (simp add: saved_def)
  then show ?thesis using run by blast
qed

lemma save_old:
  assumes "tables_ok S" "blocks_ok S G" "block_fits S B" "pv_height S (pb_Hash B) \<noteq> None" "cs_db s = S"
  shows "\<exists>T. save_block B TD s = (Inr (), s\<lparr>cs_db := T\<rparr>) \<and> saved S B T"
proof -
  have g: "GetBlockByHash S (pb_Hash B) = Some (Block_stored B)" using assms(3,4) by (simp add: block_fits_def)
  note h = GetBlock_ok [OF assms(2) g]
  have "HasPovBlock S (pb_Height B) (pb_Hash B)"
    using h(2) assms(1) unfolding tables_ok_def HasPovBlock_def HasPovHeader_def HasPovBody_def by simp
  then have run: "save_block B TD s = (Inr (), s\<lparr>cs_db := S\<rparr>)" using assms(5) by (simp add: save_block_def)
  have "pb_Height B \<noteq> 0" using assms(3) by (auto simp: block_fits_def linked_def)
  then have "td_of S B = td_of S (the (GetBlockByHash S (pb_Previous B))) + work B"
    using h(7) by (simp add: td_of_def work_def)
  moreover have "pv_height S = (pv_height S)(pb_Hash B \<mapsto> pb_Height B)" using h(2) by auto
  ultimately have "saved S B S" using assms(1) g unfolding saved_def by simp
  then show ?thesis using run by blast
qed

lemma saved_blocks_ok:
  assumes "blocks_ok S G" "block_fits S B" "saved S B T"
  shows "blocks_ok T G" "\<And>h b. GetBlockByHash S h = Some b \<Longrightarrow> GetBlockByHash T h = Some b"
proof -
  note T = assms(3) [unfolded saved_def]
  obtain P where P: "GetBlockByHash S (pb_Previous B) = Some P" "unat (pb_Height B) = Suc (unat (pb_Height P))"
    using assms(2) linked_prev by (auto simp: block_fits_def)
  have same: "b = Block_stored B" if "GetBlockByHash S (pb_Hash B) = Some b" for b
    using that assms(2) GetBlock_ok(2) [OF assms(1) that] by (auto simp: block_fits_def)
  show mono: "GetBlockByHash T h = Some b" if "GetBlockByHash S h = Some b" for h b using T that same by auto
  have lm: "linked T b" if "linked S b" for b using that mono by (auto simp: linked_def)
  have lB: "linked T (Block_stored B)" "linked S (Block_stored B)" "work (Block_stored B) = work B" "td_of T (Block_stored B) = td_of T B"
    using lm [of B] assms(2) by (auto simp: block_fits_def linked_def work_def td_of_def)
  have hB: "pb_Height B \<noteq> 0" using P(2) by auto
  have one: "pb_Hash b = hash \<and> pv_height T hash = Some (pb_Height b) \<and> td_of T b \<ge> 0 \<and> Block_stored b = b \<and>
        (if pb_Height b = 0 then b = Block_stored G else linked T b \<and> work b > 0 \<and>
           td_of T b = td_of T (the (GetBlockByHash T (pb_Previous b))) + work b)"
    if b: "GetBlockByHash T hash = Some b" for hash b
  proof (cases "hash = pb_Hash B")
    case True
    then have "b = Block_stored B" using T b by simp
    moreover have "GetBlockByHash T (pb_Previous B) = Some P" "td_of T P = td_of S P" "td_of S P \<ge> 0"
      using mono [OF P(1)] T P(1) GetBlock_ok(3) [OF assms(1) P(1)] by auto
    ultimately show ?thesis using True T hB lB P(1) assms(2) by (simp add: block_fits_def)
  next
    case False
    then have bS: "GetBlockByHash S hash = Some b" using T b by simp
    have td: "td_of T b = td_of S b" "td_of T p = td_of S p" if "GetBlockByHash S h = Some p" for p h using T bS that by blast+
    show ?thesis
    proof (cases "pb_Height b = 0")
      case True
      then show ?thesis using GetBlock_ok [OF assms(1) bS] T False td(1) [OF bS] by simp
    next
      case nz: False
      then have lS: "linked S b" using GetBlock_ok(6) [OF assms(1) bS] by simp
      then obtain p where p: "GetBlockByHash S (pb_Previous b) = Some p" using linked_prev by blast
      then show ?thesis using GetBlock_ok [OF assms(1) bS] T False td [OF p] nz mono [OF p] lm [OF lS] by simp
    qed
  qed
  show "blocks_ok T G" unfolding blocks_ok_def
    using one mono assms(1) by (auto simp: blocks_ok_def)
qed

end
