(* ===== verification/Pov_Chain_Thms.thy ===== *)
theory Pov_Chain_Thms
  imports Pov_Chain_Inv
begin

text \<open>The theorems on the proof-of-work chain: inserting a block keeps the invariant of the chain and the heaviest
  block at its head, the chain starts from its genesis block, and transactions are found at their positions.\<close>

section \<open>Inserting a block\<close>

lemma heaviest_saved:
  assumes "heaviest S L" "saved S B T" "GetBlockByHash S (pb_Hash L) = Some (Block_stored L)" "td_of T B \<le> td_of T H"
    "td_of S L \<le> td_of T H"
  shows "heaviest T H"
  unfolding heaviest_def
proof (intro allI impI)
  fix h b assume b: "GetBlockByHash T h = Some b"
  note T = assms(2) [unfolded saved_def]
  show "td_of T b \<le> td_of T H"
  proof (cases "h = pb_Hash B")
    case True
    then have "td_of T b = td_of T B" using T b by (auto simp: td_of_def)
    then show ?thesis using assms(4) by simp
  next
    case False
    then have bS: "GetBlockByHash S h = Some b" using T b by simp
    then have "td_of T b = td_of S b" using T by blast
    also have "\<dots> \<le> td_of S L" using assms(1) bS by (auto simp: heaviest_def)
    finally show ?thesis using assms(5) by simp
  qed
qed

lemma best_ok_same:
  assumes "best_ok S L" "\<And>h b. GetBlockByHash S h = Some b \<Longrightarrow> GetBlockByHash T h = Some b" "pv_best T = pv_best S" "pv_latest T = pv_latest S"
  shows "best_ok T L"
  using assms(1) unfolding best_ok_def assms(3,4) by (metis assms(2))

text \<open>The tables after the block and the state were written, before the head is chosen.\<close>

lemma insertBlock_saves:
  assumes "tables_ok S" "blocks_ok S G" "best_ok S L" "block_fits S B"
  shows "\<exists>T blockTD bestTD. saved S B T \<and> td_Chain blockTD = td_of T B \<and> td_Chain bestTD = td_of S L \<and>
    insertBlock n S G coin C B \<lparr>cs_db = S, cs_latest = L\<rparr> =
     (if is_best coin B L blockTD bestTD
      then if pb_Previous B = pb_Hash L then bindM (connectBestBlock B) (\<lambda>_. returnM (ChainStateMain, None)) \<lparr>cs_db = T, cs_latest = L\<rparr>
           else bindM (processFork n S G B) (\<lambda>f. returnM (ChainStateMain, Some f)) \<lparr>cs_db = T, cs_latest = L\<rparr>
      else (Inr (ChainStateSide, None), \<lparr>cs_db = T, cs_latest = L\<rparr>))"
proof -
  obtain P where P: "GetBlockByHash S (pb_Previous B) = Some P" "pb_Height B = pb_Height P + 1"
    using assms(4) linked_prev by (auto simp: block_fits_def)
  obtain bestTD where best: "pv_td S (pb_Height L, pb_Hash L) = Some bestTD" "td_Chain bestTD = td_of S L"
    using GetBlock_td [OF assms(1,2), of "pb_Hash L"] assms(3) by (auto simp: best_ok_def td_of_def)
  obtain td where td: "pv_td S (pb_Height P, pb_Previous B) = Some td" "td_Chain td = td_of S P"
    using GetBlock_td [OF assms(1,2) P(1)] by blast
  define TD where "TD = CalcTotalDifficulty td (pb_Header B)"
  let ?s = "\<lparr>cs_db = S, cs_latest = L\<rparr>"
  have "\<exists>T. save_block B TD ?s = (Inr (), ?s\<lparr>cs_db := T\<rparr>) \<and> saved S B T"
    unfolding TD_def using save_new [OF assms(1,2,4), of ?s td] save_old [OF assms(1,2,4), of ?s] td P(1) by fastforce
  then obtain T where T: "save_block B TD ?s = (Inr (), ?s\<lparr>cs_db := T\<rparr>)" "saved S B T" by blast
  let ?T = "T\<lparr>pv_trie := C (pv_trie T)\<rparr>"
  have sv: "saved S B ?T"
    using T(2) same_blocks_reads [of T ?T] by (simp add: saved_def)
  have "td_Chain TD = td_of T B"
    using T(2) td(2) P(1) by (simp add: saved_def TD_def CalcTotalDifficulty_Chain work_def)
  then have "td_Chain TD = td_of ?T B" using same_blocks_reads(2) [of T ?T] by simp
  moreover have "insertBlock n S G coin C B ?s =
     (if is_best coin B L TD bestTD
      then if pb_Previous B = pb_Hash L then bindM (connectBestBlock B) (\<lambda>_. returnM (ChainStateMain, None)) \<lparr>cs_db = ?T, cs_latest = L\<rparr>
           else bindM (processFork n S G B) (\<lambda>f. returnM (ChainStateMain, Some f)) \<lparr>cs_db = ?T, cs_latest = L\<rparr>
      else (Inr (ChainStateSide, None), \<lparr>cs_db = ?T, cs_latest = L\<rparr>))"
    using best(1) td(1) P(2) T(1)
    by (simp add: insertBlock_def Let_def bindM_def GetPovTD_def TD_def [symmetric] commitToDB_def)
  ultimately show ?thesis using sv best(2) by blast
qed

text \<open>How the head can move: not at all, up by the new block, or over to its branch.\<close>

definition head_move :: "pov_db \<Rightarrow> PovBlock \<Rightarrow> PovBlock \<Rightarrow> pov_db \<Rightarrow> PovBlock \<Rightarrow> PovBlock option \<Rightarrow> bool" where
  "head_move S L B T H fo \<longleftrightarrow> pv_cursor T = pv_cursor S \<and>
    ((H = L \<and> fo = None \<and> pv_txl T = pv_txl S) \<or>
     (H = B \<and> fo = None \<and> pb_Previous B = pb_Hash L \<and> pv_txl T = with_cb B (pv_txl S)) \<or>
     (H = B \<and> (\<exists>A D f. fo = Some f \<and> path S B A f \<and> path S L D f \<and> A \<noteq> [] \<and> pv_txl T = foldr with_cb A (fold without_cb D (pv_txl S)))))"

definition inserted :: "pov_db \<Rightarrow> PovBlock \<Rightarrow> PovBlock \<Rightarrow> PovBlock \<Rightarrow> pov_db \<Rightarrow> PovBlock \<Rightarrow> bool" where
  "inserted S G L B T H \<longleftrightarrow> tables_ok T \<and> blocks_ok T G \<and> best_ok T H \<and> heaviest T H \<and> (H = L \<or> H = B) \<and>
     GetBlockByHash T (pb_Hash B) = Some (Block_stored B) \<and>
     (\<forall>h b. GetBlockByHash S h = Some b \<longrightarrow> GetBlockByHash T h = Some b \<and> td_of T b = td_of S b) \<and>
     td_of T B = td_of S (the (GetBlockByHash S (pb_Previous B))) + work B"

lemma inserted_switch:
  assumes "tables_ok S" "blocks_ok S G" "best_ok S L" "heaviest S L" "block_fits S B" "saved S B T"
    "path S B A f" "A \<noteq> []" "path S (Block_stored L) D f" "switched T T' B A f" "td_of S L \<le> td_of T B"
  shows "inserted S G L B T' B"
proof -
  note Tok = saved_blocks_ok [OF assms(2,5,6)]
  have sv: "tables_ok T" "pv_best T = pv_best S" "GetBlockByHash T (pb_Hash B) = Some (Block_stored B)"
    "\<And>h b. GetBlockByHash S h = Some b \<Longrightarrow> td_of T b = td_of S b"
    "td_of T B = td_of S (the (GetBlockByHash S (pb_Previous B))) + work B"
    using assms(6) by (auto simp: saved_def)
  have sw: "same_blocks T T'" "pv_latest T' = Some (pb_Height B)" "\<And>k. unat k \<le> unat (pb_Height f) \<Longrightarrow> pv_best T' k = pv_best T k"
    "\<forall>x \<in> set A. pv_best T' (pb_Height x) = Some (pb_Hash x)" "\<forall>k > pb_Height B. pv_best T' k = None"
    using assms(10) unfolding switched_def by blast+
  note r = same_blocks_reads [OF sw(1)]
  have Ls: "GetBlockByHash S (pb_Hash L) = Some (Block_stored L)" "pv_best S (pb_Height L) = Some (pb_Hash L)"
    using assms(3) by (simp_all add: best_ok_def)
  have bf: "pv_best S (pb_Height f) = Some (pb_Hash f)" using path_best [OF assms(2,3,9)] Ls by simp
  have fl: "pb_Height f \<le> pb_Height L" using path_height [OF assms(9)] by (simp add: word_le_nat_alt)
  have "best_ok T' B"
  proof (rule best_switch [OF assms(2,3,7,8) fl bf])
    show "GetBlockByHash T' h = Some b" if "GetBlockByHash S h = Some b" for h b using Tok(2) [OF that] r(1) by simp
    show "pv_best T' k = pv_best S k" if "unat k \<le> unat (pb_Height f)" for k using sw(3) [OF that] sv(2) by simp
  qed (use sv(3) r(1) sw(2,4,5) in simp_all)
  moreover have "heaviest T B" by (rule heaviest_saved [OF assms(4,6) Ls(1)]) (use assms(11) in simp_all)
  ultimately show ?thesis using r sv(1,3-) Tok unfolding inserted_def by auto
qed

lemma path_stored_head: "path S L (x # xs) f \<Longrightarrow> path S (Block_stored L) (Block_stored L # xs) f"
  by (auto simp: linked_def)

lemma insert_side:
  assumes "blocks_ok S G" "best_ok S L" "heaviest S L" "block_fits S B" "saved S B T" "td_of T B \<le> td_of S L"
  shows "inserted S G L B T L \<and> head_move S L B T L None"
proof -
  have sv: "tables_ok T" "pv_best T = pv_best S" "pv_latest T = pv_latest S" "pv_txl T = pv_txl S" "pv_cursor T = pv_cursor S"
    using assms(5) by (simp_all add: saved_def)
  have Ls: "GetBlockByHash S (pb_Hash L) = Some (Block_stored L)" using assms(2) by (simp add: best_ok_def)
  have Tok: "blocks_ok T G" "\<And>h b. GetBlockByHash S h = Some b \<Longrightarrow> GetBlockByHash T h = Some b"
    using saved_blocks_ok [OF assms(1,4,5)] by blast+
  have "td_of T (Block_stored L) = td_of S (Block_stored L)" using assms(5) Ls unfolding saved_def by blast
  then have tdL: "td_of T L = td_of S L" by (simp add: td_of_def)
  have "heaviest T L" by (rule heaviest_saved [OF assms(3,5) Ls]) (use assms(6) tdL in simp_all)
  then show ?thesis
    using Tok sv best_ok_same [OF assms(2) Tok(2) sv(2,3)] assms(5) by (auto simp: inserted_def saved_def head_move_def)
qed

lemma insert_grow:
  assumes "tables_ok S" "blocks_ok S G" "best_ok S L" "heaviest S L" "block_fits S B" "saved S B T" "td_of S L \<le> td_of T B"
    "pb_Previous B = pb_Hash L"
  shows "\<exists>s'. connectBestBlock B \<lparr>cs_db = T, cs_latest = L\<rparr> = (Inr (), s') \<and> inserted S G L B (cs_db s') (cs_latest s') \<and>
    head_move S L B (cs_db s') (cs_latest s') None"
proof -
  have sv: "pv_best T = pv_best S" "pv_txl T = pv_txl S" "pv_cursor T = pv_cursor S" using assms(6) by (simp_all add: saved_def)
  have lB: "linked S B" using assms(5) by (simp add: block_fits_def)
  have Ls: "GetBlockByHash S (pb_Hash L) = Some (Block_stored L)" using assms(3) by (simp add: best_ok_def)
  obtain P where P: "GetBlockByHash S (pb_Previous B) = Some P" "pb_Height B = pb_Height P + 1"
    "unat (pb_Height B) = Suc (unat (pb_Height P))" using linked_prev [OF lB] by blast
  have PL: "P = Block_stored L" using P(1) Ls assms(8) by simp
  let ?s = "\<lparr>cs_db = T, cs_latest = L\<rparr>"
  let ?T = "T\<lparr>pv_best := (pv_best T)(pb_Height B \<mapsto> pb_Hash B), pv_latest := Some (pb_Height B), pv_txl := with_cb B (pv_txl T)\<rparr>"
  have c: "connectBestBlock B ?s = (Inr (), \<lparr>cs_db = ?T, cs_latest = B\<rparr>)"
    using connect_step [of B ?s] P(2) PL by simp
  have sw: "switched T ?T B [B] (Block_stored L)"
    using P(3) PL sv(1) assms(3) by (auto simp: switched_def best_ok_def word_less_nat_alt)
  have "inserted S G L B ?T B"
    by (rule inserted_switch [OF assms(1-6), where D = "[]", OF _ _ _ sw]) (use lB P(1) PL assms(7) in simp_all)
  then show ?thesis using c sv assms(8) by (simp add: head_move_def)
qed

lemma insert_fork:
  assumes "tables_ok S" "blocks_ok S G" "best_ok S L" "heaviest S L" "block_fits S B" "saved S B T" "td_of S L \<le> td_of T B"
    "pb_Previous B \<noteq> pb_Hash L" "unat (pb_Height B) \<le> n"
  shows "(\<exists>D f. processFork n S G B \<lparr>cs_db = T, cs_latest = L\<rparr> = (Inl ErrPovInvalidFork, \<lparr>cs_db = T, cs_latest = L\<rparr>) \<and>
      path S L D f \<and> length D > PoVMaxForkHeight) \<or>
    (\<exists>f s'. processFork n S G B \<lparr>cs_db = T, cs_latest = L\<rparr> = (Inr f, s') \<and> inserted S G L B (cs_db s') (cs_latest s') \<and>
      head_move S L B (cs_db s') (cs_latest s') (Some f))"
proof -
  let ?s = "\<lparr>cs_db = T, cs_latest = L\<rparr>"
  have sv: "pv_best T = pv_best S" "pv_txl T = pv_txl S" "pv_cursor T = pv_cursor S" using assms(6) by (simp_all add: saved_def)
  have lB: "linked S B" using assms(5) by (simp add: block_fits_def)
  obtain A D f where p: "path S B A f" "path S L D f" "A \<noteq> []" "D \<noteq> []"
    and r: "if length D > PoVMaxForkHeight then processFork n S G B ?s = (Inl ErrPovInvalidFork, ?s)
      else \<exists>s'. processFork n S G B ?s = (Inr f, s') \<and> cs_latest s' = B \<and> switched T (cs_db s') B A f \<and>
        pv_txl (cs_db s') = foldr with_cb A (fold without_cb D (pv_txl T))"
    using processFork_ok [OF assms(2-4) lB assms(8,9), of ?s, unfolded chain_state.select_convs, OF refl sv(1)] by blast
  obtain D' where D': "D = L # D'" using p(2,4) by (cases D) auto
  show ?thesis
  proof (cases "length D > PoVMaxForkHeight")
    case True
    then show ?thesis using r p(2) by auto
  next
    case False
    then obtain s' where s': "processFork n S G B ?s = (Inr f, s')" "cs_latest s' = B" "switched T (cs_db s') B A f"
      "pv_txl (cs_db s') = foldr with_cb A (fold without_cb D (pv_txl T))" using r by auto
    have "path S (Block_stored L) (Block_stored L # D') f" using p(2) D' path_stored_head by blast
    then have "inserted S G L B (cs_db s') B" using inserted_switch [OF assms(1-6) p(1,3) _ s'(3) assms(7)] by blast
    moreover have "head_move S L B (cs_db s') B (Some f)"
      using s'(3,4) sv p unfolding head_move_def switched_def by auto
    ultimately show ?thesis using s'(1,2) by auto
  qed
qed

lemma insertBlock_ok:
  assumes "tables_ok S" "blocks_ok S G" "best_ok S L" "heaviest S L" "block_fits S B" "unat (pb_Height B) \<le> n"
  shows "(\<exists>s' D f. insertBlock n S G coin C B \<lparr>cs_db = S, cs_latest = L\<rparr> = (Inl ErrPovInvalidFork, s') \<and> cs_latest s' = L \<and>
       path S L D f \<and> length D > PoVMaxForkHeight) \<or>
    (\<exists>st fo s'. insertBlock n S G coin C B \<lparr>cs_db = S, cs_latest = L\<rparr> = (Inr (st, fo), s') \<and>
       inserted S G L B (cs_db s') (cs_latest s') \<and> head_move S L B (cs_db s') (cs_latest s') fo)"
proof -
  obtain T blockTD bestTD where T: "saved S B T" "td_Chain blockTD = td_of T B" "td_Chain bestTD = td_of S L"
    and run: "insertBlock n S G coin C B \<lparr>cs_db = S, cs_latest = L\<rparr> =
     (if is_best coin B L blockTD bestTD
      then if pb_Previous B = pb_Hash L then bindM (connectBestBlock B) (\<lambda>_. returnM (ChainStateMain, None)) \<lparr>cs_db = T, cs_latest = L\<rparr>
           else bindM (processFork n S G B) (\<lambda>f. returnM (ChainStateMain, Some f)) \<lparr>cs_db = T, cs_latest = L\<rparr>
      else (Inr (ChainStateSide, None), \<lparr>cs_db = T, cs_latest = L\<rparr>))"
    using insertBlock_saves [OF assms(1-3,5)] by blast
  consider (side) "\<not> is_best coin B L blockTD bestTD" "td_of T B \<le> td_of S L"
    | (grow) "is_best coin B L blockTD bestTD" "td_of S L \<le> td_of T B" "pb_Previous B = pb_Hash L"
    | (fork) "is_best coin B L blockTD bestTD" "td_of S L \<le> td_of T B" "pb_Previous B \<noteq> pb_Hash L"
    using T(2,3) unfolding is_best_def by fastforce
  then show ?thesis
  proof cases
    case side
    then show ?thesis using run insert_side [OF assms(2-5) T(1) side(2)] by auto
  next
    case grow
    then show ?thesis using run insert_grow [OF assms(1-5) T(1) grow(2,3)] by (auto simp: bindM_def)
  next
    case fork
    then show ?thesis using run insert_fork [OF assms(1-5) T(1) fork(2,3) assms(6)] by (fastforce simp: bindM_def)
  qed
qed

section \<open>Recording positions\<close>

definition put_lookups :: "PovBlock \<Rightarrow> (hash \<rightharpoonup> PovTxLookup) \<Rightarrow> (hash \<rightharpoonup> PovTxLookup)" where
  "put_lookups b = fold (\<lambda>(h, l) m. m(h \<mapsto> l)) (block_lookups b)"

definition position :: "PovBlock \<Rightarrow> hash \<Rightarrow> PovTxLookup \<Rightarrow> bool" where
  "position b t l \<longleftrightarrow> (t, l) \<in> set (block_lookups b)"

abbreviation tx_hashes :: "PovBlock \<Rightarrow> hash set" where "tx_hashes b \<equiv> pt_Hash ` set (pb_Txs b)"

lemma block_lookups_stored [simp]: "block_lookups (Block_stored b) = block_lookups b"
  by (auto simp: block_lookups_def enumerate_eq_zip zip_map2)

lemma position_block: "position b t l \<Longrightarrow> txl_BlockHash l = pb_Hash b \<and> txl_BlockHeight l = pb_Height b \<and> t \<in> tx_hashes b"
  by (auto simp: position_def block_lookups_def in_set_enumerate_eq)

lemma fst_block_lookups: "fst ` set (block_lookups b) = tx_hashes b"
proof -
  have "map fst (block_lookups b) = map pt_Hash (pb_Txs b)"
    by (simp add: block_lookups_def o_def case_prod_unfold enumerate_eq_zip) (simp add: map_snd_zip flip: map_map [unfolded o_def])
  then show ?thesis by (metis list.set_map)
qed

lemma fold_upd_notin: "t \<notin> fst ` set xs \<Longrightarrow> fold (\<lambda>(h, l) m. m(h \<mapsto> l)) xs m t = m t"
  by (induction xs arbitrary: m) auto

lemma fold_upd_in: "t \<in> fst ` set xs \<Longrightarrow> \<exists>l. (t, l) \<in> set xs \<and> fold (\<lambda>(h, l) m. m(h \<mapsto> l)) xs m t = Some l"
proof (induction xs rule: rev_induct)
  case (snoc x xs)
  obtain h l where x: "x = (h, l)" by (cases x)
  show ?case
  proof (cases "t = h")
    case False
    then have "t \<in> fst ` set xs" using snoc.prems x by simp
    then obtain l' where "(t, l') \<in> set xs" "fold (\<lambda>(h, l) m. m(h \<mapsto> l)) xs m t = Some l'" using snoc.IH by blast
    then show ?thesis using False x by (intro exI [of _ l']) (simp del: fun_upd_apply add: fun_upd_other)
  qed (simp add: x)
qed simp

lemma put_lookups_stored [simp]: "put_lookups (Block_stored b) = put_lookups b"
  by (simp add: put_lookups_def)

lemma put_lookups_other: "t \<notin> tx_hashes b \<Longrightarrow> put_lookups b m t = m t"
  using fold_upd_notin [of t "block_lookups b" m] by (simp add: put_lookups_def fst_block_lookups)

lemma put_lookups_at: "t \<in> tx_hashes b \<Longrightarrow> \<exists>l. put_lookups b m t = Some l \<and> position b t l"
  using fold_upd_in [of t "block_lookups b" m] by (auto simp: put_lookups_def fst_block_lookups position_def)

lemma with_cb_other: "t \<notin> tx_hashes b \<Longrightarrow> with_cb b m t = m t" "t \<notin> tx_hashes b \<Longrightarrow> without_cb b m t = m t"
  by (auto simp: with_cb_def without_cb_def split: list.splits)

lemma add_lookups: "mapME (\<lambda>(h, l). AddPovTxLookup h l) xs db = (Inr (), db\<lparr>pv_txl := fold (\<lambda>(h, l) m. m(h \<mapsto> l)) xs (pv_txl db)\<rparr>)"
  by (induction xs arbitrary: db) (auto simp: AddPovTxLookup_def bindM_def)

lemma scan_step:
  assumes "GetPovBlockByHeight db k = Inr b"
  shows "scan_loop (Suc n) k db = scan_loop n (k + 1) (db\<lparr>pv_txl := put_lookups b (pv_txl db), pv_cursor := Some k\<rparr>)"
  using assms by (simp add: bindM_def add_lookups SetPovTxlScanCursor_def put_lookups_def)

lemma scan_keeps:
  "same_blocks db (snd (scan_loop n k db)) \<and> pv_best (snd (scan_loop n k db)) = pv_best db \<and> pv_latest (snd (scan_loop n k db)) = pv_latest db"
proof (induction n arbitrary: k db)
  case (Suc n)
  show ?case
  proof (cases "GetPovBlockByHeight db k")
    case (Inr b)
    then show ?thesis
      using Suc.IH [where k = "k + 1" and db = "db\<lparr>pv_txl := put_lookups b (pv_txl db), pv_cursor := Some k\<rparr>"]
      by (simp only: scan_step) (auto simp: same_blocks_def)
  qed (simp add: bindM_def)
qed simp

lemma update_keeps:
  "same_blocks db (snd (batchUpdateTxLookupInSync fo H db)) \<and> pv_best (snd (batchUpdateTxLookupInSync fo H db)) = pv_best db \<and>
   pv_latest (snd (batchUpdateTxLookupInSync fo H db)) = pv_latest db"
  using scan_keeps
  by (cases fo) (auto simp: batchUpdateTxLookupInSync_def bindM_def SetPovTxlScanCursor_def same_blocks_def split: sum.splits)

text \<open>Writing the positions touches neither the blocks nor the best chain.\<close>

lemma chain_inv_update:
  assumes "tables_ok T" "blocks_ok T G" "best_ok T H" "heaviest T H"
  shows "chain_inv \<lparr>bc_db = snd (batchUpdateTxLookupInSync fo H T), bc_latest = H, bc_genesis = G\<rparr>"
proof -
  let ?T = "snd (batchUpdateTxLookupInSync fo H T)"
  have k: "same_blocks T ?T" "pv_best ?T = pv_best T" "pv_latest ?T = pv_latest T" using update_keeps by blast+
  note r = same_blocks_reads [OF k(1)]
  have "best_ok ?T H" by (rule best_ok_same [OF assms(3) _ k(2,3)]) (simp add: r(1))
  then show ?thesis using assms(1,2,4) by (simp add: chain_inv_def r)
qed

lemma insert_sound:
  assumes "chain_inv bc" "block_fits (bc_db bc) block" "unat (pb_Height block) \<le> fuel"
  shows "case InsertBlock fuel coin True CommitToDB block bc of
      (Inr _, bc') \<Rightarrow> chain_inv bc' \<and> bc_latest bc' \<in> {bc_latest bc, block} \<and>
         GetBlockByHash (bc_db bc') (pb_Hash block) = Some (Block_stored block) \<and>
         td_of (bc_db bc) (bc_latest bc) \<le> td_of (bc_db bc') (bc_latest bc') \<and>
         td_of (bc_db bc') block \<le> td_of (bc_db bc') (bc_latest bc')
    | (Inl e, bc') \<Rightarrow> e = ErrPovInvalidFork \<and> chain_inv bc' \<and> bc_latest bc' = bc_latest bc \<and>
         (\<exists>D f. path (bc_db bc) (bc_latest bc) D f \<and> PoVMaxForkHeight < length D)"
proof -
  obtain S L G where bc: "bc = \<lparr>bc_db = S, bc_latest = L, bc_genesis = G\<rparr>" by (cases bc) auto
  have inv: "tables_ok S" "blocks_ok S G" "best_ok S L" "heaviest S L" using assms(1) by (simp_all add: chain_inv_def bc)
  have B: "block_fits S block" using assms(2) by (simp add: bc)
  have Ls: "GetBlockByHash S (pb_Hash L) = Some (Block_stored L)" using inv(3) by (simp add: best_ok_def)
  from insertBlock_ok [OF inv B assms(3), of coin CommitToDB] show ?thesis
  proof (elim disjE exE conjE)
    fix s' D f assume "insertBlock fuel S G coin CommitToDB block \<lparr>cs_db = S, cs_latest = L\<rparr> = (Inl ErrPovInvalidFork, s')"
      "cs_latest s' = L" "path S L D f" "PoVMaxForkHeight < length D"
    then show ?thesis using chain_inv_update [OF inv] by (auto simp: InsertBlock_def bc Let_def)
  next
    fix st fo s' assume run: "insertBlock fuel S G coin CommitToDB block \<lparr>cs_db = S, cs_latest = L\<rparr> = (Inr (st, fo), s')"
      and ins: "inserted S G L block (cs_db s') (cs_latest s')"
    let ?T = "snd (batchUpdateTxLookupInSync fo (cs_latest s') (cs_db s'))"
    have ci: "chain_inv \<lparr>bc_db = ?T, bc_latest = cs_latest s', bc_genesis = G\<rparr>"
      by (rule chain_inv_update) (use ins in \<open>simp_all add: inserted_def\<close>)
    have r: "GetBlockByHash ?T = GetBlockByHash (cs_db s')" "td_of ?T = td_of (cs_db s')"
      using update_keeps [of "cs_db s'" fo "cs_latest s'"] same_blocks_reads by blast+
    have H: "heaviest (cs_db s') (cs_latest s')" "cs_latest s' = L \<or> cs_latest s' = block"
      "GetBlockByHash (cs_db s') (pb_Hash block) = Some (Block_stored block)"
      "GetBlockByHash (cs_db s') (pb_Hash L) = Some (Block_stored L) \<and> td_of (cs_db s') (Block_stored L) = td_of S (Block_stored L)"
      using ins Ls unfolding inserted_def by blast+
    have "td_of (cs_db s') (Block_stored block) \<le> td_of (cs_db s') (cs_latest s')"
      "td_of (cs_db s') (Block_stored L) \<le> td_of (cs_db s') (cs_latest s')" using H(1,3,4) unfolding heaviest_def by blast+
    then have "td_of (cs_db s') block \<le> td_of (cs_db s') (cs_latest s')" "td_of S L \<le> td_of (cs_db s') (cs_latest s')"
      using H(4) by (simp_all add: td_of_def)
    then show ?thesis using run ci H(2,3) r by (auto simp: InsertBlock_def bc Let_def)
  qed
qed

text \<open>C25: inserting a block into a sound chain either succeeds or finds a fork deeper than the limit, in which case
  the head stays. On success the block is stored with the work of its branch, the head is the old head or the
  block, the best hashes are again the ancestors of the head, and no stored block is heavier than the head: the
  chain with the most work is followed, forks included. The walk to the fork point ends.\<close>

theorem pov_insert_heaviest:
  assumes "chain_inv bc" "block_fits (bc_db bc) block" "unat (pb_Height block) \<le> fuel"
  shows "case InsertBlock fuel coin True CommitToDB block bc of
      (Inr _, bc') \<Rightarrow> chain_inv bc' \<and> bc_latest bc' \<in> {bc_latest bc, block} \<and>
         GetBlockByHash (bc_db bc') (pb_Hash block) = Some (Block_stored block) \<and>
         td_of (bc_db bc) (bc_latest bc) \<le> td_of (bc_db bc') (bc_latest bc') \<and>
         td_of (bc_db bc') block \<le> td_of (bc_db bc') (bc_latest bc')
    | (Inl e, bc') \<Rightarrow> e = ErrPovInvalidFork \<and> chain_inv bc' \<and> bc_latest bc' = bc_latest bc \<and>
         (\<exists>D f. path (bc_db bc) (bc_latest bc) D f \<and> PoVMaxForkHeight < length D)"
  using assms by (rule insert_sound)

section \<open>The first block\<close>

lemma reset_ok:
  assumes "pb_Height G = 0" "pb_Previous G = ZeroHash" "pb_Hash G \<noteq> ZeroHash" "cb_StateHash (ph_CbTx (pb_Header G)) = curHash"
  shows "\<exists>bc. ResetChainState curHash C G db = Some (Inr bc) \<and> bc_genesis bc = G \<and> bc_latest bc = G \<and> chain_inv bc"
proof -
  define TD where "TD = CalcTotalDifficulty NewPovTD (pb_Header G)"
  define T where "T = (snd (DropAllPovBlocks db))\<lparr>pv_header := [(0, pb_Hash G) \<mapsto> pb_Header G],
     pv_body := [(0, pb_Hash G) \<mapsto> map Tx_stored (pb_Txs G)], pv_height := [pb_Hash G \<mapsto> 0], pv_td := [(0, pb_Hash G) \<mapsto> TD_stored TD],
     pv_best := [0 \<mapsto> pb_Hash G], pv_latest := Some 0, pv_txl := put_lookups G Map.empty, pv_cursor := Some 0, pv_trie := C (pv_trie db)\<rparr>"
  have run: "ResetChainState curHash C G db = Some (Inr \<lparr>bc_db = T, bc_latest = G, bc_genesis = G\<rparr>)"
    using assms by (simp add: ResetChainState_def resetWithGenesisBlock_def DropAllPovBlocks_def AddPovBlock_def pov_writes
      bindM_def add_lookups [unfolded AddPovTxLookup_def] commitToDB_def T_def TD_def put_lookups_def)
  have get: "GetBlockByHash T h = (if h = pb_Hash G then Some (Block_stored G) else None)" for h
    using assms(1,3) by (auto simp: GetBlockByHash_unfold T_def Block_stored_def)
  have td: "td_of T (Block_stored G) \<ge> 0" "td_of T G = td_of T (Block_stored G)"
    using assms(1) by (simp_all add: td_of_def T_def TD_stored_def)
  have "tables_ok T" using assms(3) by (auto simp: tables_ok_def T_def)
  moreover have "blocks_ok T G" using assms get td by (auto simp: blocks_ok_def T_def)
  moreover have "best_ok T G" using assms(1) get
    by (auto simp: best_ok_def T_def intro!: exI [of _ "Block_stored G"])
  moreover have "heaviest T G" using get td by (auto simp: heaviest_def)
  ultimately show ?thesis using run by (simp add: chain_inv_def)
qed

section \<open>Finding transactions\<close>

text \<open>Every transaction of the head's branch has its position recorded, and the scan has reached the head.\<close>

definition txl_ok :: "PovBlockChain \<Rightarrow> bool" where
  "txl_ok bc \<longleftrightarrow> pv_cursor (bc_db bc) = Some (pb_Height (bc_latest bc)) \<and>
     (\<forall>xs x t. path (bc_db bc) (bc_latest bc) xs x \<and> t \<in> tx_hashes x \<longrightarrow> (\<exists>l. pv_txl (bc_db bc) t = Some l \<and> position x t l))"

text \<open>No transaction is in two blocks of the branch.\<close>

definition txs_once :: "pov_db \<Rightarrow> PovBlock \<Rightarrow> bool" where
  "txs_once S B \<longleftrightarrow> (\<forall>xs x ys y t. path S B xs x \<and> path S B ys y \<and> t \<in> tx_hashes x \<and> t \<in> tx_hashes y \<longrightarrow> x = y)"

lemma foldr_other: "(\<And>x. x \<in> set xs \<Longrightarrow> t \<notin> tx_hashes x) \<Longrightarrow> foldr with_cb xs m t = m t \<and> fold without_cb xs m t = m t \<and> foldr put_lookups xs m t = m t"
  by (induction xs arbitrary: m) (auto simp: with_cb_other put_lookups_other)

lemma foldr_put:
  assumes "x \<in> set xs" "t \<in> tx_hashes x" "\<And>y. y \<in> set xs \<Longrightarrow> t \<in> tx_hashes y \<Longrightarrow> y = x"
  shows "\<exists>l. foldr put_lookups xs m t = Some l \<and> position x t l"
  using assms
proof (induction xs)
  case (Cons y xs)
  show ?case
  proof (cases "t \<in> tx_hashes y")
    case True
    then show ?thesis using put_lookups_at [of t y] Cons.prems(3) [of y] by auto
  next
    case False
    then have "x \<in> set xs" using Cons.prems(1,2) by auto
    then have "\<exists>l. foldr put_lookups xs m t = Some l \<and> position x t l"
      by (rule Cons.IH) (rule Cons.prems(2), rule Cons.prems(3), simp_all)
    then show ?thesis by (simp add: put_lookups_other [OF False])
  qed
qed simp

lemma path_prefix: "path S b xs f \<Longrightarrow> x \<in> set xs \<Longrightarrow> \<exists>ys. path S b ys x"
proof (induction xs arbitrary: b)
  case (Cons y xs)
  let ?p = "the (GetBlockByHash S (pb_Previous b))"
  show ?case
  proof (cases "x = b")
    case True
    then show ?thesis by (intro exI [of _ "[]"]) simp
  next
    case False
    then obtain ys where "path S ?p ys x" using Cons.IH [of ?p] Cons.prems by auto
    then show ?thesis using Cons.prems by (intro exI [of _ "b # ys"]) simp
  qed
qed simp

text \<open>A path below a block either stays above \<open>f\<close> or passes it.\<close>

lemma path_split: "path S b A f \<Longrightarrow> path S b xs x \<Longrightarrow> x \<in> set A \<or> (\<exists>ys. path S f ys x)"
proof (induction A arbitrary: b xs)
  case (Cons a A)
  then show ?case by (cases xs) auto
qed auto

text \<open>A larger store shows the same paths from a block linked in the smaller one.\<close>

lemma path_back:
  assumes "blocks_ok S G" "\<And>h b. GetBlockByHash S h = Some b \<Longrightarrow> GetBlockByHash T h = Some b"
    "linked S b \<or> pb_Height b = 0" "path T b xs f"
  shows "path S b xs f"
  using assms(3,4)
proof (induction xs arbitrary: b)
  case (Cons x xs)
  have "linked T b" using Cons.prems(2) by simp
  then have "pb_Height b \<noteq> 0" by (auto simp: linked_def)
  then have l: "linked S b" using Cons.prems(1) by simp
  obtain p where p: "GetBlockByHash S (pb_Previous b) = Some p" using linked_prev [OF l] by blast
  have "linked S p \<or> pb_Height p = 0" using GetBlock_ok(6) [OF assms(1) p] by blast
  moreover have "path T p xs f" using Cons.prems(2) assms(2) [OF p] by simp
  ultimately show ?case using Cons.IH [of p] Cons.prems(2) l p by simp
qed simp

lemma path_forth:
  assumes "\<And>h b. GetBlockByHash S h = Some b \<Longrightarrow> GetBlockByHash T h = Some b" "path S b xs f"
  shows "path T b xs f"
  using assms(2)
proof (induction xs arbitrary: b)
  case (Cons x xs)
  have l: "linked S b" using Cons.prems by simp
  then have "linked T b" using assms(1) by (auto simp: linked_def)
  moreover obtain p where p: "GetBlockByHash S (pb_Previous b) = Some p" using linked_prev [OF l] by blast
  ultimately show ?case using Cons.IH [of p] Cons.prems assms(1) [OF p] by simp
qed simp

lemma scan_snoc: "scan_loop (Suc n) k = bindM (scan_loop n k) (\<lambda>_. scan_loop 1 (k + of_nat n))"
proof (induction n arbitrary: k)
  case (Suc n)
  show ?case by (subst scan_loop.simps(2), subst Suc.IH, subst scan_loop.simps(2)) (simp add: add.assoc)
qed (auto simp: bindM_def fun_eq_iff split: sum.splits)

lemma path_height_word: "path S b xs f \<Longrightarrow> pb_Height b = pb_Height f + of_nat (length xs)"
  using arg_cong [of "unat (pb_Height b)" _ "of_nat :: nat \<Rightarrow> u64", OF path_height] by simp

lemma GetBlock_byHeight:
  assumes "blocks_ok T G" "pv_best T k = Some h" "GetBlockByHash T h = Some b" "pb_Height b = k"
  shows "GetPovBlockByHeight T k = Inr b"
  using assms(2-) GetBlock_ok(2) [OF assms(1,3)]
  by (auto simp: GetPovBlockByHeight_def pov_reads GetBlockByHash_unfold split: if_splits option.splits)

lemma byHeight_same: "same_blocks S T \<Longrightarrow> pv_best T = pv_best S \<Longrightarrow> GetPovBlockByHeight T = GetPovBlockByHeight S"
  unfolding same_blocks_def GetPovBlockByHeight_def [abs_def] GetPovBestHash_def GetPovBlockByHeightAndHash_def GetPovHeader_def GetPovBody_def
  by (simp cong: sum.case_cong)

lemma scan_path:
  assumes "blocks_ok T G" "best_ok T H" "path T b A f" "pb_Height b \<le> pb_Height H" "pv_best T (pb_Height b) = Some (pb_Hash b)"
    "GetBlockByHash T (pb_Hash b) = Some (Block_stored b)" "pv_cursor T = Some (pb_Height f)"
  shows "scan_loop (length A) (pb_Height f + 1) T =
    (Inr (), T\<lparr>pv_txl := foldr put_lookups A (pv_txl T), pv_cursor := Some (pb_Height b)\<rparr>)"
  using assms(3-6)
proof (induction A arbitrary: b)
  case (Cons a A)
  then have l: "linked T b" "a = b" by simp_all
  obtain p where p: "GetBlockByHash T (pb_Previous b) = Some p" "pb_Height b = pb_Height p + 1"
    "unat (pb_Height b) = Suc (unat (pb_Height p))" using linked_prev [OF l(1)] by blast
  have pp: "path T p A f" "pb_Height p \<le> pb_Height H" using Cons.prems(1,2) p by (simp_all add: word_le_nat_alt)
  have pg: "GetBlockByHash T (pb_Hash p) = Some (Block_stored p)" using GetBlock_ok(1,4) [OF assms(1) p(1)] p(1) by simp
  have pb: "pv_best T (pb_Height p) = Some (pb_Hash p)"
    by (rule path_best [OF assms(1,2) _ Cons.prems(3,2,4), of "[b]"]) (use l(1) p(1) in simp)
  let ?T = "T\<lparr>pv_txl := foldr put_lookups A (pv_txl T), pv_cursor := Some (pb_Height p)\<rparr>"
  have run: "scan_loop (length A) (pb_Height f + 1) T = (Inr (), ?T)" by (rule Cons.IH [OF pp pb pg])
  have k: "pb_Height f + 1 + of_nat (length A) = pb_Height b"
    using path_height_word [OF pp(1)] p(2) by (simp add: algebra_simps)
  have "GetPovBlockByHeight T (pb_Height b) = Inr (Block_stored b)"
    by (rule GetBlock_byHeight [OF assms(1) Cons.prems(3,4)]) simp
  then have "GetPovBlockByHeight ?T (pb_Height b) = Inr (Block_stored b)"
    using byHeight_same [of T ?T] by simp
  then have "scan_loop 1 (pb_Height b) ?T = (Inr (), ?T\<lparr>pv_txl := put_lookups (Block_stored b) (pv_txl ?T), pv_cursor := Some (pb_Height b)\<rparr>)"
    unfolding One_nat_def by (subst scan_step [where b = "Block_stored b"]) simp_all
  moreover have "scan_loop (Suc (length A)) (pb_Height f + 1) T = scan_loop 1 (pb_Height b) ?T"
    by (subst scan_snoc, subst bindM_Inr [of "scan_loop (length A) (pb_Height f + 1)" T, OF run], subst k, rule refl)
  ultimately show ?case using l(2) by (simp del: scan_loop.simps)
qed (use assms(7) in simp)

lemma update_path:
  assumes "blocks_ok T G" "best_ok T H" "path T H A f" "A \<noteq> []"
    "fo = None \<and> pv_cursor T = Some (pb_Height f) \<or> fo = Some f"
  shows "snd (batchUpdateTxLookupInSync fo H T) = T\<lparr>pv_txl := foldr put_lookups A (pv_txl T), pv_cursor := Some (pb_Height H)\<rparr>"
proof -
  let ?T = "T\<lparr>pv_cursor := Some (pb_Height f)\<rparr>"
  have sb: "same_blocks T ?T" by simp
  note r = same_blocks_reads [OF sb]
  have H: "GetBlockByHash T (pb_Hash H) = Some (Block_stored H)" "pv_best T (pb_Height H) = Some (pb_Hash H)" "pv_latest T = Some (pb_Height H)"
    using assms(2) by (simp_all add: best_ok_def)
  have bo: "best_ok ?T H" by (rule best_ok_same [OF assms(2)]) (simp_all add: r)
  have pT: "path ?T H A f" by (rule path_forth [OF _ assms(3)]) (simp add: r)
  have run: "scan_loop (length A) (pb_Height f + 1) ?T = (Inr (), T\<lparr>pv_txl := foldr put_lookups A (pv_txl T), pv_cursor := Some (pb_Height H)\<rparr>)"
    using scan_path [OF _ bo pT, of G] assms(1) H r by simp
  have "unat (pb_Height f) < unat (pb_Height H)" using path_height [OF assms(3)] assms(4) by simp
  then have "unat (pb_Height f + 1) = Suc (unat (pb_Height f))" using unsigned_less [of "pb_Height H", where ?'a = nat] by (simp add: unat_word_ariths)
  then have n: "Suc (unat (pb_Height H)) - unat (pb_Height f + 1) = length A" using path_height [OF assms(3)] by simp
  show ?thesis
  proof (cases fo)
    case None
    then have "T = ?T" using assms(5) by simp
    then show ?thesis using None assms(5) run n by (simp add: batchUpdateTxLookupInSync_def bindM_def GetPovTxlScanCursor_def)
  next
    case (Some b)
    then show ?thesis using assms(5) run n by (simp add: batchUpdateTxLookupInSync_def bindM_def SetPovTxlScanCursor_def)
  qed
qed

text \<open>The positions of a branch after the scan: those above the fork are written, those below are kept.\<close>

lemma txl_scanned:
  assumes "txs_once S B" "path S B A f" "path S B xs x" "t \<in> tx_hashes x"
    "\<And>ys. path S f ys x \<Longrightarrow> \<exists>l. m t = Some l \<and> position x t l"
  shows "\<exists>l. foldr put_lookups A m t = Some l \<and> position x t l"
proof -
  have once: "y = x" if "y \<in> set A" "t \<in> tx_hashes y" for y
    using assms(1,3,4) path_prefix [OF assms(2) that(1)] that(2) unfolding txs_once_def by blast
  show ?thesis
  proof (cases "x \<in> set A")
    case True
    then show ?thesis using foldr_put [OF True assms(4) once] by blast
  next
    case False
    then obtain ys where "path S f ys x" using path_split [OF assms(2,3)] by blast
    then obtain l where "m t = Some l" "position x t l" using assms(5) by blast
    moreover have "foldr put_lookups A m t = m t" using foldr_other [of A t m] once False by blast
    ultimately show ?thesis by simp
  qed
qed

lemma txl_fork:
  assumes "txl_ok \<lparr>bc_db = S, bc_latest = L, bc_genesis = G\<rparr>" "txs_once S B" "path S B A f" "path S L D f" "path S f ys x"
    "t \<in> tx_hashes x" "x \<notin> set A"
  shows "\<exists>l. foldr with_cb A (fold without_cb D (pv_txl S)) t = Some l \<and> position x t l"
proof -
  have xL: "path S L (D @ ys) x" and xB: "path S B (A @ ys) x" using path_append assms(3-5) by blast+
  then obtain l where l: "pv_txl S t = Some l" "position x t l" using assms(1,6) unfolding txl_ok_def by fastforce
  have "t \<notin> tx_hashes y" if yD: "y \<in> set D" for y
  proof
    assume ty: "t \<in> tx_hashes y"
    then obtain zs where "path S L zs y" using path_prefix [OF assms(4) yD] by blast
    then obtain l' where "pv_txl S t = Some l'" "position y t l'" using assms(1) ty unfolding txl_ok_def by fastforce
    then have "pb_Height y = pb_Height x" using l position_block [of x t l] position_block [of y t l'] by simp
    then show False using path_mem [OF assms(4) yD] path_height [OF assms(5)] by simp
  qed
  moreover have "t \<notin> tx_hashes y" if "y \<in> set A" for y
    using assms(2,6,7) that xB path_prefix [OF assms(3) that] unfolding txs_once_def by blast
  ultimately show ?thesis using l foldr_other [of A t] foldr_other [of D t] by simp
qed

lemma linked_head:
  assumes "blocks_ok S G" "GetBlockByHash S (pb_Hash L) = Some (Block_stored L)"
  shows "linked S L \<or> pb_Height L = 0"
  using GetBlock_ok(6) [OF assms] by (auto simp: linked_def)

lemma txl_below:
  assumes "txl_ok \<lparr>bc_db = S, bc_latest = L, bc_genesis = G\<rparr>" "path S (Block_stored L) ys x" "t \<in> tx_hashes x"
  shows "\<exists>l. pv_txl S t = Some l \<and> position x t l"
proof -
  have ok: "\<exists>l. pv_txl S t = Some l \<and> position y t l" if "path S L zs y" "t \<in> tx_hashes y" for y zs
    using assms(1) that unfolding txl_ok_def by fastforce
  show ?thesis
  proof (cases ys)
    case Nil
    then have x: "x = Block_stored L" using assms(2) by simp
    then have "t \<in> tx_hashes L" using assms(3) by (auto simp: image_image)
    then show ?thesis using ok [of "[]" L] x by (simp add: position_def)
  next
    case (Cons z zs)
    then have "path S L (L # zs) x" using assms(2) by (auto simp: linked_def)
    then show ?thesis using ok assms(3) by blast
  qed
qed

lemma update_none:
  assumes "pv_cursor T = Some (pb_Height H)" "unat (pb_Height H) + 1 < 2 ^ 64"
  shows "snd (batchUpdateTxLookupInSync None H T) = T"
proof -
  have "unat (pb_Height H + 1) = Suc (unat (pb_Height H))" using assms(2) by (simp add: unat_word_ariths)
  then show ?thesis using assms(1) by (simp add: batchUpdateTxLookupInSync_def bindM_def GetPovTxlScanCursor_def)
qed

lemma txl_stay:
  assumes "txl_ok \<lparr>bc_db = S, bc_latest = L, bc_genesis = G\<rparr>" "blocks_ok S G" "GetBlockByHash S (pb_Hash L) = Some (Block_stored L)"
    "unat (pb_Height L) + 1 < 2 ^ 64" "\<And>h b. GetBlockByHash S h = Some b \<Longrightarrow> GetBlockByHash T h = Some b"
    "pv_cursor T = pv_cursor S" "pv_txl T = pv_txl S"
  shows "txl_ok \<lparr>bc_db = snd (batchUpdateTxLookupInSync None L T), bc_latest = L, bc_genesis = G\<rparr>"
proof -
  have c: "pv_cursor T = Some (pb_Height L)" using assms(1,6) by (simp add: txl_ok_def)
  have "path S L xs x" if "path T L xs x" for xs x
    using path_back [OF assms(2) _ linked_head [OF assms(2,3)] that] assms(5) by blast
  then have "txl_ok \<lparr>bc_db = T, bc_latest = L, bc_genesis = G\<rparr>"
    using assms(1,7) c unfolding txl_ok_def by simp blast
  then show ?thesis by (simp add: update_none [OF c assms(4)])
qed

text \<open>The head moves to \<open>B\<close>, which reaches \<open>f\<close> by \<open>A\<close>; what was recorded below \<open>f\<close> is still there.\<close>

lemma txl_go:
  assumes "inserted S G L B T B" "blocks_ok S G" "linked S B" "txs_once S B" "path S B A f" "A \<noteq> []"
    "fo = None \<and> pv_cursor T = Some (pb_Height f) \<or> fo = Some f"
    "\<And>ys x t. path S f ys x \<Longrightarrow> t \<in> tx_hashes x \<Longrightarrow> x \<notin> set A \<Longrightarrow> \<exists>l. pv_txl T t = Some l \<and> position x t l"
  shows "txl_ok \<lparr>bc_db = snd (batchUpdateTxLookupInSync fo B T), bc_latest = B, bc_genesis = G\<rparr>"
proof -
  have T: "blocks_ok T G" "best_ok T B" "\<And>h b. GetBlockByHash S h = Some b \<Longrightarrow> GetBlockByHash T h = Some b"
    using assms(1) by (simp_all add: inserted_def)
  let ?T = "T\<lparr>pv_txl := foldr put_lookups A (pv_txl T), pv_cursor := Some (pb_Height B)\<rparr>"
  have u: "snd (batchUpdateTxLookupInSync fo B T) = ?T"
    by (rule update_path [OF T(1,2) path_forth [OF T(3) assms(5)] assms(6,7)])
  have "\<exists>l. foldr put_lookups A (pv_txl T) t = Some l \<and> position x t l" if x: "path ?T B xs x" "t \<in> tx_hashes x" for xs x t
  proof (rule txl_scanned [OF assms(4,5) _ x(2)])
    have "path T B xs x" by (rule path_forth [OF _ x(1)]) (simp add: same_blocks_reads(1) [of T ?T])
    then show "path S B xs x" using path_back [OF assms(2) T(3)] assms(3) by blast
    fix ys assume ys: "path S f ys x"
    then have "x \<notin> set A" using path_height [OF ys] path_mem [OF assms(5), of x] by auto
    then show "\<exists>l. pv_txl T t = Some l \<and> position x t l" using assms(8) ys x(2) by blast
  qed
  then show ?thesis by (auto simp: u txl_ok_def)
qed

lemma txl_step:
  assumes "txl_ok \<lparr>bc_db = S, bc_latest = L, bc_genesis = G\<rparr>" "blocks_ok S G" "GetBlockByHash S (pb_Hash L) = Some (Block_stored L)"
    "unat (pb_Height L) + 1 < 2 ^ 64" "linked S B" "txs_once S B" "inserted S G L B T H" "head_move S L B T H fo"
  shows "txl_ok \<lparr>bc_db = snd (batchUpdateTxLookupInSync fo H T), bc_latest = H, bc_genesis = G\<rparr>"
proof -
  have T: "\<And>h b. GetBlockByHash S h = Some b \<Longrightarrow> GetBlockByHash T h = Some b" using assms(7) by (simp add: inserted_def)
  have cur: "pv_cursor T = pv_cursor S" "pv_cursor S = Some (pb_Height L)" using assms(1,8) by (simp_all add: head_move_def txl_ok_def)
  have once: "t \<notin> tx_hashes B" if "path S B xs x" "t \<in> tx_hashes x" "x \<noteq> B" for xs x t
    using assms(6) that path.simps(1) [of S B B] unfolding txs_once_def by blast
  consider (stay) "H = L" "fo = None" "pv_txl T = pv_txl S"
    | (grow) "H = B" "fo = None" "pb_Previous B = pb_Hash L" "pv_txl T = with_cb B (pv_txl S)"
    | (fork) A D f where "H = B" "fo = Some f" "path S B A f" "path S L D f" "A \<noteq> []" "pv_txl T = foldr with_cb A (fold without_cb D (pv_txl S))"
    using assms(8) unfolding head_move_def by blast
  then show ?thesis
  proof cases
    case stay
    then show ?thesis using txl_stay [OF assms(1-4) T cur(1)] by simp
  next
    case grow
    have p: "path S B [B] (Block_stored L)" using assms(3,5) grow(3) by simp
    have "\<exists>l. pv_txl T t = Some l \<and> position x t l" if x: "path S (Block_stored L) ys x" "t \<in> tx_hashes x" "x \<notin> set [B]" for ys x t
    proof -
      have "t \<notin> tx_hashes B" using once [OF path_append [OF p x(1)] x(2)] x(3) by simp
      then show ?thesis using txl_below [OF assms(1) x(1,2)] grow(4) by (simp add: with_cb_other)
    qed
    then show ?thesis using txl_go [OF _ assms(2,5,6) p, of L T fo] assms(7) grow(1,2) cur by simp
  next
    case fork
    then show ?thesis using txl_go [OF _ assms(2,5,6) fork(3,5), of L T fo] assms(7) txl_fork [OF assms(1,6) fork(3,4)] by simp
  qed
qed

text \<open>C26: transactions are found. Suppose the position of every transaction on the best chain is recorded and no
  transaction occurs twice on the branch of the new block. Then inserting the block, by growing the chain or by
  switching to another branch, leaves the position of every transaction of the new best chain recorded.\<close>

theorem pov_transactions_found:
  assumes "chain_inv bc" "txl_ok bc" "block_fits (bc_db bc) block" "txs_once (bc_db bc) block"
    "unat (pb_Height block) \<le> fuel" "unat (pb_Height (bc_latest bc)) + 1 < 2 ^ 64"
  shows "txl_ok (snd (InsertBlock fuel coin True CommitToDB block bc))"
proof -
  obtain S L G where bc: "bc = \<lparr>bc_db = S, bc_latest = L, bc_genesis = G\<rparr>" by (cases bc) auto
  have inv: "tables_ok S" "blocks_ok S G" "best_ok S L" "heaviest S L" using assms(1) by (simp_all add: chain_inv_def bc)
  have B: "block_fits S block" "linked S block" "txs_once S block" using assms(3,4) by (simp_all add: bc block_fits_def)
  have Ls: "GetBlockByHash S (pb_Hash L) = Some (Block_stored L)" "unat (pb_Height L) + 1 < 2 ^ 64"
    using inv(3) assms(6) by (simp_all add: best_ok_def bc)
  have ok: "txl_ok \<lparr>bc_db = S, bc_latest = L, bc_genesis = G\<rparr>" using assms(2) by (simp add: bc)
  from insertBlock_ok [OF inv B(1) assms(5), of coin CommitToDB] show ?thesis
  proof (elim disjE exE conjE)
    fix s' D f assume "insertBlock fuel S G coin CommitToDB block \<lparr>cs_db = S, cs_latest = L\<rparr> = (Inl ErrPovInvalidFork, s')" "cs_latest s' = L"
    then show ?thesis using txl_stay [OF ok inv(2) Ls, of S] by (simp add: InsertBlock_def bc Let_def)
  next
    fix st fo s' assume "insertBlock fuel S G coin CommitToDB block \<lparr>cs_db = S, cs_latest = L\<rparr> = (Inr (st, fo), s')"
      "inserted S G L block (cs_db s') (cs_latest s')" "head_move S L block (cs_db s') (cs_latest s') fo"
    then show ?thesis using txl_step [OF ok inv(2) Ls B(2,3)] by (simp add: InsertBlock_def bc Let_def)
  qed
qed

section \<open>A batch that cannot be written\<close>

text \<open>C27: the head moves in memory before the batch is written. If writing the batch of a block that extends the
  head fails, the head in memory is a block the store does not have, and from then on every insertion fails: the
  total difficulty of the head is not found.\<close>

theorem pov_write_failure_blocks:
  assumes "chain_inv bc" "block_fits (bc_db bc) block" "pv_height (bc_db bc) (pb_Hash block) = None"
    "pb_Previous block = pb_Hash (bc_latest bc)"
  shows "\<exists>bc'. InsertBlock fuel coin False CommitToDB block bc = (Inl ErrPovOther, bc') \<and> bc_latest bc' = block \<and>
    (\<forall>fuel' coin' put CommitToDB' b. fst (InsertBlock fuel' coin' put CommitToDB' b bc') = Inl ErrPovTDNotFound)"
proof -
  obtain S L G where bc: "bc = \<lparr>bc_db = S, bc_latest = L, bc_genesis = G\<rparr>" by (cases bc) auto
  have inv: "tables_ok S" "blocks_ok S G" "best_ok S L" "heaviest S L" using assms(1) by (simp_all add: chain_inv_def bc)
  have B: "block_fits S block" "pv_height S (pb_Hash block) = None" "pb_Previous block = pb_Hash L" using assms(2-4) by (simp_all add: bc)
  have Ls: "GetBlockByHash S (pb_Hash L) = Some (Block_stored L)" using inv(3) by (simp add: best_ok_def)
  obtain T blockTD bestTD where T: "saved S block T" "td_Chain blockTD = td_of T block" "td_Chain bestTD = td_of S L"
    and run: "insertBlock fuel S G coin CommitToDB block \<lparr>cs_db = S, cs_latest = L\<rparr> =
     (if is_best coin block L blockTD bestTD
      then if pb_Previous block = pb_Hash L then bindM (connectBestBlock block) (\<lambda>_. returnM (ChainStateMain, None)) \<lparr>cs_db = T, cs_latest = L\<rparr>
           else bindM (processFork fuel S G block) (\<lambda>f. returnM (ChainStateMain, Some f)) \<lparr>cs_db = T, cs_latest = L\<rparr>
      else (Inr (ChainStateSide, None), \<lparr>cs_db = T, cs_latest = L\<rparr>))"
    using insertBlock_saves [OF inv(1-3) B(1)] by blast
  have "td_of T block = td_of S (Block_stored L) + work block" using T(1) B(3) Ls by (simp add: saved_def)
  then have "is_best coin block L blockTD bestTD" using T(2,3) B(1) by (simp add: is_best_def block_fits_def td_of_def)
  moreover have "pb_Height block = pb_Height L + 1" using B(1,3) Ls linked_prev [of S block] by (auto simp: block_fits_def)
  ultimately obtain s' where s': "insertBlock fuel S G coin CommitToDB block \<lparr>cs_db = S, cs_latest = L\<rparr> = (Inr (ChainStateMain, None), s')"
    "cs_latest s' = block" using run B(3) connect_step [of block "\<lparr>cs_db = T, cs_latest = L\<rparr>"] by (simp add: bindM_def)
  let ?S = "snd (batchUpdateTxLookupInSync None block S)"
  have "pv_td ?S (pb_Height block, pb_Hash block) = None"
    using update_keeps [of S None block] inv(1) B(2) unfolding same_blocks_def tables_ok_def by (metis option.distinct(1))
  then have "fst (InsertBlock fuel' coin' put CommitToDB' b \<lparr>bc_db = ?S, bc_latest = block, bc_genesis = G\<rparr>) = Inl ErrPovTDNotFound"
    for fuel' coin' put CommitToDB' b by (simp add: InsertBlock_def insertBlock_def bindM_def GetPovTD_def Let_def)
  then show ?thesis using s' by (simp add: InsertBlock_def bc Let_def)
qed

section \<open>An example\<close>

definition ex_povtx :: "hash \<Rightarrow> PovTransaction" where
  "ex_povtx h = \<lparr>pt_Hash = h, pt_CbTx = None, pt_Block = None\<rparr>"

definition ex_cbtx :: PovCoinBaseTx where
  "ex_cbtx = \<lparr>cb_Version = 1, cb_TxIns = [], cb_TxOuts = [], cb_StateHash = 5, cb_TxNum = 1, cb_Hash = 0\<rparr>"

definition ex_povblock :: "u64 \<Rightarrow> hash \<Rightarrow> hash \<Rightarrow> PovBlock" where
  "ex_povblock height prev h = \<lparr>pb_Header = \<lparr>ph_Version = 0, ph_Previous = prev, ph_MerkleRoot = 0, ph_Timestamp = 0,
     ph_Bits = 0x1d00ffff, ph_Nonce = 0, ph_Hash = h, ph_Height = height, ph_AuxHdr = None, ph_CbTx = ex_cbtx\<rparr>,
     pb_Txs = [ex_povtx (h + 100)]\<rparr>"

definition ex_povdb :: pov_db where
  "ex_povdb = \<lparr>pv_header = Map.empty, pv_body = Map.empty, pv_height = Map.empty, pv_td = Map.empty, pv_best = Map.empty,
     pv_latest = None, pv_txl = Map.empty, pv_cursor = None, pv_trie = Map.empty\<rparr>"

definition ex_chain :: PovBlockChain where
  "ex_chain = (case ResetChainState 5 id (ex_povblock 0 0 1) ex_povdb of Some (Inr bc) \<Rightarrow> bc | _ \<Rightarrow> undefined)"

lemma ex_chain_inv: "chain_inv ex_chain" "bc_latest ex_chain = ex_povblock 0 0 1"
  using reset_ok [of "ex_povblock 0 0 1" 5 id ex_povdb] by (auto simp: ex_chain_def ex_povblock_def ex_cbtx_def)

lemma ex_work: "work (ex_povblock h p i) > 0"
proof -
  have "GetNormTargetInt (pb_Header (ex_povblock h p i)) = 0xffff * 2 ^ 208"
    by (simp add: GetNormTargetInt_def GetAlgoTargetInt_def CompactToBig_def ex_povblock_def GetAlgoEfficiency_def GetAlgoType_def
      algo_efficiency_def algo_defs Let_def)
  then show ?thesis using CalcWork_pos [of "0xffff * 2 ^ 208"] by (simp add: work_def CalcWorkIntToBigNum_def)
qed

abbreviation ex_povgenesis :: PovBlock where "ex_povgenesis \<equiv> ex_povblock 0 0 1"

lemma ex_chain_get: "GetBlockByHash (bc_db ex_chain) h = (if h = 1 then Some (Block_stored ex_povgenesis) else None)"
  and ex_chain_heights: "pv_height (bc_db ex_chain) = [1 \<mapsto> 0]"
  and ex_chain_cursor: "pv_cursor (bc_db ex_chain) = Some 0"
  and ex_chain_txl: "pv_txl (bc_db ex_chain) = [101 \<mapsto> \<lparr>txl_BlockHash = 1, txl_BlockHeight = 0, txl_TxIndex = 0\<rparr>]"
  by (simp_all add: ex_chain_def ResetChainState_def resetWithGenesisBlock_def DropAllPovBlocks_def AddPovBlock_def pov_writes
    bindM_def commitToDB_def ex_povblock_def ex_cbtx_def ex_povdb_def block_lookups_def ex_povtx_def GetBlockByHash_unfold
    Block_stored_def)

lemma ex_block_fits: "block_fits (bc_db ex_chain) (ex_povblock 1 1 2)"
  by (simp add: block_fits_def linked_def ex_chain_get ex_chain_heights ex_work) (simp add: ex_povblock_def)

lemma ex_paths:
  "path (bc_db ex_chain) ex_povgenesis xs x \<longleftrightarrow> xs = [] \<and> x = ex_povgenesis"
  "path (bc_db ex_chain) (Block_stored ex_povgenesis) xs x \<longleftrightarrow> xs = [] \<and> x = Block_stored ex_povgenesis"
  "path (bc_db ex_chain) (ex_povblock 1 1 2) xs x \<longleftrightarrow>
     xs = [] \<and> x = ex_povblock 1 1 2 \<or> xs = [ex_povblock 1 1 2] \<and> x = Block_stored ex_povgenesis"
proof -
  have g: "\<not> linked (bc_db ex_chain) ex_povgenesis" "\<not> linked (bc_db ex_chain) (Block_stored ex_povgenesis)"
    by (simp_all add: linked_def ex_povblock_def)
  then show 1: "path (bc_db ex_chain) ex_povgenesis xs x \<longleftrightarrow> xs = [] \<and> x = ex_povgenesis"
    "path (bc_db ex_chain) (Block_stored ex_povgenesis) xs x \<longleftrightarrow> xs = [] \<and> x = Block_stored ex_povgenesis" for xs
    by (cases xs; auto)+
  have "GetBlockByHash (bc_db ex_chain) (pb_Previous (ex_povblock 1 1 2)) = Some (Block_stored ex_povgenesis)"
    by (simp add: ex_chain_get) (simp add: ex_povblock_def)
  moreover have "linked (bc_db ex_chain) (ex_povblock 1 1 2)" using ex_block_fits by (simp add: block_fits_def)
  ultimately show "path (bc_db ex_chain) (ex_povblock 1 1 2) xs x \<longleftrightarrow>
     xs = [] \<and> x = ex_povblock 1 1 2 \<or> xs = [ex_povblock 1 1 2] \<and> x = Block_stored ex_povgenesis"
    using 1(2) by (cases xs) auto
qed

lemma ex_txl: "txl_ok ex_chain" "txs_once (bc_db ex_chain) (ex_povblock 1 1 2)"
  by (auto simp: txl_ok_def txs_once_def ex_chain_inv ex_paths ex_chain_cursor ex_chain_txl position_def block_lookups_def)
    (simp_all add: ex_povblock_def ex_povtx_def Block_stored_def Tx_stored_def)

theorem pov_insert_heaviest_witness:
  "chain_inv ex_chain \<and> block_fits (bc_db ex_chain) (ex_povblock 1 1 2) \<and>
   (case InsertBlock 1 True True id (ex_povblock 1 1 2) ex_chain of
      (Inr _, bc') \<Rightarrow> chain_inv bc' \<and> GetBlockByHash (bc_db bc') 2 = Some (Block_stored (ex_povblock 1 1 2))
    | (Inl e, bc') \<Rightarrow> chain_inv bc')"
  using pov_insert_heaviest [OF ex_chain_inv(1) ex_block_fits, of 1 True id] ex_chain_inv(1) ex_block_fits
  by (auto simp: ex_povblock_def split: prod.splits sum.splits)

theorem pov_transactions_found_witness:
  "txl_ok ex_chain \<and> txl_ok (snd (InsertBlock 1 True True id (ex_povblock 1 1 2) ex_chain))"
  using pov_transactions_found [OF ex_chain_inv(1) ex_txl(1) ex_block_fits ex_txl(2), of 1 True id] ex_chain_inv(2) ex_txl(1)
  by (simp add: ex_povblock_def)

theorem pov_write_failure_blocks_witness:
  "\<exists>bc'. InsertBlock 1 True False id (ex_povblock 1 1 2) ex_chain = (Inl ErrPovOther, bc') \<and> bc_latest bc' = ex_povblock 1 1 2 \<and>
    fst (InsertBlock 5 True True id (ex_povblock 2 2 3) bc') = Inl ErrPovTDNotFound"
  using pov_write_failure_blocks [OF ex_chain_inv(1) ex_block_fits, of 1 True id] ex_chain_inv(2)
  by (simp add: ex_chain_heights ex_povblock_def) blast

end
