(* ===== verification/Merkle.thy ===== *)
theory Merkle
  imports Prelude
begin

text \<open>Merkle trees (\<open>common/merkle/merkle.go\<close>): the tree in an array, the branch of the first leaf, and roots
  from a branch. The double SHA-256 is the parameter \<open>D\<close>. The loops over arrays are shown equal to a
  recursive root, and the branch of the coinbase to give that root.\<close>

unbundle bit_operations_syntax

section \<open>The code\<close>

text \<open>\<open>math.Log2\<close> rounded down; exact for lists shorter than \<open>2 ^ 40\<close>.\<close>

fun log2 :: "nat \<Rightarrow> nat" where
  "log2 n = (if n < 2 then 0 else Suc (log2 (n div 2)))"

declare log2.simps [simp del]

definition nextPowerOfTwo :: "nat \<Rightarrow> nat" where
  "nextPowerOfTwo n = (if n AND (n - 1) = 0 then n else 2 ^ (log2 n + 1))"

definition HashMerkleBranches :: "(bytes \<Rightarrow> hash) \<Rightarrow> hash \<Rightarrow> hash \<Rightarrow> hash" where
  "HashMerkleBranches D l r = D (be_bytes 32 l @ be_bytes 32 r)"

text \<open>The body of the switch: the parent of two entries.\<close>

definition parent :: "(bytes \<Rightarrow> hash) \<Rightarrow> hash option \<Rightarrow> hash option \<Rightarrow> hash option" where
  "parent D l r =
     (case l of
        None \<Rightarrow> None
      | Some a \<Rightarrow> Some (case r of None \<Rightarrow> HashMerkleBranches D a a | Some b \<Rightarrow> HashMerkleBranches D a b))"

function merkle_loop :: "(bytes \<Rightarrow> hash) \<Rightarrow> nat \<Rightarrow> nat \<Rightarrow> nat \<Rightarrow> hash option list \<Rightarrow> hash option list" where
  "merkle_loop D sz i off a =
     (if i < sz - 1 then merkle_loop D sz (i + 2) (off + 1) (a[off := parent D (a ! i) (a ! (i + 1))]) else a)"
  by pat_completeness auto
termination by (relation "measure (\<lambda>(D, sz, i, off, a). sz - i)") auto

declare merkle_loop.simps [simp del]

definition BuildMerkleTreeStore :: "(bytes \<Rightarrow> hash) \<Rightarrow> hash list \<Rightarrow> hash option list" where
  "BuildMerkleTreeStore D txs =
     (if txs = [] then [Some 0]
      else let p = nextPowerOfTwo (length txs); sz = p * 2 - 1
           in merkle_loop D sz 0 p (map Some txs @ replicate (sz - length txs) None))"

text \<open>Dereferencing nil would panic; \<open>Merkle_root_array\<close> below shows that the last entry is not nil.\<close>

definition CalcMerkleTreeRootHash :: "(bytes \<Rightarrow> hash) \<Rightarrow> hash list \<Rightarrow> hash" where
  "CalcMerkleTreeRootHash D txs =
     (if txs = [] then 0 else the (last (BuildMerkleTreeStore D txs)))"

text \<open>One round of \<open>BuildCoinbaseMerkleBranch\<close>: the last entry is repeated when the number is even, then
  pairs after the first are merged in place.\<close>

definition pad_even :: "hash list \<Rightarrow> hash list" where
  "pad_even ms = (if even (length ms) then ms @ [last ms] else ms)"

definition merge_step :: "(bytes \<Rightarrow> hash) \<Rightarrow> hash list \<Rightarrow> nat \<Rightarrow> hash list" where
  "merge_step D ms i = ms[i := HashMerkleBranches D (ms ! (i * 2 + 1)) (ms ! (i * 2 + 2))]"

definition merge_round :: "(bytes \<Rightarrow> hash) \<Rightarrow> hash list \<Rightarrow> hash list" where
  "merge_round D ms =
     (let n = (length ms - 1) div 2 in take n (foldl (merge_step D) ms [0..<n]))"

lemma length_merge_fold: "length (foldl (merge_step D) ms is) = length ms"
  by (induction "is" arbitrary: ms) (auto simp: merge_step_def)

lemma length_merge_round: "length (merge_round D (pad_even ms)) = length ms div 2"
  by (cases "even (length ms)") (auto simp: merge_round_def Let_def length_merge_fold pad_even_def elim: oddE)

function branch_loop :: "(bytes \<Rightarrow> hash) \<Rightarrow> hash list \<Rightarrow> hash list \<Rightarrow> hash list" where
  "branch_loop D ret ms =
     (if length ms > 1 then branch_loop D (ret @ [ms ! 0]) (merge_round D (pad_even ms))
      else if length ms \<noteq> 1 then ret else ret @ [ms ! 0])"
  by pat_completeness auto
termination by (relation "measure (\<lambda>(D, ret, ms). length ms)") (auto simp: length_merge_round)

declare branch_loop.simps [simp del]

definition BuildCoinbaseMerkleBranch :: "(bytes \<Rightarrow> hash) \<Rightarrow> hash list \<Rightarrow> hash list" where
  "BuildCoinbaseMerkleBranch D txs = (if txs = [] then [] else branch_loop D [] txs)"

definition CalcCoinbaseMerkleRoot :: "(bytes \<Rightarrow> hash) \<Rightarrow> hash \<Rightarrow> hash list \<Rightarrow> hash" where
  "CalcCoinbaseMerkleRoot D cb branch = foldl (HashMerkleBranches D) cb branch"

text \<open>The index is a signed machine integer; the shift rounds down.\<close>

fun index_loop :: "(bytes \<Rightarrow> hash) \<Rightarrow> hash \<Rightarrow> hash list \<Rightarrow> int \<Rightarrow> hash" where
  "index_loop D h [] i = h"
| "index_loop D h (b # bs) i =
     index_loop D (if i AND 1 = 1 then D (be_bytes 32 b @ be_bytes 32 h) else D (be_bytes 32 h @ be_bytes 32 b)) bs (drop_bit 1 i)"

definition CalcMerkleRootByIndex :: "(bytes \<Rightarrow> hash) \<Rightarrow> hash \<Rightarrow> hash list \<Rightarrow> int \<Rightarrow> hash" where
  "CalcMerkleRootByIndex D h branch i = (if i = - 1 then 0 else index_loop D h branch i)"

text \<open>The shift of the constant is done at 32 bits, so a height of 32 or more divides by zero: \<open>None\<close>.\<close>

definition CalcAuxPowExpectedIndex :: "32 word \<Rightarrow> 32 word \<Rightarrow> nat \<Rightarrow> nat option" where
  "CalcAuxPowExpectedIndex nonce chainID h =
     (let rand = nonce * 1103515245 + 12345;
          rand = rand + chainID;
          rand = rand * 1103515245 + 12345;
          m = push_bit h 1
      in if m = 0 then None else Some (unat (rand mod m)))"

section \<open>The root\<close>

fun level :: "(bytes \<Rightarrow> hash) \<Rightarrow> hash list \<Rightarrow> hash list" where
  "level D (a # b # hs) = HashMerkleBranches D a b # level D hs"
| "level D [a] = [HashMerkleBranches D a a]"
| "level D [] = []"

lemma length_level [simp]: "length (level D hs) = (length hs + 1) div 2"
  by (induction D hs rule: level.induct) auto

function merkle_root :: "(bytes \<Rightarrow> hash) \<Rightarrow> hash list \<Rightarrow> hash" where
  "merkle_root D hs = (case hs of [] \<Rightarrow> 0 | [h] \<Rightarrow> h | _ \<Rightarrow> merkle_root D (level D hs))"
  by pat_completeness auto
termination by (relation "measure (\<lambda>(D, hs). length hs)") (auto simp: length_level)

declare merkle_root.simps [simp del]

lemma merkle_root_simps [simp]:
  "merkle_root D [] = 0" "merkle_root D [h] = h"
  "merkle_root D (a # b # hs) = merkle_root D (level D (a # b # hs))"
  by (subst merkle_root.simps; simp)+

section \<open>Powers of two\<close>

lemma and_pred_eq_0: "n > 0 \<Longrightarrow> n AND (n - 1) = 0 \<longleftrightarrow> (\<exists>k. n = 2 ^ k)" for n :: nat
proof (induction n rule: less_induct)
  case (less n)
  show ?case
  proof (cases "even n")
    case True
    then obtain m where m: "n = 2 * m" "m > 0" using less.prems by (auto elim!: evenE)
    have "n AND (n - 1) = 2 * (m AND (m - 1))"
    proof -
      have "(2 * m - 1) div 2 = m - 1" using m(2) by linarith
      then show ?thesis using m and_rec [of n "n - 1"] by simp
    qed
    moreover have "(\<exists>k. n = 2 ^ k) \<longleftrightarrow> (\<exists>k. m = 2 ^ k)"
    proof
      assume "\<exists>k. n = 2 ^ k"
      then obtain k where "n = 2 ^ k" ..
      with m True show "\<exists>k. m = 2 ^ k" by (cases k) auto
    next
      assume "\<exists>k. m = 2 ^ k"
      then show "\<exists>k. n = 2 ^ k" using m by (metis power_Suc)
    qed
    ultimately show ?thesis using less.IH [of m] m by simp
  next
    case False
    then obtain m where m: "n = 2 * m + 1" by (auto elim!: oddE)
    have "n AND (n - 1) = 2 * m" using m and_rec [of n "n - 1"] by simp
    moreover have "(\<exists>k. n = 2 ^ k) \<longleftrightarrow> m = 0"
    proof
      assume "\<exists>k. n = 2 ^ k"
      then obtain k where "n = 2 ^ k" ..
      moreover from this False have "k = 0" by (cases k) auto
      ultimately show "m = 0" using m by simp
    next
      assume "m = 0"
      then show "\<exists>k. n = 2 ^ k" using m by (intro exI [of _ 0]) simp
    qed
    ultimately show ?thesis by simp
  qed
qed

lemma log2_bounds: "n > 0 \<Longrightarrow> 2 ^ log2 n \<le> n \<and> n < 2 ^ (log2 n + 1)"
proof (induction n rule: log2.induct)
  case (1 n)
  show ?case
  proof (cases "n < 2")
    case True
    then have "n = 1" using 1(2) by simp
    then show ?thesis by (simp add: log2.simps)
  next
    case False
    then have "log2 n = Suc (log2 (n div 2))" "n div 2 > 0" by (simp_all add: log2.simps [of n])
    then show ?thesis using 1(1) [OF False] by auto
  qed
qed

lemma nextPowerOfTwo_bounds:
  assumes "n > 0"
  obtains k where "nextPowerOfTwo n = 2 ^ k" "n \<le> 2 ^ k" "2 ^ k < 2 * n"
proof (cases "n AND (n - 1) = 0")
  case True
  then obtain k where "n = 2 ^ k" using and_pred_eq_0 [OF assms] by blast
  then show thesis using that [of k] True assms by (simp add: nextPowerOfTwo_def)
next
  case False
  then have "nextPowerOfTwo n = 2 ^ (log2 n + 1)" by (simp add: nextPowerOfTwo_def)
  moreover have "n \<noteq> 2 ^ log2 n" using False and_pred_eq_0 [OF assms] by metis
  ultimately show thesis using that [of "log2 n + 1"] log2_bounds [OF assms] by simp
qed

section \<open>The array\<close>

text \<open>Entry \<open>j\<close> above the leaves is the parent of the two entries that belong to it.\<close>

definition parents :: "(bytes \<Rightarrow> hash) \<Rightarrow> nat \<Rightarrow> nat \<Rightarrow> hash option list \<Rightarrow> bool" where
  "parents D p n a \<longleftrightarrow> (\<forall>j. p \<le> j \<and> j < n \<longrightarrow> a ! j = parent D (a ! (2 * (j - p))) (a ! (2 * (j - p) + 1)))"

lemma parents_step:
  assumes "parents D p (p + m) a" "2 * m < 2 * p - 2" "length a = 2 * p - 1"
  shows "parents D p (p + m + 1) (a[p + m := parent D (a ! (2 * m)) (a ! (2 * m + 1))])"
  unfolding parents_def
proof (intro allI impI)
  fix j assume j: "p \<le> j \<and> j < p + m + 1"
  let ?b = "a[p + m := parent D (a ! (2 * m)) (a ! (2 * m + 1))]"
  have "2 * (j - p) + 1 < p + m" using j assms(2) by linarith
  then have same: "?b ! (2 * (j - p)) = a ! (2 * (j - p))" "?b ! (2 * (j - p) + 1) = a ! (2 * (j - p) + 1)" by simp_all
  show "?b ! j = parent D (?b ! (2 * (j - p))) (?b ! (2 * (j - p) + 1))"
  proof (cases "j = p + m")
    case True
    then show ?thesis unfolding same using assms(2,3) by simp
  next
    case False
    then show ?thesis unfolding same using assms(1) j by (simp add: parents_def)
  qed
qed

lemma merkle_loop_parents:
  assumes "parents D p (p + m) a" "length a = 2 * p - 1" "p > 0" "m \<le> p - 1"
  shows "parents D p (2 * p - 1) (merkle_loop D (2 * p - 1) (2 * m) (p + m) a) \<and>
    take p (merkle_loop D (2 * p - 1) (2 * m) (p + m) a) = take p a \<and>
    length (merkle_loop D (2 * p - 1) (2 * m) (p + m) a) = 2 * p - 1"
  using assms
proof (induction "p - 1 - m" arbitrary: m a)
  case 0
  then have "m = p - 1" by simp
  then have e: "p + m = 2 * p - 1" "\<not> 2 * m < 2 * p - 1 - 1" using 0 by linarith+
  have "merkle_loop D (2 * p - 1) (2 * m) (p + m) a = a" by (subst merkle_loop.simps) (simp only: e(2) if_False)
  then show ?case using 0 e(1) by simp
next
  case (Suc d)
  then have lt: "2 * m < 2 * p - 2" by linarith
  let ?a = "a[p + m := parent D (a ! (2 * m)) (a ! (2 * m + 1))]"
  have "merkle_loop D (2 * p - 1) (2 * m) (p + m) a = merkle_loop D (2 * p - 1) (2 * Suc m) (p + Suc m) ?a"
  proof -
    have "2 * m < 2 * p - 1 - 1" using lt by linarith
    moreover have "2 * Suc m = 2 * m + 2" "p + Suc m = p + m + 1" by simp_all
    ultimately show ?thesis by (subst merkle_loop.simps) (simp only: if_True)
  qed
  moreover have "parents D p (p + Suc m) ?a" using parents_step [OF Suc.prems(1) lt Suc.prems(2)] by simp
  moreover have "d = p - 1 - Suc m" "Suc m \<le> p - 1" using Suc by linarith+
  ultimately show ?case using Suc.hyps(1) [of "Suc m" ?a] Suc.prems(2,3) by simp
qed

text \<open>The levels of the array.\<close>

fun plevel :: "(bytes \<Rightarrow> hash) \<Rightarrow> hash option list \<Rightarrow> hash option list" where
  "plevel D (a # b # hs) = parent D a b # plevel D hs"
| "plevel D hs = []"

lemma plevel_nth: "2 * i + 1 < length hs \<Longrightarrow> plevel D hs ! i = parent D (hs ! (2 * i)) (hs ! (2 * i + 1))"
proof (induction D hs arbitrary: i rule: plevel.induct)
  case (1 D a b hs)
  then show ?case by (cases i) auto
qed auto

lemma length_plevel: "length (plevel D hs) = length hs div 2"
  by (induction D hs rule: plevel.induct) auto

lemma plevel_None: "plevel D (replicate r None) = replicate (r div 2) None"
proof (induction r rule: less_induct)
  case (less r)
  show ?case
  proof (cases "r < 2")
    case True
    then have "r = 0 \<or> r = 1" by auto
    then show ?thesis by auto
  next
    case False
    then obtain q where r: "r = Suc (Suc q)" by (metis Suc_1 add_2_eq_Suc le_Suc_ex not_less)
    then show ?thesis using less.IH [of q] by (simp add: parent_def)
  qed
qed

lemma plevel_pad:
  "even (length hs + r) \<Longrightarrow> plevel D (map Some hs @ replicate r None) = map Some (level D hs) @ replicate ((length hs + r) div 2 - length (level D hs)) None"
proof (induction D hs rule: level.induct)
  case (2 D a)
  then obtain q where "r = Suc q" by (cases r) auto
  then show ?case using 2 by (simp add: plevel_None parent_def)
qed (auto simp: plevel_None parent_def)

lemma length_plevels: "length hs = 2 ^ k \<Longrightarrow> l \<le> k \<Longrightarrow> length ((plevel D ^^ l) hs) = 2 ^ (k - l)"
proof (induction l)
  case (Suc l)
  then have "k - l = Suc (k - Suc l)" by simp
  then show ?case using Suc by (simp add: length_plevel)
qed simp

text \<open>Level \<open>l\<close> starts at \<open>2 ^ (k + 1) - 2 ^ (k + 1 - l)\<close>.\<close>

lemma parents_level:
  assumes "parents D (2 ^ k) (2 ^ (k + 1) - 1) a" "length a = 2 ^ (k + 1) - 1" "l \<le> k" "i < 2 ^ (k - l)"
  shows "a ! (2 ^ (k + 1) - 2 ^ (k + 1 - l) + i) = (plevel D ^^ l) (take (2 ^ k) a) ! i"
  using assms(3,4)
proof (induction l arbitrary: i)
  case 0
  then show ?case by simp
next
  case (Suc l)
  let ?s = "2 ^ (k + 1) - 2 ^ (k + 1 - l)" and ?t = "2 ^ (k + 1) - 2 ^ (k - l) + i"
  define A B C where ABC: "A = (2::nat) ^ k" "B = (2::nat) ^ (k - l)" "C = (2::nat) ^ (k - Suc l)"
  have "k - l = Suc (k - Suc l)" "k + 1 - l = Suc (k - l)" using Suc.prems(1) by simp_all
  then have pw: "(2::nat) ^ (k + 1 - l) = 2 * B" "B = 2 * C" "(2::nat) ^ (k + 1) = 2 * A" "i < C"
    using Suc.prems(2) by (simp_all add: ABC)
  have le: "B \<le> A" unfolding ABC by (rule power_increasing) simp_all
  have j: "2 ^ k \<le> ?t" "?t < 2 ^ (k + 1) - 1" "2 * (?t - 2 ^ k) = ?s + 2 * i"
    using pw le unfolding ABC(1,2) [symmetric] pw(1,3) by linarith+
  have len: "length ((plevel D ^^ l) (take (2 ^ k) a)) = 2 ^ (k - l)"
    using Suc.prems(1) assms(2) by (intro length_plevels) simp_all
  have "a ! ?t = parent D (a ! (?s + 2 * i)) (a ! (?s + 2 * i + 1))"
    using assms(1) j unfolding parents_def by metis
  also have "\<dots> = parent D ((plevel D ^^ l) (take (2 ^ k) a) ! (2 * i)) ((plevel D ^^ l) (take (2 ^ k) a) ! (2 * i + 1))"
    using Suc.IH [of "2 * i"] Suc.IH [of "2 * i + 1"] Suc.prems(1) pw unfolding ABC(2) [symmetric] by simp
  also have "\<dots> = plevel D ((plevel D ^^ l) (take (2 ^ k) a)) ! i"
    by (rule plevel_nth [symmetric]) (use len pw in \<open>simp add: ABC(2)\<close>)
  finally show ?case by simp
qed

lemma levels_pad:
  assumes "length hs \<le> 2 ^ k" "l \<le> k"
  shows "length ((level D ^^ l) hs) \<le> 2 ^ (k - l) \<and> (plevel D ^^ l) (map Some hs @ replicate (2 ^ k - length hs) None) =
    map Some ((level D ^^ l) hs) @ replicate (2 ^ (k - l) - length ((level D ^^ l) hs)) None"
  using assms(2)
proof (induction l)
  case (Suc l)
  let ?h = "(level D ^^ l) hs"
  have k: "(2::nat) ^ (k - l) = 2 * 2 ^ (k - Suc l)" using Suc.prems by (metis Suc_diff_Suc Suc_le_lessD power_Suc)
  have le: "length ?h \<le> 2 * 2 ^ (k - Suc l)" using Suc k by simp
  then have "length (level D ?h) \<le> 2 ^ (k - Suc l)" by simp
  moreover have "plevel D (map Some ?h @ replicate (2 * 2 ^ (k - Suc l) - length ?h) None) =
      map Some (level D ?h) @ replicate ((length ?h + (2 * 2 ^ (k - Suc l) - length ?h)) div 2 - length (level D ?h)) None"
    by (rule plevel_pad) (use le in simp)
  ultimately show ?case using Suc le unfolding k by simp
qed (use assms(1) in simp)

lemma levels_root: "length hs \<le> 2 ^ k \<Longrightarrow> 2 ^ k < 2 * length hs \<Longrightarrow> (level D ^^ k) hs = [merkle_root D hs]"
proof (induction k arbitrary: hs)
  case 0
  then have "length hs = 1" by auto
  then show ?case by (auto simp: length_Suc_conv)
next
  case (Suc k)
  then have "2 ^ k < length hs" by simp
  moreover have "(1::nat) \<le> 2 ^ k" by simp
  ultimately have "2 \<le> length hs" by linarith
  then obtain a b r where hs: "hs = a # b # r" by (cases hs; cases "tl hs") auto
  have "length (level D hs) \<le> 2 ^ k" "2 ^ k < 2 * length (level D hs)" using Suc.prems by simp_all
  from Suc.IH [OF this] show ?case by (simp add: funpow_swap1 hs)
qed

lemma Merkle_root_array:
  assumes "txs \<noteq> []"
  shows "last (BuildMerkleTreeStore D txs) = Some (merkle_root D txs)"
proof -
  obtain k where k: "nextPowerOfTwo (length txs) = 2 ^ k" "length txs \<le> 2 ^ k" "2 ^ k < 2 * length txs"
    using nextPowerOfTwo_bounds [of "length txs"] assms by blast
  let ?p = "2 ^ k :: nat" and ?a = "map Some txs @ replicate (2 ^ k * 2 - 1 - length txs) None"
  let ?r = "merkle_loop D (2 * ?p - 1) (2 * 0) (?p + 0) ?a"
  have "parents D ?p (2 * ?p - 1) ?r \<and> take ?p ?r = take ?p ?a \<and> length ?r = 2 * ?p - 1"
    by (rule merkle_loop_parents) (use k(2) in \<open>auto simp: parents_def mult.commute\<close>)
  then have r: "parents D ?p (2 ^ (k + 1) - 1) ?r" "take ?p ?r = take ?p ?a" "length ?r = 2 ^ (k + 1) - 1" by simp_all
  have pre: "take ?p ?a = map Some txs @ replicate (2 ^ k - length txs) None"
  proof -
    have "?p - length txs \<le> 2 ^ k * 2 - 1 - length txs" using one_le_power [of "2::nat" k] by linarith
    then show ?thesis using k(2) by (simp add: min_absorb1)
  qed
  have two: "(2::nat) ^ (k + 1) \<ge> 2" by simp
  then have "length ?r > 0" unfolding r(3) by linarith
  then have "last ?r = ?r ! (length ?r - 1)" by (intro last_conv_nth) auto
  moreover have "length ?r - 1 = 2 ^ (k + 1) - 2 ^ (k + 1 - k) + 0" unfolding r(3) using two by simp
  ultimately have "last ?r = ?r ! (2 ^ (k + 1) - 2 ^ (k + 1 - k) + 0)" by metis
  also have "\<dots> = (plevel D ^^ k) (take ?p ?r) ! 0" by (rule parents_level [OF r(1,3)]) simp_all
  also have "\<dots> = Some (merkle_root D txs)"
    using levels_pad [OF k(2) order_refl, of D] levels_root [OF k(2,3), of D] unfolding r(2) pre by simp
  finally show ?thesis using assms k(1) by (simp add: BuildMerkleTreeStore_def Let_def mult.commute)
qed

lemma CalcMerkleTreeRootHash_root: "CalcMerkleTreeRootHash D txs = merkle_root D txs"
  by (simp add: CalcMerkleTreeRootHash_def Merkle_root_array)

section \<open>The branch of the coinbase\<close>

lemma merge_fold:
  assumes "2 * n < length ms"
  shows "foldl (merge_step D) ms [0..<n] = map (\<lambda>i. HashMerkleBranches D (ms ! (i * 2 + 1)) (ms ! (i * 2 + 2))) [0..<n] @ drop n ms"
  using assms
proof (induction n)
  case (Suc n)
  let ?f = "\<lambda>i. HashMerkleBranches D (ms ! (i * 2 + 1)) (ms ! (i * 2 + 2))"
  have "foldl (merge_step D) ms [0..<Suc n] = merge_step D (map ?f [0..<n] @ drop n ms) n" using Suc by simp
  also have "\<dots> = (map ?f [0..<n] @ drop n ms)[n := ?f n]"
    using Suc.prems by (simp add: merge_step_def nth_append mult_2_right)
  also have "\<dots> = map ?f [0..<n] @ ?f n # drop (Suc n) ms"
    using Suc.prems by (simp add: list_update_append Cons_nth_drop_Suc [symmetric])
  finally show ?case by simp
qed simp

lemma level_nth: "2 * i + 1 < length hs \<Longrightarrow> level D hs ! i = HashMerkleBranches D (hs ! (2 * i)) (hs ! (2 * i + 1))"
proof (induction D hs arbitrary: i rule: level.induct)
  case (1 D a b hs)
  then show ?case by (cases i) auto
qed auto

lemma level_snoc: "odd (length hs) \<Longrightarrow> level D (hs @ [last hs]) = level D hs"
proof (induction D hs rule: level.induct)
  case (1 D a b hs)
  then have "hs \<noteq> []" by auto
  then show ?case using 1 by simp
qed auto

text \<open>One round gives the next level of the tree without its first entry.\<close>

lemma level_pad: "ms \<noteq> [] \<Longrightarrow> level D (c # pad_even ms) = level D (c # ms)"
  using level_snoc [of "c # ms" D] by (auto simp: pad_even_def)

lemma merge_round_level:
  assumes "odd (length ms)"
  shows "HashMerkleBranches D c (ms ! 0) # merge_round D ms = level D (c # ms)"
proof (rule nth_equalityI)
  let ?n = "(length ms - 1) div 2"
  have len: "length ms = 2 * ?n + 1" using assms by (auto elim!: oddE)
  have r: "merge_round D ms = map (\<lambda>i. HashMerkleBranches D (ms ! (i * 2 + 1)) (ms ! (i * 2 + 2))) [0..<?n]"
    using len by (simp add: merge_round_def Let_def merge_fold)
  show "length (HashMerkleBranches D c (ms ! 0) # merge_round D ms) = length (level D (c # ms))"
    using len by (simp add: r)
  fix i assume "i < length (HashMerkleBranches D c (ms ! 0) # merge_round D ms)"
  then have i: "i < Suc ?n" by (simp add: r)
  have "level D (c # ms) ! i = HashMerkleBranches D ((c # ms) ! (2 * i)) ((c # ms) ! (2 * i + 1))"
    by (rule level_nth) (use i len in simp)
  then show "(HashMerkleBranches D c (ms ! 0) # merge_round D ms) ! i = level D (c # ms) ! i"
    using i by (cases i) (simp_all add: r mult.commute)
qed

lemma branch_loop_app: "branch_loop D ret ms = ret @ branch_loop D [] ms"
proof (induction "length ms" arbitrary: ret ms rule: less_induct)
  case less
  show ?case
  proof (cases "length ms > 1")
    case True
    then have "length (merge_round D (pad_even ms)) < length ms" by (simp add: length_merge_round)
    then show ?thesis using less [of "merge_round D (pad_even ms)" "ret @ [ms ! 0]"] less [of "merge_round D (pad_even ms)" "[ms ! 0]"] True
      by (simp add: branch_loop.simps [of D _ ms])
  qed (simp add: branch_loop.simps [of D _ ms])
qed

lemma coinbase_root: "CalcCoinbaseMerkleRoot D c (branch_loop D [] ms) = merkle_root D (c # ms)"
proof (induction "length ms" arbitrary: c ms rule: less_induct)
  case less
  show ?case
  proof (cases "length ms > 1")
    case True
    then obtain a b r where ms: "ms = a # b # r" by (cases ms; cases "tl ms") auto
    let ?m = "merge_round D (pad_even ms)"
    have "odd (length (pad_even ms))" by (simp add: pad_even_def)
    then have "HashMerkleBranches D c (pad_even ms ! 0) # ?m = level D (c # pad_even ms)" by (rule merge_round_level)
    then have lv: "HashMerkleBranches D c (ms ! 0) # ?m = level D (c # ms)"
      using level_pad [of ms D c] ms by (simp add: pad_even_def split: if_splits)
    have "branch_loop D [] ms = ms ! 0 # branch_loop D [] ?m"
      using True branch_loop_app [of D "[ms ! 0]" ?m] by (simp add: branch_loop.simps [of D "[]" ms])
    then have "CalcCoinbaseMerkleRoot D c (branch_loop D [] ms) = CalcCoinbaseMerkleRoot D (HashMerkleBranches D c (ms ! 0)) (branch_loop D [] ?m)"
      by (simp add: CalcCoinbaseMerkleRoot_def)
    also have "\<dots> = merkle_root D (HashMerkleBranches D c (ms ! 0) # ?m)"
      by (rule less) (use True in \<open>simp add: length_merge_round\<close>)
    finally show ?thesis unfolding lv by (simp add: ms)
  next
    case False
    then consider "ms = []" | a where "ms = [a]" by (cases ms) auto
    then show ?thesis by cases (simp_all add: branch_loop.simps CalcCoinbaseMerkleRoot_def)
  qed
qed

lemma index_loop_0: "index_loop D h bs 0 = CalcCoinbaseMerkleRoot D h bs"
  by (induction bs arbitrary: h) (simp_all add: CalcCoinbaseMerkleRoot_def HashMerkleBranches_def)

section \<open>Properties\<close>

text \<open>C23: the root computed in the array is the root of the tree in which every level pairs the hashes of the
  one below and repeats the last one of an odd level; the branch built for the coinbase leads from the
  coinbase to that root, by \<open>CalcCoinbaseMerkleRoot\<close> and by \<open>CalcMerkleRootByIndex\<close> at index 0.\<close>

theorem merkle_coinbase_branch:
  "CalcMerkleTreeRootHash D hs = merkle_root D hs \<and>
   CalcCoinbaseMerkleRoot D cb (BuildCoinbaseMerkleBranch D txs) = CalcMerkleTreeRootHash D (cb # txs) \<and>
   CalcMerkleRootByIndex D cb (BuildCoinbaseMerkleBranch D txs) 0 = CalcMerkleTreeRootHash D (cb # txs)"
proof -
  have "CalcCoinbaseMerkleRoot D cb (BuildCoinbaseMerkleBranch D txs) = merkle_root D (cb # txs)"
    using coinbase_root [of D cb txs] by (auto simp: BuildCoinbaseMerkleBranch_def CalcCoinbaseMerkleRoot_def)
  then show ?thesis by (simp add: CalcMerkleTreeRootHash_root CalcMerkleRootByIndex_def index_loop_0)
qed

lemma merkle_root_repeats:
  assumes "odd (length hs)" "length hs > 1"
  shows "merkle_root D (hs @ [last hs]) = merkle_root D hs"
proof -
  obtain a b r where "hs = a # b # r" using assms(2) by (cases hs; cases "tl hs") auto
  then show ?thesis using level_snoc [OF assms(1), of D] by simp
qed

lemma CalcAuxPowExpectedIndex_bound:
  assumes "CalcAuxPowExpectedIndex nonce c h = Some i"
  shows "h < 32 \<and> i < 2 ^ h"
proof -
  let ?m = "push_bit h 1 :: 32 word"
  obtain x :: "32 word" where x: "?m \<noteq> 0" "i = unat (x mod ?m)"
    using assms by (auto simp: CalcAuxPowExpectedIndex_def Let_def split: if_splits)
  have u: "unat ?m = 2 ^ h mod 2 ^ 32"
    using unsigned_push_bit_eq [of h "1 :: 32 word", where ?'a = nat] by (simp add: take_bit_eq_mod push_bit_eq_mult)
  have h: "h < 32"
  proof (rule ccontr)
    assume "\<not> h < 32"
    then have "(2::nat) ^ 32 dvd 2 ^ h" by (intro le_imp_power_dvd) simp
    then show False using x(1) u by (simp add: unat_eq_0 [symmetric] dvd_eq_mod_eq_0 [symmetric])
  qed
  then have m: "unat ?m = 2 ^ h" unfolding u by (intro mod_less power_strict_increasing) simp_all
  have "unat (x mod ?m) = unat x mod unat ?m" by (rule unat_mod)
  then show ?thesis using h x(2) m by simp
qed

end
