(* ===== verification/Pov_Read.thy ===== *)
theory Pov_Read
  imports Pov_Chain_Thms Merkle
begin

text \<open>Reading the chain (\<open>consensus/pov/pov_chain.go\<close>): ancestors, the locator of a block, the median time and the
  rewards. Loops that follow the previous hashes have no bound in the code; they take a number of steps as fuel and
  give \<open>None\<close> when it is used up. On a sound store they end.\<close>

section \<open>Blocks\<close>

definition HasFullBlock :: "pov_db \<Rightarrow> hash \<Rightarrow> u64 \<Rightarrow> bool" where
  "HasFullBlock S hash height = HasPovBlock S height hash"

definition GetBestBlockByHash :: "pov_db \<Rightarrow> hash \<Rightarrow> PovBlock option" where
  "GetBestBlockByHash S hash =
     (case GetPovBlockByHash S hash of
        Inl _ \<Rightarrow> None
      | Inr block \<Rightarrow>
          (case GetPovBestHash S (pb_Height block) of
             Inl _ \<Rightarrow> None
           | Inr bestHash \<Rightarrow> if bestHash \<noteq> hash then None else Some block))"

definition HasBestBlock :: "pov_db \<Rightarrow> hash \<Rightarrow> u64 \<Rightarrow> bool" where
  "HasBestBlock S hash height \<longleftrightarrow>
     HasFullBlock S hash height \<and> (case GetPovBestHash S height of Inl _ \<Rightarrow> False | Inr bestHash \<Rightarrow> bestHash = hash)"

definition GetBlockTDByHash :: "pov_db \<Rightarrow> hash \<Rightarrow> PovTD option" where
  "GetBlockTDByHash S hash =
     (case GetHeaderByHash S hash of
        None \<Rightarrow> None
      | Some hdr \<Rightarrow> (case GetPovTD S (ph_Hash hdr) (ph_Height hdr) of Inl _ \<Rightarrow> None | Inr td \<Rightarrow> Some td))"

section \<open>Ancestors\<close>

fun ancestor_loop :: "pov_db \<Rightarrow> nat \<Rightarrow> PovHeader \<Rightarrow> u64 \<Rightarrow> PovHeader option option" where
  "ancestor_loop S 0 curHeader height = None"
| "ancestor_loop S (Suc n) curHeader height =
     (case GetHeaderByHash S (ph_Previous curHeader) of
        None \<Rightarrow> Some None
      | Some prevHeader \<Rightarrow>
          if ph_Height prevHeader = height then Some (Some prevHeader)
          else if ph_Height prevHeader < height then Some None
          else ancestor_loop S n prevHeader height)"

definition FindAncestor :: "nat \<Rightarrow> pov_db \<Rightarrow> PovHeader \<Rightarrow> u64 \<Rightarrow> PovHeader option option" where
  "FindAncestor fuel S header height =
     (if height > ph_Height header then Some None else ancestor_loop S fuel header height)"

text \<open>The subtraction wraps for a distance above the height.\<close>

definition RelativeAncestor :: "nat \<Rightarrow> pov_db \<Rightarrow> PovHeader \<Rightarrow> u64 \<Rightarrow> PovHeader option option" where
  "RelativeAncestor fuel S header distance = FindAncestor fuel S header (ph_Height header - distance)"

section \<open>Locators\<close>

definition log2FloorMasks :: "u32 list" where
  "log2FloorMasks = [0xffff0000, 0xff00, 0xf0, 0xc, 0x2]"

text \<open>One round for each mask, with the exponents 16, 8, 4, 2, 1.\<close>

fun log2_rounds :: "u32 list \<Rightarrow> nat \<Rightarrow> u32 \<Rightarrow> byte \<Rightarrow> byte" where
  "log2_rounds [] exponent n rv = rv"
| "log2_rounds (msk # msks) exponent n rv =
     (if n AND msk \<noteq> 0 then log2_rounds msks (exponent div 2) (drop_bit exponent n) (rv + of_nat exponent)
      else log2_rounds msks (exponent div 2) n rv)"

definition fastLog2Floor :: "u32 \<Rightarrow> byte" where
  "fastLog2Floor n = log2_rounds log2FloorMasks 16 n 0"

fun locator_loop :: "nat \<Rightarrow> pov_db \<Rightarrow> PovHeader option \<Rightarrow> u64 \<Rightarrow> hash list \<Rightarrow> hash list option" where
  "locator_loop 0 S header step locator = None"
| "locator_loop (Suc n) S None step locator = Some locator"
| "locator_loop (Suc n) S (Some header) step locator =
     (let locator = locator @ [ph_Hash header] in
      if ph_Height header = 0 then Some locator
      else let height = (if ph_Height header > step then ph_Height header - step else 0) in
           case FindAncestor n S header height of
             None \<Rightarrow> None
           | Some next \<Rightarrow> locator_loop n S next (if length locator > 10 then step * 2 else step) locator)"

definition GetBlockLocator :: "nat \<Rightarrow> pov_db \<Rightarrow> PovHeader \<Rightarrow> hash \<Rightarrow> hash list option" where
  "GetBlockLocator fuel S latestHeader hash =
     (case (if hash = ZeroHash then Some latestHeader else GetHeaderByHash S hash) of
        None \<Rightarrow> Some []
      | Some header \<Rightarrow> locator_loop fuel S (Some header) 1 [])"

fun LocateBestBlock :: "pov_db \<Rightarrow> PovBlock \<Rightarrow> hash list \<Rightarrow> PovBlock" where
  "LocateBestBlock S genesis [] = genesis"
| "LocateBestBlock S genesis (locHash # locator) =
     (case GetBestBlockByHash S locHash of Some block \<Rightarrow> block | None \<Rightarrow> LocateBestBlock S genesis locator)"

section \<open>Time and rewards\<close>

definition medianTimeBlocks :: nat where "medianTimeBlocks = 11"

fun past_timestamps :: "nat \<Rightarrow> (hash \<Rightarrow> PovHeader option) \<Rightarrow> PovHeader option \<Rightarrow> u32 list" where
  "past_timestamps 0 getHeader iterHeader = []"
| "past_timestamps (Suc n) getHeader None = []"
| "past_timestamps (Suc n) getHeader (Some h) = ph_Timestamp h # past_timestamps n getHeader (getHeader (ph_Previous h))"

definition CalcPastMedianTime :: "(hash \<Rightarrow> PovHeader option) \<Rightarrow> PovHeader \<Rightarrow> u32" where
  "CalcPastMedianTime getHeader prevHeader =
     (let timestamps = past_timestamps medianTimeBlocks getHeader (Some prevHeader)
      in sort timestamps ! (length timestamps div 2))"

definition CalcBlockRewardByQLC :: "int \<times> int" where
  "CalcBlockRewardByQLC =
     (PovMinerRewardPerBlock * PovMinerRewardRatioMiner div 100, PovMinerRewardPerBlock * PovMinerRewardRatioRep div 100)"

lemma CalcBlockReward_split: "fst CalcBlockRewardByQLC + snd CalcBlockRewardByQLC \<le> PovMinerRewardPerBlock"
  by (simp add: CalcBlockRewardByQLC_def pov_params)

section \<open>Ancestors of a sound chain\<close>

lemma GetHeader_GetBlock:
  assumes "tables_ok S"
  shows "GetHeaderByHash S h = map_option pb_Header (GetBlockByHash S h)"
proof (cases "pv_height S h")
  case None
  then show ?thesis by (simp add: GetHeaderByHash_def GetPovHeaderByHash_def GetPovHeight_def GetBlockByHash_unfold)
next
  case (Some k)
  then have "pv_header S (k, h) \<noteq> None" "pv_body S (k, h) \<noteq> None" using assms unfolding tables_ok_def by blast+
  then show ?thesis using Some
    by (auto simp: GetHeaderByHash_def GetPovHeaderByHash_def GetPovHeight_def GetPovHeader_def GetBlockByHash_unfold)
qed

lemma ancestor_loop_path:
  assumes "tables_ok S" "blocks_ok S G" "linked S b" "unat k < unat (pb_Height b)" "unat (pb_Height b) \<le> n"
  shows "\<exists>xs a. ancestor_loop S n (pb_Header b) k = Some (Some (pb_Header a)) \<and> path S b xs a \<and> xs \<noteq> [] \<and> pb_Height a = k"
  using assms(3-)
proof (induction n arbitrary: b)
  case (Suc n)
  obtain p where p: "GetBlockByHash S (pb_Previous b) = Some p" "unat (pb_Height b) = Suc (unat (pb_Height p))"
    using linked_prev [OF Suc.prems(1)] by blast
  have g: "GetHeaderByHash S (pb_Previous b) = Some (pb_Header p)" using p(1) by (simp add: GetHeader_GetBlock [OF assms(1)])
  show ?case
  proof (cases "pb_Height p = k")
    case True
    then have "ancestor_loop S (Suc n) (pb_Header b) k = Some (Some (pb_Header p)) \<and> path S b [b] p \<and> [b] \<noteq> [] \<and> pb_Height p = k"
      using g p(1) Suc.prems(1) by simp
    then show ?thesis by blast
  next
    case False
    then have lt: "unat k < unat (pb_Height p)" using Suc.prems(2) p(2) by (simp add: word_unat_eq_iff)
    then have "pb_Height p \<noteq> 0" by auto
    then have "linked S p" using GetBlock_ok(6) [OF assms(2) p(1)] by simp
    then obtain xs a where "ancestor_loop S n (pb_Header p) k = Some (Some (pb_Header a)) \<and> path S p xs a \<and> pb_Height a = k"
      using Suc.IH [of p] lt Suc.prems(3) p(2) by auto
    then have "ancestor_loop S (Suc n) (pb_Header b) k = Some (Some (pb_Header a)) \<and> path S b (b # xs) a \<and> b # xs \<noteq> [] \<and> pb_Height a = k"
      using g p(1) Suc.prems(1) lt False by (simp add: word_less_nat_alt)
    then show ?thesis by blast
  qed
qed simp

lemma FindAncestor_path:
  assumes "tables_ok S" "blocks_ok S G" "linked S b" "unat k < unat (pb_Height b)" "unat (pb_Height b) \<le> n"
  shows "\<exists>xs a. FindAncestor n S (pb_Header b) k = Some (Some (pb_Header a)) \<and> path S b xs a \<and> xs \<noteq> [] \<and> pb_Height a = k"
  using ancestor_loop_path [OF assms] assms(4) by (simp add: FindAncestor_def word_less_nat_alt)

text \<open>A block is not found as an ancestor of itself.\<close>

lemma FindAncestor_self:
  assumes "tables_ok S" "linked S b"
  shows "FindAncestor (Suc n) S (pb_Header b) (pb_Height b) = Some None"
proof -
  obtain p where p: "GetBlockByHash S (pb_Previous b) = Some p" "unat (pb_Height b) = Suc (unat (pb_Height p))"
    using linked_prev [OF assms(2)] by blast
  then show ?thesis by (auto simp: FindAncestor_def GetHeader_GetBlock [OF assms(1)] word_less_nat_alt word_unat_eq_iff)
qed

section \<open>What the difficulty calculation relies on\<close>

text \<open>The part of \<open>PovConsensusChainReader\<close> that walks the chain: every known header has its ancestors.\<close>

locale ancestor_reader =
  fixes known :: "PovHeader \<Rightarrow> bool" and ancestor :: "PovHeader \<Rightarrow> u64 \<Rightarrow> PovHeader option"
  assumes ancestor_known: "known h \<Longrightarrow> 0 < unat d \<Longrightarrow> unat d \<le> unat (ph_Height h) \<Longrightarrow>
    \<exists>a. ancestor h d = Some a \<and> known a \<and> unat (ph_Height a) = unat (ph_Height h) - unat d"
begin

text \<open>Walking in two steps reaches the height of walking once.\<close>

lemma ancestor_twice:
  assumes "known h" "0 < unat d" "0 < unat e" "unat d + unat e \<le> unat (ph_Height h)"
  shows "\<exists>a b. ancestor h d = Some a \<and> ancestor a e = Some b \<and> known b \<and> unat (ph_Height b) = unat (ph_Height h) - (unat d + unat e)"
proof -
  obtain a where a: "ancestor h d = Some a" "known a" "unat (ph_Height a) = unat (ph_Height h) - unat d"
    using ancestor_known [of h d] assms by auto
  then show ?thesis using ancestor_known [of a e] assms by auto
qed

end

definition known_header :: "nat \<Rightarrow> pov_db \<Rightarrow> PovHeader \<Rightarrow> bool" where
  "known_header fuel S h \<longleftrightarrow> tables_ok S \<and> (\<exists>G. blocks_ok S G) \<and> unat (ph_Height h) \<le> fuel \<and>
     (\<exists>b. pb_Header b = h \<and> (linked S b \<or> pb_Height b = 0))"

definition chain_ancestor :: "nat \<Rightarrow> pov_db \<Rightarrow> PovHeader \<Rightarrow> u64 \<Rightarrow> PovHeader option" where
  "chain_ancestor fuel S h d = (case RelativeAncestor fuel S h d of Some r \<Rightarrow> r | None \<Rightarrow> None)"

interpretation store_reader: ancestor_reader "known_header fuel S" "chain_ancestor fuel S" for fuel S
proof
  fix h and d :: u64 assume h: "known_header fuel S h" and d: "0 < unat d" "unat d \<le> unat (ph_Height h)"
  then obtain G b where G: "tables_ok S" "blocks_ok S G" "unat (pb_Height b) \<le> fuel" "pb_Header b = h" "linked S b \<or> pb_Height b = 0"
    unfolding known_header_def by blast
  have sub: "unat (ph_Height h - d) = unat (ph_Height h) - unat d" using d(2) by (simp add: unat_sub word_le_nat_alt)
  have l: "linked S b" using G(4,5) d by (auto simp: unat_eq_0)
  obtain xs a where a: "FindAncestor fuel S h (ph_Height h - d) = Some (Some (pb_Header a))" "path S b xs a" "xs \<noteq> []" "pb_Height a = ph_Height h - d"
    using FindAncestor_path [OF G(1,2) l _ G(3), of "ph_Height h - d"] d sub G(4) by auto
  obtain hash where g: "GetBlockByHash S hash = Some a" using path_end [OF a(2,3)] by blast
  have "linked S a \<or> pb_Height a = 0" using GetBlock_ok(6) [OF G(2) g] by blast
  moreover have "unat (pb_Height a) \<le> fuel" using a(4) sub G(3,4) by simp
  ultimately have "known_header fuel S (pb_Header a)" using G(1,2) unfolding known_header_def by blast
  then show "\<exists>a. chain_ancestor fuel S h d = Some a \<and> known_header fuel S a \<and> unat (ph_Height a) = unat (ph_Height h) - unat d"
    using a(1,4) sub by (simp add: chain_ancestor_def RelativeAncestor_def)
qed

section \<open>Locators of a sound chain\<close>

text \<open>The heights a locator lists: from the head downwards one by one, from the eleventh entry on with a distance that
  doubles with every entry, and always down to the genesis block. \<open>count\<close> is the number of entries so far.\<close>

function locator_heights :: "nat \<Rightarrow> nat \<Rightarrow> nat \<Rightarrow> nat list" where
  "locator_heights count stp height = height #
     (if height = 0 \<or> stp = 0 then []
      else locator_heights (Suc count) (if Suc count > 10 then stp * 2 else stp) (height - stp))"
  by auto
termination by (relation "measure (\<lambda>(count, stp, height). height)") auto

declare locator_heights.simps [simp del]

lemma locator_heights_0 [simp]: "locator_heights c s 0 = [0]"
  by (simp add: locator_heights.simps)

lemma locator_heights_last: "s \<noteq> 0 \<Longrightarrow> last (locator_heights c s h) = 0"
proof (induction c s h rule: locator_heights.induct)
  case (1 c s h)
  have ne: "locator_heights c' s' h' \<noteq> []" for c' s' h' by (simp add: locator_heights.simps)
  show ?case
  proof (cases "h = 0")
    case False
    then show ?thesis using 1 ne by (subst locator_heights.simps) simp
  qed simp
qed

text \<open>The doubled step does not wrap: height and step never add up to more than \<open>2 ^ 64\<close>.\<close>

lemma locator_step:
  fixes height stp :: u64 and c :: bool
  assumes "stp \<noteq> 0" "unat height + unat stp \<le> 2 ^ 64" "height \<noteq> 0"
  defines "k \<equiv> if height > stp then height - stp else 0" and "stp' \<equiv> if c then stp * 2 else stp"
  shows "unat k < unat height" "k = 0 \<or> stp' \<noteq> 0 \<and> unat k + unat stp' \<le> 2 ^ 64"
proof -
  have p: "0 < unat stp" "0 < unat height" using assms(1,3) by (simp_all add: unat_gt_0)
  show "unat k < unat height"
    using p by (cases "height > stp") (simp_all add: k_def unat_sub word_less_nat_alt word_le_nat_alt)
  show "k = 0 \<or> stp' \<noteq> 0 \<and> unat k + unat stp' \<le> 2 ^ 64"
  proof (cases "height > stp")
    case True
    then have k: "unat k = unat height - unat stp" "unat stp < unat height"
      by (simp_all add: k_def unat_sub word_less_nat_alt word_le_nat_alt)
    then have "unat stp * 2 < 2 ^ 64" using assms(2) by simp
    then have "unat (stp * 2) = unat stp * 2" by (simp add: unat_word_ariths)
    then show ?thesis using k p assms(1,2) by (auto simp: stp'_def unat_gt_0 simp flip: unat_gt_0)
  qed (simp add: k_def)
qed

text \<open>One step of the loop on words is one step on the heights.\<close>

lemma locator_heights_step:
  fixes height stp :: u64 and c :: bool
  assumes "height \<noteq> 0" "stp \<noteq> 0" "unat height + unat stp \<le> 2 ^ 64" "c = (Suc count > 10)"
  defines "k \<equiv> if height > stp then height - stp else 0" and "stp' \<equiv> if c then stp * 2 else stp"
  shows "locator_heights count (unat stp) (unat height) = unat height # locator_heights (Suc count) (unat stp') (unat k)"
proof -
  have p: "unat stp \<noteq> 0" "unat height \<noteq> 0" using assms(1,2) by (simp_all add: unat_eq_0)
  have k: "unat k = unat height - unat stp"
    by (cases "height > stp") (simp_all add: k_def unat_sub word_less_nat_alt word_le_nat_alt)
  have "unat k = 0 \<or> unat stp' = (if Suc count > 10 then unat stp * 2 else unat stp)"
  proof (cases "unat stp < unat height")
    case True
    then have "unat stp * 2 < 2 ^ 64" using assms(3) by simp
    then show ?thesis using assms(4) by (simp add: stp'_def unat_word_ariths)
  qed (simp add: k)
  then show ?thesis using p k by (subst locator_heights.simps) auto
qed

lemma locator_loop_ok:
  assumes "tables_ok S" "blocks_ok S G" "best_ok S L"
    "GetBlockByHash S (pb_Hash b) = Some (Block_stored b)" "pv_best S (pb_Height b) = Some (pb_Hash b)" "pb_Height b \<le> pb_Height L"
    "unat (pb_Height b) < n" "pb_Height b = 0 \<or> step \<noteq> 0 \<and> unat (pb_Height b) + unat step \<le> 2 ^ 64"
  shows "\<exists>hs. locator_loop n S (Some (pb_Header b)) step acc = Some (acc @ hs) \<and>
    map Some hs = map (\<lambda>k. pv_best S (of_nat k)) (locator_heights (length acc) (unat step) (unat (pb_Height b)))"
  using assms(4-)
proof (induction n arbitrary: b step acc)
  case (Suc n)
  show ?case
  proof (cases "pb_Height b = 0")
    case True
    then show ?thesis using Suc.prems(2) by simp
  next
    case False
    then have l: "linked S b" using linked_head [OF assms(2) Suc.prems(1)] by simp
    define k where "k = (if pb_Height b > step then pb_Height b - step else 0)"
    define step' where "step' = (if length (acc @ [pb_Hash b]) > 10 then step * 2 else step)"
    have k: "unat k < unat (pb_Height b)" "k = 0 \<or> step' \<noteq> 0 \<and> unat k + unat step' \<le> 2 ^ 64"
      unfolding k_def step'_def using locator_step [of step "pb_Height b"] Suc.prems(5) False by blast+
    obtain xs a where a: "FindAncestor n S (pb_Header b) k = Some (Some (pb_Header a))" "path S b xs a" "xs \<noteq> []" "pb_Height a = k"
      using FindAncestor_path [OF assms(1,2) l k(1), of n] Suc.prems(4) by auto
    obtain h where g: "GetBlockByHash S h = Some a" using path_end [OF a(2,3)] by blast
    have a': "GetBlockByHash S (pb_Hash a) = Some (Block_stored a)" using g GetBlock_ok(1,4) [OF assms(2) g] by simp
    have pa: "pv_best S (pb_Height a) = Some (pb_Hash a)" by (rule path_best [OF assms(2,3) a(2) Suc.prems(2,3,1)])
    have "unat (pb_Height a) < n" "pb_Height a \<le> pb_Height L"
      using a(4) k(1) Suc.prems(3,4) by (simp_all add: word_le_nat_alt)
    with Suc.IH [OF a' pa, of step' "acc @ [pb_Hash b]"] k(2) a(4) obtain hs where
      hs: "locator_loop n S (Some (pb_Header a)) step' (acc @ [pb_Hash b]) = Some ((acc @ [pb_Hash b]) @ hs)"
        "map Some hs = map (\<lambda>k. pv_best S (of_nat k)) (locator_heights (Suc (length acc)) (unat step') (unat k))" by auto
    have "locator_loop (Suc n) S (Some (pb_Header b)) step acc = Some (acc @ (pb_Hash b # hs))"
      using False a(1) hs(1) by (simp add: Let_def k_def step'_def)
    moreover have "locator_heights (length acc) (unat step) (unat (pb_Height b)) =
        unat (pb_Height b) # locator_heights (Suc (length acc)) (unat step') (unat k)"
      using locator_heights_step [of "pb_Height b" step "Suc (length acc) > 10" "length acc"] False Suc.prems(5)
      unfolding k_def step'_def by simp
    ultimately show ?thesis using hs(2) Suc.prems(2) by (intro exI [of _ "pb_Hash b # hs"]) simp
  qed
qed simp

lemma GetBestBlock_best:
  assumes "tables_ok S" "GetBestBlockByHash S h = Some b" "h \<noteq> ZeroHash"
  shows "GetBlockByHash S h = Some b \<and> pv_best S (pb_Height b) = Some h"
  using assms by (auto simp: GetBestBlockByHash_def GetBlockByHash_def GetPovBestHash_def need_def split: sum.splits option.splits if_splits)

lemma LocateBest_first:
  "(\<exists>i < length hs. GetBestBlockByHash S (hs ! i) = Some (LocateBestBlock S G hs) \<and> (\<forall>j < i. GetBestBlockByHash S (hs ! j) = None)) \<or>
   (\<forall>h \<in> set hs. GetBestBlockByHash S h = None)"
proof (induction hs)
  case (Cons h hs)
  show ?case
  proof (cases "GetBestBlockByHash S h")
    case (Some b)
    then show ?thesis by (auto intro: exI [of _ 0])
  next
    case None
    from Cons.IH show ?thesis
    proof
      assume "\<exists>i < length hs. GetBestBlockByHash S (hs ! i) = Some (LocateBestBlock S G hs) \<and> (\<forall>j < i. GetBestBlockByHash S (hs ! j) = None)"
      then obtain i where "i < length hs" "GetBestBlockByHash S (hs ! i) = Some (LocateBestBlock S G hs)" "\<forall>j < i. GetBestBlockByHash S (hs ! j) = None" by blast
      then show ?thesis using None by (intro disjI1 exI [of _ "Suc i"]) (auto simp: nth_Cons split: nat.splits)
    qed (use None in auto)
  qed
qed simp

lemma genesis_hash:
  assumes "blocks_ok S G" "best_ok S L"
  shows "pv_best S 0 = Some (pb_Hash G)"
proof -
  obtain b where b: "pv_best S 0 = Some (pb_Hash b)" "GetBlockByHash S (pb_Hash b) = Some b" "pb_Height b = 0"
    using assms(2) unfolding best_ok_def by (metis word_zero_le)
  have "b = Block_stored G" by (rule GetBlock_ok(5) [OF assms(1) b(2,3)])
  then show ?thesis using b(1) by simp
qed

lemma genesis_best:
  assumes "blocks_ok S G" "best_ok S L"
  shows "GetBestBlockByHash S (pb_Hash G) = Some (Block_stored G)"
proof -
  have g: "GetBlockByHash S (pb_Hash G) = Some (Block_stored G)" "pb_Height G = 0"
    using assms(1) unfolding blocks_ok_def by blast+
  have "GetPovBlockByHash S (pb_Hash G) = Inr (Block_stored G)"
    using g(1) by (simp add: GetBlockByHash_def split: sum.splits if_splits)
  then show ?thesis using g(2) genesis_hash [OF assms] by (simp add: GetBestBlockByHash_def GetPovBestHash_def)
qed

text \<open>C28: a locator leads to a common block. The locator of a node's head lists the hashes of its best chain at the
  heights of \<open>locator_heights\<close>: the last blocks one by one, then with doubled distances, down to the genesis block; the
  loop ends and its doubled step does not wrap. From it a node with the same genesis block finds a block that is on
  the best chains of both nodes, and it is the first of the listed blocks on its own best chain.\<close>

theorem pov_locator_common:
  assumes "chain_inv a" "chain_inv b" "bc_genesis a = bc_genesis b" "unat (pb_Height (bc_latest a)) < fuel"
  defines "ks \<equiv> locator_heights 0 1 (unat (pb_Height (bc_latest a)))"
  shows "\<exists>hs i. GetBlockLocator fuel (bc_db a) (pb_Header (bc_latest a)) ZeroHash = Some hs \<and>
    map Some hs = map (\<lambda>k. pv_best (bc_db a) (of_nat k)) ks \<and> last hs = pb_Hash (bc_genesis a) \<and> i < length ks \<and>
    (let common = LocateBestBlock (bc_db b) (bc_genesis b) hs in
       pv_best (bc_db a) (of_nat (ks ! i)) = Some (pb_Hash common) \<and>
       pv_best (bc_db b) (pb_Height common) = Some (pb_Hash common) \<and>
       (\<forall>j < i. GetBestBlockByHash (bc_db b) (hs ! j) = None))"
proof -
  let ?G = "bc_genesis a" and ?L = "bc_latest a"
  have A: "tables_ok (bc_db a)" "blocks_ok (bc_db a) ?G" "best_ok (bc_db a) ?L"
    and B: "tables_ok (bc_db b)" "blocks_ok (bc_db b) ?G" "best_ok (bc_db b) (bc_latest b)"
    using assms(1-3) by (simp_all add: chain_inv_def)
  have L: "GetBlockByHash (bc_db a) (pb_Hash ?L) = Some (Block_stored ?L)" "pv_best (bc_db a) (pb_Height ?L) = Some (pb_Hash ?L)"
    using A(3) by (simp_all add: best_ok_def)
  have "unat (pb_Height ?L) + unat (1 :: u64) \<le> 2 ^ 64" using unsigned_less [of "pb_Height ?L", where ?'a = nat] by simp
  then obtain hs where hs: "locator_loop fuel (bc_db a) (Some (pb_Header ?L)) 1 [] = Some hs"
    "map Some hs = map (\<lambda>k. pv_best (bc_db a) (of_nat k)) ks"
    using locator_loop_ok [OF A L _ assms(4), of 1 "[]"] by (auto simp: ks_def)
  have len: "length hs = length ks" using arg_cong [OF hs(2), of length] by simp
  have nth: "Some (hs ! i) = pv_best (bc_db a) (of_nat (ks ! i))" if "i < length hs" for i
    using arg_cong [OF hs(2), of "\<lambda>xs. xs ! i"] that len by simp
  have ne: "ks \<noteq> []" unfolding ks_def by (subst locator_heights.simps) simp
  have "last ks = 0" unfolding ks_def by (rule locator_heights_last) simp
  moreover have hne: "hs \<noteq> []" using ne len by auto
  ultimately have "Some (last hs) = pv_best (bc_db a) 0" using arg_cong [OF hs(2), of last] ne by (simp add: last_map)
  then have lst: "last hs = pb_Hash ?G" using genesis_hash [OF A(2,3)] by simp
  have "pb_Hash ?G \<in> set hs" using last_in_set [OF hne] lst by simp
  then have "\<not> (\<forall>h \<in> set hs. GetBestBlockByHash (bc_db b) h = None)" using genesis_best [OF B(2,3)] by force
  then obtain i where i: "i < length hs" "GetBestBlockByHash (bc_db b) (hs ! i) = Some (LocateBestBlock (bc_db b) ?G hs)"
    "\<forall>j < i. GetBestBlockByHash (bc_db b) (hs ! j) = None" using LocateBest_first [of hs "bc_db b" ?G] by blast
  have nz: "hs ! i \<noteq> ZeroHash"
    using i(2) B(1) by (auto simp: GetBestBlockByHash_def GetPovBlockByHash_def GetPovHeight_def tables_ok_def)
  have "GetBlockLocator fuel (bc_db a) (pb_Header ?L) ZeroHash = Some hs" using hs(1) by (simp add: GetBlockLocator_def)
  then show ?thesis
    using GetBestBlock_best [OF B(1) i(2) nz] GetBlock_ok(1) [OF B(2)] i assms(3) hs(2) lst len nth [OF i(1)]
    by (intro exI [of _ hs] exI [of _ i]) (auto simp: Let_def)
qed

text \<open>Two nodes that extended the same genesis block differently.\<close>

definition ex_extended :: "hash \<Rightarrow> PovBlockChain" where
  "ex_extended h = snd (InsertBlock 1 True True id (ex_povblock 1 1 h) ex_chain)"

lemma ex_genesis: "bc_genesis ex_chain = ex_povgenesis"
  using reset_ok [of "ex_povblock 0 0 1" 5 id ex_povdb] by (auto simp: ex_chain_def ex_povblock_def ex_cbtx_def)

lemma ex_extended_inv:
  assumes "h \<notin> {0, 1}"
  shows "chain_inv (ex_extended h)" "bc_latest (ex_extended h) = ex_povblock 1 1 h" "bc_genesis (ex_extended h) = ex_povgenesis"
proof -
  have fits: "block_fits (bc_db ex_chain) (ex_povblock 1 1 h)"
    using assms by (simp add: block_fits_def linked_def ex_chain_get ex_chain_heights ex_work) (simp add: ex_povblock_def)
  obtain r bc' where r: "InsertBlock 1 True True id (ex_povblock 1 1 h) ex_chain = (r, bc')"
    by (cases "InsertBlock 1 True True id (ex_povblock 1 1 h) ex_chain")
  have no: "\<not> (\<exists>D f. path (bc_db ex_chain) (bc_latest ex_chain) D f \<and> PoVMaxForkHeight < length D)"
    by (auto simp: ex_chain_inv(2) ex_paths)
  have ins: "chain_inv bc' \<and> bc_latest bc' \<in> {ex_povgenesis, ex_povblock 1 1 h} \<and>
      GetBlockByHash (bc_db bc') h = Some (Block_stored (ex_povblock 1 1 h)) \<and>
      td_of (bc_db bc') (ex_povblock 1 1 h) \<le> td_of (bc_db bc') (bc_latest bc')"
    using insert_sound [OF ex_chain_inv(1) fits, of 1 True id] r no ex_chain_inv(2)
    by (auto simp: ex_povblock_def split: sum.splits)
  show "chain_inv (ex_extended h)" using ins r by (simp add: ex_extended_def)
  show g: "bc_genesis (ex_extended h) = ex_povgenesis"
    by (simp add: ex_extended_def InsertBlock_def Let_def ex_genesis split: prod.split)
  have ok: "blocks_ok (bc_db bc') ex_povgenesis" using ins r g by (simp add: chain_inv_def ex_extended_def)
  have "td_of (bc_db bc') ex_povgenesis < td_of (bc_db bc') (ex_povblock 1 1 h)"
  proof -
    have b: "GetBlockByHash (bc_db bc') h = Some (Block_stored (ex_povblock 1 1 h))" using ins by simp
    have p: "GetBlockByHash (bc_db bc') (pb_Previous (ex_povblock 1 1 h)) = Some (Block_stored ex_povgenesis)"
      using ok by (simp add: blocks_ok_def) (simp add: ex_povblock_def)
    show ?thesis using GetBlock_ok(6,7) [OF ok b] p by (simp add: td_of_def) (simp add: ex_povblock_def)
  qed
  then show "bc_latest (ex_extended h) = ex_povblock 1 1 h" using ins r by (auto simp: ex_extended_def)
qed

theorem pov_locator_common_witness:
  "GetBlockLocator 2 (bc_db (ex_extended 2)) (pb_Header (bc_latest (ex_extended 2))) ZeroHash = Some [2, 1] \<and>
   pb_Hash (LocateBestBlock (bc_db (ex_extended 3)) (bc_genesis (ex_extended 3)) [2, 1]) = 1"
proof -
  note a = ex_extended_inv [of 2] and b = ex_extended_inv [of 3]
  have h: "pb_Height (bc_latest (ex_extended 2)) = 1" "pb_Hash (ex_povblock 1 1 i) = i" "pb_Hash ex_povgenesis = 1"
    "pb_Height (bc_latest (ex_extended 3)) = 1" for i using a b by (simp_all add: ex_povblock_def)
  have best: "pv_best (bc_db (ex_extended i)) 0 = Some 1" "pv_best (bc_db (ex_extended i)) 1 = Some i"
    "\<And>k. k \<noteq> 0 \<Longrightarrow> k \<noteq> 1 \<Longrightarrow> pv_best (bc_db (ex_extended i)) k = None" if "i \<in> {2, 3}" for i
  proof -
    note x = ex_extended_inv [of i]
    have ok: "blocks_ok (bc_db (ex_extended i)) ex_povgenesis" "best_ok (bc_db (ex_extended i)) (ex_povblock 1 1 i)"
      using x that by (auto simp: chain_inv_def)
    show "pv_best (bc_db (ex_extended i)) 0 = Some 1" using genesis_hash [OF ok] by (simp add: h)
    have l: "pb_Height (ex_povblock 1 1 i) = 1" by (simp add: ex_povblock_def)
    show "pv_best (bc_db (ex_extended i)) 1 = Some i" using ok(2) by (simp add: best_ok_def h l)
    show "pv_best (bc_db (ex_extended i)) k = None" if "k \<noteq> 0" "k \<noteq> 1" for k
    proof -
      have "unat k \<noteq> 0" "unat k \<noteq> 1" using that by (simp_all add: word_unat_eq_iff)
      then have "1 < k" by (simp add: word_less_nat_alt)
      then show ?thesis using ok(2) by (simp add: best_ok_def l)
    qed
  qed
  have ks: "locator_heights 0 1 (unat (pb_Height (bc_latest (ex_extended 2)))) = [1, 0]"
    by (simp add: h locator_heights.simps [of 0 "Suc 0" "Suc 0"])
  have "unat (pb_Height (bc_latest (ex_extended 2))) < 2" by (simp add: h)
  from pov_locator_common [OF a(1) b(1) _ this] obtain hs i where
    hs: "GetBlockLocator 2 (bc_db (ex_extended 2)) (pb_Header (bc_latest (ex_extended 2))) ZeroHash = Some hs"
      "map Some hs = map (\<lambda>k. pv_best (bc_db (ex_extended 2)) (of_nat k)) [1, 0]" "i < length [1, 0 :: nat]"
      "let common = LocateBestBlock (bc_db (ex_extended 3)) (bc_genesis (ex_extended 3)) hs in
       pv_best (bc_db (ex_extended 2)) (of_nat ([1, 0] ! i)) = Some (pb_Hash common) \<and>
       pv_best (bc_db (ex_extended 3)) (pb_Height common) = Some (pb_Hash common)"
    using a(3) b(3) unfolding ks Let_def by auto
  have e: "hs = [2, 1]" using hs(2) best(1,2) [of 2] by (auto simp: map_eq_Cons_conv)
  let ?c = "LocateBestBlock (bc_db (ex_extended 3)) (bc_genesis (ex_extended 3)) [2, 1]"
  have "pb_Hash ?c \<in> {1, 2}" "pv_best (bc_db (ex_extended 3)) (pb_Height ?c) = Some (pb_Hash ?c)"
    using hs(3,4) best(1,2) [of 2] unfolding e Let_def by (auto simp: less_Suc_eq)
  then have "pb_Hash ?c = 1" using best [of 3] by (cases "pb_Height ?c = 0"; cases "pb_Height ?c = 1") auto
  then show ?thesis using hs(1) e by simp
qed

section \<open>Logarithms\<close>

text \<open>Each round asks whether the upper half of the remaining bits is empty.\<close>

lemma upper_half:
  fixes n :: u32
  assumes "unat n < 2 ^ (2 * k)"
  shows "n AND push_bit k (mask k) = 0 \<longleftrightarrow> unat n < 2 ^ k"
proof -
  have hi: "\<not> bit n i" if "2 * k \<le> i" for i
  proof -
    have "unat n < 2 ^ i" using assms power_increasing [OF that, of "2 :: nat"] by linarith
    then have "\<not> bit (unat n) i" by (simp add: bit_iff_odd)
    then show ?thesis by (simp add: bit_unsigned_iff)
  qed
  have "n AND push_bit k (mask k) = 0 \<longleftrightarrow> (\<forall>i. bit n i \<longrightarrow> i < k)"
  proof
    assume z: "n AND push_bit k (mask k) = 0"
    show "\<forall>i. bit n i \<longrightarrow> i < k"
    proof (intro allI impI)
      fix i assume i: "bit n i"
      then have "i < 2 * k" "i < 32" using hi [of i] bit_imp_le_length [OF i] by (meson not_less, simp)
      moreover have "\<not> bit (n AND push_bit k (mask k)) i" using z by simp
      ultimately show "i < k" using i by (auto simp: bit_and_iff bit_push_bit_iff bit_mask_iff)
    qed
  qed (auto simp: bit_eq_iff bit_and_iff bit_push_bit_iff)
  also have "\<dots> \<longleftrightarrow> take_bit k n = n"
    by (metis bit_eq_iff [of "take_bit k n" n] bit_take_bit_iff [of k n])
  also have "\<dots> \<longleftrightarrow> take_bit k (unat n) = unat n" by (simp only: word_unat_eq_iff unsigned_take_bit_eq)
  also have "\<dots> \<longleftrightarrow> unat n < 2 ^ k" by (simp add: take_bit_nat_eq_self_iff)
  finally show ?thesis .
qed

lemma log2_shift: "2 ^ k \<le> n \<Longrightarrow> log2 n = k + log2 (n div 2 ^ k)"
proof (induction k arbitrary: n)
  case (Suc k)
  then have "2 * 2 ^ k \<le> n" by simp
  moreover have "(1 :: nat) \<le> 2 ^ k" by simp
  ultimately have "2 ^ k \<le> n div 2" "\<not> n < 2" by linarith+
  then have "log2 n = Suc (k + log2 (n div 2 div 2 ^ k))" using Suc.IH [of "n div 2"] log2.simps [of n] by simp
  then show ?case by (simp add: div_mult2_eq)
qed simp

text \<open>One round halves the number of bits still open and counts the ones dropped.\<close>

lemma log2_round:
  fixes n :: u32
  assumes "unat n < 2 ^ (2 * k)" "k < 32" "m = push_bit k (mask k)"
  shows "\<exists>n' rv'. (if n AND m \<noteq> 0 then (drop_bit k n, rv + of_nat k) else (n, rv)) = (n', rv' :: byte) \<and> unat n' < 2 ^ k \<and>
    (n \<noteq> 0 \<longrightarrow> n' \<noteq> 0) \<and> rv' + of_nat (log2 (unat n')) = rv + of_nat (log2 (unat n))"
proof (cases "n AND m = 0")
  case True
  then show ?thesis using upper_half [OF assms(1)] assms(3) by simp
next
  case False
  then have ge: "2 ^ k \<le> unat n" using upper_half [OF assms(1)] assms(3) by simp
  have u: "unat (drop_bit k n) = unat n div 2 ^ k" 
    using unsigned_less [of n, where ?'a = nat] by (simp only: unsigned_drop_bit_eq) (simp add: take_bit_eq_mod drop_bit_eq_div)
  have "unat n div 2 ^ k < 2 ^ k" using assms(1) by (simp add: mult_2 power_add less_mult_imp_div_less)
  moreover have "unat n div 2 ^ k > 0" using ge by (simp add: div_greater_zero_iff)
  ultimately show ?thesis using False u log2_shift [OF ge] by (auto simp: unat_gt_0)
qed

lemma log2_rounds_log2:
  assumes "n \<noteq> 0" "unat n < 2 ^ (2 * 2 ^ j)" "j < 5"
  shows "log2_rounds (map (\<lambda>i. push_bit (2 ^ i) (mask (2 ^ i))) (rev [0..<Suc j])) (2 ^ j) n rv = rv + of_nat (log2 (unat n))"
  using assms
proof (induction j arbitrary: n rv)
  case 0
  obtain n' rv' where n': "(if n AND push_bit 1 (mask 1) \<noteq> 0 then (drop_bit 1 n, rv + of_nat 1) else (n, rv)) = (n', rv')"
    "unat n' < 2 ^ 1" "n' \<noteq> 0" "rv' + of_nat (log2 (unat n')) = rv + of_nat (log2 (unat n))"
    using log2_round [of n 1 "push_bit 1 (mask 1)" rv] 0 by auto
  have "log2 (unat n') = 0" using n'(2) by (simp add: log2.simps)
  then show ?case using n'(1,4) by (auto split: if_splits)
next
  case (Suc j)
  let ?k = "2 ^ Suc j :: nat"
  have "j < 4" using Suc.prems(3) by simp
  then have k: "?k < 32" using power_strict_increasing [of "Suc j" 5 "2 :: nat"] by simp
  obtain n' rv' where n': "(if n AND push_bit ?k (mask ?k) \<noteq> 0 then (drop_bit ?k n, rv + of_nat ?k) else (n, rv)) = (n', rv')"
    "unat n' < 2 ^ ?k" "n' \<noteq> 0" "rv' + of_nat (log2 (unat n')) = rv + of_nat (log2 (unat n))"
    using log2_round [OF Suc.prems(2) k refl, of rv] Suc.prems(1) by auto
  have "log2_rounds (map (\<lambda>i. push_bit (2 ^ i) (mask (2 ^ i))) (rev [0..<Suc (Suc j)])) ?k n rv =
    log2_rounds (map (\<lambda>i. push_bit (2 ^ i) (mask (2 ^ i))) (rev [0..<Suc j])) (2 ^ j) n' rv'"
    using n'(1) by (auto split: if_splits)
  also have "\<dots> = rv' + of_nat (log2 (unat n'))" using Suc.IH [OF n'(3)] n'(2) Suc.prems(3) by simp
  finally show ?case using n'(4) by simp
qed

lemma fastLog2Floor_log2: "n \<noteq> 0 \<Longrightarrow> fastLog2Floor n = of_nat (log2 (unat n))"
proof -
  assume n: "n \<noteq> 0"
  have "log2FloorMasks = map (\<lambda>i. push_bit (2 ^ i) (mask (2 ^ i))) (rev [0..<Suc 4])"
    by (simp add: log2FloorMasks_def mask_eq_exp_minus_1 upt_rec)
  then show ?thesis using log2_rounds_log2 [OF n, of 4 0] unsigned_less [of n, where ?'a = nat] by (simp add: fastLog2Floor_def)
qed

end
