(* ===== verification/Pov_Pow.thy ===== *)
theory Pov_Pow
  imports Pov_Read
begin

text \<open>The proof-of-work consensus (\<open>consensus/pov/pov_pow.go\<close>): the next target, and the check of a header. What it
  reads of the chain and of the configuration is the record \<open>pow_reader\<close>, after \<open>PovConsensusChainReader\<close>. A
  check gives \<open>None\<close> where the code panics.\<close>

section \<open>The consensus\<close>

datatype cons_err =
    ErrPovUnknownAncestor | ErrPreviousHeader | ErrTargetNotEqual | ErrPowHash | ErrStateTrie | ErrRepState | ErrPledge
  | ErrBadNonce

text \<open>\<open>pr_RepVote\<close> is the vote weight of a representative in the state with the given hash; \<open>None\<close> when the state
  trie is missing.\<close>

record pow_reader =
  pr_GetHeaderByHash :: "hash \<Rightarrow> PovHeader option"
  pr_RelativeAncestor :: "PovHeader \<Rightarrow> u64 \<Rightarrow> PovHeader option"
  pr_MinerPledge :: int
  pr_RepVote :: "hash \<Rightarrow> (address \<Rightarrow> int option) option"

definition GetMinerAddr :: "PovHeader \<Rightarrow> address option" where
  "GetMinerAddr h = (case cb_TxOuts (ph_CbTx h) of [] \<Rightarrow> None | out # _ \<Rightarrow> Some (cbo_Address out))"

definition clamp_timespan :: "u32 \<Rightarrow> u32" where
  "clamp_timespan actualTimespan =
     (if actualTimespan < of_nat PovChainMinRetargetTimespan then of_nat PovChainMinRetargetTimespan
      else if actualTimespan > of_nat PovChainMaxRetargetTimespan then of_nat PovChainMaxRetargetTimespan
      else actualTimespan)"

definition calcNextRequiredTargetByQLC :: "(PovHeader \<Rightarrow> u64 \<Rightarrow> PovHeader option) \<Rightarrow> PovHeader \<Rightarrow> PovHeader \<Rightarrow> cons_err + u32" where
  "calcNextRequiredTargetByQLC relativeAncestor lastHeader curHeader =
     (if (ph_Height lastHeader + 1) mod of_nat PovChainTargetCycle \<noteq> 0
      then let nextTargetInt = GetNormTargetInt lastHeader;
               nextTargetIntAlgo = nextTargetInt * GetAlgoEfficiency curHeader
           in Inr (BigToCompact nextTargetIntAlgo)
      else case relativeAncestor lastHeader (of_nat (PovChainTargetCycle - 1)) of
             None \<Rightarrow> Inl ErrPovUnknownAncestor
           | Some firstHeader \<Rightarrow>
               let actualTimespan = clamp_timespan (if ph_Timestamp lastHeader > ph_Timestamp firstHeader
                     then ph_Timestamp lastHeader - ph_Timestamp firstHeader else 1);
                   oldTargetInt = GetNormTargetInt lastHeader;
                   nextTargetInt = oldTargetInt * int (unat actualTimespan) div int PovChainRetargetTimespan;
                   nextTargetInt = (if nextTargetInt > PovPowLimitInt then PovPowLimitInt else nextTargetInt);
                   nextTargetIntAlgo = nextTargetInt * GetAlgoEfficiency curHeader
               in Inr (BigToCompact nextTargetIntAlgo))"

definition PrepareHeader :: "pow_reader \<Rightarrow> PovHeader \<Rightarrow> cons_err + PovHeader" where
  "PrepareHeader R header =
     (case pr_GetHeaderByHash R (ph_Previous header) of
        None \<Rightarrow> Inl ErrPreviousHeader
      | Some prevHeader \<Rightarrow>
          (case calcNextRequiredTargetByQLC (pr_RelativeAncestor R) prevHeader header of
             Inl e \<Rightarrow> Inl e | Inr target \<Rightarrow> Inr (header\<lparr>ph_Bits := target\<rparr>)))"

definition verifyProducer :: "pow_reader \<Rightarrow> PovHeader \<Rightarrow> (cons_err + unit) option" where
  "verifyProducer R header =
     (if pr_MinerPledge R \<le> 0 then Some (Inr ())
      else if ph_Height header < of_nat PovMinerVerifyHeightStart then Some (Inr ())
      else case pr_GetHeaderByHash R (ph_Previous header) of
             None \<Rightarrow> Some (Inl ErrPreviousHeader)
           | Some prevHeader \<Rightarrow>
               (case pr_RepVote R (cb_StateHash (ph_CbTx prevHeader)) of
                  None \<Rightarrow> Some (Inl ErrStateTrie)
                | Some repVote \<Rightarrow>
                    (case GetMinerAddr header of
                       None \<Rightarrow> None
                     | Some addr \<Rightarrow>
                         (case repVote addr of
                            None \<Rightarrow> Some (Inl ErrRepState)
                          | Some vote \<Rightarrow> if vote < pr_MinerPledge R then Some (Inl ErrPledge) else Some (Inr ())))))"

definition verifyTarget :: "pov_hashes \<Rightarrow> pow_reader \<Rightarrow> PovHeader \<Rightarrow> cons_err + unit" where
  "verifyTarget P R header =
     (case pr_GetHeaderByHash R (ph_Previous header) of
        None \<Rightarrow> Inl ErrPreviousHeader
      | Some prevHeader \<Rightarrow>
          (case calcNextRequiredTargetByQLC (pr_RelativeAncestor R) prevHeader header of
             Inl e \<Rightarrow> Inl e
           | Inr expectedTarget \<Rightarrow>
               if expectedTarget \<noteq> ph_Bits header then Inl ErrTargetNotEqual
               else if HashToBig (Header_ComputePowHash P header) > GetAlgoTargetInt header then Inl ErrPowHash
               else Inr ()))"

definition VerifyHeader :: "pov_hashes \<Rightarrow> pow_reader \<Rightarrow> PovHeader \<Rightarrow> (cons_err + unit) option" where
  "VerifyHeader P R header =
     (case verifyTarget P R header of Inl e \<Rightarrow> Some (Inl e) | Inr _ \<Rightarrow> verifyProducer R header)"

section \<open>The next target\<close>

text \<open>Encoding the target of an algorithm and normalising it again gives at most the target, and little less.\<close>

lemma normalised:
  fixes cur :: PovHeader
  assumes "0 \<le> x" "x \<le> PovPowLimitInt"
  defines "y \<equiv> GetNormTargetInt (cur\<lparr>ph_Bits := BigToCompact (x * GetAlgoEfficiency cur)\<rparr>)"
  shows "0 \<le> y \<and> y \<le> x \<and> (x - y) * 2 ^ 15 < x + 2 ^ 15"
proof -
  define e where "e = GetAlgoEfficiency cur"
  define c where "c = CompactToBig (BigToCompact (x * e))"
  have e: "0 < e" "e \<le> 10 ^ 9" by (simp_all add: e_def GetAlgoEfficiency_def algo_efficiency_def)
  have y: "y = c div e"
    by (simp add: y_def c_def e_def GetNormTargetInt_def GetAlgoTargetInt_def GetAlgoEfficiency_def GetAlgoType_def)
  have c: "0 \<le> c \<and> c \<le> x * e \<and> (x * e - c) * 2 ^ 15 \<le> x * e"
  proof (cases "x = 0")
    case True
    then show ?thesis using e by (simp add: c_def BigToCompact_def CompactToBig_def)
  next
    case False
    have xe: "x * e \<le> PovPowLimitInt * 10 ^ 9" using assms(1,2) e by (intro mult_mono) simp_all
    have "PovPowLimitInt * 10 ^ 9 < 2 ^ 254" by (simp add: PovPowLimitInt_def)
    moreover have "(2 :: int) ^ 254 \<le> 256 ^ 254" by (rule power_mono) simp_all
    ultimately have lt: "x * e < 256 ^ 254" using xe by linarith
    have pos: "0 < x * e" using False assms(1) e by simp
    show ?thesis using compact_loss [OF pos lt] unfolding c_def by linarith
  qed
  have "0 \<le> y" "y \<le> x" unfolding y using c e(1) by (simp_all add: pos_imp_zdiv_nonneg_iff) (metis mult.commute nonzero_mult_div_cancel_right zdiv_mono1 less_irrefl)
  moreover have "(x - y) * 2 ^ 15 < x + 2 ^ 15"
  proof -
    have "c < (y + 1) * e" unfolding y using e(1) by (simp add: algebra_simps) (metis add.commute div_mult_mod_eq mult.commute pos_mod_bound add_less_cancel_left)
    then have "(x * e - (y + 1) * e) * 2 ^ 15 < (x * e - c) * 2 ^ 15" by simp
    then have "(x - y - 1) * 2 ^ 15 * e < x * e" using c by (simp add: algebra_simps)
    then have "(x - y - 1) * 2 ^ 15 < x" using e(1) by simp
    then show ?thesis by simp
  qed
  ultimately show ?thesis by blast
qed

lemma clamp_bounds: "300 \<le> unat (clamp_timespan t)" "unat (clamp_timespan t) \<le> 4800"
  by (simp_all add: clamp_timespan_def pov_params word_less_nat_alt)

text \<open>A retarget needs nineteen ancestors, and has them.\<close>

lemma retarget_height:
  fixes h :: u64
  assumes "(h + 1) mod of_nat PovChainTargetCycle = 0"
  shows "19 \<le> unat h"
proof (cases "unat h + 1 = 2 ^ 64")
  case False
  then have "unat h + 1 < 2 ^ 64" using unsigned_less [of h, where ?'a = nat] by simp
  then have "unat (h + 1) = unat h + 1" by (simp add: unat_word_ariths)
  moreover have "unat ((h + 1) mod 20) = unat (h + 1) mod 20" by (simp add: unat_mod)
  moreover have "(h + 1) mod 20 = 0" using assms by (simp add: pov_params)
  ultimately have "(unat h + 1) mod 20 = 0" by simp
  then show ?thesis by presburger
qed simp

definition target_moves :: "bool \<Rightarrow> int \<Rightarrow> int \<Rightarrow> bool" where
  "target_moves retarget old new \<longleftrightarrow> 0 \<le> new \<and> new \<le> PovPowLimitInt \<and> new \<le> 4 * old \<and>
     (old div 4 - new) * 2 ^ 15 < old div 4 + 2 ^ 15 \<and>
     (\<not> retarget \<longrightarrow> new \<le> old \<and> (old - new) * 2 ^ 15 < old + 2 ^ 15)"

lemma target_moves_step:
  fixes cur :: PovHeader
  assumes "0 \<le> old" "old div 4 \<le> x" "x \<le> 4 * old" "x \<le> PovPowLimitInt" "\<not> retarget \<longrightarrow> x = old"
  shows "target_moves retarget old (GetNormTargetInt (cur\<lparr>ph_Bits := BigToCompact (x * GetAlgoEfficiency cur)\<rparr>))"
proof -
  have "0 \<le> old div 4" using assms(1) by simp
  then have "0 \<le> x" using assms(2) by linarith
  from normalised [OF this assms(4), of cur] show ?thesis
    using assms(2-5) unfolding target_moves_def by auto
qed

context ancestor_reader
begin

lemma next_target:
  assumes "known lst" "0 \<le> GetNormTargetInt lst" "GetNormTargetInt lst \<le> PovPowLimitInt"
  shows "\<exists>bits. calcNextRequiredTargetByQLC ancestor lst cur = Inr bits \<and>
    target_moves ((ph_Height lst + 1) mod of_nat PovChainTargetCycle = 0) (GetNormTargetInt lst) (GetNormTargetInt (cur\<lparr>ph_Bits := bits\<rparr>))"
proof (cases "(ph_Height lst + 1) mod of_nat PovChainTargetCycle = 0")
  case False
  have "target_moves False (GetNormTargetInt lst) (GetNormTargetInt (cur\<lparr>ph_Bits := BigToCompact (GetNormTargetInt lst * GetAlgoEfficiency cur)\<rparr>))"
    by (rule target_moves_step) (use assms(2,3) in simp_all)
  then show ?thesis using False by (simp add: calcNextRequiredTargetByQLC_def)
next
  case True
  let ?old = "GetNormTargetInt lst"
  have "unat (of_nat (PovChainTargetCycle - 1) :: u64) = 19" by (simp add: pov_params)
  then obtain first where first: "ancestor lst (of_nat (PovChainTargetCycle - 1)) = Some first"
    using ancestor_known [OF assms(1), of "of_nat (PovChainTargetCycle - 1)"] retarget_height [OF True] by auto
  define t where "t = unat (clamp_timespan (if ph_Timestamp lst > ph_Timestamp first then ph_Timestamp lst - ph_Timestamp first else 1))"
  define x where "x = min PovPowLimitInt (?old * int t div 1200)"
  have "300 \<le> t" "t \<le> 4800" unfolding t_def by (rule clamp_bounds)+
  then have t: "300 \<le> int t" "int t \<le> 4800" by simp_all
  have "?old * 300 \<le> ?old * int t" "?old * int t \<le> ?old * 4800" using t assms(2) by (simp_all add: mult_left_mono)
  then have "?old * 300 div 1200 \<le> ?old * int t div 1200" "?old * int t div 1200 \<le> ?old * 4800 div 1200" by (simp_all add: zdiv_mono1)
  then have "?old div 4 \<le> ?old * int t div 1200" "?old * int t div 1200 \<le> 4 * ?old" by simp_all
  moreover have "?old div 4 \<le> ?old" using assms(2) by simp
  ultimately have "target_moves True ?old (GetNormTargetInt (cur\<lparr>ph_Bits := BigToCompact (x * GetAlgoEfficiency cur)\<rparr>))"
    using assms(2,3) by (intro target_moves_step) (simp_all add: x_def)
  moreover have "calcNextRequiredTargetByQLC ancestor lst cur = Inr (BigToCompact (x * GetAlgoEfficiency cur))"
    using True first by (simp add: calcNextRequiredTargetByQLC_def Let_def x_def t_def min_def pov_params)
  ultimately show ?thesis using True by simp
qed

end

text \<open>C31: the target moves within bounds. On a sound chain the next target is always found. Decoded and normalised it
  is at most the limit, at most four times the last one and, up to the rounding of the compact form, at least a
  quarter of it; between two adjustments it never grows and loses no more than the rounding.\<close>

theorem pov_target_bounds:
  assumes "known_header fuel S lastHeader" "0 \<le> GetNormTargetInt lastHeader" "GetNormTargetInt lastHeader \<le> PovPowLimitInt"
  shows "\<exists>bits. calcNextRequiredTargetByQLC (chain_ancestor fuel S) lastHeader curHeader = Inr bits \<and>
    target_moves ((ph_Height lastHeader + 1) mod of_nat PovChainTargetCycle = 0) (GetNormTargetInt lastHeader)
      (GetNormTargetInt (curHeader\<lparr>ph_Bits := bits\<rparr>))"
  by (rule store_reader.next_target [OF assms])

lemma ex_norm: "GetNormTargetInt (pb_Header (ex_povblock h p i)) = 0xffff * 2 ^ 208"
  by (simp add: GetNormTargetInt_def GetAlgoTargetInt_def CompactToBig_def ex_povblock_def GetAlgoEfficiency_def GetAlgoType_def
    algo_efficiency_def algo_defs Let_def)

theorem pov_target_bounds_witness:
  "\<exists>bits. calcNextRequiredTargetByQLC (chain_ancestor 0 (bc_db ex_chain)) (pb_Header ex_povgenesis) (pb_Header (ex_povblock 1 1 2)) = Inr bits \<and>
    target_moves False (0xffff * 2 ^ 208) (GetNormTargetInt ((pb_Header (ex_povblock 1 1 2))\<lparr>ph_Bits := bits\<rparr>))"
proof -
  have k: "known_header 0 (bc_db ex_chain) (pb_Header ex_povgenesis)"
    unfolding known_header_def
  proof (intro conjI)
    show "tables_ok (bc_db ex_chain)" "\<exists>G. blocks_ok (bc_db ex_chain) G" using ex_chain_inv(1) unfolding chain_inv_def by blast+
    show "\<exists>b. pb_Header b = pb_Header ex_povgenesis \<and> (linked (bc_db ex_chain) b \<or> pb_Height b = 0)"
      by (rule exI [of _ ex_povgenesis]) (simp add: ex_povblock_def)
  qed (simp add: ex_povblock_def)
  have "ph_Height (pb_Header ex_povgenesis) = 0" by (simp add: ex_povblock_def)
  then show ?thesis using pov_target_bounds [OF k, of "pb_Header (ex_povblock 1 1 2)"]
    by (simp add: ex_norm PovPowLimitInt_def pov_params)
qed

end
