(* ===== verification/Pov_Verify.thy ===== *)
theory Pov_Verify
  imports Pov_Pow Pov_State_Thms
begin

text \<open>The verifier of proof-of-work blocks (\<open>consensus/pov/pov_verifier.go\<close>): the checks in the order of
  \<open>VerifyFull\<close>, over the chain it reads, the ledger and the state. What \<open>PovVerifyStat\<close> keeps between the checks
  is passed on: the transactions with their blocks and the state database. \<open>None\<close> is a panic. The messages of the
  errors are left out.\<close>

record verifier =
  pv_P :: pov_hashes
  pv_pow :: pow_reader
  pv_genesis :: hash
  pv_contracts :: "address list"
  pv_E :: state_env
  pv_F :: config
  pv_R :: registry
  pv_V :: pov_vm
  pv_l :: ledger
  pv_it :: iteration

section \<open>Integrity, time and link\<close>

definition IsGenesisPovBlock :: "verifier \<Rightarrow> PovBlock \<Rightarrow> bool" where
  "IsGenesisPovBlock X block \<longleftrightarrow> pb_Hash block = pv_genesis X"

definition IsContractAddress :: "verifier \<Rightarrow> address \<Rightarrow> bool" where
  "IsContractAddress X a \<longleftrightarrow> a \<in> set (pv_contracts X)"

definition verifyDataIntegrity :: "verifier \<Rightarrow> PovBlock \<Rightarrow> ProcessResult" where
  "verifyDataIntegrity X block =
     (if \<not> PovIsAlgoSupported (GetAlgoType (pb_Header block)) then BadConsensus
      else if pb_Height block = 0 \<and> \<not> IsGenesisPovBlock X block then BadHash
      else if pb_Hash block = ZeroHash \<or> Header_ComputeHash (pv_P X) (pb_Header block) \<noteq> pb_Hash block then BadHash
      else Progress)"

definition verifyTimestamp :: "int \<Rightarrow> PovBlock \<Rightarrow> ProcessResult" where
  "verifyTimestamp now block =
     (if ph_Timestamp (pb_Header block) = 0 then InvalidTime
      else if ph_Timestamp (pb_Header block) > of_int (now + int PovMaxAllowedFutureTimeSec) then InvalidTime
      else Progress)"

definition verifyReferred :: "verifier \<Rightarrow> PovBlock \<Rightarrow> ProcessResult" where
  "verifyReferred X block =
     (case pr_GetHeaderByHash (pv_pow X) (pb_Previous block) of
        None \<Rightarrow> GapPrevious
      | Some prevHeader \<Rightarrow>
          if pb_Height block \<noteq> ph_Height prevHeader + 1 then InvalidHeight
          else if ph_Timestamp (pb_Header block) < CalcPastMedianTime (pr_GetHeaderByHash (pv_pow X)) prevHeader then InvalidTime
          else Progress)"

section \<open>Merged mining\<close>

text \<open>\<open>strings.Index\<close> and \<open>hex.EncodeToString\<close>.\<close>

fun strings_Index :: "string \<Rightarrow> string \<Rightarrow> nat option" where
  "strings_Index [] sub = (if sub = [] then Some 0 else None)"
| "strings_Index (c # s) sub =
     (if take (length sub) (c # s) = sub then Some 0 else map_option Suc (strings_Index s sub))"

definition hex_bytes :: "bytes \<Rightarrow> string" where
  "hex_bytes bs = concat (map hex_EncodeToString bs)"

text \<open>The slice \<open>script[i:i+4]\<close> as a number; out of range it panics. The script has no spare capacity behind its
  length, as the decoder makes it.\<close>

definition slice_Uint32 :: "bytes \<Rightarrow> nat \<Rightarrow> u32 option" where
  "slice_Uint32 script i = (if i + 4 \<le> length script then Some (LE_BytesToUint32 (take 4 (drop i script))) else None)"

definition check_script :: "bytes \<Rightarrow> hash \<Rightarrow> nat \<Rightarrow> int \<Rightarrow> ProcessResult option" where
  "check_script script auxRootHash merkleHeight auxMerkleIndex =
     (let scriptStr = hex_bytes script;
          rootStr = hex_bytes (be_bytes 32 (ReverseByte auxRootHash));
          magicStr = hex_bytes PovAuxPowHeaderMagic
      in case (strings_Index scriptStr magicStr, strings_Index scriptStr rootStr) of
           (Some headerIndex, Some rootHashIndex) \<Rightarrow>
             if strings_Index (drop (headerIndex + 2) scriptStr) magicStr \<noteq> None then Some BadAuxHeader
             else if headerIndex + length magicStr \<noteq> rootHashIndex then Some BadAuxHeader
             else let i = rootHashIndex + length rootStr
                  in if length scriptStr - i < 8 then Some BadAuxHeader
                     else (case slice_Uint32 script (i div 2) of
                             None \<Rightarrow> None
                           | Some sz \<Rightarrow>
                               if sz \<noteq> push_bit merkleHeight 1 then Some BadAuxHeader
                               else (case slice_Uint32 script (i div 2 + 4) of
                                       None \<Rightarrow> None
                                     | Some nonce \<Rightarrow>
                                         (case CalcAuxPowExpectedIndex nonce PovAuxPowChainID merkleHeight of
                                            None \<Rightarrow> None
                                          | Some expected \<Rightarrow>
                                              if auxMerkleIndex \<noteq> int expected then Some BadAuxHeader else Some Progress)))
         | _ \<Rightarrow> Some BadAuxHeader)"

definition verifyAuxHeader :: "verifier \<Rightarrow> PovBlock \<Rightarrow> ProcessResult option" where
  "verifyAuxHeader X block =
     (case ph_AuxHdr (pb_Header block) of
        None \<Rightarrow> Some Progress
      | Some ap \<Rightarrow>
          let D = Sha256DHashData (pv_P X);
              calcParMR = CalcMerkleRootByIndex D (BtcTx_ComputeHash (pv_P X) (aux_ParCoinBaseTx ap)) (aux_ParCoinBaseMerkle ap) (aux_ParMerkleIndex ap)
          in if calcParMR \<noteq> btc_MerkleRoot (aux_ParBlockHeader ap) then Some BadAuxHeader
             else (case btx_TxIn (aux_ParCoinBaseTx ap) of
                     [] \<Rightarrow> None
                   | txIn # _ \<Rightarrow>
                       check_script (bti_SignatureScript txIn)
                         (CalcMerkleRootByIndex D (ReverseByte (pb_Hash block)) (aux_AuxMerkleBranch ap) (aux_AuxMerkleIndex ap))
                         (length (aux_AuxMerkleBranch ap)) (aux_AuxMerkleIndex ap)))"

definition verifyConsensus :: "verifier \<Rightarrow> PovBlock \<Rightarrow> ProcessResult option" where
  "verifyConsensus X block =
     map_option (\<lambda>r. case r of Inl _ \<Rightarrow> BadConsensus | Inr _ \<Rightarrow> Progress) (VerifyHeader (pv_P X) (pv_pow X) (pb_Header block))"

section \<open>Transactions and state\<close>

definition verifyCoinBaseTx :: "PovCoinBaseTx \<Rightarrow> ProcessResult" where
  "verifyCoinBaseTx cbTx =
     (case (GetMinerTxOut cbTx, GetRepTxOut cbTx) of
        (Some minerTxOut, Some repTxOut) \<Rightarrow>
          if cbo_Address minerTxOut = 0 \<or> cbo_Address repTxOut = 0 then BadCoinbase
          else (case CalcBlockRewardByQLC of
                  (calcMinerRwd, calcRepRwd) \<Rightarrow>
                    if Balance_Compare (cbo_Value minerTxOut) calcMinerRwd = BalanceCompBigger then BadCoinbase
                    else if Balance_Compare (cbo_Value repTxOut) calcRepRwd = BalanceCompBigger then BadCoinbase
                    else Progress)
      | _ \<Rightarrow> BadCoinbase)"

text \<open>The blocks of the transactions after the coinbase; \<open>None\<close> for those the ledger has not confirmed.\<close>

definition load_tx :: "ledger \<Rightarrow> PovTransaction \<Rightarrow> PovTransaction option" where
  "load_tx l tx = (case GetStateBlockConfirmed l None (pt_Hash tx) of Inl _ \<Rightarrow> None | Inr b \<Rightarrow> Some (tx\<lparr>pt_Block := Some b\<rparr>))"

definition state_header :: "state_env \<Rightarrow> PovGlobalStateDB \<Rightarrow> address \<Rightarrow> hash \<Rightarrow> hash" where
  "state_header E g a token =
     (case GetAccountState E g a of
        None \<Rightarrow> ZeroHash
      | Some s \<Rightarrow> (case GetTokenState s token of None \<Rightarrow> ZeroHash | Some ts \<Rightarrow> pts_Hash ts))"

fun tx_order :: "verifier \<Rightarrow> PovGlobalStateDB \<Rightarrow> (address \<times> hash \<rightharpoonup> hash) \<Rightarrow> state_block list \<Rightarrow> bool" where
  "tx_order X g m [] = True"
| "tx_order X g m (b # bs) =
     (let isCA = IsContractAddress X (sb_Address b);
          prevHashWant = (case m (sb_Address b, sb_Token b) of
              Some h \<Rightarrow> h
            | None \<Rightarrow> if isCA then ZeroHash else state_header (pv_E X) g (sb_Address b) (sb_Token b))
      in prevHashWant = sb_Previous b \<and>
         tx_order X g (if isCA then m else m((sb_Address b, sb_Token b) \<mapsto> GetHash (cf_H (pv_F X)) b)) bs)"

text \<open>The result and the account transactions with their blocks. The first transaction is the coinbase.\<close>

definition verifyTransactions :: "verifier \<Rightarrow> PovBlock \<Rightarrow> PovGlobalStateDB option \<Rightarrow> (ProcessResult \<times> PovTransaction list) option" where
  "verifyTransactions X block gsdb =
     (let cbTx = ph_CbTx (pb_Header block);
          merkleRoot = CalcMerkleTreeRootHash (Sha256DHashData (pv_P X)) (map pt_Hash (pb_Txs block))
      in if cb_TxNum cbTx \<noteq> of_nat (length (pb_Txs block)) then Some (InvalidTxNum, [])
         else case pb_Txs block of
                [] \<Rightarrow> Some (InvalidTxNum, [])
              | cb # accTxs \<Rightarrow>
                  if merkleRoot = ZeroHash \<or> merkleRoot \<noteq> ph_MerkleRoot (pb_Header block) then Some (BadMerkleRoot, [])
                  else (case CbTx_ComputeHash (pv_P X) cbTx of
                          None \<Rightarrow> None
                        | Some cbHash \<Rightarrow>
                            if verifyCoinBaseTx cbTx \<noteq> Progress then Some (verifyCoinBaseTx cbTx, [])
                            else if pt_Hash cb \<noteq> cbHash then Some (BadHash, [])
                            else (case those (map (load_tx (pv_l X)) accTxs) of
                                    None \<Rightarrow> Some (GapTransaction, [])
                                  | Some txs \<Rightarrow>
                                      (case gsdb of
                                         None \<Rightarrow> Some (BadStateHash, [])
                                       | Some g \<Rightarrow>
                                           if tx_order X g Map.empty (map (the \<circ> pt_Block) txs) then Some (Progress, txs)
                                           else Some (InvalidTxOrder, [])))))"

definition verifyState :: "verifier \<Rightarrow> PovBlock \<Rightarrow> PovTransaction list \<Rightarrow> PovGlobalStateDB \<Rightarrow> (ProcessResult \<times> PovGlobalStateDB) option" where
  "verifyState X block txs g =
     (case TransitStateDB (pv_E X) (pv_F X) (pv_R X) (pv_V X) (pv_l X) (pv_it X) (pb_Height block) txs g of
        None \<Rightarrow> None
      | Some (Inl _) \<Rightarrow> Some (BadStateHash, g)
      | Some (Inr g') \<Rightarrow>
          Some (if GetCurHash (pv_E X) g' \<noteq> cb_StateHash (ph_CbTx (pb_Header block)) then BadStateHash else Progress, g'))"

section \<open>The verification\<close>

definition VerifyNet :: "verifier \<Rightarrow> int \<Rightarrow> PovBlock \<Rightarrow> ProcessResult" where
  "VerifyNet X now block =
     (if verifyDataIntegrity X block \<noteq> Progress then verifyDataIntegrity X block else verifyTimestamp now block)"

definition and_then :: "ProcessResult option \<Rightarrow> (ProcessResult \<times> 'a option) option \<Rightarrow> (ProcessResult \<times> 'a option) option" where
  "and_then r k = (case r of None \<Rightarrow> None | Some p \<Rightarrow> if p \<noteq> Progress then Some (p, None) else k)"

lemma and_then_Progress: "and_then r k = Some (Progress, Some g) \<longleftrightarrow> r = Some Progress \<and> k = Some (Progress, Some g)"
  by (auto simp: and_then_def split: option.split)

definition getStateDB :: "verifier \<Rightarrow> hash \<Rightarrow> PovGlobalStateDB option" where
  "getStateDB X prevHash =
     map_option (\<lambda>h. NewPovGlobalStateDB (pv_E X) (cb_StateHash (ph_CbTx h))) (pr_GetHeaderByHash (pv_pow X) prevHash)"

definition VerifyFull :: "verifier \<Rightarrow> int \<Rightarrow> PovBlock \<Rightarrow> (ProcessResult \<times> PovGlobalStateDB option) option" where
  "VerifyFull X now block =
     and_then (Some (verifyDataIntegrity X block)) (
     and_then (Some (verifyTimestamp now block)) (
     and_then (Some (verifyReferred X block)) (
     and_then (verifyAuxHeader X block) (
     and_then (verifyConsensus X block) (
     case verifyTransactions X block (getStateDB X (pb_Previous block)) of
       None \<Rightarrow> None
     | Some (r, txs) \<Rightarrow>
         if r \<noteq> Progress then Some (r, None)
         else (case getStateDB X (pb_Previous block) of
                 None \<Rightarrow> Some (GapPrevious, None)
               | Some g \<Rightarrow> map_option (\<lambda>(r, g'). (r, Some g')) (verifyState X block txs g)))))))"

end
