(* ===== verification/Pov_Verify_Thms.thy ===== *)
theory Pov_Verify_Thms
  imports Pov_Verify
begin

text \<open>What the verifier of proof-of-work blocks guarantees: a block it accepts fits the chain, so that inserting it
  keeps the chain sound, and it has the work, the rewards and the state it claims. The work of a block with an
  auxiliary header is another matter: it need not have anything to do with the block.\<close>

section \<open>Merged mining\<close>

lemma ReverseByte_twice [simp]: "ReverseByte (ReverseByte h) = h"
proof -
  have r: "BytesToHash (rev (be_bytes 32 g)) = Some (ReverseByte g)" for g :: hash
    by (simp add: BytesToHash_def ReverseByte_def bytes_nat_def)
  have "be_bytes 32 (ReverseByte h) = rev (be_bytes 32 h)" using be_BytesToHash [OF r] by simp
  then show ?thesis using r [of "ReverseByte h"] by simp
qed

lemma length_hex_bytes [simp]: "length (hex_bytes bs) = 2 * length bs"
  by (induction bs) (simp_all add: hex_bytes_def hex_EncodeToString_def)

lemma hex_bytes_append: "hex_bytes (xs @ ys) = hex_bytes xs @ hex_bytes ys"
  by (simp add: hex_bytes_def)

lemma strings_Index_start: "s \<noteq> [] \<Longrightarrow> strings_Index (s @ t) s = Some 0"
  by (cases s) simp_all

definition forged_script :: "hash \<Rightarrow> bytes" where
  "forged_script h = PovAuxPowHeaderMagic @ be_bytes 32 h @ [1, 0, 0, 0] @ [0, 0, 0, 0]"

definition forged_aux :: "PovBtcHeader \<Rightarrow> hash \<Rightarrow> PovAuxHeader" where
  "forged_aux par h =
     \<lparr>aux_AuxMerkleBranch = [], aux_AuxMerkleIndex = 0,
      aux_ParCoinBaseTx = \<lparr>btx_Version = 0,
        btx_TxIn = [\<lparr>bti_Hash = 0, bti_Index = 0, bti_SignatureScript = forged_script h, bti_Sequence = 0\<rparr>], btx_TxOut = [], btx_LockTime = 0\<rparr>,
      aux_ParCoinBaseMerkle = [], aux_ParMerkleIndex = - 1, aux_ParBlockHeader = par, aux_ParentHash = 0\<rparr>"

definition with_aux :: "PovAuxHeader \<Rightarrow> PovBlock \<Rightarrow> PovBlock" where
  "with_aux ap block = block\<lparr>pb_Header := (pb_Header block)\<lparr>ph_AuxHdr := Some ap\<rparr>\<rparr>"

text \<open>The magic bytes do not come again, and the hash is found where it stands.\<close>

definition clear_script :: "hash \<Rightarrow> bool" where
  "clear_script h \<longleftrightarrow> strings_Index (drop 2 (hex_bytes (forged_script h))) (hex_bytes PovAuxPowHeaderMagic) = None \<and>
     strings_Index (hex_bytes (forged_script h)) (hex_bytes (be_bytes 32 h)) = Some 8"

lemma forged_script_ok:
  assumes "clear_script h"
  shows "check_script (forged_script h) (ReverseByte h) 0 0 = Some Progress"
proof -
  have m: "strings_Index (hex_bytes (forged_script h)) (hex_bytes PovAuxPowHeaderMagic) = Some 0"
    unfolding forged_script_def hex_bytes_append by (rule strings_Index_start) (simp add: PovAuxPowHeaderMagic_def hex_bytes_def hex_EncodeToString_def)
  have l: "length (forged_script h) = 44" "length PovAuxPowHeaderMagic = 4" by (simp_all add: forged_script_def PovAuxPowHeaderMagic_def)
  have d: "drop 36 (forged_script h) = [1, 0, 0, 0, 0, 0, 0, 0]" by (simp add: forged_script_def PovAuxPowHeaderMagic_def)
  have "drop 40 (forged_script h) = drop 4 (drop 36 (forged_script h))" by simp
  then have d': "drop 40 (forged_script h) = [0, 0, 0, 0]" unfolding d by simp
  have "slice_Uint32 (forged_script h) 36 = Some 1" "slice_Uint32 (forged_script h) 40 = Some 0"
    by (simp_all add: slice_Uint32_def l d d' LE_BytesToUint32_def bytes_nat_def)
  moreover have "CalcAuxPowExpectedIndex 0 PovAuxPowChainID 0 = Some 0" by (simp add: CalcAuxPowExpectedIndex_def Let_def)
  moreover have "strings_Index (drop (Suc (Suc 0)) (hex_bytes (forged_script h))) (hex_bytes PovAuxPowHeaderMagic) = None"
    using assms by (simp add: clear_script_def numeral_2_eq_2)
  ultimately show ?thesis using assms by (simp add: check_script_def m l clear_script_def Let_def)
qed

text \<open>C30: the work of a block with an auxiliary header is not bound to the block. Whoever has one parent header with
  merkle root zero can attach it to any block: the merkle path of the parent coinbase is given with index -1, for
  which the computed root is zero whatever the coinbase is. The check of the auxiliary header passes, the hash of the
  block stays the same, and the hash compared with the target is the one of the parent header alone.\<close>

theorem pov_aux_work_unbound:
  assumes "btc_MerkleRoot par = 0" "clear_script (pb_Hash block)"
  shows "verifyAuxHeader X (with_aux (forged_aux par (pb_Hash block)) block) = Some Progress \<and>
    Header_ComputeHash P (pb_Header (with_aux (forged_aux par (pb_Hash block)) block)) = Header_ComputeHash P (pb_Header block) \<and>
    Header_ComputePowHash P (pb_Header (with_aux (forged_aux par (pb_Hash block)) block)) =
      BtcHeader_ComputePowHash P par (GetAlgoType (pb_Header block))"
  using assms forged_script_ok
  by (simp add: verifyAuxHeader_def with_aux_def forged_aux_def CalcMerkleRootByIndex_def Let_def Header_ComputeHash_def
      Header_BuildHashData_def Header_ComputePowHash_def GetAlgoType_def)

definition ex_povhashes :: pov_hashes where
  "ex_povhashes = \<lparr>Sha256DHashData = (\<lambda>d. (of_nat (length d) + 1) * 2 ^ 248), ScryptHashData = (\<lambda>d. 1), X11HashData = (\<lambda>d. 2)\<rparr>"

definition ex_reader :: pow_reader where
  "ex_reader = \<lparr>pr_GetHeaderByHash = GetHeaderByHash (bc_db ex_chain), pr_RelativeAncestor = (\<lambda>_ _. None), pr_MinerPledge = 0,
     pr_RepVote = (\<lambda>_. None)\<rparr>"

definition ex_verifier :: verifier where
  "ex_verifier = \<lparr>pv_P = ex_povhashes, pv_pow = ex_reader, pv_genesis = 1, pv_contracts = [], pv_E = ex_senv, pv_F = ex_config,
     pv_R = ex_registry, pv_V = ex_vm, pv_l = ex_ledger, pv_it = ex_iteration id id\<rparr>"

definition ex_btcheader :: PovBtcHeader where
  "ex_btcheader = \<lparr>btc_Version = 0, btc_Previous = 0, btc_MerkleRoot = 0, btc_Timestamp = 0, btc_Bits = 0, btc_Nonce = 17\<rparr>"

theorem pov_aux_work_unbound_witness:
  "verifyAuxHeader ex_verifier (with_aux (forged_aux ex_btcheader (pb_Hash ex_povgenesis)) ex_povgenesis) = Some Progress"
proof -
  have "clear_script (pb_Hash ex_povgenesis)" by code_simp
  moreover have "btc_MerkleRoot ex_btcheader = 0" by (simp add: ex_btcheader_def)
  ultimately show ?thesis using pov_aux_work_unbound [of ex_btcheader ex_povgenesis ex_verifier] by blast
qed

section \<open>Accepted blocks\<close>

lemma next_limit:
  assumes "calcNextRequiredTargetByQLC anc lst cur = Inr bits" "0 \<le> GetNormTargetInt lst" "GetNormTargetInt lst \<le> PovPowLimitInt"
  shows "GetNormTargetInt (cur\<lparr>ph_Bits := bits\<rparr>) \<le> PovPowLimitInt"
proof -
  have "0 \<le> GetNormTargetInt lst * int (unat w) div int PovChainRetargetTimespan" for w :: u32
    using assms(2) by (simp add: pov_params pos_imp_zdiv_nonneg_iff)
  moreover have "0 \<le> PovPowLimitInt" by (simp add: PovPowLimitInt_def)
  ultimately obtain x where "bits = BigToCompact (x * GetAlgoEfficiency cur)" "0 \<le> x" "x \<le> PovPowLimitInt"
    using assms by (auto simp: calcNextRequiredTargetByQLC_def Let_def split: if_splits option.splits)
  then show ?thesis using normalised [of x cur] by simp
qed

lemma accepted:
  assumes "VerifyFull X now block = Some (Progress, Some g)"
  shows "verifyDataIntegrity X block = Progress" "verifyReferred X block = Progress" "verifyConsensus X block = Some Progress"
    "\<exists>g0 txs. getStateDB X (pb_Previous block) = Some g0 \<and> verifyTransactions X block (Some g0) = Some (Progress, txs) \<and>
       verifyState X block txs g0 = Some (Progress, g)"
  using assms by (auto simp: VerifyFull_def and_then_Progress split: option.splits prod.splits if_splits)

lemma accepted_target:
  assumes "verifyConsensus X block = Some Progress"
  shows "\<exists>p. pr_GetHeaderByHash (pv_pow X) (pb_Previous block) = Some p \<and>
    calcNextRequiredTargetByQLC (pr_RelativeAncestor (pv_pow X)) p (pb_Header block) = Inr (ph_Bits (pb_Header block)) \<and>
    HashToBig (Header_ComputePowHash (pv_P X) (pb_Header block)) \<le> GetAlgoTargetInt (pb_Header block)"
  using assms by (auto simp: verifyConsensus_def VerifyHeader_def verifyTarget_def split: option.splits sum.splits if_splits)

lemma accepted_fits:
  assumes "chain_inv bc" "pr_GetHeaderByHash (pv_pow X) = GetHeaderByHash (bc_db bc)" "pv_genesis X = pb_Hash (bc_genesis bc)"
    and "VerifyFull X now block = Some (Progress, Some g)" "pv_height (bc_db bc) (pb_Hash block) = None"
    and "0 < GetNormTargetInt (pb_Header block)"
    and "\<forall>p. GetHeaderByHash (bc_db bc) (pb_Previous block) = Some p \<longrightarrow> 0 \<le> GetNormTargetInt p \<and> GetNormTargetInt p \<le> PovPowLimitInt"
  shows "block_fits (bc_db bc) block"
proof -
  note acc = accepted [OF assms(4)]
  obtain p where p: "GetHeaderByHash (bc_db bc) (pb_Previous block) = Some p"
    "calcNextRequiredTargetByQLC (pr_RelativeAncestor (pv_pow X)) p (pb_Header block) = Inr (ph_Bits (pb_Header block))"
    using accepted_target [OF acc(3)] assms(2) by auto
  have inv: "tables_ok (bc_db bc)" "blocks_ok (bc_db bc) (bc_genesis bc)" using assms(1) by (simp_all add: chain_inv_def)
  obtain q where q: "GetBlockByHash (bc_db bc) (pb_Previous block) = Some q" "pb_Header q = p"
    using p(1) by (auto simp: GetHeader_GetBlock [OF inv(1)])
  have "pb_Height block = pb_Height q + 1" using acc(2) p(1) q(2) assms(2) by (simp add: verifyReferred_def split: if_splits)
  moreover have "pb_Height block \<noteq> 0"
  proof
    assume "pb_Height block = 0"
    then have "pb_Hash block = pb_Hash (bc_genesis bc)"
      using acc(1) assms(3) by (simp add: verifyDataIntegrity_def IsGenesisPovBlock_def split: if_splits)
    then show False using inv(2) assms(5) unfolding blocks_ok_def by (metis option.distinct(1))
  qed
  ultimately have l: "linked (bc_db bc) block" unfolding linked_def using q(1) by (metis unatSuc add.commute)
  have "GetNormTargetInt (pb_Header block) \<le> PovPowLimitInt" using next_limit [OF p(2)] assms(7) p(1) by simp
  then have "work block > 0" using CalcWork_pos [of "GetNormTargetInt (pb_Header block)"] assms(6)
    by (simp add: work_def CalcWorkIntToBigNum_def PovPowLimitInt_def)
  moreover have "pb_Hash block \<noteq> ZeroHash" using acc(1) by (simp add: verifyDataIntegrity_def split: if_splits)
  ultimately show ?thesis using l assms(5) by (simp add: block_fits_def)
qed

lemma accepted_rewards:
  assumes "verifyCoinBaseTx cbTx = Progress"
  shows "\<exists>m r rest. cb_TxOuts cbTx = m # r # rest \<and> cbo_Value m + cbo_Value r \<le> PovMinerRewardPerBlock"
proof -
  obtain m r where o: "GetMinerTxOut cbTx = Some m" "GetRepTxOut cbTx = Some r"
    and "cbo_Value m \<le> fst CalcBlockRewardByQLC" "cbo_Value r \<le> snd CalcBlockRewardByQLC"
    using assms by (auto simp: verifyCoinBaseTx_def not_less case_prod_beta split: option.splits if_splits)
  moreover obtain rest where "cb_TxOuts cbTx = m # r # rest"
    using o by (cases "cb_TxOuts cbTx"; cases "tl (cb_TxOuts cbTx)") (auto simp: GetMinerTxOut_def GetRepTxOut_def)
  ultimately show ?thesis using CalcBlockReward_split by (intro exI [of _ m] exI [of _ r] exI [of _ rest]) linarith
qed

lemma accepted_transactions:
  assumes "verifyTransactions X block (Some g0) = Some (Progress, txs)"
  shows "CalcMerkleTreeRootHash (Sha256DHashData (pv_P X)) (map pt_Hash (pb_Txs block)) = ph_MerkleRoot (pb_Header block)"
    "verifyCoinBaseTx (ph_CbTx (pb_Header block)) = Progress" "map pt_Hash txs = tl (map pt_Hash (pb_Txs block))"
    "\<forall>tx \<in> set txs. GetStateBlockConfirmed (pv_l X) None (pt_Hash tx) = Inr (the (pt_Block tx))"
proof -
  obtain cb accTxs where b: "pb_Txs block = cb # accTxs" "those (map (load_tx (pv_l X)) accTxs) = Some txs"
    and r: "CalcMerkleTreeRootHash (Sha256DHashData (pv_P X)) (map pt_Hash (pb_Txs block)) = ph_MerkleRoot (pb_Header block)"
      "verifyCoinBaseTx (ph_CbTx (pb_Header block)) = Progress"
    using assms by (auto simp: verifyTransactions_def Let_def split: list.splits option.splits if_splits)
  show "CalcMerkleTreeRootHash (Sha256DHashData (pv_P X)) (map pt_Hash (pb_Txs block)) = ph_MerkleRoot (pb_Header block)"
    "verifyCoinBaseTx (ph_CbTx (pb_Header block)) = Progress" using r by blast+
  have "map pt_Hash txs = map pt_Hash accTxs \<and> (\<forall>tx \<in> set txs. GetStateBlockConfirmed (pv_l X) None (pt_Hash tx) = Inr (the (pt_Block tx)))"
    using b(2) by (induction accTxs arbitrary: txs) (auto simp: load_tx_def split: option.splits sum.splits)
  then show "map pt_Hash txs = tl (map pt_Hash (pb_Txs block))"
    "\<forall>tx \<in> set txs. GetStateBlockConfirmed (pv_l X) None (pt_Hash tx) = Inr (the (pt_Block tx))" using b(1) by simp_all
qed

text \<open>C29: the verifier and the chain together. A new block that \<open>VerifyFull\<close> accepts is inserted without breaking the
  chain: the insertion succeeds with the state the verification built, or finds a fork deeper than the limit. The
  block has the hash of its header and the work its target asks for, its merkle root is that of its transactions, the
  miner and the representative together get no more than the reward of a block, every account transaction is a
  confirmed block of the ledger, and the state after applying them has the hash the block claims.\<close>

theorem pov_accept_sound:
  assumes "chain_inv bc" "pr_GetHeaderByHash (pv_pow X) = GetHeaderByHash (bc_db bc)" "pv_genesis X = pb_Hash (bc_genesis bc)"
    and "VerifyFull X now block = Some (Progress, Some g)" "pv_height (bc_db bc) (pb_Hash block) = None"
    and "0 < GetNormTargetInt (pb_Header block)" "unat (pb_Height block) \<le> fuel"
    and "\<forall>p. GetHeaderByHash (bc_db bc) (pb_Previous block) = Some p \<longrightarrow> 0 \<le> GetNormTargetInt p \<and> GetNormTargetInt p \<le> PovPowLimitInt"
  shows "(case InsertBlock fuel coin True (Global_CommitToDB (pv_E X) (pv_it X) g) block bc of
        (Inr _, bc') \<Rightarrow> chain_inv bc' \<and> GetBlockByHash (bc_db bc') (pb_Hash block) = Some (Block_stored block)
      | (Inl e, bc') \<Rightarrow> e = ErrPovInvalidFork \<and> chain_inv bc' \<and> bc_latest bc' = bc_latest bc) \<and>
    Header_ComputeHash (pv_P X) (pb_Header block) = pb_Hash block \<and>
    HashToBig (Header_ComputePowHash (pv_P X) (pb_Header block)) \<le> GetAlgoTargetInt (pb_Header block) \<and>
    CalcMerkleTreeRootHash (Sha256DHashData (pv_P X)) (map pt_Hash (pb_Txs block)) = ph_MerkleRoot (pb_Header block) \<and>
    (\<exists>m r rest. cb_TxOuts (ph_CbTx (pb_Header block)) = m # r # rest \<and> cbo_Value m + cbo_Value r \<le> PovMinerRewardPerBlock) \<and>
    (\<exists>p txs. GetHeaderByHash (bc_db bc) (pb_Previous block) = Some p \<and> map pt_Hash txs = tl (map pt_Hash (pb_Txs block)) \<and>
       (\<forall>tx \<in> set txs. GetStateBlockConfirmed (pv_l X) None (pt_Hash tx) = Inr (the (pt_Block tx))) \<and>
       TransitStateDB (pv_E X) (pv_F X) (pv_R X) (pv_V X) (pv_l X) (pv_it X) (pb_Height block) txs
         (NewPovGlobalStateDB (pv_E X) (cb_StateHash (ph_CbTx p))) = Some (Inr g) \<and>
       GetCurHash (pv_E X) g = cb_StateHash (ph_CbTx (pb_Header block)))"
proof -
  note acc = accepted [OF assms(4)]
  obtain g0 txs where t: "getStateDB X (pb_Previous block) = Some g0" "verifyTransactions X block (Some g0) = Some (Progress, txs)"
    "verifyState X block txs g0 = Some (Progress, g)" using acc(4) by blast
  obtain p where p: "GetHeaderByHash (bc_db bc) (pb_Previous block) = Some p" "g0 = NewPovGlobalStateDB (pv_E X) (cb_StateHash (ph_CbTx p))"
    using t(1) assms(2) by (auto simp: getStateDB_def)
  have s: "TransitStateDB (pv_E X) (pv_F X) (pv_R X) (pv_V X) (pv_l X) (pv_it X) (pb_Height block) txs g0 = Some (Inr g)"
    "GetCurHash (pv_E X) g = cb_StateHash (ph_CbTx (pb_Header block))"
    using t(3) by (auto simp: verifyState_def split: option.splits sum.splits if_splits)
  have "case InsertBlock fuel coin True (Global_CommitToDB (pv_E X) (pv_it X) g) block bc of
        (Inr _, bc') \<Rightarrow> chain_inv bc' \<and> GetBlockByHash (bc_db bc') (pb_Hash block) = Some (Block_stored block)
      | (Inl e, bc') \<Rightarrow> e = ErrPovInvalidFork \<and> chain_inv bc' \<and> bc_latest bc' = bc_latest bc"
    using insert_sound [OF assms(1) accepted_fits [OF assms(1-6,8)] assms(7), of coin "Global_CommitToDB (pv_E X) (pv_it X) g"]
    by (auto split: prod.splits sum.splits)
  moreover have "Header_ComputeHash (pv_P X) (pb_Header block) = pb_Hash block"
    using acc(1) by (simp add: verifyDataIntegrity_def split: if_splits)
  ultimately show ?thesis
    using accepted_target [OF acc(3)] accepted_transactions [OF t(2)] accepted_rewards p s by blast
qed

definition ex_cbtx2 :: PovCoinBaseTx where
  "ex_cbtx2 = \<lparr>cb_Version = 1, cb_TxIns = [\<lparr>cbi_PrevTxHash = 0, cbi_PrevTxIdx = 0, cbi_Extra = [], cbi_Sequence = 0\<rparr>],
     cb_TxOuts = [\<lparr>cbo_Value = 1000, cbo_Address = 100\<rparr>, \<lparr>cbo_Value = 500, cbo_Address = 7\<rparr>], cb_StateHash = 0, cb_TxNum = 1, cb_Hash = 0\<rparr>"

definition ex_accepted :: PovBlock where
  "ex_accepted = \<lparr>pb_Header = \<lparr>ph_Version = 0, ph_Previous = 1, ph_MerkleRoot = 152 * 2 ^ 248, ph_Timestamp = 60, ph_Bits = 0x1d00ffff,
     ph_Nonce = 0, ph_Hash = 81 * 2 ^ 248, ph_Height = 1, ph_AuxHdr = None, ph_CbTx = ex_cbtx2\<rparr>, pb_Txs = [ex_povtx (152 * 2 ^ 248)]\<rparr>"

lemma ex_chain_genesis: "bc_genesis ex_chain = ex_povgenesis"
  by (simp add: ex_chain_def ResetChainState_def resetWithGenesisBlock_def DropAllPovBlocks_def AddPovBlock_def pov_writes
      bindM_def commitToDB_def ex_povblock_def ex_cbtx_def ex_povdb_def block_lookups_def ex_povtx_def)

lemma ex_chain_header: "GetHeaderByHash (bc_db ex_chain) h = (if h = 1 then Some (pb_Header ex_povgenesis) else None)"
  using ex_chain_inv by (simp add: GetHeader_GetBlock chain_inv_def ex_chain_get)

definition ex_headers :: pow_reader where
  "ex_headers = \<lparr>pr_GetHeaderByHash = (\<lambda>h. if h = 1 then Some (pb_Header ex_povgenesis) else None),
     pr_RelativeAncestor = (\<lambda>_ _. None), pr_MinerPledge = 0, pr_RepVote = (\<lambda>_. None)\<rparr>"

lemma ex_reader_headers: "ex_reader = ex_headers"
  by (simp add: ex_reader_def ex_headers_def ex_chain_header fun_eq_iff)

lemma ex_cbtx2_hash: "CbTx_ComputeHash ex_povhashes ex_cbtx2 = Some (152 * 2 ^ 248)"
proof -
  have "map_option length (CbTx_BuildHashData ex_cbtx2) = Some 151" by code_simp
  then show ?thesis by (auto simp: CbTx_ComputeHash_def ex_povhashes_def)
qed

lemma ex_accepted_integrity: "verifyDataIntegrity ex_verifier ex_accepted = Progress"
  by (simp add: verifyDataIntegrity_def ex_verifier_def ex_povhashes_def ex_accepted_def GetAlgoType_def algo_defs
      PovIsAlgoSupported_def Header_ComputeHash_def Header_BuildHashData_def)

lemma ex_accepted_time: "verifyTimestamp 0 ex_accepted = Progress"
  by (simp add: verifyTimestamp_def ex_accepted_def pov_params)

lemma ex_accepted_referred: "verifyReferred ex_verifier ex_accepted = Progress"
  by (simp add: verifyReferred_def ex_verifier_def ex_reader_headers ex_headers_def ex_accepted_def ex_povblock_def
      CalcPastMedianTime_def eval_nat_numeral medianTimeBlocks_def)

lemma ex_accepted_norm: "GetNormTargetInt (pb_Header ex_accepted) = 0xffff * 2 ^ 208"
  "GetAlgoTargetInt (pb_Header ex_accepted) = 0xffff * 2 ^ 208" "GetAlgoEfficiency (pb_Header ex_accepted) = 1"
  by (simp_all add: GetNormTargetInt_def GetAlgoTargetInt_def CompactToBig_def ex_accepted_def GetAlgoEfficiency_def GetAlgoType_def
    algo_efficiency_def algo_defs Let_def)

lemma ex_accepted_hash: "HashToBig (Header_ComputePowHash ex_povhashes (pb_Header ex_accepted)) = 81"
proof -
  have "Header_ComputePowHash ex_povhashes (pb_Header ex_accepted) = 36637340735244577458239256975405158344198706085612834715609626190003763675136"
    by (simp add: Header_ComputePowHash_def Header_BuildHashData_def ex_accepted_def ex_povhashes_def pow_hash_def GetAlgoType_def algo_defs)
  moreover have "rev (be_bytes 32 (36637340735244577458239256975405158344198706085612834715609626190003763675136 :: hash)) = [0, 0, 0, 0, 0, 0, 0, 0, 0, 0, 0, 0, 0, 0, 0, 0, 0, 0, 0, 0, 0, 0, 0, 0, 0, 0, 0, 0, 0, 0, 0, 81]"
    by code_simp
  ultimately show ?thesis by (simp add: HashToBig_def bytes_nat_def)
qed

lemma ex_accepted_bits: "BigToCompact (0xffff * 2 ^ 208) = 0x1d00ffff"
proof -
  have "length (nat_bytes (nat \<bar>0xffff * 2 ^ 208\<bar>)) = Suc 27" by (rule nat_bytes_length) simp_all
  then show ?thesis by (simp add: BigToCompact_def)
qed

lemma ex_accepted_consensus: "verifyConsensus ex_verifier ex_accepted = Some Progress"
proof -
  have "calcNextRequiredTargetByQLC (pr_RelativeAncestor ex_headers) (pb_Header ex_povgenesis) (pb_Header ex_accepted) = Inr 0x1d00ffff"
    using ex_accepted_bits by (simp add: calcNextRequiredTargetByQLC_def ex_norm ex_accepted_norm pov_params Let_def) (simp add: ex_povblock_def)
  moreover have "ph_Bits (pb_Header ex_accepted) = 0x1d00ffff" "ph_Previous (pb_Header ex_accepted) = 1" by (simp_all add: ex_accepted_def)
  ultimately have "verifyTarget ex_povhashes ex_headers (pb_Header ex_accepted) = Inr ()"
    using ex_accepted_hash by (simp add: verifyTarget_def ex_accepted_norm ex_headers_def)
  then show ?thesis
    by (simp add: verifyConsensus_def VerifyHeader_def ex_verifier_def ex_reader_headers verifyProducer_def) (simp add: ex_headers_def)
qed

lemma ex_state_empty: "load_trie ex_senv 5 = NilNode"
  by (simp add: load_trie_def ex_senv_def eval_nat_numeral getNodeFromDb_def)

lemma ex_accepted_state:
  "verifyState ex_verifier ex_accepted [] (NewPovGlobalStateDB ex_senv 5) = Some (Progress, NewPovGlobalStateDB ex_senv 5)"
proof -
  have "TransitStateDB ex_senv ex_config ex_registry ex_vm ex_ledger (ex_iteration id id) 1 [] (NewPovGlobalStateDB ex_senv 5)
      = Some (Inr (NewPovGlobalStateDB ex_senv 5))"
    by (simp add: TransitStateDB_def CommitToTrie_def NewPovGlobalStateDB_def put_values_def ex_iteration_def)
  moreover have "GetCurHash ex_senv (NewPovGlobalStateDB ex_senv 5) = 0"
    by (simp add: GetCurHash_def NewPovGlobalStateDB_def ex_state_empty trie_Hash_def hash_or_zero_def)
  ultimately show ?thesis by (simp add: verifyState_def ex_verifier_def) (simp add: ex_accepted_def ex_cbtx2_def)
qed

lemma ex_accepted_transactions: "verifyTransactions ex_verifier ex_accepted (Some g) = Some (Progress, [])"
proof -
  have "verifyCoinBaseTx ex_cbtx2 = Progress" by (simp add: verifyCoinBaseTx_def ex_cbtx2_def GetMinerTxOut_def GetRepTxOut_def CalcBlockRewardByQLC_def pov_params)
  then show ?thesis using ex_cbtx2_hash
    by (simp add: verifyTransactions_def ex_verifier_def ex_accepted_def ex_povtx_def Let_def CalcMerkleTreeRootHash_root) (simp add: ex_cbtx2_def)
qed

lemma ex_accepted_full: "VerifyFull ex_verifier 0 ex_accepted = Some (Progress, Some (NewPovGlobalStateDB ex_senv 5))"
proof -
  have "getStateDB ex_verifier (pb_Previous ex_accepted) = Some (NewPovGlobalStateDB ex_senv 5)"
    by (simp add: getStateDB_def ex_verifier_def ex_reader_headers ex_headers_def) (simp add: ex_accepted_def ex_povblock_def ex_cbtx_def)
  moreover have "verifyAuxHeader ex_verifier ex_accepted = Some Progress" by (simp add: verifyAuxHeader_def ex_accepted_def)
  ultimately show ?thesis
    by (simp add: VerifyFull_def and_then_Progress ex_accepted_integrity ex_accepted_time ex_accepted_referred ex_accepted_consensus
        ex_accepted_transactions ex_accepted_state)
qed

theorem pov_accept_sound_witness:
  "(case InsertBlock 1 False True (Global_CommitToDB ex_senv (ex_iteration id id) (NewPovGlobalStateDB ex_senv 5)) ex_accepted ex_chain of
      (Inr _, bc') \<Rightarrow> chain_inv bc' \<and> GetBlockByHash (bc_db bc') (pb_Hash ex_accepted) = Some (Block_stored ex_accepted)
    | (Inl e, bc') \<Rightarrow> e = ErrPovInvalidFork \<and> chain_inv bc' \<and> bc_latest bc' = bc_latest ex_chain) \<and>
   HashToBig (Header_ComputePowHash ex_povhashes (pb_Header ex_accepted)) \<le> GetAlgoTargetInt (pb_Header ex_accepted)"
proof -
  have v: "pr_GetHeaderByHash (pv_pow ex_verifier) = GetHeaderByHash (bc_db ex_chain)" "pv_genesis ex_verifier = pb_Hash (bc_genesis ex_chain)"
    by (simp_all add: ex_verifier_def ex_reader_def ex_chain_genesis) (simp add: ex_povblock_def)
  have b: "pv_height (bc_db ex_chain) (pb_Hash ex_accepted) = None" "unat (pb_Height ex_accepted) \<le> 1"
    "0 < GetNormTargetInt (pb_Header ex_accepted)"
    by (simp_all only: ex_accepted_norm ex_chain_heights) (simp_all add: ex_accepted_def)
  have "\<forall>p. GetHeaderByHash (bc_db ex_chain) (pb_Previous ex_accepted) = Some p \<longrightarrow> 0 \<le> GetNormTargetInt p \<and> GetNormTargetInt p \<le> PovPowLimitInt"
    by (auto simp: ex_chain_header ex_norm PovPowLimitInt_def split: if_splits)
  from pov_accept_sound [OF ex_chain_inv(1) v ex_accepted_full b(1,3,2) this, of False]
  show ?thesis by (simp add: ex_verifier_def)
qed

end
