(* ===== verification/Spec2Isabelle.thy ===== *)
theory Spec2Isabelle
  imports Storage_Key Ledger_Gaps Dpos_Thms Pov_Weights Pov_Verify_Thms
begin

text \<open>
  A verification library for go-qlc, the node of the QLC chain. All file names are relative to the source tree.

  \<^bold>\<open>The program.\<close> Every account keeps a chain of state blocks per token; a send leaves a pending amount
  which a receive or open block of the receiver takes. The confirmed ledger holds the blocks, the accounts, the
  pendings, the frontiers and the voting weights in one key/value store behind a write-back cache. A block is checked
  against the ledger and put to the vote of the representatives; the block with more than half of the weight is applied
  in one batch, unconfirmed blocks are kept in tables of their own, and a fork that loses is rolled back. On top of the lattice runs a proof-of-work chain: its blocks list confirmed state blocks, and
  a global state (accounts, representatives, contracts) in Merkle-Patricia tries is carried from block to block, its
  root hash being part of the header. The verifier decides which blocks are inserted, and the chain switches to the
  heaviest fork.

  \<^bold>\<open>Theories and code.\<close>

  \<^item> \<open>Prelude\<close>: machine types, big-endian bytes, the error-carrying state monad of the batches, sums under a point update.
  \<^item> \<open>Balance\<close>: \<open>common/types/balance.go\<close>, \<open>common/util/math_integer.go\<close>. Amounts are big integers with 64-bit
    operations that give zero on overflow.
  \<^item> \<open>Block_Types\<close>: \<open>common/types/block.go\<close>, \<open>block_state.go\<close>, \<open>account.go\<close>, \<open>pending.go\<close>, \<open>frontier.go\<close>, \<open>benefit.go\<close>.
  \<^item> \<open>Storage_Key\<close>: \<open>common/storage/storage.go\<close>, the keys of the store.
  \<^item> \<open>Mem_Cache\<close>: \<open>ledger/cache.go\<close>, the ring of caches in front of the store, with commit, flush, rebuild.
  \<^item> \<open>Contracts\<close>: \<open>vm/contract/contract.go\<close>, the interface between ledger and contracts.
  \<^item> \<open>Ledger_Store\<close>: \<open>ledger/ledger_block.go\<close>, \<open>ledger_account.go\<close>, \<open>ledger_pending.go\<close>, \<open>ledger_frontier.go\<close>,
    \<open>ledger_represention.go\<close> and the other tables. One record \<open>ledger\<close>; a batch is a record \<open>tx\<close> of pending writes.
  \<^item> \<open>Ledger_Check\<close>, \<open>Ledger_Process\<close>, \<open>Ledger_Rollback\<close>: \<open>ledger/process/ledger_check.go\<close>, \<open>ledger_processor.go\<close>,
    \<open>cache_processor.go\<close>, \<open>rollback.go\<close>. Each handler is one definition; results and errors are values.
  \<^item> \<open>Dpos_Election\<close>: \<open>consensus/dpos/election.go\<close>, \<open>votes.go\<close>, \<open>active_transactions.go\<close> and the handlers of
    \<open>processor.go\<close> and \<open>dpos_impl.go\<close>. Elections live in a heap, since two tables share them; messages are recorded.
  \<^item> \<open>Trie\<close>, \<open>Trie_Hash\<close>, \<open>Trie_Store\<close>, \<open>Trie_Iter\<close>: \<open>trie/trie.go\<close>, \<open>node.go\<close>, \<open>trie_iterator.go\<close>.
  \<^item> \<open>Merkle\<close>: \<open>common/merkle/merkle.go\<close>.
  \<^item> \<open>Pov_Types\<close>, \<open>Pov_Target\<close>: \<open>common/types/block_pov.go\<close>, \<open>block_pov_btc.go\<close>, \<open>target.go\<close>, \<open>common/params_pov.go\<close>.
  \<^item> \<open>Pov_Store\<close>: \<open>ledger/ledger_pov.go\<close>. \<open>Pov_Chain\<close>, \<open>Pov_Read\<close>: \<open>consensus/pov/pov_chain.go\<close>, writing and reading.
  \<^item> \<open>Pov_Pow\<close>: \<open>consensus/pov/pov_pow.go\<close>. \<open>Pov_Verify\<close>: \<open>consensus/pov/pov_verifier.go\<close>.
  \<^item> \<open>Pov_State\<close>: \<open>common/statedb/pov_statedb.go\<close>, \<open>common/types/state_pov.go\<close>, \<open>consensus/pov/pov_state.go\<close>.

  \<^bold>\<open>What is shown.\<close>

  \<^item> Amounts, blocks and keys (\<open>Balance\<close>, \<open>Block_Types\<close>, \<open>Storage_Key\<close>): encodings that can be read back, keys that
    do not collide across all prefixes of the store, and what the hash of a block does and does not determine.
  \<^item> The cache (\<open>Mem_Cache\<close>): every run of commits and flushes whose writes succeed refines a plain map (locale
    \<open>kv_cache\<close>); a flush lets a blocked commit go on, and loses entries to readers when its writes fail.
  \<^item> The ledger: \<open>Ledger_View\<close> reads every table through the view of the cache; \<open>Ledger_Spec\<close> gives the abstract
    effect of a block and proves that the batch refines it; \<open>Ledger_Inv\<close> has the invariant and the step relation of
    the node; \<open>Ledger_Supply\<close>, \<open>Ledger_Weight\<close> and \<open>Ledger_Live\<close> add balances, voting weights and progress.
    \<open>Ledger_Theorems\<close> draws the conclusions: no forks, conservation, no double receive, progress, weights,
    atomicity, typed reads, consistent headers. \<open>Ledger_Gaps\<close> shows what the checks let pass.
  \<^item> Rollback (\<open>Ledger_Undo\<close>, \<open>Ledger_Rollback_Thms\<close>): rolling back the newest block restores the view, and the
    cases in which it does not.
  \<^item> Elections (\<open>Dpos_Thms\<close>): with the weights of the ledger (locale \<open>weight_table\<close>) an election has one winner at
    most, whatever order votes are counted in, and a vote makes the ledger process a block exactly when a block has
    a quorum; while synchronising the weights are what a peer says.
  \<^item> Tries (\<open>Trie_Thms\<close>, \<open>Trie_Canon\<close>): a trie is a map (locale \<open>insert_map\<close>), its hash commits to the entries and
    depends on nothing else, saving and loading, iteration, and two ways to lose values.
  \<^item> Merkle roots and targets: the array, the coinbase branch and the root agree; compact targets round down.
  \<^item> The chain (\<open>Pov_Chain_Inv\<close>, \<open>Pov_Chain_Thms\<close>, \<open>Pov_Read\<close>, \<open>Pov_Pow\<close>): inserting keeps the invariant and the
    heaviest block at the head, transactions are found where they are, a locator lists the best chain at known heights and leads
    to a common block, the next target exists and
    moves within bounds (locale \<open>ancestor_reader\<close>), and a failed write stops the chain.
  \<^item> The state (\<open>Pov_State_Thms\<close>, \<open>Pov_Weights\<close>): the state hash does not depend on the order in which given changes are
    committed, and the weights
    of the representatives are the sums over the accounts, except for online blocks that change the representative.
  \<^item> The verifier (\<open>Pov_Verify_Thms\<close>): what it accepts is inserted soundly and is what it claims to be; the work of a
    block with an auxiliary header need not belong to the block.

  \<^bold>\<open>Conventions.\<close> Hashes, addresses and machine integers are words; amounts are integers. Hash functions, signatures,
  the generated message pack code, the contracts and third-party queues are arguments of the definitions, with what
  is relied on as named hypotheses. The order in which Go ranges over a map is an argument too. A panic is \<open>None\<close>
  or the error \<open>Panic\<close>. Examples (\<open>ex_\<close>) instantiate every parameter.

  \<^bold>\<open>Bounds and fuel.\<close> Loops that follow stored data take fuel and say so when it runs out: \<open>Diverges\<close> in the rollback,
  \<open>None\<close> in the loading of tries. On a sound chain the height of a block is enough fuel for every walk to the genesis
  block, and the theorems ask for no more. The ring of caches flushes at most as often as it has caches. Sums of
  balances are kept below 2 to the 64 where the code adds in 64 bits, and theorems that need it say so.

  \<^bold>\<open>Assumptions on runs.\<close> The step relation of the ledger covers contracts that leave the block they are called for
  as it is, and flushes whose writes succeed. Transfers, the blocks of the theorems on balances and weights, are sends,
  receives, opens, changes and online blocks on the account's own chain with a balance below 2 to the 64, neither
  genesis blocks nor in the verified data. Putting entries into a batch of the chain does not fail; writing the batch
  may. A trie whose loading uses up its fuel is read as empty.

  \<^bold>\<open>Not modelled.\<close> Goroutines, timers and queues of the voting, synchronisation, networking, RPC, command line, wallet,
  privacy service, events and logging: transport around the ledger. The caches of early votes and of online periods are third-party code. The contracts and their ABI, which
  are programs of their own behind an interface. Within the modelled files: locks and statistics, text and JSON
  forms, the day statistics of miners and difficulty, queries by prefix iteration that no write depends on,
  \<open>RollbackUnchecked\<close>, and the floating point difficulty for display.
\<close>

end
